(* ===== verification/Prelude.thy ===== *)
theory Prelude
  imports Main "HOL-Library.Word"
begin

text \<open>
  Shared vocabulary of the development: bytes and Go integers, the error values of the modelled
  functions, results as \<open>goerr + 'a\<close>, readers over a byte stream (what \<open>io.Reader\<close> together with
  \<open>io.ReadFull\<close> gives a decoder), the little-endian representation of words and the generic
  lemmas the component theories share.

  Go integers keep their width where overflow matters: \<open>uint8\<close> is \<open>8 word\<close>, \<open>uint16\<close> is
  \<open>16 word\<close>, \<open>int32\<close> and \<open>uint32\<close> are \<open>32 word\<close> (read with \<open>sint\<close> or \<open>uint\<close>), \<open>int64\<close> and
  \<open>uint64\<close> are \<open>64 word\<close>.  A Go string is a sequence of bytes and is modelled by the type
  \<open>string\<close>, whose characters are 8-bit values.
\<close>

unbundle bit_operations_syntax

type_synonym byte = "8 word"
type_synonym bytes = "byte list"
type_synonym int32 = "32 word"
type_synonym int64 = "64 word"

text \<open>
  The error values.  \<open>EOF\<close>, \<open>UnexpectedEOF\<close>, \<open>ErrNotExist\<close>, \<open>ErrInvalid\<close>, \<open>ErrPermission\<close>
  and \<open>ErrClosedPipe\<close> are the library's sentinels, \<open>Canceled\<close> is \<open>context.Canceled\<close>,
  \<open>NoSend\<close> is the protocol's
  own; \<open>Err\<close> is an error built with \<open>fmt.Errorf\<close> or \<open>errors.New\<close>, with a short tag for its text.
  \<open>WebDAVErr\<close> is \<open>backend.WebDAVError\<close>: method, status (0 for a transport failure) and \<open>Retry-After\<close>.
  \<open>Panic\<close> is not an error value of the source: it marks the points where the Go runtime panics.
\<close>

datatype goerr =
    EOF
  | UnexpectedEOF
  | ErrNotExist
  | ErrInvalid
  | ErrPermission
  | ErrClosedPipe
  | ErrClientClosed
  | ErrAuthFailed
  | Canceled
  | NoSend int32
  | WebDAVErr string int string
  | Err string
  | Panic string

type_synonym 'a result = "goerr + 'a"
type_synonym 'a reader = "bytes \<Rightarrow> goerr + ('a \<times> bytes)"

named_theorems reader_simps \<open>unfolding rules of the reader combinators\<close>
named_theorems codec_simps \<open>round trip equations of the wire codecs\<close>

subsection \<open>Results and readers\<close>

fun bind_res :: "'e + 'a \<Rightarrow> ('a \<Rightarrow> 'e + 'b) \<Rightarrow> 'e + 'b" where
  "bind_res (Inl e) f = Inl e"
| "bind_res (Inr x) f = f x"

lemma bind_res_eq_Inr: "bind_res m f = Inr y \<longleftrightarrow> (\<exists>x. m = Inr x \<and> f x = Inr y)"
  by (cases m) auto

lemma bind_res_eq_Inl: "bind_res m f = Inl e \<longleftrightarrow> m = Inl e \<or> (\<exists>x. m = Inr x \<and> f x = Inl e)"
  by (cases m) auto

definition rret :: "'a \<Rightarrow> 'a reader" where
  "rret x bs = Inr (x, bs)"

definition rfail :: "goerr \<Rightarrow> 'a reader" where
  "rfail e bs = Inl e"

definition rbind :: "'a reader \<Rightarrow> ('a \<Rightarrow> 'b reader) \<Rightarrow> 'b reader" where
  "rbind r f bs = (case r bs of Inl e \<Rightarrow> Inl e | Inr (x, bs') \<Rightarrow> f x bs')"

lemma rret_apply [reader_simps]: "rret x bs = Inr (x, bs)"
  by (simp add: rret_def)

lemma rfail_apply [reader_simps]: "rfail e bs = Inl e"
  by (simp add: rfail_def)

lemma rbind_Inr [reader_simps]: "r bs = Inr (x, bs') \<Longrightarrow> rbind r f bs = f x bs'"
  by (simp add: rbind_def)

lemma rbind_Inl [reader_simps]: "r bs = Inl e \<Longrightarrow> rbind r f bs = Inl e"
  by (simp add: rbind_def)

lemma rbind_eq_Inr:
  "rbind r f bs = Inr z \<longleftrightarrow> (\<exists>x bs'. r bs = Inr (x, bs') \<and> f x bs' = Inr z)"
  by (auto simp: rbind_def split: sum.splits)

text \<open>
  \<open>io.ReadFull\<close> into a buffer of \<open>n\<close> bytes: \<open>EOF\<close> when the stream is at its end before the first
  byte, \<open>UnexpectedEOF\<close> when it ends inside the buffer.
\<close>

definition read_full :: "nat \<Rightarrow> bytes reader" where
  "read_full n bs =
     (if n \<le> length bs then Inr (take n bs, drop n bs)
      else if bs = [] then Inl EOF else Inl UnexpectedEOF)"

lemma read_full_append [reader_simps]: "length xs = n \<Longrightarrow> read_full n (xs @ rest) = Inr (xs, rest)"
  by (auto simp: read_full_def)

lemma read_full_exact: "length xs = n \<Longrightarrow> read_full n xs = Inr (xs, [])"
  by (simp add: read_full_def)

lemma read_full_Inr:
  "read_full n bs = Inr (xs, rest) \<Longrightarrow> bs = xs @ rest \<and> length xs = n"
  by (auto simp: read_full_def split: if_splits)

definition read_byte :: "byte reader" where
  "read_byte bs = (case bs of [] \<Rightarrow> Inl EOF | b # rest \<Rightarrow> Inr (b, rest))"

lemma read_byte_Cons [simp]: "read_byte (b # rest) = Inr (b, rest)"
  by (simp add: read_byte_def)

lemma read_byte_Nil [simp]: "read_byte [] = Inl EOF"
  by (simp add: read_byte_def)

lemma rbind_read_byte [reader_simps]: "rbind read_byte f (b # rest) = f b rest"
  by (simp add: rbind_def)

lemma rbind_read_full [reader_simps]:
  "length xs = n \<Longrightarrow> rbind (read_full n) f (xs @ rest) = f xs rest"
  by (simp add: rbind_def read_full_append)

text \<open>
  A reader never gives bytes back: what is left is an end of what it started from.  So the length of
  the input bounds the rounds of every loop that reads a record per round.
\<close>

named_theorems shrink_intros \<open>readers that never give bytes back\<close>

definition shrinks :: "'a reader \<Rightarrow> bool" where
  "shrinks r \<longleftrightarrow> (\<forall>bs x rest. r bs = Inr (x, rest) \<longrightarrow> (\<exists>u. bs = u @ rest))"

lemma shrinks_used: "shrinks r \<Longrightarrow> r bs = Inr (x, rest) \<Longrightarrow> \<exists>u. bs = u @ rest"
  by (auto simp: shrinks_def)

lemma shrinksD: "shrinks r \<Longrightarrow> r bs = Inr (x, rest) \<Longrightarrow> length rest \<le> length bs"
  by (auto dest: shrinks_used)

lemma shrinks_rbind [shrink_intros]: "shrinks r \<Longrightarrow> (\<And>x. shrinks (f x)) \<Longrightarrow> shrinks (rbind r f)"
  unfolding shrinks_def by (metis (no_types, lifting) append_assoc rbind_eq_Inr)

lemma shrinks_basic [shrink_intros]:
  "shrinks (rret x)" "shrinks (rfail e)" "shrinks (read_full n)" "shrinks read_byte"
  by (auto simp: shrinks_def rret_def rfail_def read_full_def read_byte_def split: if_splits list.splits)
    (metis append_take_drop_id)

lemma shrinks_if [shrink_intros]: "shrinks r \<Longrightarrow> shrinks s \<Longrightarrow> shrinks (if b then r else s)"
  by simp

lemma shrinks_prod [shrink_intros]: "(\<And>a b. shrinks (f a b)) \<Longrightarrow> shrinks (case p of (a, b) \<Rightarrow> f a b)"
  by (cases p) simp

lemma shrinks_Let [shrink_intros]: "(\<And>y. shrinks (f y)) \<Longrightarrow> shrinks (let y = x in f y)"
  by simp

text \<open>A reader does not look at what follows the bytes it takes.\<close>

named_theorems stable_intros \<open>readers that ignore what follows\<close>

definition stable :: "'a reader \<Rightarrow> bool" where
  "stable r \<longleftrightarrow> (\<forall>bs x rest t. r bs = Inr (x, rest) \<longrightarrow> r (bs @ t) = Inr (x, rest @ t))"

lemma stableD: "stable r \<Longrightarrow> r bs = Inr (x, rest) \<Longrightarrow> r (bs @ t) = Inr (x, rest @ t)"
  by (auto simp: stable_def)

lemma stable_rbind [stable_intros]: "stable r \<Longrightarrow> (\<And>x. stable (f x)) \<Longrightarrow> stable (rbind r f)"
  unfolding stable_def
proof (intro allI impI)
  fix bs z rest t
  assume r: "\<forall>bs x rest t. r bs = Inr (x, rest) \<longrightarrow> r (bs @ t) = Inr (x, rest @ t)"
    and f: "\<And>x. \<forall>bs y rest t. f x bs = Inr (y, rest) \<longrightarrow> f x (bs @ t) = Inr (y, rest @ t)"
    and z: "rbind r f bs = Inr (z, rest)"
  from z obtain x bs' where "r bs = Inr (x, bs')" "f x bs' = Inr (z, rest)" by (auto simp: rbind_eq_Inr)
  then have "r (bs @ t) = Inr (x, bs' @ t)" "f x (bs' @ t) = Inr (z, rest @ t)" using r f by blast+
  then show "rbind r f (bs @ t) = Inr (z, rest @ t)" by (simp add: rbind_def)
qed

lemma stable_basic [stable_intros]:
  "stable (rret x)" "stable (rfail e)" "stable (read_full n)" "stable read_byte"
  by (auto simp: stable_def rret_def rfail_def read_full_def read_byte_def split: if_splits list.splits)

lemma stable_if [stable_intros]: "stable r \<Longrightarrow> stable s \<Longrightarrow> stable (if b then r else s)"
  by simp

lemma stable_option [stable_intros]:
  "stable r \<Longrightarrow> (\<And>y. stable (s y)) \<Longrightarrow> stable (case x of None \<Rightarrow> r | Some y \<Rightarrow> s y)"
  by (cases x) simp_all

lemma stable_prod [stable_intros]: "(\<And>a b. stable (f a b)) \<Longrightarrow> stable (case p of (a, b) \<Rightarrow> f a b)"
  by (cases p) simp

lemma rbind_read_byte_less:
  "rbind read_byte f bs = Inr (x, rest) \<Longrightarrow> (\<And>b. shrinks (f b)) \<Longrightarrow> length rest < length bs"
  by (cases bs) (auto simp: rbind_def less_Suc_eq_le dest: shrinksD)

subsection \<open>Go strings as bytes\<close>

definition to_bytes :: "string \<Rightarrow> bytes" where
  "to_bytes s = map (\<lambda>c. word_of_nat (of_char c)) s"

definition of_bytes :: "bytes \<Rightarrow> string" where
  "of_bytes bs = map (\<lambda>b. char_of (unat b)) bs"

lemma of_bytes_to_bytes [simp]: "of_bytes (to_bytes s) = s"
  by (induction s) (simp_all add: of_bytes_def to_bytes_def unat_of_nat)

lemma to_bytes_of_bytes [simp]: "to_bytes (of_bytes bs) = bs"
proof (induction bs)
  case (Cons b bs)
  have "unat b < 256" using unsigned_less [of b, where ?'a = nat] by simp
  then show ?case using Cons
    by (simp add: of_bytes_def to_bytes_def)
qed (simp add: of_bytes_def to_bytes_def)

lemma length_to_bytes [simp]: "length (to_bytes s) = length s"
  by (simp add: to_bytes_def)

lemma length_of_bytes [simp]: "length (of_bytes bs) = length bs"
  by (simp add: of_bytes_def)

lemma to_bytes_append [simp]: "to_bytes (s @ t) = to_bytes s @ to_bytes t"
  by (simp add: to_bytes_def)

lemma to_bytes_Nil [simp]: "to_bytes [] = []"
  by (simp add: to_bytes_def)

lemma of_bytes_append [simp]: "of_bytes (s @ t) = of_bytes s @ of_bytes t"
  by (simp add: of_bytes_def)

subsection \<open>Little-endian bytes of a word\<close>

text \<open>
  \<open>le_bytes k x\<close> is what \<open>binary.LittleEndian.PutUint\<close> stores for the low \<open>k\<close> bytes of \<open>x\<close>;
  \<open>le_word bs\<close> reads bytes back with \<open>val |= uint(bs[i]) << (8*i)\<close>, where a shift by the width or
  more gives zero, as in Go.
\<close>

fun le_bytes :: "nat \<Rightarrow> 'a::len word \<Rightarrow> bytes" where
  "le_bytes 0 x = []"
| "le_bytes (Suc k) x = ucast x # le_bytes k (drop_bit 8 x)"

fun le_word :: "bytes \<Rightarrow> 'a::len word" where
  "le_word [] = 0"
| "le_word (b # bs) = ucast b OR push_bit 8 (le_word bs)"

lemma length_le_bytes [simp]: "length (le_bytes k x) = k"
  by (induction k arbitrary: x) auto

lemma nth_le_bytes: "i < k \<Longrightarrow> le_bytes k x ! i = ucast (drop_bit (8 * i) x)"
proof (induction k arbitrary: x i)
  case (Suc k)
  then show ?case
    by (cases i) (simp_all add: algebra_simps)
qed simp

lemma take_le_bytes: "n \<le> k \<Longrightarrow> take n (le_bytes k x) = le_bytes n x"
proof (induction k arbitrary: x n)
  case (Suc k)
  then show ?case by (cases n) auto
qed simp

lemma ucast_byte_take_bit: "(ucast (ucast x :: byte) :: 'a::len word) = take_bit 8 x" for x :: "'a::len word"
  by (rule bit_word_eqI) (auto simp: bit_ucast_iff bit_take_bit_iff dest: bit_imp_le_length)

lemma le_word_le_bytes: "le_word (le_bytes k x) = take_bit (8 * k) x" for x :: "'a::len word"
proof (induction k arbitrary: x)
  case (Suc k)
  show ?case
    by (rule bit_word_eqI)
       (auto simp: Suc.IH ucast_byte_take_bit bit_simps)
qed simp

lemma le_word_append:
  "(le_word (xs @ ys) :: 'a::len word) = le_word xs OR push_bit (8 * length xs) (le_word ys)"
proof (induction xs)
  case (Cons x xs)
  then show ?case
    by (intro bit_word_eqI) (auto simp: bit_simps)
qed simp

lemma le_bytes_le_word: "8 * length bs \<le> LENGTH('a) \<Longrightarrow> le_bytes (length bs) (le_word bs :: 'a::len word) = bs"
proof (induction bs)
  case (Cons b bs)
  let ?w = "le_word bs :: 'a word"
  have len: "8 + 8 * length bs \<le> LENGTH('a)" using Cons.prems by simp
  have hi: "\<not> bit ?w n" if "8 * length bs \<le> n" for n
  proof -
    have "bit (take_bit (8 * length bs) ?w) n \<longleftrightarrow> bit ?w n"
      using Cons.IH le_word_le_bytes [of "length bs" ?w] len by simp
    with that show ?thesis by (auto simp: bit_take_bit_iff)
  qed
  have "(ucast (ucast b OR push_bit 8 ?w :: 'a word) :: byte) = b"
    using len by (intro bit_word_eqI) (auto simp: bit_simps)
  moreover have "drop_bit 8 (ucast b OR push_bit 8 ?w) = ?w"
    using len hi by (intro bit_word_eqI) (auto simp: bit_simps dest: bit_imp_le_length)
  ultimately show ?case using Cons.IH len by simp
qed simp

lemma byte_all: "(\<forall>n \<in> set [0..<256]. P (word_of_nat n :: byte)) \<Longrightarrow> P b"
proof -
  assume all: "\<forall>n \<in> set [0..<256]. P (word_of_nat n :: byte)"
  have "unat b < 256" using unsigned_less [of b, where ?'a = nat] by simp
  then have "unat b \<in> set [0..<256]" by simp
  with all have "P (word_of_nat (unat b))" by blast
  then show "P b" by simp
qed

subsection \<open>Lists\<close>

lemma take_Cons_Suc: "0 < n \<Longrightarrow> take n (x # xs) = x # take (n - 1) xs"
  by (cases n) auto

lemma filter_eq_self: "(\<And>x. x \<in> set xs \<Longrightarrow> P x) \<Longrightarrow> filter P xs = xs"
  by (simp add: filter_id_conv)

lemma map_of_filter_key: "map_of (filter (\<lambda>(k, v). k \<noteq> a) xs) = (map_of xs)(a := None)"
  by (induction xs) (auto simp: fun_eq_iff)


text \<open>
  Cutting a list into pieces of \<open>n\<close> elements, the last one possibly shorter: what a loop around
  \<open>io.ReadFull\<close> into a buffer of \<open>n\<close> bytes sees of a stream.
\<close>

function chunks_of :: "nat \<Rightarrow> 'a list \<Rightarrow> 'a list list" where
  "chunks_of n xs = (if xs = [] \<or> n = 0 then [] else take n xs # chunks_of n (drop n xs))"
  by pat_completeness auto
termination by (relation "measure (\<lambda>(n, xs). length xs)") auto

declare chunks_of.simps [simp del]

lemma chunks_of_Nil [simp]: "chunks_of n [] = []"
  by (simp add: chunks_of.simps)

lemma concat_chunks_of [simp]: "0 < n \<Longrightarrow> concat (chunks_of n xs) = xs"
proof (induction n xs rule: chunks_of.induct)
  case (1 n xs)
  then show ?case by (simp add: chunks_of.simps [of n xs])
qed

lemma chunks_of_lengths: "0 < n \<Longrightarrow> ys \<in> set (chunks_of n xs) \<Longrightarrow> ys \<noteq> [] \<and> length ys \<le> n"
proof (induction n xs rule: chunks_of.induct)
  case (1 n xs)
  then show ?case by (auto simp: chunks_of.simps [of n xs] split: if_splits)
qed

lemma chunks_of_full:
  "0 < n \<Longrightarrow> Suc i < length (chunks_of n xs) \<Longrightarrow> length (chunks_of n xs ! i) = n"
proof (induction n xs arbitrary: i rule: chunks_of.induct)
  case (1 n xs)
  show ?case
  proof (cases "xs = []")
    case False
    then have eq: "chunks_of n xs = take n xs # chunks_of n (drop n xs)"
      using "1.prems" by (simp add: chunks_of.simps [of n xs])
    show ?thesis
    proof (cases i)
      case 0
      then have "chunks_of n (drop n xs) \<noteq> []" using "1.prems" eq by auto
      then have "drop n xs \<noteq> []" by auto
      then show ?thesis using 0 eq by simp
    next
      case (Suc j)
      then show ?thesis using "1.IH" [of j] "1.prems" False eq by simp
    qed
  qed (use "1.prems" in simp)
qed

lemma length_chunks_of: "0 < n \<Longrightarrow> length (chunks_of n xs) = (length xs + n - 1) div n"
proof (induction n xs rule: chunks_of.induct)
  case (1 n xs)
  show ?case
  proof (cases "length xs \<le> n")
    case True
    show ?thesis
    proof (cases "xs = []")
      case False
      have "(length xs + n - 1) div n = Suc ((length xs - 1) div n)"
        using False "1.prems" by (cases xs) (simp_all add: le_div_geq)
      moreover have "(length xs - 1) div n = 0" using True False by (cases xs) auto
      ultimately show ?thesis using True False "1.prems" by (simp add: chunks_of.simps [of n xs])
    qed (use "1.prems" in simp)
  next
    case False
    then have "length (chunks_of n xs) = Suc ((length xs - n + n - 1) div n)"
      using 1 by (auto simp: chunks_of.simps [of n xs])
    also have "\<dots> = (length xs + n - 1) div n"
      using False "1.prems" by (simp add: le_div_geq)
    finally show ?thesis .
  qed
qed

lemma chunks_of_append:
  "0 < n \<Longrightarrow> \<forall>c \<in> set cs. length c = n \<Longrightarrow> chunks_of n (concat cs @ d) = cs @ chunks_of n d"
proof (induction cs)
  case (Cons c cs)
  then have c: "c \<noteq> []" "length c = n" and IH: "chunks_of n (concat cs @ d) = cs @ chunks_of n d" by auto
  have "chunks_of n (c @ concat cs @ d) = c # chunks_of n (concat cs @ d)"
    using c Cons.prems(1) by (subst chunks_of.simps) simp
  then show ?case using IH by simp
qed simp

lemma chunks_of_short: "0 < n \<Longrightarrow> length d \<le> n \<Longrightarrow> chunks_of n d = (if d = [] then [] else [d])"
  by (simp add: chunks_of.simps [of n d])

subsection \<open>Counting and summing over a list with one element replaced\<close>

lemma sum_upd:
  fixes f :: "'a \<Rightarrow> nat"
  assumes "i < length xs"
  shows "sum_list (map f (xs[i := x])) + f (xs ! i) = sum_list (map f xs) + f x"
proof -
  have "sum_list (map f xs) = sum_list (map f (take i xs)) + f (xs ! i) + sum_list (map f (drop (Suc i) xs))"
    by (subst id_take_nth_drop [OF assms]) simp
  then show ?thesis using assms by (simp add: upd_conv_take_nth_drop)
qed

lemma filter_upd:
  assumes "j < length ws"
  shows "length (filter P (ws[j := w])) + (if P (ws ! j) then 1 else 0) = length (filter P ws) + (if P w then 1 else 0)"
proof -
  have l: "length (filter P xs) = sum_list (map (\<lambda>x. if P x then 1 else 0) xs)" for xs by (induction xs) auto
  show ?thesis using sum_upd [OF assms, of "\<lambda>x. if P x then 1 else 0" w] by (simp add: l)
qed

lemma filter_upd_eq:
  assumes "j < length ws"
  shows "length (filter P (ws[j := w])) = length (filter P ws) + (if P w then 1 else 0) - (if P (ws ! j) then 1 else 0)"
  using filter_upd [OF assms, of P w] by simp

lemma filter_pos: "j < length ws \<Longrightarrow> P (ws ! j) \<Longrightarrow> 0 < length (filter P ws)"
  by (auto simp: filter_empty_conv)

lemma sum_upd_eq:
  fixes f :: "'a \<Rightarrow> nat"
  assumes "j < length ws"
  shows "sum_list (map f (ws[j := w])) = sum_list (map f ws) + f w - f (ws ! j)"
  using sum_upd [OF assms, of f w] by simp

lemma sum_at: fixes f :: "'a \<Rightarrow> nat" shows "j < length ws \<Longrightarrow> f (ws ! j) \<le> sum_list (map f ws)"
  by (induction ws arbitrary: j) (auto simp: nth_Cons split: nat.splits intro: trans_le_add2)

end
