(* ===== verification/Wire.thy ===== *)
theory Wire
  imports Prelude
begin

text \<open>
  The integer codecs of \<open>internal/front/rsync/protocol/wire.go\<close>: fixed-width little-endian
  integers, \<open>varint\<close>/\<open>varlong\<close> and the differential file-index codec (\<open>ndxCodec\<close>).  A writer is
  modelled by the bytes it emits, a reader by a \<open>reader\<close>.  The locale \<open>wire_codec\<close> states what a
  codec promises (what was written is read back and the rest of the stream is untouched) and
  derives that a whole sequence of records survives; it is interpreted on every codec.
\<close>

subsection \<open>Fixed width integers\<close>

definition ReadInt32 :: "int32 reader" where
  "ReadInt32 = rbind (read_full 4) (\<lambda>b. rret (le_word b))"

definition WriteInt32 :: "int32 \<Rightarrow> bytes" where
  "WriteInt32 v = le_bytes 4 v"

definition ReadShortint :: "16 word reader" where
  "ReadShortint = rbind (read_full 2) (\<lambda>b. rret (le_word b))"

definition WriteShortint :: "16 word \<Rightarrow> bytes" where
  "WriteShortint v = le_bytes 2 v"

subsection \<open>varint and varlong\<close>

text \<open>
  The loop of \<open>readVarintLen\<close>: the number of leading one bits of the first byte, at most four.
\<close>

function lead_ones :: "byte \<Rightarrow> nat \<Rightarrow> nat" where
  "lead_ones b extra =
     (if extra < 4 \<and> b AND drop_bit extra 0x80 \<noteq> 0 then lead_ones b (Suc extra) else extra)"
  by pat_completeness auto
termination by (relation "measure (\<lambda>(b, extra). 4 - extra)") auto

declare lead_ones.simps [simp del]

definition readVarintLen :: "(nat \<times> byte) reader" where
  "readVarintLen = rbind read_byte (\<lambda>b. rret (lead_ones b 0, b))"

definition ReadVarint :: "int32 reader" where
  "ReadVarint = rbind readVarintLen (\<lambda>(extra, first).
     let val = push_bit (8 * extra) (ucast (first AND drop_bit extra 0xFF)) in
     if extra > 0 then rbind (read_full extra) (\<lambda>rest. rret (val OR le_word rest))
     else rret val)"

definition ReadVarlong :: "nat \<Rightarrow> int64 reader" where
  "ReadVarlong minBytes = rbind readVarintLen (\<lambda>(extra, first).
     let dataBytes = extra + minBytes - 1;
         val = push_bit (8 * dataBytes) (ucast (first AND drop_bit extra 0xFF)) in
     if dataBytes > 0 then rbind (read_full dataBytes) (\<lambda>rest. rret (val OR le_word rest))
     else rret val)"

text \<open>
  The writers share one loop: the value's bytes stand at \<open>b[1..]\<close>, \<open>cnt\<close> goes down while the top
  byte is zero, and the first byte takes the length prefix, with the top byte folded into it when
  it fits.
\<close>

function trim_cnt :: "bytes \<Rightarrow> nat \<Rightarrow> nat \<Rightarrow> nat" where
  "trim_cnt b minBytes cnt =
     (if cnt > minBytes \<and> b ! cnt = 0 then trim_cnt b minBytes (cnt - 1) else cnt)"
  by pat_completeness auto
termination by (relation "measure (\<lambda>(b, m, cnt). cnt)") auto

declare trim_cnt.simps [simp del]

definition emit_var :: "bytes \<Rightarrow> nat \<Rightarrow> nat \<Rightarrow> bytes" where
  "emit_var b minBytes hi =
     (let cnt = trim_cnt b minBytes hi;
          bit = push_bit (7 + minBytes - cnt) (1 :: byte) in
      if b ! cnt \<ge> bit then take (cnt + 1) (b[0 := NOT (bit - 1)])
      else if cnt > minBytes then take cnt (b[0 := b ! cnt OR NOT (bit * 2 - 1)])
      else take cnt (b[0 := b ! cnt]))"

definition WriteVarint :: "int32 \<Rightarrow> bytes" where
  "WriteVarint v = emit_var (0 # le_bytes 4 v) 1 4"

definition WriteVarlong :: "int64 \<Rightarrow> nat \<Rightarrow> bytes" where
  "WriteVarlong v minBytes = emit_var (0 # le_bytes 8 v) minBytes 8"

definition ReadVarlong30 :: "int32 reader" where
  "ReadVarlong30 = rbind (ReadVarlong 3) (\<lambda>v. rret (ucast v))"

definition WriteVarlong30 :: "int32 \<Rightarrow> bytes" where
  "WriteVarlong30 v = WriteVarlong (scast v) 3"

text \<open>A byte-level table, checked on all 256 bytes, of what the first byte carries.\<close>

lemma le4_cases: "(e::nat) \<le> 4 \<Longrightarrow> e = 0 \<or> e = 1 \<or> e = 2 \<or> e = 3 \<or> e = 4"
  by arith

lemma first_byte_full:
  assumes "e \<le> 4"
  shows "lead_ones (NOT (push_bit (8 - e) 1 - 1)) 0 = e"
    and "NOT (push_bit (8 - e) (1 :: byte) - 1) AND drop_bit e 0xFF = 0"
  using le4_cases [OF assms] by (auto simp: lead_ones.simps)

lemma lead_ones_bits:
  "lead_ones b 0 = (if \<not> bit b 7 then 0 else if \<not> bit b 6 then 1 else if \<not> bit b 5 then 2
     else if \<not> bit b 4 then 3 else (4::nat))"
proof -
  have eq: "(b AND 0x80 \<noteq> 0) = bit b 7" "(b AND 0x40 \<noteq> 0) = bit b 6"
    "(b AND 0x20 \<noteq> 0) = bit b 5" "(b AND 0x10 \<noteq> 0) = bit b 4"
    using and_exp_eq_0_iff_not_bit [of b 7] and_exp_eq_0_iff_not_bit [of b 6]
      and_exp_eq_0_iff_not_bit [of b 5] and_exp_eq_0_iff_not_bit [of b 4] by simp_all
  show ?thesis using eq by (simp add: lead_ones.simps drop_bit_eq_div)
qed

lemma first_byte_fold:
  assumes "1 \<le> e" "e \<le> 4" "b < (push_bit (7 - e) 1 :: byte)"
  shows "lead_ones (b OR NOT (push_bit (7 - e) 1 * 2 - 1)) 0 = e"
    and "(b OR NOT (push_bit (7 - e) 1 * 2 - 1)) AND drop_bit e 0xFF = b"
proof -
  have m: "push_bit (7 - e) 1 * 2 - 1 = (mask (8 - e) :: byte)" "drop_bit e 0xFF = (mask (8 - e) :: byte)"
    using le4_cases [OF assms(2)] assms(1) by (auto simp: mask_numeral drop_bit_eq_div)
  have "b < 2 ^ (7 - e)" using assms(3) by (simp add: push_bit_eq_mult)
  then have b: "take_bit (7 - e) b = b" by (simp add: less_mask_eq take_bit_eq_mask)
  have nb: "\<not> bit b n" if "7 - e \<le> n" for n
    using that by (subst b [symmetric]) (simp add: bit_take_bit_iff)
  show "lead_ones (b OR NOT (push_bit (7 - e) 1 * 2 - 1)) 0 = e"
    using le4_cases [OF assms(2)] assms(1) by (auto simp: lead_ones_bits m bit_simps nb)
  have lt: "n < 8 - e" if "bit b n" for n
    using nb [of n] that by (cases "7 - e \<le> n") auto
  have "b AND mask (8 - e) = b"
    by (intro bit_word_eqI) (auto simp: bit_simps dest: lt)
  then show "(b OR NOT (push_bit (7 - e) 1 * 2 - 1)) AND drop_bit e 0xFF = b"
    unfolding m by (simp add: bit.conj_disj_distrib2)
qed

lemma first_byte_plain: "b < (0x80 :: byte) \<Longrightarrow> lead_ones b 0 = 0 \<and> b AND 0xFF = b"
proof -
  assume "b < 0x80"
  then have "take_bit 7 b = b" by (simp add: less_mask_eq take_bit_eq_mask)
  then have "\<not> bit b 7" by (metis bit_take_bit_iff order_less_irrefl)
  moreover have "b AND 0xFF = b"
  proof -
    have "b AND mask 8 = b" using take_bit_word_eq_self [of 8 b] by (simp add: take_bit_eq_mask)
    then show ?thesis by (simp add: mask_numeral)
  qed
  ultimately show ?thesis by (simp add: lead_ones_bits)
qed

definition read_var :: "nat \<Rightarrow> 'a::len word reader" where
  "read_var m = rbind readVarintLen (\<lambda>(extra, first).
     let n = extra + m - 1;
         val = push_bit (8 * n) (ucast (first AND drop_bit extra 0xFF)) in
     if n > 0 then rbind (read_full n) (\<lambda>rest. rret (val OR le_word rest)) else rret val)"

lemma ReadVarint_eq: "ReadVarint = read_var 1"
  by (simp add: ReadVarint_def read_var_def)

lemma ReadVarlong_eq: "ReadVarlong m = read_var m"
  by (simp add: ReadVarlong_def read_var_def)

lemma read_var_Cons:
  assumes "lead_ones f 0 = e" "f AND drop_bit e 0xFF = v" "length ds = e + m - 1"
  shows "read_var m (f # ds @ rest) = Inr (push_bit (8 * length ds) (ucast v) OR le_word ds, rest)"
proof -
  have "0 < e + m - 1 \<longleftrightarrow> ds \<noteq> []" using assms(3) by (cases ds) auto
  then show ?thesis using assms
    by (cases "ds = []") (simp_all add: read_var_def readVarintLen_def rbind_def rret_def Let_def read_full_append)
qed

lemma trim_cnt_props:
  "m \<le> c \<Longrightarrow> m \<le> trim_cnt b m c \<and> trim_cnt b m c \<le> c \<and>
    (\<forall>i. trim_cnt b m c < i \<and> i \<le> c \<longrightarrow> b ! i = 0) \<and> (trim_cnt b m c = m \<or> b ! trim_cnt b m c \<noteq> 0)"
proof (induction b m c rule: trim_cnt.induct)
  case (1 b m c)
  show ?case
  proof (cases "c > m \<and> b ! c = 0")
    case True
    then have eq: "trim_cnt b m c = trim_cnt b m (c - 1)" by (simp add: trim_cnt.simps [of b m c])
    have "i \<le> c \<longleftrightarrow> i \<le> c - 1 \<or> i = c" for i using True by auto
    then show ?thesis using 1 True unfolding eq by auto
  next
    case False
    then have "trim_cnt b m c = c" by (simp only: trim_cnt.simps [of b m c] if_False)
    then show ?thesis using False 1 by auto
  qed
qed

lemma le_bytes_Suc: "le_bytes (Suc k) x = le_bytes k x @ [ucast (drop_bit (8 * k) x)]"
proof (induction k arbitrary: x)
  case (Suc k)
  have "le_bytes (Suc (Suc k)) x = ucast x # le_bytes (Suc k) (drop_bit 8 x)" by simp
  also have "\<dots> = ucast x # le_bytes k (drop_bit 8 x) @ [ucast (drop_bit (8 * k) (drop_bit 8 x))]"
    by (simp only: Suc.IH)
  finally show ?case by (simp add: algebra_simps)
qed simp

lemma take_bit_from_bytes:
  fixes x :: "'a::len word"
  assumes "8 * k = LENGTH('a)" "c \<le> k" "\<forall>i. c < i \<and> i \<le> k \<longrightarrow> (0 # le_bytes k x) ! i = 0"
  shows "take_bit (8 * c) x = x"
proof (rule bit_word_eqI)
  fix n assume n: "n < LENGTH('a)"
  show "bit (take_bit (8 * c) x) n = bit x n"
  proof (cases "n < 8 * c")
    case False
    let ?i = "n div 8"
    have i: "c \<le> ?i" "?i < k" using False n assms(1) by auto
    then have "(0 # le_bytes k x) ! Suc ?i = 0" by (intro assms(3) [rule_format]) auto
    then have "(ucast (drop_bit (8 * ?i) x) :: byte) = 0" using i by (simp add: nth_le_bytes)
    then have "\<not> bit (ucast (drop_bit (8 * ?i) x) :: byte) (n mod 8)" by simp
    then have "\<not> bit x n" by (simp add: bit_simps)
    then show ?thesis using False by (simp add: bit_take_bit_iff)
  qed (simp add: bit_take_bit_iff)
qed

lemma read_var_emit_var:
  fixes x :: "'a::len word"
  assumes k: "8 * k = LENGTH('a)" and m: "1 \<le> m" "m \<le> k"
    and c: "c = trim_cnt (0 # le_bytes k x) m k"
    and fits: "c \<le> m + 3 \<or> c = m + 4 \<and> (0 # le_bytes k x) ! c < 8"
  shows "read_var m (emit_var (0 # le_bytes k x) m k @ rest) = Inr (x, rest)"
proof -
  let ?b = "0 # le_bytes k x" and ?bit = "push_bit (7 + m - c) (1 :: byte)"
  define t where "t = ?b ! c"
  have props: "m \<le> c" "c \<le> k" "\<forall>i. c < i \<and> i \<le> k \<longrightarrow> ?b ! i = 0"
    using trim_cnt_props [OF m(2), of ?b] c by auto
  have x: "le_word (le_bytes c x) = x"
    using take_bit_from_bytes [OF k props(2,3)] by (simp add: le_word_le_bytes)
  have tk: "take n (?b[0 := f]) = f # le_bytes (n - 1) x" if "1 \<le> n" "n \<le> k + 1" for n f
    using that by (cases n) (auto simp: take_le_bytes)
  have split: "le_bytes c x = le_bytes (c - 1) x @ [t]"
    using props m le_bytes_Suc [of "c - 1" x] by (simp add: nth_le_bytes t_def)
  have low: "push_bit (8 * (c - 1)) (ucast t) OR le_word (le_bytes (c - 1) x) = x"
    using x by (simp add: split le_word_append or.commute)
  have emit: "emit_var ?b m k =
      (if t \<ge> ?bit then NOT (?bit - 1) # le_bytes c x
       else if c > m then (t OR NOT (?bit * 2 - 1)) # le_bytes (c - 1) x
       else t # le_bytes (c - 1) x)"
    unfolding emit_var_def Let_def c [symmetric] t_def [symmetric]
    using props m by (simp add: tk del: list_update.simps)
  consider (A) "t \<ge> ?bit" | (B) "t < ?bit" "c > m" | (C) "t < ?bit" "c = m"
    using props(1) by fastforce
  then show ?thesis
  proof cases
    case A
    have e: "c - m + 1 \<le> 4" using fits A by (auto simp: t_def)
    have eq: "7 + m - c = 8 - (c - m + 1)" using props(1) by simp
    have "read_var m (NOT (?bit - 1) # le_bytes c x @ rest) = Inr (push_bit (8 * c) (ucast (0::byte)) OR x, rest)"
      unfolding eq using read_var_Cons [where 'a = 'a, OF first_byte_full [OF e], of "le_bytes c x" m rest] props(1)
      by (simp add: x)
    then show ?thesis using A by (simp add: emit)
  next
    case B
    have e: "1 \<le> c - m" "c - m \<le> 4" using fits B by auto
    have eq: "7 + m - c = 7 - (c - m)" using props(1) by simp
    have "t < push_bit (7 - (c - m)) 1" using B(1) unfolding eq .
    note ff = first_byte_fold [OF e this]
    have "read_var m ((t OR NOT (?bit * 2 - 1)) # le_bytes (c - 1) x @ rest) = Inr (x, rest)"
      unfolding eq using read_var_Cons [where 'a = 'a, OF ff, of "le_bytes (c - 1) x" m rest] B low
      by (simp del: push_bit_of_1)
    moreover have "\<not> ?bit \<le> t" using B(1) by (simp only: not_le)
    ultimately show ?thesis unfolding emit using B(2) by (simp only: if_False if_True append_Cons)
  next
    case C
    have "t < 0x80" using C by simp
    note fb = first_byte_plain [OF this]
    have "read_var m (t # le_bytes (c - 1) x @ rest) = Inr (x, rest)"
      using read_var_Cons [where 'a = 'a, of t 0 t "le_bytes (c - 1) x" m rest] fb C low by simp
    moreover have "\<not> ?bit \<le> t" "\<not> c > m" using C by (simp_all only: not_le)
    ultimately show ?thesis unfolding emit by (simp only: if_False append_Cons)
  qed
qed

lemma varlong_top_byte:
  assumes m: "1 \<le> m" "m \<le> 4" and x: "uint (x :: int64) < 2 ^ (8 * m + 27)"
    and c: "c = trim_cnt (0 # le_bytes 8 x) m 8"
  shows "c \<le> m + 3 \<or> c = m + 4 \<and> (0 # le_bytes 8 x) ! c < 8"
proof (cases "c \<le> m + 3")
  assume big: "\<not> c \<le> m + 3"
  let ?b = "0 # le_bytes 8 x"
  have props: "m \<le> c" "c \<le> 8" "c = m \<or> ?b ! c \<noteq> 0"
    using trim_cnt_props [of m 8 ?b] m c by auto
  have nbit: "\<not> bit x n" if "8 * m + 27 \<le> n" for n
  proof -
    have "take_bit (8 * m + 27) (uint x) = uint x" using x by (simp add: take_bit_int_eq_self)
    then show ?thesis using that by (metis bit_take_bit_iff bit_uint_iff leD bit_imp_le_length)
  qed
  have top: "?b ! c = ucast (drop_bit (8 * (c - 1)) x)"
    using props big by (cases c) (auto simp: nth_le_bytes)
  obtain n where n: "n < 8" "bit (?b ! c) n"
    using props(3) big bit_eq_iff [of "?b ! c" 0] by (auto dest: bit_imp_le_length)
  then have "bit x (8 * (c - 1) + n)" by (simp add: top bit_simps)
  then have "8 * (c - 1) + n < 8 * m + 27" using nbit not_less by blast
  then have ceq: "c = m + 4" using big by arith
  have "\<not> bit (?b ! c) i" if "3 \<le> i" for i
    unfolding top using that ceq nbit by (simp add: bit_simps)
  then have "take_bit 3 (?b ! c) = ?b ! c"
    by (intro bit_word_eqI) (metis bit_take_bit_iff not_le)
  then have "?b ! c < 2 ^ 3"
    using and_mask_less_size [of 3 "?b ! c"] by (simp add: take_bit_eq_mask word_size)
  then show ?thesis using ceq by simp
qed simp

subsection \<open>Round trips\<close>

text \<open>\<open>le_word\<close> after \<open>le_bytes\<close> for the whole width.\<close>

lemma le_word_le_bytes_full [codec_simps]:
  "8 * k = LENGTH('a) \<Longrightarrow> (le_word (le_bytes k x) :: 'a::len word) = x"
  by (simp add: le_word_le_bytes take_bit_word_eq_self)

lemma ReadInt32_WriteInt32 [codec_simps]: "ReadInt32 (WriteInt32 v @ rest) = Inr (v, rest)"
  by (simp add: ReadInt32_def WriteInt32_def rbind_read_full rret_def le_word_le_bytes_full del: le_bytes.simps)

lemma ReadShortint_WriteShortint [codec_simps]:
  "ReadShortint (WriteShortint v @ rest) = Inr (v, rest)"
  by (simp add: ReadShortint_def WriteShortint_def rbind_read_full rret_def le_word_le_bytes_full
      del: le_bytes.simps)

lemma varint_codec [codec_simps]: "ReadVarint (WriteVarint v @ rest) = Inr (v, rest)"
proof -
  define c where "c = trim_cnt (0 # le_bytes 4 v) 1 4"
  have "c \<le> 4" using trim_cnt_props [of 1 4] c_def by auto
  then show ?thesis
    unfolding ReadVarint_eq WriteVarint_def
    by (intro read_var_emit_var [OF _ _ _ c_def]) auto
qed

lemma varlong_codec:
  assumes "1 \<le> m" "m \<le> 4" "uint v < 2 ^ (8 * m + 27)"
  shows "ReadVarlong m (WriteVarlong v m @ rest) = Inr (v, rest)"
  unfolding ReadVarlong_eq WriteVarlong_def
  by (intro read_var_emit_var [OF _ _ _ refl] varlong_top_byte [OF assms refl]) (use assms in auto)

subsection \<open>The file index codec\<close>

text \<open>
  \<open>ndxCodec\<close>: indices are sent as differences to the previous index of the same sign; one codec
  state per direction.  \<open>NDX_DONE\<close> (-1) is the single byte 0.
\<close>

record ndx_codec =
  prevPositive :: int32
  prevNegative :: int32

definition newNdxCodec :: ndx_codec where
  "newNdxCodec = \<lparr>prevPositive = -1, prevNegative = 1\<rparr>"

definition ndxDone :: int32 where
  "ndxDone = -1"

definition ndx_diff_bytes :: "int32 \<Rightarrow> int32 \<Rightarrow> bytes" where
  "ndx_diff_bytes diff num =
     (if sint diff < 0xFE \<and> 0 < sint diff then [ucast diff]
      else if sint diff < 0 \<or> 0x7FFF < sint diff then
        [0xFE, ucast (signed_drop_bit 24 num OR 0x80), ucast num,
         ucast (signed_drop_bit 8 num), ucast (signed_drop_bit 16 num)]
      else [0xFE, ucast (signed_drop_bit 8 diff), ucast diff])"

definition ndx_write :: "ndx_codec \<Rightarrow> int32 \<Rightarrow> ndx_codec \<times> bytes" where
  "ndx_write c ndx =
     (if ndx = ndxDone then (c, [0])
      else if 0 \<le> sint ndx then
        (c\<lparr>prevPositive := ndx\<rparr>, ndx_diff_bytes (ndx - prevPositive c) ndx)
      else
        (c\<lparr>prevNegative := - ndx\<rparr>, 0xFF # ndx_diff_bytes (- ndx - prevNegative c) (- ndx)))"

definition ndx_read_num :: "int32 \<Rightarrow> byte \<Rightarrow> int32 reader" where
  "ndx_read_num prev b =
     (if b = 0xFE then rbind (read_full 2) (\<lambda>bb.
        if bb ! 0 AND 0x80 \<noteq> 0 then rbind (read_full 2) (\<lambda>cc.
          rret (push_bit 24 (ucast (bb ! 0 AND NOT 0x80)) OR push_bit 16 (ucast (cc ! 1))
            OR push_bit 8 (ucast (cc ! 0)) OR ucast (bb ! 1)))
        else rret ((push_bit 8 (ucast (bb ! 0)) OR ucast (bb ! 1)) + prev))
      else rret (ucast b + prev))"

text \<open>
  The reader stores the decoded number after the sign has been applied, also for the negative
  direction (\<open>*prev = num\<close> stands after \<open>num = -num\<close> in the source).
\<close>

definition ndx_read :: "ndx_codec \<Rightarrow> (int32 \<times> ndx_codec) reader" where
  "ndx_read c = rbind read_byte (\<lambda>b.
     if b = 0x00 then rret (ndxDone, c)
     else if b = 0xFF then rbind read_byte (\<lambda>b'.
       rbind (ndx_read_num (prevNegative c) b') (\<lambda>num.
         rret (- num, c\<lparr>prevNegative := - num\<rparr>)))
     else rbind (ndx_read_num (prevPositive c) b) (\<lambda>num.
       rret (num, c\<lparr>prevPositive := num\<rparr>)))"

fun ndx_write_all :: "ndx_codec \<Rightarrow> int32 list \<Rightarrow> bytes" where
  "ndx_write_all c [] = []"
| "ndx_write_all c (n # ns) = snd (ndx_write c n) @ ndx_write_all (fst (ndx_write c n)) ns"

fun ndx_read_all :: "nat \<Rightarrow> ndx_codec \<Rightarrow> int32 list reader" where
  "ndx_read_all 0 c = rret []"
| "ndx_read_all (Suc k) c =
     rbind (ndx_read c) (\<lambda>(n, c'). rbind (ndx_read_all k c') (\<lambda>ns. rret (n # ns)))"

lemma nonneg32: "0 \<le> sint (n :: int32) \<Longrightarrow> \<not> bit n 31"
  by (simp add: sint_uint not_le bit_uint_iff)

lemma nonneg32_hi: "0 \<le> sint (n :: int32) \<Longrightarrow> 31 \<le> i \<Longrightarrow> \<not> bit n i"
  using nonneg32 [of n] by (cases "i = 31") (auto dest: bit_imp_le_length)

lemma sint_nonneg32: "0 \<le> sint (n :: int32) \<Longrightarrow> sint n = uint n"
  by (rule bit_eqI) (auto simp: bit_sint_iff bit_uint_iff nonneg32_hi dest: bit_imp_le_length)

lemma take_bit_small32: "uint (d :: int32) < 2 ^ k \<Longrightarrow> k < 32 \<Longrightarrow> take_bit k d = d"
  using word_2p_lem [of k d] less_mask_eq [of d k] by (simp add: word_size take_bit_eq_mask)

lemma sdrop_eq: "0 \<le> sint (n :: int32) \<Longrightarrow> signed_drop_bit k n = drop_bit k n"
  by (rule bit_word_eqI) (auto simp: bit_simps nonneg32 bit_signed_drop_bit_iff dest: bit_imp_le_length)

lemma ndx_num_small:
  assumes "0 < sint (d :: int32)" "sint d < 0xFE"
  shows "ucast (ucast d :: byte) = d" "(ucast d :: byte) \<notin> {0, 0xFF, 0xFE}"
proof -
  have t: "take_bit 8 d = d" using assms sint_nonneg32 [of d] by (intro take_bit_small32) auto
  then show eq: "ucast (ucast d :: byte) = d" by (simp add: ucast_byte_take_bit)
  have "d = 0 \<or> d = 0xFF \<or> d = 0xFE" if "(ucast d :: byte) \<in> {0, 0xFF, 0xFE}"
    using that eq by (elim insertE) auto
  then show "(ucast d :: byte) \<notin> {0, 0xFF, 0xFE}" using assms by auto
qed

lemma ndx_abs_bytes:
  assumes "0 \<le> sint (n :: int32)"
  shows "(ucast (drop_bit 24 n OR 0x80) :: byte) AND 0x80 \<noteq> 0"
    and "push_bit 24 (ucast ((ucast (drop_bit 24 n OR 0x80) :: byte) AND NOT 0x80))
        OR push_bit 16 (ucast (ucast (drop_bit 16 n) :: byte))
        OR push_bit 8 (ucast (ucast (drop_bit 8 n) :: byte)) OR ucast (ucast n :: byte) = n"
proof -
  have "bit (ucast (drop_bit 24 n OR push_bit 7 1) :: byte) 7" by (simp add: bit_simps)
  then show "(ucast (drop_bit 24 n OR 0x80) :: byte) AND 0x80 \<noteq> 0"
    using and_exp_eq_0_iff_not_bit [of "ucast (drop_bit 24 n OR 0x80) :: byte" 7] by simp
  define h :: byte where "h = ucast (drop_bit 24 n)"
  have "\<not> bit h 7" using nonneg32 [OF assms] by (simp add: h_def bit_simps)
  then have "h AND 0x80 = 0" using and_exp_eq_0_iff_not_bit [of h 7] by simp
  then have "h AND NOT 0x80 = h"
    by (metis bit.conj_disj_distrib bit.disj_cancel_right and.right_neutral or.left_neutral)
  then have h: "(ucast (drop_bit 24 n OR 0x80) :: byte) AND NOT 0x80 = h"
    by (simp add: h_def unsigned_or_eq bit.conj_disj_distrib2)
  show "push_bit 24 (ucast ((ucast (drop_bit 24 n OR 0x80) :: byte) AND NOT 0x80))
        OR push_bit 16 (ucast (ucast (drop_bit 16 n) :: byte))
        OR push_bit 8 (ucast (ucast (drop_bit 8 n) :: byte)) OR ucast (ucast n :: byte) = n"
    unfolding h h_def using le_word_le_bytes_full [of 4 n]
    by (simp add: eval_nat_numeral push_bit_or ac_simps)
qed

lemma ndx_mid_bytes:
  assumes "0 \<le> sint (d :: int32)" "sint d \<le> 0x7FFF"
  shows "(ucast (drop_bit 8 d) :: byte) AND 0x80 = 0"
    and "push_bit 8 (ucast (ucast (drop_bit 8 d) :: byte)) OR ucast (ucast d :: byte) = d"
proof -
  have t: "take_bit 15 d = d" using assms sint_nonneg32 [of d] by (intro take_bit_small32) auto
  then have nb: "\<not> bit d i" if "15 \<le> i" for i using that by (metis bit_take_bit_iff not_le)
  then have "\<not> bit (ucast (drop_bit 8 d) :: byte) 7" by (simp add: bit_simps)
  then show "(ucast (drop_bit 8 d) :: byte) AND 0x80 = 0"
    using and_exp_eq_0_iff_not_bit [of "ucast (drop_bit 8 d) :: byte" 7] by simp
  show "push_bit 8 (ucast (ucast (drop_bit 8 d) :: byte)) OR ucast (ucast d :: byte) = d"
  proof -
    have "take_bit 16 d = d" using assms sint_nonneg32 [of d] by (intro take_bit_small32) auto
    then have "le_word (le_bytes 2 d) = d" by (simp add: le_word_le_bytes)
    then show ?thesis by (simp add: eval_nat_numeral or.commute)
  qed
qed

lemma ndx_read_num_diff:
  assumes n: "0 \<le> sint n" and d: "d = n - prev" 
  shows "\<exists>b bs. ndx_diff_bytes d n = b # bs \<and> b \<notin> {0, 0xFF} \<and> ndx_read_num prev b (bs @ rest) = Inr (n, rest)"
proof -
  consider (small) "sint d < 0xFE" "0 < sint d" | (big) "\<not> (sint d < 0xFE \<and> 0 < sint d)" "sint d < 0 \<or> 0x7FFF < sint d"
    | (mid) "\<not> (sint d < 0xFE \<and> 0 < sint d)" "0 \<le> sint d" "sint d \<le> 0x7FFF"
    by linarith
  then show ?thesis
  proof cases
    case small
    then show ?thesis using d ndx_num_small [of d]
      by (simp add: ndx_diff_bytes_def ndx_read_num_def rret_def)
  next
    case big
    then have e: "ndx_diff_bytes d n = [0xFE, ucast (drop_bit 24 n OR 0x80), ucast n, ucast (drop_bit 8 n), ucast (drop_bit 16 n)]"
      using n by (simp only: ndx_diff_bytes_def if_False if_True sdrop_eq)
    show ?thesis unfolding e using ndx_abs_bytes [OF n]
      by (simp add: ndx_read_num_def rret_def rbind_def read_full_def)
  next
    case mid
    then have e: "ndx_diff_bytes d n = [0xFE, ucast (drop_bit 8 d), ucast d]"
      by (simp add: ndx_diff_bytes_def sdrop_eq)
    show ?thesis unfolding e using ndx_mid_bytes [OF mid(2,3)] d
      by (simp add: ndx_read_num_def rret_def rbind_def read_full_def)
  qed
qed

definition ndx_sendable :: "int32 \<Rightarrow> bool" where
  "ndx_sendable n \<longleftrightarrow> n = ndxDone \<or> 0 \<le> sint n"

lemma ndx_read_write:
  assumes "ndx_sendable n"
  shows "ndx_read c (snd (ndx_write c n) @ rest) = Inr ((n, fst (ndx_write c n)), rest)"
proof (cases "n = ndxDone")
  case True
  then show ?thesis by (simp add: ndx_read_def ndx_write_def rbind_def rret_def)
next
  case False
  with assms have n: "0 \<le> sint n" by (simp add: ndx_sendable_def)
  from ndx_read_num_diff [OF n refl, of "prevPositive c" rest] obtain b bs
    where "ndx_diff_bytes (n - prevPositive c) n = b # bs" "b \<notin> {0, 0xFF}"
      "ndx_read_num (prevPositive c) b (bs @ rest) = Inr (n, rest)" by blast
  with False n show ?thesis by (simp add: ndx_read_def ndx_write_def rbind_def rret_def)
qed

lemma ndx_read_all_write_all:
  "list_all ndx_sendable ns \<Longrightarrow> ndx_read_all (length ns) c (ndx_write_all c ns @ rest) = Inr (ns, rest)"
proof (induction ns arbitrary: c)
  case (Cons n ns)
  then show ?case
    by (simp add: rbind_def rret_def ndx_read_write)
qed (simp add: rret_def)

subsection \<open>What a codec promises\<close>

text \<open>Reading \<open>k\<close> records one after the other, as the \<open>for i := range\<close> loops of the source do.\<close>

fun read_n :: "nat \<Rightarrow> 'a reader \<Rightarrow> 'a list reader" where
  "read_n 0 r = rret []"
| "read_n (Suc k) r = rbind r (\<lambda>x. rbind (read_n k r) (\<lambda>xs. rret (x # xs)))"

locale wire_codec =
  fixes enc :: "'a \<Rightarrow> bytes"
    and dec :: "'a reader"
    and valid :: "'a \<Rightarrow> bool"
  assumes dec_enc: "valid x \<Longrightarrow> dec (enc x @ rest) = Inr (x, rest)"
begin

lemma dec_enc_nil: "valid x \<Longrightarrow> dec (enc x) = Inr (x, [])"
  using dec_enc [of x "[]"] by simp

lemma prefix_free: "valid x \<Longrightarrow> valid y \<Longrightarrow> enc x @ r = enc y @ s \<Longrightarrow> x = y \<and> r = s"
  by (metis dec_enc prod.inject sum.inject(2))

lemma enc_inj: "valid x \<Longrightarrow> valid y \<Longrightarrow> enc x = enc y \<Longrightarrow> x = y"
  by (metis prefix_free)

lemma read_n_enc:
  "list_all valid xs \<Longrightarrow> read_n (length xs) dec (concat (map enc xs) @ rest) = Inr (xs, rest)"
  by (induction xs) (simp_all add: rret_def rbind_def dec_enc)

end

definition varlong_ok :: "nat \<Rightarrow> int64 \<Rightarrow> bool" where
  "varlong_ok m v \<longleftrightarrow> uint v < 2 ^ (8 * m + 27)"

interpretation int32c: wire_codec WriteInt32 ReadInt32 "\<lambda>_. True"
  by unfold_locales (rule ReadInt32_WriteInt32)

interpretation shortc: wire_codec WriteShortint ReadShortint "\<lambda>_. True"
  by unfold_locales (rule ReadShortint_WriteShortint)

interpretation varintc: wire_codec WriteVarint ReadVarint "\<lambda>_. True"
  by unfold_locales (rule varint_codec)

interpretation varlong3c: wire_codec "\<lambda>v. WriteVarlong v 3" "ReadVarlong 3" "varlong_ok 3"
  by unfold_locales (intro varlong_codec, simp, simp, simp only: varlong_ok_def)

interpretation varlong4c: wire_codec "\<lambda>v. WriteVarlong v 4" "ReadVarlong 4" "varlong_ok 4"
  by unfold_locales (intro varlong_codec, simp, simp, simp only: varlong_ok_def)

subsection \<open>Properties\<close>

lemma bit_le_word: "bit (le_word bs :: 'a::len word) n \<Longrightarrow> n < 8 * length bs"
proof (induction bs arbitrary: n)
  case (Cons b bs)
  then show ?case
    by (auto simp: bit_simps dest!: Cons.IH dest: bit_imp_le_length)
qed simp

lemma lead_ones_le: "lead_ones b 0 \<le> 4"
  by (simp add: lead_ones_bits)

text \<open>Every 32-bit value survives the variable-length encoding, whatever bytes follow it.\<close>

lemma varint_roundtrip: "ReadVarint (WriteVarint v @ rest) = Inr (v, rest)"
  by (rule varint_codec)

text \<open>
  A 64-bit value below \<open>2 ^ (8 * m + 27)\<close> survives the encoding with \<open>m\<close> minimal bytes; file
  sizes (\<open>m = 3\<close>) go to \<open>2 ^ 51\<close> and times (\<open>m = 4\<close>) to \<open>2 ^ 59\<close>.
\<close>

lemma varlong_roundtrip:
  assumes "1 \<le> m" "m \<le> 4" "uint v < 2 ^ (8 * m + 27)"
  shows "ReadVarlong m (WriteVarlong v m @ rest) = Inr (v, rest)"
  using assms by (rule varlong_codec)

text \<open>
  No input at all makes \<open>ReadVarlong\<close> return a value of \<open>2 ^ (8 * m + 28)\<close> or more, because the
  count of extra bytes stops at four; in particular no negative value, such as the seconds of a
  time before 1970, is ever received.
\<close>

lemma varlong_read_bound:
  assumes "m \<le> 4" "1 \<le> m" "ReadVarlong m bs = Inr (v, rest)"
  shows "uint v < 2 ^ (8 * m + 28)"
proof -
  obtain first ds where v: "v = push_bit (8 * (lead_ones first 0 + m - 1)) (ucast (first AND drop_bit (lead_ones first 0) 0xFF)) OR le_word ds"
    and ds: "length ds = lead_ones first 0 + m - 1"
  proof -
    obtain first bs1 where b: "bs = first # bs1" using assms(3)
      by (cases bs) (auto simp: ReadVarlong_def readVarintLen_def rbind_def)
    let ?n = "lead_ones first 0 + m - 1"
    show ?thesis
    proof (cases "?n = 0")
      case True
      then show ?thesis using assms(3) that [of first "[]"]
        by (auto simp: b ReadVarlong_def readVarintLen_def rbind_def rret_def Let_def)
    next
      case False
      then show ?thesis using assms(3) that [of first]
        by (auto simp: b ReadVarlong_def readVarintLen_def rbind_eq_Inr rret_def Let_def dest!: read_full_Inr)
    qed
  qed
  let ?e = "lead_ones first 0"
  have e: "?e \<le> 4" by (rule lead_ones_le)
  have mk: "drop_bit ?e 0xFF = (mask (8 - ?e) :: byte)"
    using le4_cases [OF e] by (auto simp: mask_numeral drop_bit_eq_div)
  have "n < 8 * m + 28" if "bit v n" for n
    using that e assms(2) unfolding v mk
    by (auto simp: bit_simps ds dest!: bit_le_word)
  then have "take_bit (8 * m + 28) v = v"
    by (intro bit_word_eqI) (auto simp: bit_take_bit_iff)
  then have "uint v = take_bit (8 * m + 28) (uint v)" by (metis unsigned_take_bit_eq)
  then show ?thesis by (metis take_bit_int_less_exp)
qed

text \<open>
  The indices of a transfer, in any order and with any number of \<open>NDX_DONE\<close> among them, are
  decoded as they were sent, with both codec states starting fresh.
\<close>

lemma ndx_roundtrip:
  assumes "list_all ndx_sendable ns"
  shows "ndx_read_all (length ns) newNdxCodec (ndx_write_all newNdxCodec ns @ rest) = Inr (ns, rest)"
  using assms by (rule ndx_read_all_write_all)

text \<open>
  A second negative index is decoded wrongly, because the reader keeps the previous negative
  index with its sign while the writer keeps it without: \<open>NDX_DEL_STATS\<close> sent twice is read as -3
  and then as 3.
\<close>

lemma ndx_second_negative_misread:
  "ndx_read_all 2 newNdxCodec (ndx_write_all newNdxCodec [-3, -3]) = Inr ([-3, 3], [])"
  by code_simp

end
