(* ===== verification/Flist.thy ===== *)
theory Flist
  imports Wire GoStrings "HOL-Library.Signed_Division"
begin

text \<open>
  The file list of the rsync protocol: \<open>FlistParser\<close> (\<open>internal/front/rsync/protocol/flist.go\<close>)
  and \<open>FlistWriter\<close> (\<open>flist_write.go\<close>).  A parse is a reader that carries the parser's state; its
  value is \<open>None\<close> where the source returns \<open>ErrFlistEnd\<close>.  The state after a failed parse is not
  kept: every caller gives up the session then.
\<close>

subsection \<open>Data\<close>

definition XmitTopDir :: "32 word" where "XmitTopDir = 0x1"
definition XmitSameMode :: "32 word" where "XmitSameMode = 0x2"
definition XmitExtended :: "32 word" where "XmitExtended = 0x4"
definition XmitSameUID :: "32 word" where "XmitSameUID = 0x8"
definition XmitSameGID :: "32 word" where "XmitSameGID = 0x10"
definition XmitSameName :: "32 word" where "XmitSameName = 0x20"
definition XmitLongName :: "32 word" where "XmitLongName = 0x40"
definition XmitSameTime :: "32 word" where "XmitSameTime = 0x80"
definition XmitSameRdevMajor :: "32 word" where "XmitSameRdevMajor = 0x100"
definition XmitHlinked :: "32 word" where "XmitHlinked = 0x200"
definition XmitUserNameFollows :: "32 word" where "XmitUserNameFollows = 0x400"
definition XmitGroupNameFollows :: "32 word" where "XmitGroupNameFollows = 0x800"
definition XmitIoErrorEndlist :: "32 word" where "XmitIoErrorEndlist = 0x1000"
definition XmitModNsec :: "32 word" where "XmitModNsec = 0x2000"
definition XmitSameAtime :: "32 word" where "XmitSameAtime = 0x4000"

lemmas xmit_defs = XmitTopDir_def XmitSameMode_def XmitExtended_def XmitSameUID_def XmitSameGID_def
  XmitSameName_def XmitLongName_def XmitSameTime_def XmitSameRdevMajor_def XmitHlinked_def
  XmitUserNameFollows_def XmitGroupNameFollows_def XmitIoErrorEndlist_def XmitModNsec_def
  XmitSameAtime_def

definition sIfmt :: "32 word" where "sIfmt = 0xF000"
definition sIfDir :: "32 word" where "sIfDir = 0x4000"
definition sIfLnk :: "32 word" where "sIfLnk = 0xA000"
definition sIfReg :: "32 word" where "sIfReg = 0x8000"
definition sIfChr :: "32 word" where "sIfChr = 0x2000"
definition sIfBlk :: "32 word" where "sIfBlk = 0x6000"
definition sIfFifo :: "32 word" where "sIfFifo = 0x1000"
definition sIfSock :: "32 word" where "sIfSock = 0xC000"

lemmas mode_defs = sIfmt_def sIfDir_def sIfLnk_def sIfReg_def sIfChr_def sIfBlk_def sIfFifo_def sIfSock_def

record file_entry =
  fe_path :: string
  fe_isdir :: bool
  fe_issymlink :: bool
  fe_mode :: "32 word"
  fe_uid :: int
  fe_gid :: int
  fe_size :: int64
  fe_mtime :: int64
  fe_link :: string

record flist_parser =
  lastname :: bytes
  lastMode :: "32 word"
  lastMTime :: int64
  lastUID :: int
  lastGID :: int
  IoError :: int32

definition NewFlistParser :: flist_parser where
  "NewFlistParser = \<lparr>lastname = [], lastMode = 0, lastMTime = 0, lastUID = 0, lastGID = 0, IoError = 0\<rparr>"

record preserve =
  preserveUID :: bool
  preserveGID :: bool
  preserveLinks :: bool
  preserveDevices :: bool
  preserveAtimes :: bool
  checksumMode :: bool

definition isRegularMode :: "32 word \<Rightarrow> bool" where
  "isRegularMode m \<longleftrightarrow> m AND sIfmt = 0 \<or> m AND sIfmt = sIfReg"

text \<open>Refuses the empty path, absolute paths and paths with a dot-dot segment; \<open>''''\<close> is a refusal.\<close>

definition cleanPath :: "string \<Rightarrow> string" where
  "cleanPath p =
     (if p = [] \<or> p = ''.'' \<or> HasPrefix p ''/'' then []
      else if ''..'' \<in> set (split_at CHR ''/'' p) then [] else p)"

subsection \<open>Parsing one entry\<close>

definition parse_xflags :: "flist_parser \<Rightarrow> (32 word option \<times> flist_parser) reader" where
  "parse_xflags p = rbind read_byte (\<lambda>b.
     if b = 0 then rret (None, p)
     else let x = ucast b in
       if x AND XmitExtended \<noteq> 0 then rbind read_byte (\<lambda>b2.
         let x = (x AND 0xFF) OR push_bit 8 (ucast b2) in
         if x = XmitExtended OR XmitIoErrorEndlist
         then rbind ReadVarint (\<lambda>io. rret (None, p\<lparr>IoError := io\<rparr>))
         else rret (Some (x AND NOT XmitExtended), p))
       else rret (Some x, p))"

text \<open>
  The name: a prefix of the previous name and the bytes that follow.  The length of a long name is
  a signed \<open>varint\<close>; a negative one reaches \<open>make([]byte, l2)\<close>, which panics.
\<close>

definition parse_prefix :: "32 word \<Rightarrow> flist_parser \<Rightarrow> flist_parser reader" where
  "parse_prefix x p =
     (if x AND XmitSameName \<noteq> 0 then rbind read_byte (\<lambda>b.
        if unat b > length (lastname p) then rfail (Err ''prefix longer than last name'')
        else rret (p\<lparr>lastname := take (unat b) (lastname p)\<rparr>))
      else rret p)"

definition parse_name_len :: "32 word \<Rightarrow> int reader" where
  "parse_name_len x =
     (if x AND XmitLongName \<noteq> 0 then rbind ReadVarint (\<lambda>v. rret (sint v))
      else rbind read_byte (\<lambda>b. rret (uint b)))"

definition parse_name :: "32 word \<Rightarrow> flist_parser \<Rightarrow> (string \<times> flist_parser) reader" where
  "parse_name x p = rbind (parse_prefix x p) (\<lambda>p1. rbind (parse_name_len x) (\<lambda>l2.
     if l2 > 2 ^ 20 then rfail (Err ''name too long'')
     else if l2 < 0 then rfail (Panic ''makeslice: len out of range'')
     else rbind (read_full (nat l2)) (\<lambda>name.
       let full = (if x AND XmitSameName \<noteq> 0 then lastname p1 @ name else name) in
       rret (cleanPath (of_bytes full), p1\<lparr>lastname := full\<rparr>))))"

definition parse_mtime :: "32 word \<Rightarrow> flist_parser \<Rightarrow> (int64 \<times> flist_parser) reader" where
  "parse_mtime x p = rbind
     (if x AND XmitSameTime = 0
      then rbind (ReadVarlong 4) (\<lambda>t. rret (t * 1000000000, p\<lparr>lastMTime := t * 1000000000\<rparr>))
      else rret (lastMTime p, p))
     (\<lambda>(m, p1). if x AND XmitModNsec \<noteq> 0 then rbind ReadVarint (\<lambda>n. rret (m + scast n, p1))
       else rret (m, p1))"

definition parse_mode :: "32 word \<Rightarrow> flist_parser \<Rightarrow> (32 word \<times> flist_parser) reader" where
  "parse_mode x p =
     (if x AND XmitSameMode = 0
      then rbind ReadInt32 (\<lambda>m. rret (m, p\<lparr>lastMode := m\<rparr>))
      else rret (lastMode p, p))"

definition parse_atime :: "preserve \<Rightarrow> 32 word \<Rightarrow> 32 word \<Rightarrow> unit reader" where
  "parse_atime pr x mode =
     (if preserveAtimes pr \<and> mode AND sIfmt \<noteq> sIfDir \<and> x AND XmitSameAtime = 0
      then rbind (ReadVarlong 4) (\<lambda>_. rret ()) else rret ())"

definition skipName :: "unit reader" where
  "skipName = rbind read_byte (\<lambda>ln. rbind (read_full (unat ln)) (\<lambda>_. rret ()))"

definition parse_uid :: "preserve \<Rightarrow> 32 word \<Rightarrow> flist_parser \<Rightarrow> (int \<times> flist_parser) reader" where
  "parse_uid pr x p =
     (if preserveUID pr \<and> x AND XmitSameUID = 0 then rbind ReadVarint (\<lambda>v.
        rbind (if x AND XmitUserNameFollows \<noteq> 0 then skipName else rret ()) (\<lambda>_.
          rret (sint v, p\<lparr>lastUID := sint v\<rparr>)))
      else rret (lastUID p, p))"

definition parse_gid :: "preserve \<Rightarrow> 32 word \<Rightarrow> flist_parser \<Rightarrow> (int \<times> flist_parser) reader" where
  "parse_gid pr x p =
     (if preserveGID pr \<and> x AND XmitSameGID = 0 then rbind ReadVarint (\<lambda>v.
        rbind (if x AND XmitGroupNameFollows \<noteq> 0 then skipName else rret ()) (\<lambda>_.
          rret (sint v, p\<lparr>lastGID := sint v\<rparr>)))
      else rret (lastGID p, p))"

definition mode_ok :: "32 word \<Rightarrow> bool" where
  "mode_ok mt \<longleftrightarrow> mt \<in> {0, sIfReg, sIfDir, sIfLnk, sIfChr, sIfBlk, sIfFifo, sIfSock}"

definition is_device :: "32 word \<Rightarrow> bool" where
  "is_device mt \<longleftrightarrow> mt = sIfChr \<or> mt = sIfBlk"

definition parse_rdev :: "preserve \<Rightarrow> 32 word \<Rightarrow> 32 word \<Rightarrow> unit reader" where
  "parse_rdev pr x mt =
     (if is_device mt \<and> preserveDevices pr then
        rbind (if x AND XmitSameRdevMajor = 0 then rbind ReadVarint (\<lambda>_. rret ()) else rret ()) (\<lambda>_.
          rbind ReadVarint (\<lambda>_. rret ()))
      else rret ())"

text \<open>A symbolic link's target; a negative length panics as for the name.\<close>

definition parse_link :: "preserve \<Rightarrow> 32 word \<Rightarrow> string reader" where
  "parse_link pr mt =
     (if preserveLinks pr \<and> mt = sIfLnk then rbind ReadVarint (\<lambda>l.
        if sint l < 0 then rfail (Panic ''makeslice: len out of range'')
        else rbind (read_full (nat (sint l))) (\<lambda>t. rret (of_bytes t)))
      else rret [])"

definition parse_csum :: "preserve \<Rightarrow> 32 word \<Rightarrow> unit reader" where
  "parse_csum pr mode =
     (let mt = mode AND sIfmt in
      if checksumMode pr \<and> mt \<noteq> sIfDir \<and> mt \<noteq> sIfLnk \<and> isRegularMode mode
      then rbind (read_full 16) (\<lambda>_. rret ()) else rret ())"

definition parse_fields :: "preserve \<Rightarrow> 32 word \<Rightarrow> flist_parser \<Rightarrow> (file_entry \<times> flist_parser) reader" where
  "parse_fields pr x p =
     rbind (parse_name x p) (\<lambda>(path, p1).
     rbind (ReadVarlong 3) (\<lambda>size.
     rbind (parse_mtime x p1) (\<lambda>(mtime, p2).
     rbind (parse_mode x p2) (\<lambda>(mode, p3).
     rbind (parse_atime pr x mode) (\<lambda>_.
     rbind (parse_uid pr x p3) (\<lambda>(uid, p4).
     rbind (parse_gid pr x p4) (\<lambda>(gid, p5).
     let mt = mode AND sIfmt in
     if \<not> mode_ok mt then rfail (Err ''bad file type'')
     else rbind (parse_rdev pr x mt) (\<lambda>_.
     rbind (parse_link pr mt) (\<lambda>link.
     rbind (parse_csum pr mode) (\<lambda>_.
     rret (\<lparr>fe_path = path, fe_isdir = (mt = sIfDir), fe_issymlink = (mt = sIfLnk), fe_mode = mode,
            fe_uid = uid, fe_gid = gid, fe_size = (if is_device mt then 0 else size),
            fe_mtime = mtime, fe_link = link\<rparr>, p5)))))))))))"

definition Parse :: "preserve \<Rightarrow> flist_parser \<Rightarrow> (file_entry option \<times> flist_parser) reader" where
  "Parse pr p = rbind (parse_xflags p) (\<lambda>(xo, p1). case xo of
       None \<Rightarrow> rret (None, p1)
     | Some x \<Rightarrow>
         if x AND XmitHlinked \<noteq> 0 then rfail (Err ''hard links are not supported'')
         else rbind (parse_fields pr x p1) (\<lambda>(e, p2). rret (Some e, p2)))"

text \<open>
  The loop that collects entries until the end of the list (\<open>processSession\<close>), one \<open>Parse\<close> per
  step.  Every successful \<open>Parse\<close> consumes a byte, so the length of the input is enough fuel.
\<close>

fun parse_list :: "nat \<Rightarrow> preserve \<Rightarrow> flist_parser \<Rightarrow> (file_entry list \<times> flist_parser) reader" where
  "parse_list 0 pr p = rfail (Err ''out of fuel'')"
| "parse_list (Suc k) pr p = rbind (Parse pr p) (\<lambda>(eo, p1). case eo of
       None \<Rightarrow> rret ([], p1)
     | Some e \<Rightarrow> rbind (parse_list k pr p1) (\<lambda>(es, p2). rret (e # es, p2)))"

definition recv_flist :: "preserve \<Rightarrow> (file_entry list \<times> flist_parser) reader" where
  "recv_flist pr bs = parse_list (Suc (length bs)) pr NewFlistParser bs"

text \<open>The tables of ids and names after the list: every segment ends with the id 0.\<close>

fun readOneseg :: "nat \<Rightarrow> unit reader" where
  "readOneseg 0 = rfail (Err ''out of fuel'')"
| "readOneseg (Suc k) = rbind ReadVarint (\<lambda>id.
     if id = 0 then rret () else rbind skipName (\<lambda>_. readOneseg k))"

definition ReadIdList :: "preserve \<Rightarrow> unit reader" where
  "ReadIdList pr bs = rbind
     (if preserveUID pr then readOneseg (Suc (length bs)) else rret ())
     (\<lambda>_. if preserveGID pr then readOneseg (Suc (length bs)) else rret ()) bs"

subsection \<open>Writing the list\<close>

definition go_div_1e9 :: "int64 \<Rightarrow> int64" where
  "go_div_1e9 t = word_of_int (sint t sdiv 1000000000)"

definition go_mod_1e9 :: "int64 \<Rightarrow> int64" where
  "go_mod_1e9 t = word_of_int (sint t smod 1000000000)"

definition entry_nsec :: "file_entry \<Rightarrow> int64" where
  "entry_nsec e = (if fe_mtime e \<noteq> 0 then go_mod_1e9 (fe_mtime e) else 0)"

definition entry_xflags :: "preserve \<Rightarrow> file_entry \<Rightarrow> 32 word" where
  "entry_xflags pr e =
     (if preserveUID pr then 0 else XmitSameUID) OR (if preserveGID pr then 0 else XmitSameGID) OR
     (if entry_nsec e \<noteq> 0 then XmitModNsec else 0)"

definition entry_name :: "file_entry \<Rightarrow> string" where
  "entry_name e = (if fe_isdir e then rev (dropWhile (\<lambda>c. c = CHR ''/'') (rev (fe_path e))) else fe_path e)"

text \<open>The flags: never the single byte 0, which would read as the end of the list.\<close>

definition write_xflags :: "32 word \<Rightarrow> bool \<Rightarrow> bytes" where
  "write_xflags x isdir =
     (let x = (if x = 0 \<and> \<not> isdir then x OR XmitTopDir else x) in
      if x AND 0xFF00 \<noteq> 0 \<or> x = 0 then WriteShortint (ucast (x OR XmitExtended)) else [ucast x])"

definition entry_size :: "file_entry \<Rightarrow> int64" where
  "entry_size e = (if fe_issymlink e then word_of_nat (length (fe_link e)) else fe_size e)"

definition write_nsec :: "file_entry \<Rightarrow> bytes" where
  "write_nsec e = (if entry_nsec e \<noteq> 0 then WriteVarint (ucast (entry_nsec e)) else [])"

definition write_ids :: "preserve \<Rightarrow> file_entry \<Rightarrow> bytes" where
  "write_ids pr e = (if preserveUID pr then WriteVarint (word_of_int (fe_uid e)) else [])
     @ (if preserveGID pr then WriteVarint (word_of_int (fe_gid e)) else [])"

definition write_link :: "preserve \<Rightarrow> file_entry \<Rightarrow> bytes" where
  "write_link pr e =
     (if preserveLinks pr \<and> fe_issymlink e
      then WriteVarint (word_of_nat (length (fe_link e))) @ to_bytes (fe_link e) else [])"

text \<open>The name's length goes out as one byte, whatever its value.\<close>

definition WriteEntry :: "preserve \<Rightarrow> file_entry \<Rightarrow> bytes result" where
  "WriteEntry pr e =
     (let name = entry_name e in
      if name = [] then Inl (Err ''flist entry without a path'')
      else if length name > 2 ^ 20 then Inl (Err ''flist name too long'')
      else Inr (write_xflags (entry_xflags pr e) (fe_isdir e)
        @ [word_of_nat (length name)] @ to_bytes name
        @ WriteVarlong (entry_size e) 3
        @ WriteVarlong (go_div_1e9 (fe_mtime e)) 4
        @ write_nsec e
        @ WriteInt32 (fe_mode e)
        @ write_ids pr e
        @ write_link pr e))"

definition WriteEndOfFlist :: bytes where
  "WriteEndOfFlist = [0]"

definition WriteIdList :: bytes where
  "WriteIdList = WriteVarint 0"

fun write_list :: "preserve \<Rightarrow> file_entry list \<Rightarrow> bytes result" where
  "write_list pr [] = Inr WriteEndOfFlist"
| "write_list pr (e # es) = bind_res (WriteEntry pr e) (\<lambda>b. bind_res (write_list pr es) (\<lambda>bs. Inr (b @ bs)))"

subsection \<open>What is written is read back\<close>

definition flag_word :: "bool \<Rightarrow> bool \<Rightarrow> bool \<Rightarrow> 32 word" where
  "flag_word u g n = (if u then 0 else XmitSameUID) OR (if g then 0 else XmitSameGID) OR (if n then XmitModNsec else 0)"

lemma entry_xflags_flag_word: "entry_xflags pr e = flag_word (preserveUID pr) (preserveGID pr) (entry_nsec e \<noteq> 0)"
  by (simp add: entry_xflags_def flag_word_def)

definition wire_flags :: "32 word \<Rightarrow> bool \<Rightarrow> 32 word" where
  "wire_flags x d = (if x = 0 \<and> \<not> d then XmitTopDir else x)"


lemma WriteShortint_bytes: "WriteShortint w = [ucast w, ucast (drop_bit 8 w)]"
  unfolding WriteShortint_def numeral_2_eq_2 le_bytes.simps ..

lemma parse_xflags_short:
  "b \<noteq> 0 \<Longrightarrow> (ucast b :: 32 word) AND XmitExtended = 0 \<Longrightarrow> parse_xflags p (b # rest) = Inr ((Some (ucast b), p), rest)"
  by (simp add: parse_xflags_def reader_simps Let_def)

lemma parse_xflags_long:
  "b \<noteq> 0 \<Longrightarrow> (ucast b :: 32 word) AND XmitExtended \<noteq> 0 \<Longrightarrow>
   (ucast b AND 0xFF) OR push_bit 8 (ucast b2) \<noteq> XmitExtended OR XmitIoErrorEndlist \<Longrightarrow>
   parse_xflags p (b # b2 # rest) =
     Inr ((Some (((ucast b AND 0xFF) OR push_bit 8 (ucast b2)) AND NOT XmitExtended), p), rest)"
  by (simp add: parse_xflags_def reader_simps Let_def)

lemma xflags_rt:
  "parse_xflags p (write_xflags (flag_word u g n) d @ rest) = Inr ((Some (wire_flags (flag_word u g n) d), p), rest)"
proof (cases "n \<or> u \<and> g \<and> d")
  case True
  then show ?thesis
    by (cases u; cases g; cases n; cases d)
     (simp_all add: flag_word_def wire_flags_def write_xflags_def WriteShortint_bytes xmit_defs parse_xflags_long)
next
  case False
  then show ?thesis
    by (cases u; cases g; cases n; cases d)
     (simp_all add: flag_word_def wire_flags_def write_xflags_def WriteShortint_bytes xmit_defs parse_xflags_short)
qed

lemma wire_flags_bits:
  "wire_flags (flag_word u g n) d AND XmitHlinked = 0"
  "wire_flags (flag_word u g n) d AND XmitSameName = 0"
  "wire_flags (flag_word u g n) d AND XmitLongName = 0"
  "wire_flags (flag_word u g n) d AND XmitSameTime = 0"
  "wire_flags (flag_word u g n) d AND XmitSameMode = 0"
  "wire_flags (flag_word u g n) d AND XmitUserNameFollows = 0"
  "wire_flags (flag_word u g n) d AND XmitGroupNameFollows = 0"
  "wire_flags (flag_word u g n) d AND XmitSameUID = 0 \<longleftrightarrow> u"
  "wire_flags (flag_word u g n) d AND XmitSameGID = 0 \<longleftrightarrow> g"
  "wire_flags (flag_word u g n) d AND XmitModNsec = 0 \<longleftrightarrow> \<not> n"
  by (cases u; cases g; cases n; cases d; simp add: flag_word_def wire_flags_def xmit_defs)+

lemma secs_nsec:
  assumes "0 \<le> sint (t :: int64)"
  shows "go_div_1e9 t * 1000000000 + go_mod_1e9 t = t" 
    "varlong_ok 4 (go_div_1e9 t)"
    "0 \<le> sint t smod 1000000000" "sint t smod 1000000000 < 1000000000"
    "scast (ucast (go_mod_1e9 t) :: int32) = go_mod_1e9 t"
proof -
  have d: "sint t sdiv 1000000000 = sint t div 1000000000" "sint t smod 1000000000 = sint t mod 1000000000"
    using assms by (simp_all add: signed_divide_int_def signed_modulo_int_def sgn_if)
  show "0 \<le> sint t smod 1000000000" "sint t smod 1000000000 < 1000000000" unfolding d by simp_all
  have "go_div_1e9 t * 1000000000 + go_mod_1e9 t = word_of_int (sint t div 1000000000 * 1000000000 + sint t mod 1000000000)"
    by (simp only: go_div_1e9_def go_mod_1e9_def d of_int_mult of_int_add of_int_numeral)
  also have "\<dots> = word_of_int (sint t)" by (simp only: div_mult_mod_eq)
  finally show "go_div_1e9 t * 1000000000 + go_mod_1e9 t = t" by simp
  have "sint t < 2 ^ 63" using sint_less [of t] by simp
  then have q: "sint t div 1000000000 < 2 ^ 34" by simp
  have q0: "0 \<le> sint t div 1000000000" using assms by simp
  have "uint (go_div_1e9 t) = sint t div 1000000000"
    unfolding go_div_1e9_def d using q q0 by (simp add: uint_word_of_int_eq take_bit_int_eq_self)
  then show "varlong_ok 4 (go_div_1e9 t)" using q by (simp add: varlong_ok_def)
  define r where "r = sint t mod 1000000000"
  have r: "0 \<le> r" "r < 1000000000" by (simp_all add: r_def)
  have "go_mod_1e9 t = word_of_int r" by (simp add: go_mod_1e9_def d r_def)
  moreover have "ucast (word_of_int r :: int64) = (word_of_int r :: int32)"
    using r take_bit_int_eq_self [of r 64] by (simp add: unsigned_of_int)
  moreover have "scast (word_of_int r :: int32) = (word_of_int r :: int64)"
    using r by (simp add: signed_of_int signed_take_bit_int_eq_self) 
  ultimately show "scast (ucast (go_mod_1e9 t) :: int32) = go_mod_1e9 t" by simp
qed
lemma varlong3_rt [codec_simps]:
  "varlong_ok 3 v \<Longrightarrow> ReadVarlong 3 (WriteVarlong v 3 @ rest) = Inr (v, rest)"
  by (rule varlong3c.dec_enc)

lemma varlong4_rt [codec_simps]:
  "varlong_ok 4 v \<Longrightarrow> ReadVarlong 4 (WriteVarlong v 4 @ rest) = Inr (v, rest)"
  by (rule varlong4c.dec_enc)

lemma parse_name_rt:
  assumes "x AND XmitSameName = 0" "x AND XmitLongName = 0" "length nm \<le> 255"
  shows "parse_name x p (word_of_nat (length nm) # to_bytes nm @ rest) =
    Inr ((cleanPath nm, p\<lparr>lastname := to_bytes nm\<rparr>), rest)"
proof -
  have "uint (word_of_nat (length nm) :: byte) = int (length nm)"
    using assms(3) by (simp add: unsigned_of_nat take_bit_nat_eq_self)
  then show ?thesis using assms
    by (simp add: parse_name_def parse_prefix_def parse_name_len_def reader_simps rbind_def)
qed

lemma parse_mtime_rt:
  assumes "x AND XmitSameTime = 0" "x AND XmitModNsec = 0 \<longleftrightarrow> entry_nsec e = 0" "0 \<le> sint (fe_mtime e)"
  shows "parse_mtime x p (WriteVarlong (go_div_1e9 (fe_mtime e)) 4 @ write_nsec e @ rest) =
    Inr ((fe_mtime e, p\<lparr>lastMTime := go_div_1e9 (fe_mtime e) * 1000000000\<rparr>), rest)"
proof -
  note sn = secs_nsec [OF assms(3)]
  have z: "go_mod_1e9 0 = 0" by (simp add: go_mod_1e9_def)
  show ?thesis
  proof (cases "entry_nsec e = 0")
    case True
    then have "go_mod_1e9 (fe_mtime e) = 0" by (cases "fe_mtime e = 0") (auto simp: entry_nsec_def z)
    then have "go_div_1e9 (fe_mtime e) * 1000000000 = fe_mtime e" using sn(1) by simp
    then show ?thesis using True assms(1,2) sn(2)
      by (simp add: parse_mtime_def write_nsec_def reader_simps codec_simps rbind_Inr)
  next
    case False
    then have "entry_nsec e = go_mod_1e9 (fe_mtime e)" by (auto simp: entry_nsec_def)
    then show ?thesis using False assms(1,2) sn
      by (simp add: parse_mtime_def write_nsec_def reader_simps codec_simps rbind_Inr)
  qed
qed

lemma parse_mode_rt:
  "x AND XmitSameMode = 0 \<Longrightarrow> parse_mode x p (WriteInt32 m @ rest) = Inr ((m, p\<lparr>lastMode := m\<rparr>), rest)"
  by (simp add: parse_mode_def reader_simps codec_simps)

definition id32 :: "int \<Rightarrow> bool" where
  "id32 n \<longleftrightarrow> - (2 ^ 31) \<le> n \<and> n < 2 ^ 31"

lemma sint_id32: "id32 n \<Longrightarrow> sint (word_of_int n :: int32) = n"
  by (simp add: id32_def signed_of_int signed_take_bit_int_eq_self)

lemma parse_uid_rt:
  assumes "x AND XmitUserNameFollows = 0" "x AND XmitSameUID = 0 \<longleftrightarrow> preserveUID pr"
    "id32 n" "\<not> preserveUID pr \<Longrightarrow> n = lastUID p"
  shows "parse_uid pr x p ((if preserveUID pr then WriteVarint (word_of_int n) else []) @ rest) =
    Inr ((n, p\<lparr>lastUID := n\<rparr>), rest)"
  using assms by (simp add: parse_uid_def reader_simps codec_simps sint_id32)

lemma parse_gid_rt:
  assumes "x AND XmitGroupNameFollows = 0" "x AND XmitSameGID = 0 \<longleftrightarrow> preserveGID pr"
    "id32 n" "\<not> preserveGID pr \<Longrightarrow> n = lastGID p"
  shows "parse_gid pr x p ((if preserveGID pr then WriteVarint (word_of_int n) else []) @ rest) =
    Inr ((n, p\<lparr>lastGID := n\<rparr>), rest)"
  using assms by (simp add: parse_gid_def reader_simps codec_simps sint_id32)

lemma parse_link_rt:
  assumes "fe_issymlink e \<longleftrightarrow> mt = sIfLnk" "length (fe_link e) < 2 ^ 31"
  shows "parse_link pr mt (write_link pr e @ rest) = Inr (if preserveLinks pr \<and> fe_issymlink e then fe_link e else [], rest)"
proof (cases "preserveLinks pr \<and> fe_issymlink e")
  case True
  have "sint (word_of_nat (length (fe_link e)) :: int32) = int (length (fe_link e))"
    using assms(2) sint_id32 [of "int (length (fe_link e))"] by (simp add: id32_def)
  then show ?thesis using True assms(1)
    by (simp add: parse_link_def write_link_def reader_simps codec_simps)
next
  case False
  then show ?thesis using assms
    by (auto simp: parse_link_def write_link_def reader_simps)
qed

text \<open>What the other end makes of an entry: without an option its field is empty.\<close>

definition received :: "preserve \<Rightarrow> file_entry \<Rightarrow> file_entry" where
  "received pr e = e\<lparr>fe_path := cleanPath (entry_name e), fe_uid := (if preserveUID pr then fe_uid e else 0),
     fe_gid := (if preserveGID pr then fe_gid e else 0), fe_size := entry_size e,
     fe_link := (if preserveLinks pr \<and> fe_issymlink e then fe_link e else [])\<rparr>"

definition flist_entry_ok :: "preserve \<Rightarrow> file_entry \<Rightarrow> bool" where
  "flist_entry_ok pr e \<longleftrightarrow>
     entry_name e \<noteq> [] \<and> length (entry_name e) \<le> 255 \<and>
     mode_ok (fe_mode e AND sIfmt) \<and> \<not> is_device (fe_mode e AND sIfmt) \<and>
     (fe_isdir e \<longleftrightarrow> fe_mode e AND sIfmt = sIfDir) \<and> (fe_issymlink e \<longleftrightarrow> fe_mode e AND sIfmt = sIfLnk) \<and>
     varlong_ok 3 (entry_size e) \<and> 0 \<le> sint (fe_mtime e) \<and>
     id32 (fe_uid e) \<and> id32 (fe_gid e) \<and> length (fe_link e) < 2 ^ 31"

text \<open>Options under which the client reads no field the writer does not send.\<close>

definition plain_opts :: "preserve \<Rightarrow> bool" where
  "plain_opts pr \<longleftrightarrow> \<not> preserveAtimes pr \<and> \<not> checksumMode pr"

definition ids_in_sync :: "preserve \<Rightarrow> flist_parser \<Rightarrow> bool" where
  "ids_in_sync pr p \<longleftrightarrow> (\<not> preserveUID pr \<longrightarrow> lastUID p = 0) \<and> (\<not> preserveGID pr \<longrightarrow> lastGID p = 0)"

lemma Parse_WriteEntry:
  assumes ok: "flist_entry_ok pr e" and pl: "plain_opts pr" and sy: "ids_in_sync pr p"
    and w: "WriteEntry pr e = Inr b"
  shows "\<exists>p'. Parse pr p (b @ rest) = Inr ((Some (received pr e), p'), rest) \<and> ids_in_sync pr p' \<and> IoError p' = IoError p"
proof -
  note o = ok [unfolded flist_entry_ok_def]
  define x where "x = wire_flags (flag_word (preserveUID pr) (preserveGID pr) (entry_nsec e \<noteq> 0)) (fe_isdir e)"
  note bits = wire_flags_bits [of "preserveUID pr" "preserveGID pr" "entry_nsec e \<noteq> 0" "fe_isdir e", folded x_def]
  have b: "b = write_xflags (flag_word (preserveUID pr) (preserveGID pr) (entry_nsec e \<noteq> 0)) (fe_isdir e)
        @ [word_of_nat (length (entry_name e))] @ to_bytes (entry_name e) @ WriteVarlong (entry_size e) 3
        @ WriteVarlong (go_div_1e9 (fe_mtime e)) 4 @ write_nsec e @ WriteInt32 (fe_mode e)
        @ (if preserveUID pr then WriteVarint (word_of_int (fe_uid e)) else [])
        @ (if preserveGID pr then WriteVarint (word_of_int (fe_gid e)) else [])
        @ write_link pr e"
    using w o by (simp add: WriteEntry_def Let_def entry_xflags_flag_word write_ids_def split: if_splits)
  let ?u = "fe_uid (received pr e)" and ?g = "fe_gid (received pr e)" and ?l = "fe_link (received pr e)"
  have ids: "(if preserveUID pr then WriteVarint (word_of_int (fe_uid e)) else []) = (if preserveUID pr then WriteVarint (word_of_int ?u) else [])"
    "(if preserveGID pr then WriteVarint (word_of_int (fe_gid e)) else []) = (if preserveGID pr then WriteVarint (word_of_int ?g) else [])"
    by (simp_all add: received_def)
  have ok32: "id32 ?u" "id32 ?g" using o by (simp_all add: received_def id32_def)
  have u0: "\<not> preserveUID pr \<Longrightarrow> ?u = 0" "\<not> preserveGID pr \<Longrightarrow> ?g = 0" by (simp_all add: received_def)
  let ?p1 = "p\<lparr>lastname := to_bytes (entry_name e)\<rparr>"
  let ?p2 = "?p1\<lparr>lastMTime := go_div_1e9 (fe_mtime e) * 1000000000\<rparr>"
  let ?p3 = "?p2\<lparr>lastMode := fe_mode e\<rparr>" let ?p4 = "?p3\<lparr>lastUID := ?u\<rparr>"
  let ?p5 = "?p4\<lparr>lastGID := ?g\<rparr>" 
  have atime: "parse_atime pr x (fe_mode e) bs = Inr ((), bs)" for bs
    using pl by (simp add: parse_atime_def plain_opts_def rret_def)
  have rdev: "parse_rdev pr x (fe_mode e AND sIfmt) bs = Inr ((), bs)" for bs
    using o by (simp add: parse_rdev_def rret_def)
  have csum: "parse_csum pr (fe_mode e) bs = Inr ((), bs)" for bs
    using pl by (simp add: parse_csum_def plain_opts_def rret_def)
  have "Parse pr p (b @ rest) = Inr ((Some (received pr e), ?p5), rest)"
  proof -
    have xf: "parse_xflags p (write_xflags (flag_word (preserveUID pr) (preserveGID pr) (entry_nsec e \<noteq> 0)) (fe_isdir e) @ r)
        = Inr ((Some x, p), r)" for r
      unfolding x_def by (rule xflags_rt)
    have nm: "parse_name x p (word_of_nat (length (entry_name e)) # to_bytes (entry_name e) @ r) = Inr ((cleanPath (entry_name e), ?p1), r)" for r
      using parse_name_rt [OF bits(2,3)] o by simp
    have mt: "parse_mtime x ?p1 (WriteVarlong (go_div_1e9 (fe_mtime e)) 4 @ write_nsec e @ r) = Inr ((fe_mtime e, ?p2), r)" for r
      using o by (intro parse_mtime_rt) (simp_all add: bits)
    have ui: "parse_uid pr x ?p3 ((if preserveUID pr then WriteVarint (word_of_int (fe_uid e)) else []) @ r) = Inr ((?u, ?p4), r)" for r
      unfolding ids using ok32 u0 sy by (intro parse_uid_rt) (simp_all add: bits ids_in_sync_def)
    have gi: "parse_gid pr x ?p4 ((if preserveGID pr then WriteVarint (word_of_int (fe_gid e)) else []) @ r) = Inr ((?g, ?p5), r)" for r
      unfolding ids using ok32 u0 sy by (intro parse_gid_rt) (simp_all add: bits ids_in_sync_def)
    have li: "parse_link pr (fe_mode e AND sIfmt) (write_link pr e @ r) = Inr (?l, r)" for r
      using parse_link_rt [of e "fe_mode e AND sIfmt" pr r] o by (simp add: received_def)
    have sz: "ReadVarlong 3 (WriteVarlong (entry_size e) 3 @ r) = Inr (entry_size e, r)" for r
      using o by (blast intro: varlong3_rt)
    have kinds: "mode_ok (fe_mode e AND sIfmt)" "\<not> is_device (fe_mode e AND sIfmt)" using o by simp_all
    have fin: "\<lparr>fe_path = cleanPath (entry_name e), fe_isdir = (fe_mode e AND sIfmt = sIfDir),
        fe_issymlink = (fe_mode e AND sIfmt = sIfLnk), fe_mode = fe_mode e, fe_uid = ?u, fe_gid = ?g,
        fe_size = entry_size e, fe_mtime = fe_mtime e, fe_link = ?l\<rparr> = received pr e"
      using o by (simp add: received_def)
    have "parse_fields pr x p ([word_of_nat (length (entry_name e))] @ to_bytes (entry_name e) @ WriteVarlong (entry_size e) 3
        @ WriteVarlong (go_div_1e9 (fe_mtime e)) 4 @ write_nsec e @ WriteInt32 (fe_mode e)
        @ (if preserveUID pr then WriteVarint (word_of_int (fe_uid e)) else [])
        @ (if preserveGID pr then WriteVarint (word_of_int (fe_gid e)) else [])
        @ write_link pr e @ rest) = Inr ((received pr e, ?p5), rest)"
      unfolding parse_fields_def append_Cons append_Nil
      by (simp add: rbind_Inr nm sz mt ui gi li atime rdev csum parse_mode_rt [OF bits(5)] fin rret_apply kinds Let_def
          split del: if_split)
    then show ?thesis
      unfolding b Parse_def append_assoc
      by (simp add: rbind_Inr xf bits rret_apply)
  qed
  moreover have "ids_in_sync pr ?p5" using u0 by (simp add: ids_in_sync_def)
  ultimately show ?thesis by auto
qed


lemma shrinks_wire [shrink_intros]:
  "shrinks ReadInt32" "shrinks ReadVarint" "shrinks (ReadVarlong m)" "shrinks skipName" "shrinks ReadShortint"
  by (auto simp: ReadInt32_def ReadShortint_def ReadVarint_def ReadVarlong_def readVarintLen_def skipName_def
      intro!: shrink_intros)

lemma shrinks_option [shrink_intros]:
  "shrinks r \<Longrightarrow> (\<And>y. shrinks (f y)) \<Longrightarrow> shrinks (case x of None \<Rightarrow> r | Some y \<Rightarrow> f y)"
  by (cases x) simp_all

lemma shrinks_parse_fields [shrink_intros]: "shrinks (parse_fields pr x p)"
  unfolding parse_fields_def parse_name_def parse_prefix_def parse_name_len_def parse_mtime_def
    parse_mode_def parse_atime_def parse_uid_def parse_gid_def parse_rdev_def parse_link_def parse_csum_def
  by (intro shrink_intros)

lemma shrinks_Parse [shrink_intros]: "shrinks (Parse pr p)"
  unfolding Parse_def parse_xflags_def by (intro shrink_intros)



lemma write_list_rt:
  assumes "list_all (flist_entry_ok pr) es" "plain_opts pr" "ids_in_sync pr p" "write_list pr es = Inr b"
    "length es < k"
  shows "\<exists>p'. parse_list k pr p (b @ rest) = Inr ((map (received pr) es, p'), rest) \<and> IoError p' = IoError p"
  using assms(1,3-)
proof (induction es arbitrary: p b k)
  case Nil
  then obtain k' where "k = Suc k'" by (cases k) auto
  then show ?case using Nil
    by (auto simp: WriteEndOfFlist_def Parse_def parse_xflags_def reader_simps rbind_def)
next
  case (Cons e es)
  obtain k' where k: "k = Suc k'" using Cons.prems by (cases k) auto
  obtain b1 b2 where b: "WriteEntry pr e = Inr b1" "write_list pr es = Inr b2" "b = b1 @ b2"
    using Cons.prems(3) by (auto simp: bind_res_eq_Inr)
  obtain p1 where p1: "Parse pr p (b1 @ b2 @ rest) = Inr ((Some (received pr e), p1), b2 @ rest)" "ids_in_sync pr p1" "IoError p1 = IoError p"
    using Parse_WriteEntry [OF _ assms(2) Cons.prems(2) b(1)] Cons.prems(1) by auto
  obtain p2 where "parse_list k' pr p1 (b2 @ rest) = Inr ((map (received pr) es, p2), rest)" "IoError p2 = IoError p1"
    using Cons.IH [OF _ p1(2) b(2), of k'] Cons.prems k by auto
  then show ?case using p1 k b by (simp add: rbind_def rret_def)
qed

lemma WriteEntry_nonempty: "WriteEntry pr e = Inr b \<Longrightarrow> \<exists>x b'. b = x # b'"
  by (cases b) (auto simp: WriteEntry_def Let_def split: if_splits)

lemma write_list_length: "write_list pr es = Inr b \<Longrightarrow> length es < length b"
proof (induction es arbitrary: b)
  case (Cons e es)
  then obtain b1 b2 where "WriteEntry pr e = Inr b1" "write_list pr es = Inr b2" "b = b1 @ b2"
    by (auto simp: bind_res_eq_Inr)
  then show ?case using Cons.IH [of b2] WriteEntry_nonempty [of pr e b1] by auto
qed (simp add: WriteEndOfFlist_def)

lemma flist_roundtrip_aux:
  assumes "list_all (flist_entry_ok pr) es" "plain_opts pr" "write_list pr es = Inr b"
  shows "\<exists>p. recv_flist pr (b @ rest) = Inr ((map (received pr) es, p), rest) \<and> IoError p = 0"
  using write_list_rt [OF assms(1,2) _ assms(3), of NewFlistParser "Suc (length (b @ rest))" rest]
    write_list_length [OF assms(3)]
  by (simp add: recv_flist_def ids_in_sync_def NewFlistParser_def)

subsection \<open>Properties\<close>

text \<open>A path that stays inside the tree it is joined to.\<close>

definition path_inside :: "string \<Rightarrow> bool" where
  "path_inside p \<longleftrightarrow> \<not> HasPrefix p ''/'' \<and> ''..'' \<notin> set (split_at CHR ''/'' p)"

lemma cleanPath_inside: "path_inside (cleanPath p)"
  by (simp add: cleanPath_def path_inside_def HasPrefix_def)

lemma parse_fields_path:
  assumes "parse_fields pr x p bs = Inr ((e, p'), rest)"
  obtains n where "fe_path e = cleanPath n"
  using assms by (auto simp: parse_fields_def parse_name_def rbind_eq_Inr rret_def rfail_def Let_def split: if_splits)

lemma parse_fields_short:
  assumes "parse_fields pr x p (word_of_nat n # bs) = Inr ((e, p'), rest)"
    and "x AND XmitSameName = 0" "x AND XmitLongName = 0"
  shows "length (fe_path e) < 256"
proof -
  have "unat (word_of_nat n :: byte) < 256"
    using unsigned_less [of "word_of_nat n :: byte", where ?'a = nat] by simp
  moreover have "length (cleanPath q) \<le> length q" for q by (simp add: cleanPath_def)
  ultimately have l: "length (cleanPath (of_bytes bs1)) < 256" if "length bs1 = nat (uint (word_of_nat n :: byte))" for bs1
    using that by (metis length_of_bytes le_less_trans unat_eq_nat_uint)
  show ?thesis using assms
    by (auto simp: parse_fields_def parse_name_def parse_prefix_def parse_name_len_def rbind_eq_Inr
        rret_def rfail_def Let_def l dest!: read_full_Inr split: if_splits)
qed

text \<open>
  C17: a file list that was written is read back entry by entry, whatever follows it: every field that
  the options announce arrives, the others are empty, and a path arrives cleaned.
\<close>

theorem flist_roundtrip:
  assumes "list_all (flist_entry_ok pr) es" "plain_opts pr" "write_list pr es = Inr b"
  shows "\<exists>p. recv_flist pr (b @ rest) = Inr ((map (received pr) es, p), rest) \<and> IoError p = 0"
  using assms by (rule flist_roundtrip_aux)

definition sample_opts :: preserve where
  "sample_opts = \<lparr>preserveUID = True, preserveGID = False, preserveLinks = True, preserveDevices = False,
     preserveAtimes = False, checksumMode = False\<rparr>"

definition sample_entries :: "file_entry list" where
  "sample_entries =
     [\<lparr>fe_path = ''a'', fe_isdir = True, fe_issymlink = False, fe_mode = 0x41ED, fe_uid = 7, fe_gid = 0,
       fe_size = 0, fe_mtime = 1700000000000000000, fe_link = []\<rparr>,
      \<lparr>fe_path = ''a/b'', fe_isdir = False, fe_issymlink = False, fe_mode = 0x81A4, fe_uid = 1000, fe_gid = 0,
       fe_size = 123456, fe_mtime = 1700000000123456789, fe_link = []\<rparr>,
      \<lparr>fe_path = ''l'', fe_isdir = False, fe_issymlink = True, fe_mode = 0xA1FF, fe_uid = 1000, fe_gid = 0,
       fe_size = 3, fe_mtime = 0, fe_link = ''a/b''\<rparr>]"

lemma sample_entries_ok: "list_all (flist_entry_ok sample_opts) sample_entries"
  by (simp add: sample_entries_def sample_opts_def flist_entry_ok_def entry_name_def mode_ok_def is_device_def
      mode_defs varlong_ok_def entry_size_def id32_def cleanPath_def HasPrefix_def)

lemma sample_received: "map (received sample_opts) sample_entries = sample_entries"
  by (simp add: sample_entries_def sample_opts_def received_def entry_name_def entry_size_def cleanPath_def HasPrefix_def)

theorem flist_roundtrip_witness:
  "\<exists>b p. write_list sample_opts sample_entries = Inr b \<and>
     recv_flist sample_opts (b @ [9]) = Inr ((sample_entries, p), [9])"
proof -
  have "\<exists>b. write_list sample_opts sample_entries = Inr b"
    by (simp add: sample_entries_def WriteEntry_def entry_name_def Let_def)
  then obtain b where b: "write_list sample_opts sample_entries = Inr b" ..
  have "plain_opts sample_opts" by (simp add: plain_opts_def sample_opts_def)
  from flist_roundtrip [OF sample_entries_ok this b, of "[9]"] b show ?thesis
    unfolding sample_received by auto
qed

text \<open>
  C30: the path of an entry a peer can make the parser accept never leaves the tree: it is not
  absolute and has no dot-dot segment.
\<close>

theorem parsed_path_inside:
  assumes "Parse pr p bs = Inr ((Some e, p'), rest)"
  shows "path_inside (fe_path e)"
proof -
  obtain x p1 mid where "parse_fields pr x p1 mid = Inr ((e, p'), rest)"
    using assms by (auto simp: Parse_def rbind_eq_Inr rret_def rfail_def split: option.splits if_splits)
  then show ?thesis by (rule parse_fields_path) (simp add: cleanPath_inside)
qed

theorem parsed_path_inside_witness:
  "\<exists>e p' rest. Parse sample_opts NewFlistParser
      (case WriteEntry sample_opts (hd sample_entries) of Inr b \<Rightarrow> b | Inl _ \<Rightarrow> []) = Inr ((Some e, p'), rest)
    \<and> path_inside (fe_path e)"
proof -
  have w: "WriteEntry sample_opts (hd sample_entries) =
      Inr (case WriteEntry sample_opts (hd sample_entries) of Inr b \<Rightarrow> b | Inl _ \<Rightarrow> [])" (is "_ = Inr ?b")
    by (simp add: sample_entries_def WriteEntry_def entry_name_def Let_def)
  have "flist_entry_ok sample_opts (hd sample_entries)"
    using sample_entries_ok by (simp add: sample_entries_def)
  from Parse_WriteEntry [OF this _ _ w, of NewFlistParser "[]"]
  obtain p' where "Parse sample_opts NewFlistParser (?b @ []) = Inr ((Some (received sample_opts (hd sample_entries)), p'), [])"
    by (auto simp: plain_opts_def ids_in_sync_def sample_opts_def NewFlistParser_def)
  then show ?thesis using parsed_path_inside by (metis append_Nil2)
qed



text \<open>
  The name's length is sent as one byte and \<open>XMIT_LONG_NAME\<close> is never set, so an entry whose
  name is longer than 255 bytes is accepted by the writer and cannot be read back: every entry a
  parser makes of its bytes has another path.
\<close>

lemma long_name_not_read_back:
  assumes "255 < length (entry_name e)" "WriteEntry pr e = Inr b"
    and "Parse pr' p (b @ rest) = Inr ((Some e', p'), rest')"
  shows "fe_path e' \<noteq> entry_name e"
proof -
  let ?f = "flag_word (preserveUID pr) (preserveGID pr) (entry_nsec e \<noteq> 0)"
  obtain bs where b: "b = write_xflags ?f (fe_isdir e) @ word_of_nat (length (entry_name e)) # bs"
    using assms(2) by (auto simp: WriteEntry_def Let_def entry_xflags_flag_word split: if_splits)
  obtain p2 where "parse_fields pr' (wire_flags ?f (fe_isdir e)) p
      (word_of_nat (length (entry_name e)) # bs @ rest) = Inr ((e', p2), rest')"
    using assms(3) by (auto simp: b Parse_def rbind_Inr xflags_rt wire_flags_bits rbind_eq_Inr rret_def)
  then have "length (fe_path e') < 256" by (rule parse_fields_short) (rule wire_flags_bits)+
  then show ?thesis using assms(1) by auto
qed

lemma stable_wire [stable_intros]:
  "stable ReadInt32" "stable ReadVarint" "stable (ReadVarlong m)" "stable skipName"
  by (auto simp: ReadInt32_def ReadVarint_def ReadVarlong_def readVarintLen_def skipName_def Let_def
      intro!: stable_intros)

lemma stable_Parse: "stable (Parse pr p)"
  unfolding Parse_def parse_xflags_def parse_fields_def parse_name_def parse_prefix_def parse_name_len_def
    parse_mtime_def parse_mode_def parse_atime_def parse_uid_def parse_gid_def parse_rdev_def parse_link_def
    parse_csum_def Let_def
  by (intro stable_intros)

definition bare_opts :: preserve where
  "bare_opts = \<lparr>preserveUID = False, preserveGID = False, preserveLinks = False, preserveDevices = False,
     preserveAtimes = False, checksumMode = False\<rparr>"

lemma short_parse: "\<exists>e p' r. Parse bare_opts NewFlistParser (0x18 # 0 # replicate 11 0x61) = Inr ((Some e, p'), r)"
proof -
  have "case Parse bare_opts NewFlistParser (0x18 # 0 # replicate 11 0x61) of Inr ((Some _, _), _) \<Rightarrow> True | _ \<Rightarrow> False"
    by code_simp
  then show ?thesis by (auto split: sum.splits option.splits)
qed

text \<open>
  A long name with a negative length passes the upper bound check and reaches the allocation,
  which panics, in whatever state the parser is.
\<close>

lemma negative_name_length_panics:
  assumes "sint v < 0"
  shows "Parse pr p (0x40 # WriteVarint v @ rest) = Inl (Panic ''makeslice: len out of range'')"
  using assms
  by (simp add: Parse_def parse_fields_def parse_name_def parse_prefix_def parse_name_len_def
      rbind_def parse_xflags_short xmit_defs codec_simps rret_def rfail_def)

end
