(* ===== verification/FlistOrder.thy ===== *)
theory FlistOrder
  imports Flist "HOL-Library.List_Lexorder" "HOL-Library.Multiset"
begin

text \<open>
  The order of the file list (\<open>fNameCmp\<close>, \<open>splitDirBase\<close>, \<open>SortFlistEntries\<close> of
  \<open>internal/front/rsync/protocol/flist.go\<close>).  Both ends number the entries by their place in this
  order, so it has to be one.  The comparison is a two-sided state machine over the segments of
  the paths; \<open>cmp_loop\<close> is its loop.  Its specification is a key: \<open>fNameCmp_key\<close> shows that the
  machine compares the keys lexicographically.
\<close>

subsection \<open>The comparison\<close>

datatype fncState = s_DIR | s_SLASH | s_BASE | s_TRAILING
datatype fncType = t_PATH | t_ITEM

definition isDirType :: "file_entry \<Rightarrow> fncType" where
  "isDirType e = (if fe_isdir e then t_PATH else t_ITEM)"

definition splitDirBase :: "string \<Rightarrow> string \<times> string" where
  "splitDirBase path =
     (let p = TrimSuffix path ''/'' in
      case last_index CHR ''/'' p of
        None \<Rightarrow> ([], p)
      | Some i \<Rightarrow> if 0 < i then (take i p, drop (Suc i) p) else ([], p))"

record cmp_side =
  sd_state :: fncState
  sd_type :: fncType
  sd_c :: string

definition start_side :: "file_entry \<Rightarrow> cmp_side" where
  "start_side e = (let (d, b) = splitDirBase (fe_path e) in
     if d = [] then
       (if isDirType e = t_PATH \<and> (b = [] \<or> b = ''.'')
        then \<lparr>sd_state = s_TRAILING, sd_type = t_ITEM, sd_c = []\<rparr>
        else \<lparr>sd_state = s_BASE, sd_type = isDirType e, sd_c = b\<rparr>)
     else \<lparr>sd_state = s_DIR, sd_type = t_PATH, sd_c = d\<rparr>)"

text \<open>The transition of a side whose segment is used up.\<close>

fun advance :: "file_entry \<Rightarrow> cmp_side \<Rightarrow> cmp_side" where
  "advance e s = (case sd_state s of
      s_DIR \<Rightarrow> s\<lparr>sd_state := s_SLASH, sd_c := ''/''\<rparr>
    | s_SLASH \<Rightarrow> (let b = snd (splitDirBase (fe_path e)) in
        if isDirType e = t_PATH \<and> b = ''.''
        then \<lparr>sd_state = s_TRAILING, sd_type = t_ITEM, sd_c = []\<rparr>
        else \<lparr>sd_state = s_BASE, sd_type = isDirType e, sd_c = b\<rparr>)
    | s_BASE \<Rightarrow>
        (if sd_type s = t_PATH then s\<lparr>sd_state := s_TRAILING, sd_c := ''/''\<rparr>
         else s\<lparr>sd_state := s_TRAILING, sd_type := t_ITEM\<rparr>)
    | s_TRAILING \<Rightarrow> s\<lparr>sd_type := t_ITEM\<rparr>)"

definition used_up :: "cmp_side \<Rightarrow> bool" where
  "used_up s \<longleftrightarrow> sd_state s = s_TRAILING \<or> sd_state s = s_BASE \<and> sd_type s \<noteq> t_PATH"

definition type_cmp :: "fncType \<Rightarrow> int" where
  "type_cmp t = (if t = t_PATH then 1 else -1)"

fun state_rank :: "fncState \<Rightarrow> nat" where
  "state_rank s_DIR = 3" | "state_rank s_SLASH = 2" | "state_rank s_BASE = 1" | "state_rank s_TRAILING = 0"

definition side_measure :: "file_entry \<Rightarrow> cmp_side \<Rightarrow> nat" where
  "side_measure e s = length (sd_c s) + state_rank (sd_state s) * (length (snd (splitDirBase (fe_path e))) + 2)"

lemma advance_measure:
  "sd_c s = [] \<Longrightarrow> side_measure e (advance e s) \<le> side_measure e s"
  "sd_c s = [] \<Longrightarrow> sd_state s \<noteq> s_TRAILING \<Longrightarrow> side_measure e (advance e s) < side_measure e s"
  by (cases "sd_state s"; simp add: side_measure_def Let_def)+

lemma advance_stays: "sd_c s = [] \<Longrightarrow> sd_state s = s_TRAILING \<Longrightarrow> sd_c (advance e s) = []"
  by simp

lemma tl_measure: "sd_c s = x # xs \<Longrightarrow> side_measure e (s\<lparr>sd_c := xs\<rparr>) < side_measure e s"
  by (simp add: side_measure_def)

definition adv_if :: "file_entry \<Rightarrow> cmp_side \<Rightarrow> cmp_side" where
  "adv_if e s = (if sd_c s = [] then advance e s else s)"

lemma adv_if_measure: "side_measure e (adv_if e s) \<le> side_measure e s"
  by (simp add: adv_if_def advance_measure del: advance.simps)

lemma adv_if_measure_strict:
  "sd_c (adv_if e s) = [] \<Longrightarrow> \<not> used_up s \<Longrightarrow> side_measure e (adv_if e s) < side_measure e s"
  by (auto simp: adv_if_def used_up_def advance_measure simp del: advance.simps split: if_splits)

function cmp_loop :: "file_entry \<Rightarrow> file_entry \<Rightarrow> cmp_side \<Rightarrow> cmp_side \<Rightarrow> int" where
  "cmp_loop a b s1 s2 =
     (let s1' = adv_if a s1 in
      if sd_c s1 = [] \<and> sd_c s2 \<noteq> [] \<and> sd_type s1' \<noteq> sd_type s2 then type_cmp (sd_type s1')
      else if sd_c s2 = [] \<and> used_up s2 \<and> sd_c s1' = [] then 0
      else let s2' = adv_if b s2 in
        if sd_c s2 = [] \<and> sd_type s1' \<noteq> sd_type s2' then type_cmp (sd_type s1')
        else (case (sd_c s1', sd_c s2') of
            (x # xs, y # ys) \<Rightarrow>
              let d = of_char x - (of_char y :: int) in
              if d \<noteq> 0 then d else cmp_loop a b (s1'\<lparr>sd_c := xs\<rparr>) (s2'\<lparr>sd_c := ys\<rparr>)
          | (x # xs, []) \<Rightarrow> of_char x
          | ([], y # ys) \<Rightarrow> - of_char y
          | ([], []) \<Rightarrow> cmp_loop a b s1' s2'))"
  by pat_completeness auto
termination
proof (relation "measure (\<lambda>(a, b, s1, s2). side_measure a s1 + side_measure b s2)")
  fix a b s1 s2 s1' s2' p q and x y :: char and xs ys and d :: int
  assume "s1' = adv_if a s1" "s2' = adv_if b s2"
    and pq: "(p, q) = (sd_c s1', sd_c s2')" "p = x # xs" "q = y # ys"
  then show "((a, b, s1'\<lparr>sd_c := xs\<rparr>, s2'\<lparr>sd_c := ys\<rparr>), a, b, s1, s2)
      \<in> measure (\<lambda>(a, b, s1, s2). side_measure a s1 + side_measure b s2)"
    using adv_if_measure [of a s1] adv_if_measure [of b s2] tl_measure [of "adv_if a s1" x xs a] tl_measure [of "adv_if b s2" y ys b]
    by simp
next
  fix a b s1 s2 s1' s2' p q
  assume s: "s1' = adv_if a s1" "s2' = adv_if b s2"
    and n: "\<not> (sd_c s2 = [] \<and> used_up s2 \<and> sd_c s1' = [])"
    and pq: "(p, q) = (sd_c s1', sd_c s2')" "p = []" "q = []"
  have "sd_c s2 = []" using s pq by (auto simp: adv_if_def split: if_splits)
  then have "side_measure b (adv_if b s2) < side_measure b s2"
    using n s pq by (intro adv_if_measure_strict) auto
  then show "((a, b, s1', s2'), a, b, s1, s2) \<in> measure (\<lambda>(a, b, s1, s2). side_measure a s1 + side_measure b s2)"
    using s adv_if_measure [of a s1] by simp
qed simp

declare cmp_loop.simps [simp del]

definition fNameCmp :: "file_entry \<Rightarrow> file_entry \<Rightarrow> int" where
  "fNameCmp a b =
     (let s1 = start_side a; s2 = start_side b in
      if sd_type s1 \<noteq> sd_type s2 then type_cmp (sd_type s1) else cmp_loop a b s1 s2)"

text \<open>
  \<open>sort.SliceStable\<close>: elements are inserted one after the other behind all that are not greater.
  The accumulator is kept in reverse.
\<close>

fun ins_rev :: "('a \<Rightarrow> 'a \<Rightarrow> bool) \<Rightarrow> 'a \<Rightarrow> 'a list \<Rightarrow> 'a list" where
  "ins_rev lt x [] = [x]"
| "ins_rev lt x (y # ys) = (if lt x y then y # ins_rev lt x ys else x # y # ys)"

definition stable_sort :: "('a \<Rightarrow> 'a \<Rightarrow> bool) \<Rightarrow> 'a list \<Rightarrow> 'a list" where
  "stable_sort lt xs = rev (foldl (\<lambda>acc x. ins_rev lt x acc) [] xs)"

definition SortFlistEntries :: "file_entry list \<Rightarrow> file_entry list" where
  "SortFlistEntries es = stable_sort (\<lambda>a b. fNameCmp a b < 0) es"

subsection \<open>The key the comparison sorts by\<close>

text \<open>A byte with the type it is compared under; a file's byte sorts before a directory's.\<close>

definition code :: "fncType \<Rightarrow> char \<Rightarrow> nat" where
  "code t c = (if t = t_PATH then 256 else 0) + of_char c"

definition base_key :: "file_entry \<Rightarrow> nat list" where
  "base_key e = (let b = snd (splitDirBase (fe_path e)); t = isDirType e in
     if t = t_PATH then (if b = [] \<or> b = ''.'' then [] else map (code t_PATH) (b @ ''/''))
     else map (code t_ITEM) b)"

definition flist_key :: "file_entry \<Rightarrow> nat list" where
  "flist_key e = (let d = fst (splitDirBase (fe_path e)) in
     (if d = [] then [] else map (code t_PATH) (d @ ''/'')) @ base_key e)"

definition name_ok :: "file_entry \<Rightarrow> bool" where
  "name_ok e \<longleftrightarrow> CHR 0x00 \<notin> set (fe_path e) \<and>
     (case splitDirBase (fe_path e) of (d, b) \<Rightarrow> d \<noteq> [] \<longrightarrow> b \<noteq> [])"

fun rest_key :: "file_entry \<Rightarrow> cmp_side \<Rightarrow> nat list" where
  "rest_key e s = map (code (sd_type s)) (sd_c s) @ (case sd_state s of
      s_DIR \<Rightarrow> code t_PATH CHR ''/'' # base_key e
    | s_SLASH \<Rightarrow> base_key e
    | s_BASE \<Rightarrow> (if sd_type s = t_PATH then [code t_PATH CHR ''/''] else [])
    | s_TRAILING \<Rightarrow> [])"

definition side_ok :: "file_entry \<Rightarrow> cmp_side \<Rightarrow> bool" where
  "side_ok e s \<longleftrightarrow> CHR 0x00 \<notin> set (sd_c s) \<and> CHR 0x00 \<notin> set (snd (splitDirBase (fe_path e))) \<and>
     (sd_state s \<in> {s_DIR, s_SLASH} \<longrightarrow> sd_type s = t_PATH \<and> snd (splitDirBase (fe_path e)) \<noteq> [])"

lemma adv_if_props:
  assumes "side_ok e s"
  shows "rest_key e (adv_if e s) = rest_key e s" "side_ok e (adv_if e s)"
    "rest_key e s = [] \<Longrightarrow> sd_c (adv_if e s) = [] \<and> sd_type (adv_if e s) = t_ITEM"
    "rest_key e s \<noteq> [] \<Longrightarrow> sd_c (adv_if e s) \<noteq> []"
    "sd_c s = [] \<Longrightarrow> used_up s \<Longrightarrow> rest_key e s = []"
  using assms
  by (cases "sd_state s"; auto simp: adv_if_def side_ok_def base_key_def isDirType_def Let_def used_up_def split: if_splits)+


declare rest_key.simps [simp del]

lemma code_less:
  "code t x < code t y \<longleftrightarrow> (of_char x :: int) < of_char y"
  "code t x = code t y \<longleftrightarrow> (of_char x :: int) = of_char y"
  "code t_ITEM x < code t_PATH y"
proof -
  have i: "(of_char c :: int) = int (of_char c)" for c by (rule of_nat_of_char [symmetric])
  show "code t x < code t y \<longleftrightarrow> (of_char x :: int) < of_char y"
    "code t x = code t y \<longleftrightarrow> (of_char x :: int) = of_char y"
    by (simp_all only: code_def i of_nat_less_iff of_nat_eq_iff add_less_cancel_left add_left_cancel)
  show "code t_ITEM x < code t_PATH y" using nat_of_char_less_256 [of x] by (simp add: code_def trans_less_add1)
qed

lemma of_char_pos: "x \<noteq> CHR 0x00 \<Longrightarrow> 0 < (of_char x :: int)"
proof -
  assume "x \<noteq> CHR 0x00"
  then have "of_char x \<noteq> (0 :: nat)" using of_char_eq_iff [of x "CHR 0x00", where ?'a = nat] by simp
  then show ?thesis using of_nat_of_char [of x, where ?'a = int] by simp
qed

lemma rest_key_Cons:
  "sd_c s = x # xs \<Longrightarrow> rest_key e s = code (sd_type s) x # rest_key e (s\<lparr>sd_c := xs\<rparr>)"
  by (simp add: rest_key.simps)

lemma side_ok_tl: "side_ok e s \<Longrightarrow> sd_c s = x # xs \<Longrightarrow> side_ok e (s\<lparr>sd_c := xs\<rparr>) \<and> x \<noteq> CHR 0x00"
  by (auto simp: side_ok_def)

text \<open>How two keys compare, as the sign of the machine's result.\<close>

definition agrees :: "int \<Rightarrow> nat list \<Rightarrow> nat list \<Rightarrow> bool" where
  "agrees d k1 k2 \<longleftrightarrow> (d < 0 \<longleftrightarrow> k1 < k2) \<and> (d = 0 \<longleftrightarrow> k1 = k2)"

lemma types_differ:
  assumes "t1 \<noteq> t2"
  shows "agrees (type_cmp t1) (code t1 x # k1) (code t2 y # k2)"
  using assms code_less(3) [of x y] code_less(3) [of y x]
  by (cases t1; cases t2) (auto simp: agrees_def type_cmp_def)

lemma cmp_loop_key:
  assumes "side_ok a s1" "side_ok b s2" "sd_type s1 = sd_type s2"
  shows "agrees (cmp_loop a b s1 s2) (rest_key a s1) (rest_key b s2)"
  using assms
proof (induction a b s1 s2 rule: cmp_loop.induct)
  case (1 a b s1 s2)
  define s1' where "s1' = adv_if a s1"
  define s2' where "s2' = adv_if b s2"
  note p1 = adv_if_props [OF "1.prems"(1), folded s1'_def]
  note p2 = adv_if_props [OF "1.prems"(2), folded s2'_def]
  have stay: "sd_c s1 \<noteq> [] \<Longrightarrow> s1' = s1" "sd_c s2 \<noteq> [] \<Longrightarrow> s2' = s2"
    by (auto simp: s1'_def s2'_def adv_if_def)
  note unf = cmp_loop.simps [of a b s1 s2, unfolded Let_def, folded s1'_def s2'_def]
  show ?case
  proof (cases "sd_type s1' = sd_type s2'")
    case False
    have "\<not> (sd_c s2 = [] \<and> used_up s2 \<and> sd_c s1' = [])"
      using p1(3,4) p2(3,5) False by metis
    then have r: "cmp_loop a b s1 s2 = type_cmp (sd_type s1')"
      using False stay "1.prems"(3) by (simp only: unf split: if_split) metis
    show ?thesis
    proof (cases "sd_c s1'")
      case Nil
      then have "rest_key a s1 = []" "sd_type s1' = t_ITEM" using p1(3,4) by auto
      moreover have "sd_type s2' = t_PATH" using False \<open>sd_type s1' = t_ITEM\<close> by (cases "sd_type s2'") auto
      then have "rest_key b s2 \<noteq> []" using p2(3) by auto
      ultimately show ?thesis by (cases "rest_key b s2") (auto simp: r agrees_def type_cmp_def)
    next
      case (Cons x xs)
      then have k1: "rest_key a s1 = code (sd_type s1') x # rest_key a (s1'\<lparr>sd_c := xs\<rparr>)"
        using p1(1) rest_key_Cons by metis
      show ?thesis
      proof (cases "sd_c s2'")
        case Nil
        then have "rest_key b s2 = []" "sd_type s2' = t_ITEM" using p2(3,4) by auto
        then show ?thesis using False by (cases "sd_type s1'") (auto simp: r k1 agrees_def type_cmp_def)
      next
        case (Cons y ys)
        then have "rest_key b s2 = code (sd_type s2') y # rest_key b (s2'\<lparr>sd_c := ys\<rparr>)"
          using p2(1) rest_key_Cons by metis
        then show ?thesis using types_differ [OF False] by (simp add: r k1)
      qed
    qed
  next
    case True
    show ?thesis
    proof (cases "sd_c s2 = [] \<and> used_up s2 \<and> sd_c s1' = []")
      case z: True
      then have "cmp_loop a b s1 s2 = 0" using True by (simp only: unf) auto
      moreover have "rest_key a s1 = []" "rest_key b s2 = []" using z p1(4) p2(5) by auto
      ultimately show ?thesis by (simp add: agrees_def)
    next
      case nz: False
      have nt: "\<not> (sd_c s1 = [] \<and> sd_c s2 \<noteq> [] \<and> sd_type s1' \<noteq> sd_type s2)" using True stay by auto
      have nt2: "\<not> (sd_c s2 = [] \<and> sd_type s1' \<noteq> sd_type s2')" using True by simp
      note IH = "1.IH" [OF s1'_def nt nz s2'_def nt2 refl]
      have r: "cmp_loop a b s1 s2 = (case (sd_c s1', sd_c s2') of
            (x # xs, y # ys) \<Rightarrow>
              if of_char x - (of_char y :: int) \<noteq> 0 then of_char x - of_char y
              else cmp_loop a b (s1'\<lparr>sd_c := xs\<rparr>) (s2'\<lparr>sd_c := ys\<rparr>)
          | (x # xs, []) \<Rightarrow> of_char x | ([], y # ys) \<Rightarrow> - of_char y | ([], []) \<Rightarrow> cmp_loop a b s1' s2')"
        by (simp only: unf nt nz nt2 if_False)
      show ?thesis
      proof (cases "sd_c s1'")
        case c1: Nil
        then have k1: "rest_key a s1 = []" using p1(4) by auto
        show ?thesis
        proof (cases "sd_c s2'")
          case c2: Nil
          then show ?thesis
            using IH(1) [OF c1 c2 p1(2) p2(2) True] by (simp add: r c1 p1(1) p2(1))
        next
          case c2: (Cons y ys)
          then show ?thesis using rest_key_Cons [OF c2, of b] side_ok_tl [OF p2(2) c2] p2(1) of_char_pos [of y]
            by (simp add: r c1 k1 agrees_def)
        qed
      next
        case c1: (Cons x xs)
        note k1 = rest_key_Cons [OF c1, of a, unfolded p1(1)]
        show ?thesis
        proof (cases "sd_c s2'")
          case c2: Nil
          then have "rest_key b s2 = []" using p2(4) by auto
          then show ?thesis using side_ok_tl [OF p1(2) c1] of_char_pos [of x]
            by (simp add: r c1 c2 k1 agrees_def)
        next
          case c2: (Cons y ys)
          note k2 = rest_key_Cons [OF c2, of b, unfolded p2(1)]
          show ?thesis
          proof (cases "of_char x = (of_char y :: int)")
            case eq: True
            then show ?thesis
              using IH(2) [OF c1 c2 refl] side_ok_tl [OF p1(2) c1] side_ok_tl [OF p2(2) c2] True
              by (simp add: r c1 c2 k1 k2 agrees_def code_less(2))
          next
            case False
            then show ?thesis by (auto simp: r c1 c2 k1 k2 agrees_def code_less True)
          qed
        qed
      qed
    qed
  qed
qed

lemma splitDirBase_set:
  assumes "splitDirBase p = (d, b)" "c \<in> set d \<or> c \<in> set b"
  shows "c \<in> set p"
proof -
  have "set (TrimSuffix p s) \<subseteq> set p" for s by (auto simp: TrimSuffix_def dest: in_set_takeD)
  then show ?thesis using assms
    by (auto simp: splitDirBase_def Let_def split: option.splits if_splits
        dest!: in_set_takeD in_set_dropD)
qed

lemma start_side_props:
  assumes "name_ok e"
  shows "side_ok e (start_side e)" "rest_key e (start_side e) = flist_key e"
    "sd_c (start_side e) = [] \<Longrightarrow> flist_key e = [] \<and> sd_type (start_side e) = t_ITEM"
proof -
  obtain d b where db: "splitDirBase (fe_path e) = (d, b)" by fastforce
  have nz: "CHR 0x00 \<notin> set d" "CHR 0x00 \<notin> set b"
    using splitDirBase_set [OF db, of "CHR 0x00"] assms by (auto simp: name_ok_def)
  have t: "isDirType e = t_PATH \<or> isDirType e = t_ITEM" by (cases "isDirType e") auto
  show "side_ok e (start_side e)" "rest_key e (start_side e) = flist_key e"
    using assms nz t
    by (auto simp: side_ok_def start_side_def db name_ok_def rest_key.simps flist_key_def base_key_def Let_def)
  show "sd_c (start_side e) = [] \<Longrightarrow> flist_key e = [] \<and> sd_type (start_side e) = t_ITEM"
    using assms nz t
    by (auto simp: start_side_def db flist_key_def base_key_def Let_def split: if_splits)
qed

lemma fNameCmp_agrees:
  assumes "name_ok a" "name_ok b"
  shows "agrees (fNameCmp a b) (flist_key a) (flist_key b)"
proof -
  note pa = start_side_props [OF assms(1)] and pb = start_side_props [OF assms(2)]
  let ?s = "start_side a" and ?t = "start_side b"
  show ?thesis
  proof (cases "sd_type ?s = sd_type ?t")
    case True
    then show ?thesis using cmp_loop_key [OF pa(1) pb(1) True] by (simp add: fNameCmp_def Let_def pa(2) pb(2))
  next
    case False
    then have r: "fNameCmp a b = type_cmp (sd_type ?s)" by (simp add: fNameCmp_def Let_def)
    show ?thesis
    proof (cases "sd_c ?s = []")
      case s: True
      then have "sd_c ?t \<noteq> []" using pa(3) pb(3) False by auto
      then obtain y ys where "sd_c ?t = y # ys" by (cases "sd_c ?t") auto
      then have "flist_key b \<noteq> []" using rest_key_Cons pb(2) by (metis list.distinct(1))
      then show ?thesis using pa(3) [OF s] by (cases "flist_key b") (auto simp: r agrees_def type_cmp_def)
    next
      case False
      then obtain x xs where x: "sd_c ?s = x # xs" by (cases "sd_c ?s") auto
      note kx = rest_key_Cons [OF x, of a, unfolded pa(2)]
      show ?thesis
      proof (cases "sd_c ?t")
        case Nil
        then have "flist_key b = []" "sd_type ?t = t_ITEM" using pb(3) by auto
        moreover have "sd_type ?s = t_PATH" using \<open>sd_type ?s \<noteq> sd_type ?t\<close> calculation by (cases "sd_type ?s") auto
        ultimately show ?thesis by (simp add: r kx agrees_def type_cmp_def)
      next
        case (Cons y ys)
        note ky = rest_key_Cons [OF Cons, of b, unfolded pb(2)]
        show ?thesis using types_differ [OF \<open>sd_type ?s \<noteq> sd_type ?t\<close>] by (simp add: r kx ky)
      qed
    qed
  qed
qed

subsection \<open>Stable sorting\<close>

lemma ins_rev_mset: "mset (ins_rev lt x ys) = add_mset x (mset ys)"
  by (induction ys) auto

lemma ins_rev_filter:
  fixes f :: "'a \<Rightarrow> 'k :: linorder"
  shows "(\<And>y. y \<in> set ys \<Longrightarrow> lt x y \<longleftrightarrow> f x < f y) \<Longrightarrow>
   filter (\<lambda>z. k = f z) (ins_rev lt x ys) = filter (\<lambda>z. k = f z) (x # ys)"
  by (induction ys) auto

lemma ins_rev_sorted:
  assumes "\<And>y. y \<in> set ys \<Longrightarrow> lt x y \<longleftrightarrow> f x < (f y :: 'k :: linorder)" "sorted_wrt (\<lambda>a b. f b \<le> f a) ys"
  shows "sorted_wrt (\<lambda>a b. f b \<le> f a) (ins_rev lt x ys)"
  using assms
proof (induction ys)
  case (Cons y ys)
  have "set (ins_rev lt x ys) = insert x (set ys)"
    using arg_cong [OF ins_rev_mset [of lt x ys], of set_mset] by simp
  then show ?case using Cons by (auto intro: order_trans less_imp_le)
qed simp

lemma stable_sort_sort_key:
  fixes f :: "'a \<Rightarrow> 'k :: linorder"
  assumes "\<And>x y. x \<in> set xs \<Longrightarrow> y \<in> set xs \<Longrightarrow> lt x y \<longleftrightarrow> f x < f y"
  shows "stable_sort lt xs = sort_key f xs"
proof -
  define acc where "acc = foldl (\<lambda>acc x. ins_rev lt x acc) []"
  have "mset (acc ys) = mset ys \<and> sorted_wrt (\<lambda>a b. f b \<le> f a) (acc ys) \<and>
      (\<forall>k. filter (\<lambda>z. k = f z) (acc ys) = rev (filter (\<lambda>z. k = f z) ys))" if "set ys \<subseteq> set xs" for ys
    using that
  proof (induction ys rule: rev_induct)
    case (snoc y ys)
    have ac: "acc (ys @ [y]) = ins_rev lt y (acc ys)" by (simp add: acc_def)
    have IH: "mset (acc ys) = mset ys" "sorted_wrt (\<lambda>a b. f b \<le> f a) (acc ys)"
      "\<And>k. filter (\<lambda>z. k = f z) (acc ys) = rev (filter (\<lambda>z. k = f z) ys)"
      using snoc by auto
    have "set (acc ys) = set ys" using IH(1) by (metis set_mset_mset)
    then have lt: "lt y z \<longleftrightarrow> f y < f z" if "z \<in> set (acc ys)" for z
      using that snoc.prems assms by auto
    show ?case
      using ins_rev_sorted [of "acc ys" lt y f] ins_rev_filter [of "acc ys" lt y f] lt IH
      by (auto simp: ac ins_rev_mset)
  qed (simp add: acc_def)
  from this [of xs] have p: "mset (acc xs) = mset xs" "sorted_wrt (\<lambda>a b. f b \<le> f a) (acc xs)"
    "\<And>k. filter (\<lambda>z. k = f z) (acc xs) = rev (filter (\<lambda>z. k = f z) xs)" by auto
  have "sort_key f xs = rev (acc xs)"
  proof (rule properties_for_sort_key)
    show "sorted (map f (rev (acc xs)))"
      using p(2) by (simp add: sorted_map sorted_wrt_rev)
  qed (simp_all add: p rev_filter [symmetric])
  then show ?thesis by (simp add: stable_sort_def acc_def)
qed

subsection \<open>Properties\<close>

text \<open>
  C18: the comparison is the lexicographic order of the keys, ties included; it is therefore a total
  preorder, and both ends of a transfer agree on the numbering.
\<close>

theorem fNameCmp_is_key_order:
  assumes "name_ok a" "name_ok b"
  shows "(fNameCmp a b < 0 \<longleftrightarrow> flist_key a < flist_key b) \<and> (fNameCmp a b = 0 \<longleftrightarrow> flist_key a = flist_key b)"
  using fNameCmp_agrees [OF assms] by (simp add: agrees_def)

definition dir_named :: "string \<Rightarrow> file_entry" where
  "dir_named p = \<lparr>fe_path = p, fe_isdir = True, fe_issymlink = False, fe_mode = 0x41ED, fe_uid = 0, fe_gid = 0,
     fe_size = 0, fe_mtime = 0, fe_link = []\<rparr>"

definition file_named :: "string \<Rightarrow> file_entry" where
  "file_named p = \<lparr>fe_path = p, fe_isdir = False, fe_issymlink = False, fe_mode = 0x81A4, fe_uid = 0, fe_gid = 0,
     fe_size = 0, fe_mtime = 0, fe_link = []\<rparr>"

theorem fNameCmp_is_key_order_witness:
  "fNameCmp (file_named ''z'') (dir_named ''a'') < 0 \<longleftrightarrow> flist_key (file_named ''z'') < flist_key (dir_named ''a'')"
proof -
  have "name_ok (file_named ''z'')" "name_ok (dir_named ''a'')" by code_simp+
  from fNameCmp_is_key_order [OF this] show ?thesis by simp
qed

text \<open>
  \<open>SortFlistEntries\<close> is the stable sort by the key: a permutation of the entries, ascending,
  with equal entries in their old order.
\<close>

lemma SortFlistEntries_sorts:
  assumes "list_all name_ok es"
  shows "SortFlistEntries es = sort_key flist_key es"
  unfolding SortFlistEntries_def
  using assms fNameCmp_agrees by (intro stable_sort_sort_key) (auto simp: list_all_iff agrees_def)

lemma last_index_append: "d \<notin> set b \<Longrightarrow> last_index d (a @ d # b) = Some (length a)"
  by (induction a) (auto split: option.splits)

lemma splitDirBase_join:
  assumes "d \<noteq> []" "b \<noteq> []" "CHR ''/'' \<notin> set b"
  shows "splitDirBase (d @ CHR ''/'' # b) = (d, b)"
proof -
  have "last b \<noteq> CHR ''/''" using assms by (metis last_in_set)
  then have "\<not> HasSuffix (d @ CHR ''/'' # b) ''/''"
    using assms(2) by (auto simp: HasSuffix_iff) (metis last.simps last_append last_snoc list.distinct(1))
  then show ?thesis using assms last_index_append [OF assms(3), of d]
    by (simp add: splitDirBase_def TrimSuffix_def)
qed

lemma less_append: "r \<noteq> [] \<Longrightarrow> (k :: nat list) < k @ r"
  by (induction k) (auto simp: neq_Nil_conv)

text \<open>
  A directory comes before everything below it, so a receiver that works in list order finds
  the parent of each entry done.
\<close>

lemma directory_before_contents:
  assumes "name_ok d" "name_ok e" "fe_isdir d" "splitDirBase (fe_path d) = (par, b)"
    "fe_path d = (if par = [] then b else par @ CHR ''/'' # b)" "b \<noteq> []" "b \<noteq> ''.''"
    "splitDirBase (fe_path e) = (fe_path d @ sub, c)" "sub = [] \<or> HasPrefix sub ''/''" "c \<noteq> ''.''"
  shows "fNameCmp d e < 0"
proof -
  have k: "flist_key d = map (code t_PATH) (fe_path d @ ''/'')"
    using assms by (auto simp: flist_key_def base_key_def isDirType_def Let_def)
  have ne: "fe_path d @ sub \<noteq> []" using assms by auto
  then have c: "c \<noteq> []" using assms(2,8) by (auto simp: name_ok_def)
  then have bk: "base_key e \<noteq> []"
    using assms(8,10) by (auto simp: base_key_def Let_def isDirType_def)
  have ke: "flist_key e = map (code t_PATH) ((fe_path d @ sub) @ ''/'') @ base_key e"
    using assms(8) ne by (simp add: flist_key_def)
  have "\<exists>r. r \<noteq> [] \<and> flist_key e = flist_key d @ r"
  proof (cases "sub = []")
    case True
    then show ?thesis using bk by (simp add: k ke)
  next
    case False
    then obtain s where "sub = CHR ''/'' # s" using assms(9) by (auto simp: HasPrefix_iff)
    then show ?thesis by (simp add: k ke)
  qed
  then have "flist_key d < flist_key e" using less_append by metis
  then show ?thesis using fNameCmp_agrees [OF assms(1,2)] by (simp add: agrees_def)
qed

end
