(* ===== verification/Mux.thy ===== *)
theory Mux
  imports Wire
begin

text \<open>
  Multiplexed frames (\<open>MuxReader\<close>, \<open>MuxWriter\<close>, \<open>MuxStream\<close> of
  \<open>internal/front/rsync/protocol/wire.go\<close>).  A frame is a 4-byte header \<open>(7 + code) << 24 | len\<close>
  and its payload.  \<open>MuxStream\<close> joins the payloads of the data frames into one byte stream; a
  message frame is skipped, except \<open>MSG_NO_SEND\<close>, which surfaces as an error of the read and
  leaves the stream usable.

  The abstract view of a stream is a list of items, \<open>Data\<close> bytes and \<open>Skip\<close> marks, with the
  error the stream ends in; \<open>sread_full_refines\<close> shows that \<open>io.ReadFull\<close> over a \<open>MuxStream\<close> sees
  exactly these items, whatever the frame boundaries are.
\<close>

subsection \<open>Frames\<close>

definition msgNoSend :: byte where
  "msgNoSend = 102"

definition mux_next :: "(bytes \<times> byte) reader" where
  "mux_next = rbind (read_full 4) (\<lambda>hdr.
     let raw = le_word hdr :: 32 word;
         len = unat (raw AND 0xFFFFFF);
         tag = ucast (drop_bit 24 raw - 7) in
     if len > 64 * 2 ^ 20 then rfail (Err ''frame length'')
     else rbind (read_full len) (\<lambda>payload. rret (payload, tag)))"

definition writeFrame :: "byte \<Rightarrow> bytes \<Rightarrow> bytes result" where
  "writeFrame ty data =
     (if length data > 0xFFFFFF then Inl (Err ''frame payload too large'')
      else Inr (le_bytes 4 (push_bit 24 (ucast (7 + ty)) OR word_of_nat (length data) :: 32 word) @ data))"

definition WriteData :: "bytes \<Rightarrow> bytes result" where
  "WriteData data = writeFrame 0 data"

definition WriteMsg :: "string \<Rightarrow> bytes result" where
  "WriteMsg msg = writeFrame 1 (to_bytes msg)"

definition WriteErrorMsg :: "string \<Rightarrow> bytes result" where
  "WriteErrorMsg msg = writeFrame 1 (to_bytes msg)"

definition WriteInfoMsg :: "string \<Rightarrow> bytes result" where
  "WriteInfoMsg msg = writeFrame 2 (to_bytes msg)"

lemma frame_header:
  fixes ty :: byte and raw :: "32 word"
  assumes "n \<le> 0xFFFFFF"
    and raw_def: "raw = push_bit 24 (ucast (7 + ty)) OR word_of_nat n"
  shows "unat (raw AND 0xFFFFFF) = n" "ucast (drop_bit 24 raw - 7) = ty"
proof -
  have m: "(0xFFFFFF :: 32 word) = mask 24" by (simp add: mask_numeral)
  have u: "unat (word_of_nat n :: 32 word) = n"
    using assms(1) by (simp add: unat_of_nat take_bit_nat_eq_self)
  then have "(word_of_nat n :: 32 word) < 2 ^ 24"
    using assms(1) by (simp add: word_less_nat_alt)
  then have n: "take_bit 24 (word_of_nat n :: 32 word) = word_of_nat n"
    by (simp only: take_bit_eq_mask less_mask_eq)
  have "raw AND 0xFFFFFF = word_of_nat n"
    unfolding m take_bit_eq_mask [symmetric] raw_def by (simp add: take_bit_push_bit n)
  then show "unat (raw AND 0xFFFFFF) = n" using u by simp
  have d: "drop_bit 24 (word_of_nat n :: 32 word) = 0"
    by (subst n [symmetric]) (simp add: drop_bit_take_bit)
  have "drop_bit 24 (push_bit 24 (ucast (7 + ty)) :: 32 word) = ucast (7 + ty)"
    by (rule bit_word_eqI) (auto simp: bit_simps dest: bit_imp_le_length)
  then have "drop_bit 24 raw = ucast (7 + ty)"
    by (simp add: raw_def drop_bit_or d)
  then have "ucast (drop_bit 24 raw - 7) = (ucast (ucast (7 + ty) - 7 :: 32 word) :: byte)" by simp
  also have "\<dots> = ty"
    by (simp add: word_uint_eq_iff uint_word_ariths unsigned_ucast_eq take_bit_eq_mod mod_mod_cancel mod_simps)
      (use unsigned_less [of ty, where ?'a = int] in simp)
  finally show "ucast (drop_bit 24 raw - 7) = ty" .
qed

lemma mux_next_frame [codec_simps]:
  assumes "writeFrame ty data = Inr fr"
  shows "mux_next (fr @ rest) = Inr ((data, ty), rest)"
proof -
  have n: "length data \<le> 0xFFFFFF" using assms by (auto simp: writeFrame_def split: if_splits)
  have fr: "fr = le_bytes 4 (push_bit 24 (ucast (7 + ty)) OR word_of_nat (length data) :: 32 word) @ data"
    using assms n by (simp add: writeFrame_def)
  show ?thesis
    unfolding mux_next_def fr append_assoc
    using frame_header [OF n refl, of ty] n
    by (simp add: rbind_read_full le_word_le_bytes_full Let_def rret_def rbind_def read_full_append del: le_bytes.simps)
qed

lemma mux_next_shrinks: "mux_next raw = Inr ((d, t), rest) \<Longrightarrow> length rest < length raw"
  by (auto simp: mux_next_def rbind_eq_Inr Let_def rret_def rfail_def split: if_splits
      dest!: read_full_Inr)


subsection \<open>The stream over the frames\<close>

record mux_stream =
  remain :: bytes
  raw_in :: bytes
  eof_seen :: bool

definition NewMuxStream :: "bytes \<Rightarrow> mux_stream" where
  "NewMuxStream raw = \<lparr>remain = [], raw_in = raw, eof_seen = False\<rparr>"

text \<open>
  The loop of \<open>MuxStream.Read\<close> that fetches frames until a data frame with a payload has arrived;
  on success \<open>remain\<close> is not empty.
\<close>

function stream_fill :: "mux_stream \<Rightarrow> (goerr + unit) \<times> mux_stream" where
  "stream_fill s =
     (if remain s \<noteq> [] then (Inr (), s)
      else if eof_seen s then (Inl EOF, s)
      else (case mux_next (raw_in s) of
          Inl e \<Rightarrow> (Inl e, s\<lparr>raw_in := [], eof_seen := (e = EOF)\<rparr>)
        | Inr ((data, tag), rest) \<Rightarrow>
            if tag \<noteq> 0 then
              if tag = msgNoSend \<and> length data = 4
              then (Inl (NoSend (le_word data)), s\<lparr>raw_in := rest\<rparr>)
              else stream_fill (s\<lparr>raw_in := rest\<rparr>)
            else stream_fill (s\<lparr>raw_in := rest, remain := data\<rparr>)))"
  by pat_completeness auto
termination
  by (relation "measure (\<lambda>s. length (raw_in s))") (auto dest: mux_next_shrinks)

declare stream_fill.simps [simp del]

text \<open>One \<open>Read\<close> into a buffer of \<open>n\<close> bytes.\<close>

definition stream_read :: "nat \<Rightarrow> mux_stream \<Rightarrow> (goerr + bytes) \<times> mux_stream" where
  "stream_read n s = (case stream_fill s of
      (Inl e, s') \<Rightarrow> (Inl e, s')
    | (Inr _, s') \<Rightarrow> (Inr (take n (remain s')), s'\<lparr>remain := drop n (remain s')\<rparr>))"

text \<open>\<open>io.ReadFull\<close>: reads until the buffer is full; \<open>got\<close> says that a byte has already arrived.\<close>

lemma stream_fill_nonempty: "stream_fill s = (Inr u, s') \<Longrightarrow> remain s' \<noteq> []"
proof (induction s rule: stream_fill.induct)
  case (1 s)
  then show ?case
    by (auto simp: stream_fill.simps [of s] split: if_splits sum.splits prod.splits)
qed

function sread_full :: "nat \<Rightarrow> bool \<Rightarrow> mux_stream \<Rightarrow> (goerr + bytes) \<times> mux_stream" where
  "sread_full n got s =
     (if n = 0 then (Inr [], s)
      else (case stream_read n s of
          (Inl e, s') \<Rightarrow> (Inl (if e = EOF \<and> got then UnexpectedEOF else e), s')
        | (Inr p, s') \<Rightarrow> (case sread_full (n - length p) True s' of
             (Inl e, s'') \<Rightarrow> (Inl e, s'')
           | (Inr q, s'') \<Rightarrow> (Inr (p @ q), s''))))"
  by pat_completeness auto
termination
  by (relation "measure (\<lambda>(n, got, s). n)")
     (auto simp: stream_read_def dest!: stream_fill_nonempty split: prod.splits sum.splits)

declare sread_full.simps [simp del]


subsection \<open>The abstract stream\<close>

datatype item = Data byte | Skip int32

fun frame_items :: "byte \<Rightarrow> bytes \<Rightarrow> item list" where
  "frame_items tag data =
     (if tag = 0 then map Data data
      else if tag = msgNoSend \<and> length data = 4 then [Skip (le_word data)] else [])"

function mux_items :: "bytes \<Rightarrow> item list \<times> goerr" where
  "mux_items raw = (case mux_next raw of
      Inl e \<Rightarrow> ([], e)
    | Inr ((data, tag), rest) \<Rightarrow>
        (frame_items tag data @ fst (mux_items rest), snd (mux_items rest)))"
  by pat_completeness auto
termination
  by (relation "measure length") (auto dest: mux_next_shrinks)

declare mux_items.simps [simp del]

definition stream_items :: "mux_stream \<Rightarrow> item list \<times> goerr" where
  "stream_items s =
     (if eof_seen s then (map Data (remain s), EOF)
      else (map Data (remain s) @ fst (mux_items (raw_in s)), snd (mux_items (raw_in s))))"

text \<open>\<open>io.ReadFull\<close> on the abstract stream, one item at a time.\<close>

fun iread_full :: "nat \<Rightarrow> bool \<Rightarrow> item list \<Rightarrow> goerr \<Rightarrow> (goerr + bytes) \<times> item list" where
  "iread_full 0 got is t = (Inr [], is)"
| "iread_full (Suc n) got [] t = (Inl (if t = EOF \<and> got then UnexpectedEOF else t), [])"
| "iread_full (Suc n) got (Skip k # is) t = (Inl (NoSend k), is)"
| "iread_full (Suc n) got (Data b # is) t =
     (case iread_full n True is t of
        (Inl e, is') \<Rightarrow> (Inl e, is')
      | (Inr bs, is') \<Rightarrow> (Inr (b # bs), is'))"

lemma mux_items_frame:
  "writeFrame ty data = Inr fr \<Longrightarrow>
    mux_items (fr @ rest) = (frame_items ty data @ fst (mux_items rest), snd (mux_items rest))"
  by (subst mux_items.simps) (simp add: mux_next_frame)

lemma iread_full_data:
  "iread_full (length p + n) got (map Data p @ is) t =
    (if p = [] then iread_full n got is t
     else (case iread_full n True is t of
        (Inl e, is') \<Rightarrow> (Inl e, is') | (Inr q, is') \<Rightarrow> (Inr (p @ q), is')))"
proof (induction p arbitrary: got)
  case (Cons b p)
  then show ?case by (auto split: prod.splits sum.splits)
qed simp


lemma stream_fill_refines:
  assumes "stream_fill s = (r, s')" "stream_items s = (is, t)"
  shows "case r of
       Inr _ \<Rightarrow> stream_items s' = (is, t)
     | Inl e \<Rightarrow> (case is of [] \<Rightarrow> e = t \<and> fst (stream_items s') = []
         | Skip k # is' \<Rightarrow> e = NoSend k \<and> stream_items s' = (is', t)
         | Data _ # _ \<Rightarrow> False)"
  using assms
proof (induction s arbitrary: "is" rule: stream_fill.induct)
  case (1 s)
  note unf = stream_fill.simps [of s] stream_items_def
  consider (now) "remain s \<noteq> []" | (eof) "remain s = []" "eof_seen s"
    | (err) e where "remain s = []" "\<not> eof_seen s" "mux_next (raw_in s) = Inl e"
    | (frame) d tag rest where "remain s = []" "\<not> eof_seen s" "mux_next (raw_in s) = Inr ((d, tag), rest)"
    by (metis (full_types) old.sum.exhaust prod.exhaust)
  then show ?case
  proof cases
    case now
    then show ?thesis using "1.prems" by (auto simp: unf)
  next
    case eof
    then show ?thesis using "1.prems" by (auto simp: unf)
  next
    case err
    then show ?thesis using "1.prems"
      by (auto simp: unf mux_items.simps [of "raw_in s"] mux_items.simps [of "[]"] mux_next_def
          rbind_def read_full_def)
  next
    case frame
    let ?skip = "tag = msgNoSend \<and> length d = 4"
    have items: "is = frame_items tag d @ fst (mux_items rest)" "t = snd (mux_items rest)"
      using "1.prems" frame by (simp_all add: unf mux_items.simps [of "raw_in s"])
    consider (msg) "tag \<noteq> 0" "\<not> ?skip" | (skip) "tag \<noteq> 0" ?skip | (data) "tag = 0" by blast
    then show ?thesis
    proof cases
      case msg
      then show ?thesis using "1.prems" frame items
        by (intro "1.IH"(1) [OF _ _ frame(3) refl refl]) (auto simp: unf split: if_splits)
    next
      case skip
      then show ?thesis using "1.prems" frame items by (auto simp: unf msgNoSend_def)
    next
      case data
      then show ?thesis using "1.prems" frame items
        by (intro "1.IH"(2) [OF _ _ frame(3) refl refl]) (simp_all add: unf)
    qed
  qed
qed

text \<open>A full read of the multiplexed stream is a full read of its items.\<close>

lemma sread_full_items:
  assumes "stream_items s = (is, t)" "sread_full n got s = (r, s')"
  shows "iread_full n got is t = (r, fst (stream_items s'))"
  using assms
proof (induction n got s arbitrary: "is" r s' rule: sread_full.induct)
  case (1 n got s)
  note unf = sread_full.simps [of n got s]
  show ?case
  proof (cases "n = 0")
    case True
    then show ?thesis using "1.prems" by (auto simp: sread_full.simps [of 0])
  next
    case False
    then obtain m where m: "n = Suc m" by (cases n) auto
    obtain f s1 where f: "stream_fill s = (f, s1)" by fastforce
    note ref = stream_fill_refines [OF f "1.prems"(1)]
    show ?thesis
    proof (cases f)
      case (Inl e)
      then show ?thesis using ref f "1.prems"(2) False m
        by (auto simp: sread_full.simps [of "Suc m"] stream_read_def split: list.splits item.splits if_splits)
    next
      case (Inr u)
      let ?p = "take n (remain s1)" and ?s2 = "s1\<lparr>remain := drop n (remain s1)\<rparr>"
      have rd: "stream_read n s = (Inr ?p, ?s2)" using f Inr by (simp add: stream_read_def)
      have ne: "?p \<noteq> []" using stream_fill_nonempty f Inr False by auto
      define is2 where "is2 = fst (stream_items ?s2)"
      have it: "is = map Data ?p @ is2" "stream_items ?s2 = (is2, t)"
        using ref Inr by (auto simp: stream_items_def is2_def append_assoc [symmetric] map_append [symmetric]
            simp del: append_assoc map_append split: if_splits)
      obtain r2 s3 where r2: "sread_full (n - length ?p) True ?s2 = (r2, s3)" by fastforce
      have IH: "iread_full (n - length ?p) True is2 t = (r2, fst (stream_items s3))"
        by (rule "1.IH" [OF False rd [symmetric] refl it(2) r2])
      have "n = length ?p + (n - length ?p)" by simp
      then have "iread_full n got is t =
          (case iread_full (n - length ?p) True is2 t of
            (Inl e, is') \<Rightarrow> (Inl e, is') | (Inr q, is') \<Rightarrow> (Inr (?p @ q), is'))"
        using iread_full_data [of ?p "n - length ?p" got is2 t] ne it(1) by simp
      then show ?thesis using IH r2 rd "1.prems"(2) False
        by (auto simp: unf split: sum.splits)
    qed
  qed
qed


subsection \<open>Properties\<close>

text \<open>
  A frame that the writer accepts is read back with its payload and tag, and the stream stands
  at the byte after it; frames of any tag and any sequence of frames therefore stay in step.
\<close>

lemma frame_roundtrip:
  assumes "writeFrame ty data = Inr fr"
  shows "mux_next (fr @ rest) = Inr ((data, ty), rest)"
  using assms by (rule mux_next_frame)

text \<open>
  C19: \<open>io.ReadFull\<close> over a \<open>MuxStream\<close> depends only on the items the frames carry: it returns what
  the item-wise read of them returns, error for error, and leaves the items that follow.  Where
  the frame boundaries fall and which other messages stand between the data is not visible.
\<close>

theorem stream_refines_items:
  assumes "stream_items s = (is, t)" "sread_full n False s = (r, s')"
  shows "iread_full n False is t = (r, fst (stream_items s'))"
  using assms by (rule sread_full_items)

theorem stream_refines_items_witness:
  "iread_full 3 False (fst (stream_items (NewMuxStream [2,0,0,7, 10,11, 1,0,0,9, 65, 1,0,0,7, 12])))
     (snd (stream_items (NewMuxStream [2,0,0,7, 10,11, 1,0,0,9, 65, 1,0,0,7, 12])))
   = (fst (sread_full 3 False (NewMuxStream [2,0,0,7, 10,11, 1,0,0,9, 65, 1,0,0,7, 12])),
      fst (stream_items (snd (sread_full 3 False (NewMuxStream [2,0,0,7, 10,11, 1,0,0,9, 65, 1,0,0,7, 12])))))"
  by (rule stream_refines_items) simp_all

end
