(* ===== verification/MetaDB.thy ===== *)
theory MetaDB
  imports GoStrings "HOL-Library.List_Lexorder" "HOL-Library.Char_ord" "HOL-Library.Multiset"
begin

text \<open>
  The metadata database (\<open>internal/core/meta/db.go\<close>, \<open>validate.go\<close>).  A table is the list of its
  rows in the order of their insertion; a method is a function from the database to its result and
  the database after it, with the SQL statements of the method written out as list operations.
  A transaction that fails leaves the database as it was.  What the schema declares is part of the
  statements: primary keys, the unique hash, the foreign keys (enforced, \<open>foreign_keys(1)\<close>) with
  \<open>ON DELETE CASCADE\<close>, and the row id of an \<open>INTEGER PRIMARY KEY\<close> without \<open>AUTOINCREMENT\<close>, one more
  than the largest in use.
\<close>

subsection \<open>Tables\<close>

record file_row =
  fr_path :: string
  fr_isdir :: bool
  fr_issymlink :: bool
  fr_mode :: "32 word"
  fr_uid :: int
  fr_gid :: int
  fr_size :: int
  fr_mtime :: int
  fr_xattrs :: bytes
  fr_link :: string

record db_file =
  df_id :: int
  df_row :: file_row

record chunk_row =
  ck_id :: int
  ck_hash :: bytes
  ck_size :: int
  ck_refcount :: int
  ck_blob :: string

record file_chunk =
  fc_file :: int
  fc_chunk :: int
  fc_idx :: int

record meta_db =
  db_files :: "db_file list"
  db_chunks :: "chunk_row list"
  db_fcs :: "file_chunk list"
  db_meta :: "(string \<times> string) list"

type_synonym chunk_ref = "int \<times> int"

definition empty_db :: meta_db where
  "empty_db = \<lparr>db_files = [], db_chunks = [], db_fcs = [], db_meta = []\<rparr>"

fun next_id :: "int list \<Rightarrow> int" where
  "next_id [] = 1"
| "next_id (i # is) = max (i + 1) (next_id is)"

definition path_fids :: "meta_db \<Rightarrow> string \<Rightarrow> int list" where
  "path_fids db p = map df_id (filter (\<lambda>d. fr_path (df_row d) = p) (db_files db))"

subsection \<open>Writing\<close>

text \<open>Step 1 of \<open>UpsertFile\<close> and of \<open>DeleteFile\<close>: each chunk loses the references of the path's rows.\<close>

definition decr_refs :: "string \<Rightarrow> meta_db \<Rightarrow> meta_db" where
  "decr_refs p db = db\<lparr>db_chunks := map (\<lambda>c. c\<lparr>ck_refcount := ck_refcount c -
      int (length (filter (\<lambda>fc. fc_file fc \<in> set (path_fids db p) \<and> fc_chunk fc = ck_id c) (db_fcs db)))\<rparr>)
      (db_chunks db)\<rparr>"

definition IncrRefcount :: "int \<Rightarrow> meta_db \<Rightarrow> meta_db" where
  "IncrRefcount i db = db\<lparr>db_chunks :=
     map (\<lambda>c. if ck_id c = i then c\<lparr>ck_refcount := ck_refcount c + 1\<rparr> else c) (db_chunks db)\<rparr>"

text \<open>Deleting chunk rows takes the rows of \<open>file_chunks\<close> that name them along.\<close>

definition delete_chunks :: "(chunk_row \<Rightarrow> bool) \<Rightarrow> meta_db \<Rightarrow> meta_db" where
  "delete_chunks P db = db\<lparr>db_chunks := filter (\<lambda>c. \<not> P c) (db_chunks db),
     db_fcs := filter (\<lambda>fc. fc_chunk fc \<notin> set (map ck_id (filter P (db_chunks db)))) (db_fcs db)\<rparr>"

definition drop_dead :: "string \<Rightarrow> meta_db \<Rightarrow> meta_db" where
  "drop_dead p db = delete_chunks (\<lambda>c. ck_refcount c \<le> 0 \<and>
     ck_id c \<in> set (map fc_chunk (filter (\<lambda>fc. fc_file fc \<in> set (path_fids db p)) (db_fcs db)))) db"

definition delete_rows :: "string \<Rightarrow> meta_db \<Rightarrow> meta_db" where
  "delete_rows p db = db\<lparr>db_files := filter (\<lambda>d. fr_path (df_row d) \<noteq> p) (db_files db),
     db_fcs := filter (\<lambda>fc. fc_file fc \<notin> set (path_fids db p)) (db_fcs db)\<rparr>"

fun insert_fcs :: "int \<Rightarrow> chunk_ref list \<Rightarrow> meta_db \<Rightarrow> meta_db result" where
  "insert_fcs fid [] db = Inr db"
| "insert_fcs fid ((c, i) # rs) db =
     (if fid \<notin> set (map df_id (db_files db)) \<or> c \<notin> set (map ck_id (db_chunks db))
      then Inl (Err ''FOREIGN KEY constraint failed'')
      else if (fid, i) \<in> set (map (\<lambda>fc. (fc_file fc, fc_idx fc)) (db_fcs db))
      then Inl (Err ''UNIQUE constraint failed: file_chunks'')
      else insert_fcs fid rs (db\<lparr>db_fcs := db_fcs db @ [\<lparr>fc_file = fid, fc_chunk = c, fc_idx = i\<rparr>]\<rparr>))"

definition UpsertFile :: "file_row \<Rightarrow> chunk_ref list \<Rightarrow> meta_db \<Rightarrow> int result \<times> meta_db" where
  "UpsertFile f refs db =
     (let p = fr_path f;
          db1 = decr_refs p db;
          db2 = foldl (\<lambda>d r. IncrRefcount (fst r) d) db1 refs;
          db3 = drop_dead p db2;
          db4 = delete_rows p db3;
          fid = next_id (map df_id (db_files db4));
          db5 = db4\<lparr>db_files := db_files db4 @ [\<lparr>df_id = fid, df_row = f\<rparr>]\<rparr> in
      case insert_fcs fid refs db5 of
        Inl e \<Rightarrow> (Inl e, db)
      | Inr db6 \<Rightarrow> (Inr fid, db6))"

definition DeleteFile :: "string \<Rightarrow> meta_db \<Rightarrow> meta_db" where
  "DeleteFile p db = delete_rows p (drop_dead p (decr_refs p db))"

definition InsertChunk :: "bytes \<Rightarrow> string \<Rightarrow> int \<Rightarrow> meta_db \<Rightarrow> int result \<times> meta_db" where
  "InsertChunk h name sz db =
     (if h \<in> set (map ck_hash (db_chunks db)) then (Inl (Err ''UNIQUE constraint failed: chunks.hash''), db)
      else let i = next_id (map ck_id (db_chunks db)) in
        (Inr i, db\<lparr>db_chunks := db_chunks db @
           [\<lparr>ck_id = i, ck_hash = h, ck_size = sz, ck_refcount = 0, ck_blob = name\<rparr>]\<rparr>))"

definition DeleteChunk :: "int \<Rightarrow> meta_db \<Rightarrow> meta_db" where
  "DeleteChunk i db = delete_chunks (\<lambda>c. ck_id c = i) db"

definition DeleteChunkIfZero :: "int \<Rightarrow> meta_db \<Rightarrow> meta_db" where
  "DeleteChunkIfZero i db = delete_chunks (\<lambda>c. ck_id c = i \<and> ck_refcount c \<le> 0) db"

definition AttachChunks :: "int \<Rightarrow> chunk_ref list \<Rightarrow> meta_db \<Rightarrow> unit result \<times> meta_db" where
  "AttachChunks fid refs db = (case insert_fcs fid refs db of Inl e \<Rightarrow> (Inl e, db) | Inr db' \<Rightarrow> (Inr (), db'))"

definition SetMeta :: "string \<Rightarrow> string \<Rightarrow> meta_db \<Rightarrow> meta_db" where
  "SetMeta k v db = db\<lparr>db_meta :=
     (if k \<in> set (map fst (db_meta db)) then map (\<lambda>(k', v'). if k' = k then (k', v) else (k', v')) (db_meta db)
      else db_meta db @ [(k, v)])\<rparr>"

subsection \<open>Reading\<close>

definition GetMeta :: "string \<Rightarrow> meta_db \<Rightarrow> string option" where
  "GetMeta k db = map_of (db_meta db) k"

definition GetFiles :: "meta_db \<Rightarrow> file_row list" where
  "GetFiles db = sort_key fr_path (map df_row (db_files db))"

definition GetFileRow :: "string \<Rightarrow> meta_db \<Rightarrow> file_row option" where
  "GetFileRow p db = map_option df_row (find (\<lambda>d. fr_path (df_row d) = p) (db_files db))"

definition GetFileChunks :: "string \<Rightarrow> meta_db \<Rightarrow> chunk_ref list" where
  "GetFileChunks p db = map (\<lambda>fc. (fc_chunk fc, fc_idx fc))
     (sort_key fc_idx (filter (\<lambda>fc. fc_file fc \<in> set (path_fids db p)) (db_fcs db)))"

definition chunk_by_id :: "int \<Rightarrow> meta_db \<Rightarrow> chunk_row option" where
  "chunk_by_id i db = find (\<lambda>c. ck_id c = i) (db_chunks db)"

definition FindChunkByHash :: "bytes \<Rightarrow> meta_db \<Rightarrow> chunk_row option" where
  "FindChunkByHash h db = find (\<lambda>c. ck_hash c = h) (db_chunks db)"

text \<open>
  The join the readers of content use: blob name and size of the chunks of a path, in order.
\<close>

definition file_blobs :: "string \<Rightarrow> meta_db \<Rightarrow> (string \<times> int) list" where
  "file_blobs p db = List.map_filter
     (\<lambda>r. map_option (\<lambda>c. (ck_blob c, ck_size c)) (chunk_by_id (fst r) db)) (GetFileChunks p db)"

text \<open>\<open>EnsureRepositoryID\<close> with the random id \<open>fresh\<close> (32 hexadecimal digits) it would write.\<close>

definition valid_repo_id :: "string \<Rightarrow> bool" where
  "valid_repo_id v \<longleftrightarrow> (case hex_decode v of None \<Rightarrow> False | Some raw \<Rightarrow> length raw = 16)"

definition EnsureRepositoryID :: "string \<Rightarrow> meta_db \<Rightarrow> string result \<times> meta_db" where
  "EnsureRepositoryID fresh db =
     (let db1 = SetMeta ''repository_schema'' ''1'' db in
      case GetMeta ''repository_id'' db1 of
        Some v \<Rightarrow> if valid_repo_id v then (Inr v, db1) else (Inl (Err ''repository_id malformed''), db1)
      | None \<Rightarrow> (Inr fresh, SetMeta ''repository_id'' fresh db1))"


subsection \<open>The invariant of the tables\<close>

definition uses :: "file_chunk list \<Rightarrow> int \<Rightarrow> nat" where
  "uses fcs i = length (filter (\<lambda>fc. fc_chunk fc = i) fcs)"

definition fc_key :: "file_chunk \<Rightarrow> int \<times> int" where
  "fc_key fc = (fc_file fc, fc_idx fc)"

definition db_inv :: "meta_db \<Rightarrow> bool" where
  "db_inv db \<longleftrightarrow>
     distinct (map df_id (db_files db)) \<and> distinct (map (\<lambda>d. fr_path (df_row d)) (db_files db)) \<and>
     distinct (map ck_id (db_chunks db)) \<and> distinct (map ck_hash (db_chunks db)) \<and>
     distinct (map fc_key (db_fcs db)) \<and>
     (\<forall>fc \<in> set (db_fcs db). fc_file fc \<in> df_id ` set (db_files db) \<and> fc_chunk fc \<in> ck_id ` set (db_chunks db)) \<and>
     (\<forall>c \<in> set (db_chunks db). ck_refcount c = int (uses (db_fcs db) (ck_id c)))"

lemma db_inv_empty: "db_inv empty_db"
  by (simp add: db_inv_def empty_db_def)

lemma next_id_fresh: "i \<in> set is \<Longrightarrow> i < next_id is"
  by (induction "is") auto

lemma next_id_not_in: "next_id is \<notin> set is"
  using next_id_fresh by blast

lemma uses_append: "uses (xs @ ys) i = uses xs i + uses ys i"
  by (simp add: uses_def)

lemma uses_zero_iff: "uses fcs i = 0 \<longleftrightarrow> (\<forall>fc \<in> set fcs. fc_chunk fc \<noteq> i)"
  by (auto simp: uses_def filter_empty_conv)

lemma uses_split:
  "uses fcs i = length (filter (\<lambda>fc. Q fc \<and> fc_chunk fc = i) fcs) + uses (filter (\<lambda>fc. \<not> Q fc) fcs) i"
  by (induction fcs) (auto simp: uses_def)

lemma set_path_fids: "set (path_fids db p) = df_id ` {d \<in> set (db_files db). fr_path (df_row d) = p}"
  by (auto simp: path_fids_def)

lemma IncrRefcount_fold:
  "foldl (\<lambda>d r. IncrRefcount (fst r) d) db refs = db\<lparr>db_chunks :=
     map (\<lambda>c. c\<lparr>ck_refcount := ck_refcount c + int (length (filter (\<lambda>r. fst r = ck_id c) refs))\<rparr>) (db_chunks db)\<rparr>"
proof (induction refs arbitrary: db)
  case (Cons r refs)
  show ?case
    unfolding foldl_Cons Cons.IH by (auto simp: IncrRefcount_def)
qed simp

lemma insert_fcs_Inr:
  "insert_fcs fid refs db = Inr db' \<longleftrightarrow>
     (\<forall>r \<in> set refs. fst r \<in> ck_id ` set (db_chunks db) \<and> fid \<in> df_id ` set (db_files db) \<and>
        (fid, snd r) \<notin> fc_key ` set (db_fcs db)) \<and> distinct (map snd refs) \<and>
     db' = db\<lparr>db_fcs := db_fcs db @ map (\<lambda>r. \<lparr>fc_file = fid, fc_chunk = fst r, fc_idx = snd r\<rparr>) refs\<rparr>"
proof (induction refs arbitrary: db)
  case (Cons r refs)
  obtain c i where r: "r = (c, i)" by fastforce
  show ?case
    by (auto simp: r Cons fc_key_def image_iff)
qed auto

lemma insert_fcs_Inl:
  "(\<nexists>db'. insert_fcs fid refs db = Inr db') \<Longrightarrow> \<exists>e. insert_fcs fid refs db = Inl e"
  by (cases "insert_fcs fid refs db") auto

text \<open>What the four steps before the insertion leave, with the invariant before them.\<close>

definition ref_count :: "chunk_ref list \<Rightarrow> int \<Rightarrow> nat" where
  "ref_count refs i = length (filter (\<lambda>r. fst r = i) refs)"

definition other_fcs :: "string \<Rightarrow> meta_db \<Rightarrow> file_chunk list" where
  "other_fcs p db = filter (\<lambda>fc. fc_file fc \<notin> set (path_fids db p)) (db_fcs db)"

definition kept :: "string \<Rightarrow> chunk_ref list \<Rightarrow> meta_db \<Rightarrow> chunk_row \<Rightarrow> bool" where
  "kept p refs db c \<longleftrightarrow> uses (other_fcs p db) (ck_id c) + ref_count refs (ck_id c) \<noteq> 0 \<or> uses (db_fcs db) (ck_id c) = 0"

definition replaced :: "string \<Rightarrow> chunk_ref list \<Rightarrow> meta_db \<Rightarrow> meta_db" where
  "replaced p refs db = db\<lparr>
     db_files := filter (\<lambda>d. fr_path (df_row d) \<noteq> p) (db_files db),
     db_chunks := map (\<lambda>c. c\<lparr>ck_refcount := int (uses (other_fcs p db) (ck_id c) + ref_count refs (ck_id c))\<rparr>)
        (filter (kept p refs db) (db_chunks db)),
     db_fcs := other_fcs p db\<rparr>"

lemma replaced_steps:
  assumes "db_inv db"
  shows "delete_rows p (drop_dead p (foldl (\<lambda>d r. IncrRefcount (fst r) d) (decr_refs p db) refs)) = replaced p refs db"
proof -
  let ?F = "set (path_fids db p)"
  define upd where "upd c = c\<lparr>ck_refcount := int (uses (other_fcs p db) (ck_id c) + ref_count refs (ck_id c))\<rparr>" for c :: chunk_row
  have upd_id [simp]: "ck_id (upd c) = ck_id c" "ck_refcount (upd c) \<le> 0 \<longleftrightarrow>
      uses (other_fcs p db) (ck_id c) + ref_count refs (ck_id c) = 0" for c by (auto simp: upd_def)
  define db2 where "db2 = db\<lparr>db_chunks := map upd (db_chunks db)\<rparr>"
  have cnt: "ck_refcount c - int (length (filter (\<lambda>fc. fc_file fc \<in> ?F \<and> fc_chunk fc = ck_id c) (db_fcs db)))
      = int (uses (other_fcs p db) (ck_id c))" if "c \<in> set (db_chunks db)" for c
    using that assms uses_split [of "db_fcs db" "ck_id c" "\<lambda>fc. fc_file fc \<in> ?F"]
    by (simp add: db_inv_def other_fcs_def)
  have s2: "foldl (\<lambda>d r. IncrRefcount (fst r) d) (decr_refs p db) refs = db2"
    by (auto simp: IncrRefcount_fold decr_refs_def db2_def upd_def cnt ref_count_def)
  have F2: "path_fids db2 q = path_fids db q" for q by (simp add: path_fids_def db2_def)
  define dead where "dead c \<longleftrightarrow> uses (other_fcs p db) (ck_id c) + ref_count refs (ck_id c) = 0 \<and>
      ck_id c \<in> set (map fc_chunk (filter (\<lambda>fc. fc_file fc \<in> ?F) (db_fcs db)))" for c :: chunk_row
  have old: "ck_id c \<in> set (map fc_chunk (filter (\<lambda>fc. fc_file fc \<in> ?F) (db_fcs db))) \<longleftrightarrow> uses (db_fcs db) (ck_id c) \<noteq> 0"
    if "uses (other_fcs p db) (ck_id c) = 0" for c
    using that by (force simp: uses_zero_iff other_fcs_def)
  have dk: "\<not> dead c \<longleftrightarrow> kept p refs db c" for c
    using old [of c] unfolding dead_def kept_def by auto
  have s3: "drop_dead p db2 = db\<lparr>db_chunks := map upd (filter (kept p refs db) (db_chunks db)),
      db_fcs := filter (\<lambda>fc. fc_chunk fc \<notin> ck_id ` {c \<in> set (db_chunks db). dead c}) (db_fcs db)\<rparr>"
  proof -
    let ?P = "\<lambda>c. ck_refcount c \<le> 0 \<and>
      ck_id c \<in> set (map fc_chunk (filter (\<lambda>fc. fc_file fc \<in> ?F) (db_fcs db)))"
    have P: "?P (upd c) \<longleftrightarrow> dead c" for c by (simp only: upd_id dead_def)
    have "filter (\<lambda>c. \<not> ?P c) (map upd (db_chunks db)) = map upd (filter (kept p refs db) (db_chunks db))"
      unfolding filter_map o_def P dk ..
    moreover have "set (map ck_id (filter ?P (map upd (db_chunks db)))) = ck_id ` {c \<in> set (db_chunks db). dead c}"
      unfolding filter_map o_def P by (auto simp: image_iff)
    ultimately show ?thesis
      unfolding drop_dead_def delete_chunks_def F2 by (simp add: db2_def)
  qed
  have F3: "path_fids (drop_dead p db2) q = path_fids db q" for q by (simp add: s3 path_fids_def)
  have "filter (\<lambda>fc. fc_file fc \<notin> ?F \<and> fc_chunk fc \<notin> ck_id ` {c \<in> set (db_chunks db). dead c}) (db_fcs db) = other_fcs p db"
    unfolding other_fcs_def
  proof (rule filter_cong [OF refl])
    fix fc assume fc: "fc \<in> set (db_fcs db)"
    show "(fc_file fc \<notin> ?F \<and> fc_chunk fc \<notin> ck_id ` {c \<in> set (db_chunks db). dead c}) = (fc_file fc \<notin> ?F)"
      using fc by (auto simp: dead_def uses_zero_iff other_fcs_def)
  qed
  then show ?thesis
    unfolding s2 delete_rows_def F3
    by (simp add: s3 replaced_def upd_def conj_commute)
qed


definition refs_ok :: "chunk_ref list \<Rightarrow> meta_db \<Rightarrow> bool" where
  "refs_ok refs db \<longleftrightarrow> (\<forall>r \<in> set refs. fst r \<in> ck_id ` set (db_chunks db)) \<and> distinct (map snd refs)"

definition new_fid :: "file_row \<Rightarrow> meta_db \<Rightarrow> int" where
  "new_fid f db = next_id (map df_id (filter (\<lambda>d. fr_path (df_row d) \<noteq> fr_path f) (db_files db)))"

definition upserted :: "file_row \<Rightarrow> chunk_ref list \<Rightarrow> meta_db \<Rightarrow> meta_db" where
  "upserted f refs db = (let r = replaced (fr_path f) refs db; fid = new_fid f db in
     r\<lparr>db_files := db_files r @ [\<lparr>df_id = fid, df_row = f\<rparr>],
       db_fcs := db_fcs r @ map (\<lambda>r. \<lparr>fc_file = fid, fc_chunk = fst r, fc_idx = snd r\<rparr>) refs\<rparr>)"

lemma other_fcs_files:
  assumes "db_inv db" "fc \<in> set (other_fcs p db)"
  shows "fc_file fc \<in> df_id ` {d \<in> set (db_files db). fr_path (df_row d) \<noteq> p}"
  using assms by (fastforce simp: db_inv_def other_fcs_def set_path_fids)

lemma new_fid_fresh: "i \<in> df_id ` {d \<in> set (db_files db). fr_path (df_row d) \<noteq> fr_path f} \<Longrightarrow> i \<noteq> new_fid f db"
  using next_id_fresh [of i "map df_id (filter (\<lambda>d. fr_path (df_row d) \<noteq> fr_path f) (db_files db))"]
  by (auto simp: new_fid_def)

lemma ref_count_pos: "r \<in> set refs \<Longrightarrow> ref_count refs (fst r) \<noteq> 0"
  by (auto simp: ref_count_def filter_empty_conv)

lemma UpsertFile_cases:
  assumes inv: "db_inv db"
  shows "refs_ok refs db \<Longrightarrow> UpsertFile f refs db = (Inr (new_fid f db), upserted f refs db)"
    and "\<not> refs_ok refs db \<Longrightarrow> \<exists>e. UpsertFile f refs db = (Inl e, db)"
proof -
  define r where "r = replaced (fr_path f) refs db"
  define fid where "fid = new_fid f db"
  define db5 where "db5 = r\<lparr>db_files := db_files r @ [\<lparr>df_id = fid, df_row = f\<rparr>]\<rparr>"
  have fid: "next_id (map df_id (db_files r)) = fid"
    by (simp add: r_def fid_def new_fid_def replaced_def)
  have U: "UpsertFile f refs db = (case insert_fcs fid refs db5 of Inl e \<Rightarrow> (Inl e, db) | Inr db6 \<Rightarrow> (Inr fid, db6))"
    unfolding UpsertFile_def Let_def replaced_steps [OF inv] r_def [symmetric] fid db5_def [symmetric] ..
  have fresh: "(fid, i) \<notin> fc_key ` set (db_fcs db5)" for i
    using other_fcs_files [OF inv] new_fid_fresh
    by (fastforce simp: db5_def r_def replaced_def fc_key_def fid_def)
  have keep: "i \<in> ck_id ` set (db_chunks db5) \<longleftrightarrow> i \<in> ck_id ` set (db_chunks db)" if "i \<in> fst ` set refs" for i
  proof -
    have "kept (fr_path f) refs db c" if "ck_id c = i" for c
      using \<open>i \<in> fst ` set refs\<close> that ref_count_pos by (fastforce simp: kept_def)
    then show ?thesis by (auto simp: db5_def r_def replaced_def image_iff)
  qed
  have iff: "(\<exists>db'. insert_fcs fid refs db5 = Inr db') \<longleftrightarrow> refs_ok refs db"
    using keep fresh by (auto simp: insert_fcs_Inr refs_ok_def) (auto simp: db5_def)
  show "refs_ok refs db \<Longrightarrow> UpsertFile f refs db = (Inr (new_fid f db), upserted f refs db)"
  proof -
    assume "refs_ok refs db"
    then obtain db' where "insert_fcs fid refs db5 = Inr db'" using iff by blast
    moreover from this have "db' = upserted f refs db"
      unfolding insert_fcs_Inr by (simp add: upserted_def Let_def db5_def r_def fid_def)
    ultimately show ?thesis by (simp add: U fid_def)
  qed
  show "\<not> refs_ok refs db \<Longrightarrow> \<exists>e. UpsertFile f refs db = (Inl e, db)"
    using iff insert_fcs_Inl [of fid refs db5] by (auto simp: U)
qed

lemma uses_new: "uses (map (\<lambda>r. \<lparr>fc_file = fid, fc_chunk = fst r, fc_idx = snd r\<rparr>) refs) i = ref_count refs i"
  by (induction refs) (auto simp: uses_def ref_count_def)

lemma db_inv_upserted:
  assumes "db_inv db" "refs_ok refs db"
  shows "db_inv (upserted f refs db)"
proof -
  note inv = assms(1) [unfolded db_inv_def]
  let ?p = "fr_path f"
  let ?files = "filter (\<lambda>d. fr_path (df_row d) \<noteq> ?p) (db_files db)"
  let ?new = "map (\<lambda>r. \<lparr>fc_file = new_fid f db, fc_chunk = fst r, fc_idx = snd r\<rparr>) refs"
  let ?upd = "\<lambda>c. c\<lparr>ck_refcount := int (uses (other_fcs ?p db) (ck_id c) + ref_count refs (ck_id c))\<rparr>"
  let ?chunks = "map ?upd (filter (kept ?p refs db) (db_chunks db))"
  have U: "upserted f refs db = db\<lparr>db_files := ?files @ [\<lparr>df_id = new_fid f db, df_row = f\<rparr>],
      db_chunks := ?chunks, db_fcs := other_fcs ?p db @ ?new\<rparr>"
    by (simp add: upserted_def replaced_def Let_def)
  have ids: "distinct (map df_id ?files)" "new_fid f db \<notin> df_id ` set ?files"
    using inv new_fid_fresh by (fastforce simp: distinct_map inj_on_def)+
  have paths: "distinct (map (\<lambda>d. fr_path (df_row d)) ?files)"
    using inv by (auto simp: distinct_map inj_on_def)
  have chunk_ids: "map ck_id ?chunks = map ck_id (filter (kept ?p refs db) (db_chunks db))"
    "map ck_hash ?chunks = map ck_hash (filter (kept ?p refs db) (db_chunks db))" by simp_all
  have cd: "distinct (map ck_id ?chunks)" "distinct (map ck_hash ?chunks)"
    unfolding chunk_ids using inv by (auto simp: distinct_map inj_on_def)
  have other: "distinct (map fc_key (other_fcs ?p db))"
    using inv by (auto simp: other_fcs_def distinct_map inj_on_def)
  have new: "distinct (map fc_key ?new)"
    using assms(2) by (auto simp: refs_ok_def fc_key_def o_def distinct_map inj_on_def)
  have disj: "fc_key ` set (other_fcs ?p db) \<inter> fc_key ` set ?new = {}"
    using other_fcs_files [OF assms(1)] new_fid_fresh by (fastforce simp: fc_key_def)
  have kept: "fc_chunk fc \<in> ck_id ` set ?chunks" if fc: "fc \<in> set (other_fcs ?p db @ ?new)" for fc
  proof -
    have "fc_chunk fc \<in> ck_id ` set (db_chunks db)"
      using fc inv assms(2) by (auto simp: other_fcs_def refs_ok_def)
    then obtain c where c: "c \<in> set (db_chunks db)" "ck_id c = fc_chunk fc" by auto
    have "uses (other_fcs ?p db) (ck_id c) \<noteq> 0 \<or> ref_count refs (ck_id c) \<noteq> 0"
    proof (cases "fc \<in> set (other_fcs ?p db)")
      case False
      then obtain a b where "(a, b) \<in> set refs" "fc_chunk fc = a" using fc by auto
      then show ?thesis using ref_count_pos [of "(a, b)" refs] c(2) by simp
    qed (auto simp: uses_zero_iff c(2))
    then have "kept ?p refs db c" by (auto simp: kept_def)
    then show ?thesis using c by force
  qed
  have fk: "fc_file fc \<in> df_id ` set (?files @ [\<lparr>df_id = new_fid f db, df_row = f\<rparr>])"
    if "fc \<in> set (other_fcs ?p db @ ?new)" for fc
    using that other_fcs_files [OF assms(1), of fc ?p] by auto
  show ?thesis
    unfolding U db_inv_def
    using ids paths cd other new disj kept fk
    by (auto simp: uses_append uses_new)
qed


lemma DeleteFile_eq: "db_inv db \<Longrightarrow> DeleteFile p db = replaced p [] db"
  using replaced_steps [of db p "[]"] by (simp add: DeleteFile_def)

text \<open>A row that is replaced by nothing: the invariant of a deletion follows from that of an upsert.\<close>

lemma db_inv_replaced:
  assumes "db_inv db"
  shows "db_inv (replaced p [] db)"
proof -
  note inv = assms [unfolded db_inv_def]
  let ?chunks = "filter (kept p [] db) (db_chunks db)"
  have kept: "fc_chunk fc \<in> ck_id ` set ?chunks" if fc: "fc \<in> set (other_fcs p db)" for fc
  proof -
    obtain c where c: "c \<in> set (db_chunks db)" "ck_id c = fc_chunk fc"
      using inv fc by (force simp: other_fcs_def)
    then have "kept p [] db c" using fc by (auto simp: kept_def uses_zero_iff)
    then show ?thesis using c by force
  qed
  have "distinct (map df_id (filter (\<lambda>d. fr_path (df_row d) \<noteq> p) (db_files db)))"
    "distinct (map (\<lambda>d. fr_path (df_row d)) (filter (\<lambda>d. fr_path (df_row d) \<noteq> p) (db_files db)))"
    "distinct (map ck_id ?chunks)" "distinct (map ck_hash ?chunks)" "distinct (map fc_key (other_fcs p db))"
    using inv by (auto simp: distinct_map inj_on_def other_fcs_def)
  then show ?thesis
    using kept other_fcs_files [OF assms, of _ p]
    by (auto simp: db_inv_def replaced_def ref_count_def o_def image_image)
qed

lemma db_inv_DeleteFile: "db_inv db \<Longrightarrow> db_inv (DeleteFile p db)"
  by (simp add: DeleteFile_eq db_inv_replaced)

lemma db_inv_UpsertFile: "db_inv db \<Longrightarrow> db_inv (snd (UpsertFile f refs db))"
  using UpsertFile_cases [of db refs f] db_inv_upserted [of db refs f] by (cases "refs_ok refs db") auto

lemma db_inv_InsertChunk:
  assumes "db_inv db"
  shows "db_inv (snd (InsertChunk h name sz db))"
proof -
  have "uses (db_fcs db) (next_id (map ck_id (db_chunks db))) = 0"
    unfolding uses_zero_iff
  proof
    fix fc assume "fc \<in> set (db_fcs db)"
    then have "fc_chunk fc \<in> set (map ck_id (db_chunks db))" using assms by (auto simp: db_inv_def)
    then show "fc_chunk fc \<noteq> next_id (map ck_id (db_chunks db))" using next_id_not_in by metis
  qed
  then show ?thesis
    using assms next_id_not_in [of "map ck_id (db_chunks db)"]
    by (auto simp: InsertChunk_def db_inv_def Let_def)
qed

lemma db_inv_delete_chunks:
  assumes "db_inv db"
  shows "db_inv (delete_chunks P db)"
proof -
  let ?dead = "ck_id ` {c \<in> set (db_chunks db). P c}"
  let ?fcs = "filter (\<lambda>fc. fc_chunk fc \<notin> ?dead) (db_fcs db)"
  have D: "delete_chunks P db = db\<lparr>db_chunks := filter (\<lambda>c. \<not> P c) (db_chunks db), db_fcs := ?fcs\<rparr>"
    by (simp add: delete_chunks_def)
  have "uses ?fcs (ck_id c) = uses (db_fcs db) (ck_id c)" if "c \<in> set (db_chunks db)" "\<not> P c" for c
  proof -
    have "ck_id c \<notin> ?dead"
      using that assms by (auto simp: db_inv_def distinct_map inj_on_def)
    then show ?thesis unfolding uses_def filter_filter by (metis (mono_tags, lifting))
  qed
  moreover have "distinct (map ck_id (filter (\<lambda>c. \<not> P c) (db_chunks db)))"
    "distinct (map ck_hash (filter (\<lambda>c. \<not> P c) (db_chunks db)))" "distinct (map fc_key ?fcs)"
    using assms by (auto simp: db_inv_def distinct_map inj_on_def)
  ultimately show ?thesis
    using assms unfolding D by (auto simp: db_inv_def image_iff) blast
qed

lemma db_inv_DeleteChunk: "db_inv db \<Longrightarrow> db_inv (DeleteChunk i db)"
  by (simp add: DeleteChunk_def db_inv_delete_chunks)

lemma db_inv_DeleteChunkIfZero: "db_inv db \<Longrightarrow> db_inv (DeleteChunkIfZero i db)"
  by (simp add: DeleteChunkIfZero_def db_inv_delete_chunks)

lemma db_inv_SetMeta: "db_inv db \<Longrightarrow> db_inv (SetMeta k v db)"
  by (simp add: db_inv_def SetMeta_def)

subsection \<open>What a path's rows say after a write\<close>

lemma find_distinct:
  "distinct (map f xs) \<Longrightarrow> x \<in> set xs \<Longrightarrow> find (\<lambda>y. f y = f x) xs = Some x"
  by (induction xs) (auto simp: image_iff)

lemma find_filter_same: "(\<And>x. x \<in> set xs \<Longrightarrow> P x \<Longrightarrow> Q x) \<Longrightarrow> find P (filter Q xs) = find P xs"
  by (induction xs) auto

lemma find_append: "find P (xs @ ys) = (case find P xs of None \<Rightarrow> find P ys | Some x \<Rightarrow> Some x)"
  by (induction xs) auto

lemma find_None_filter: "find P (filter (\<lambda>x. \<not> P x) xs) = None"
  by (induction xs) auto

lemma GetFileRow_upserted: "GetFileRow q (upserted f refs db) = (if q = fr_path f then Some f else GetFileRow q db)"
proof (cases "q = fr_path f")
  case True
  then show ?thesis
    using find_None_filter [of "\<lambda>d. fr_path (df_row d) = fr_path f" "db_files db"]
    by (simp add: GetFileRow_def upserted_def replaced_def Let_def find_append)
next
  case False
  then show ?thesis
    using find_filter_same [of "db_files db" "\<lambda>d. fr_path (df_row d) = q" "\<lambda>d. fr_path (df_row d) \<noteq> fr_path f"]
    by (simp add: GetFileRow_def upserted_def replaced_def Let_def find_append split: option.split)
qed

lemma GetFileRow_DeleteFile:
  "db_inv db \<Longrightarrow> GetFileRow q (DeleteFile p db) = (if q = p then None else GetFileRow q db)"
  using find_None_filter [of "\<lambda>d. fr_path (df_row d) = p" "db_files db"]
    find_filter_same [of "db_files db" "\<lambda>d. fr_path (df_row d) = q" "\<lambda>d. fr_path (df_row d) \<noteq> p"]
  by (auto simp: GetFileRow_def DeleteFile_eq replaced_def)


lemma sort_key_map: "sort_key f (map g xs) = map g (sort_key (\<lambda>x. f (g x)) xs)"
proof (induction xs)
  case (Cons x xs)
  have "insort_key f (g x) (map g ys) = map g (insort_key (\<lambda>x. f (g x)) x ys)" for ys
    by (induction ys) auto
  then show ?case by (simp add: Cons)
qed simp

lemma path_fids_upserted:
  "path_fids (upserted f refs db) q = (if q = fr_path f then [new_fid f db] else path_fids db q)"
  by (auto simp: path_fids_def upserted_def replaced_def Let_def filter_empty_conv
      intro!: arg_cong [of _ _ "map df_id"] filter_cong)

lemma fids_disjoint: "db_inv db \<Longrightarrow> q \<noteq> p \<Longrightarrow> i \<in> set (path_fids db q) \<Longrightarrow> i \<notin> set (path_fids db p)"
  by (auto simp: set_path_fids db_inv_def distinct_map inj_on_def)

lemma GetFileChunks_upserted:
  assumes "db_inv db"
  shows "GetFileChunks q (upserted f refs db) = (if q = fr_path f then sort_key snd refs else GetFileChunks q db)"
proof -
  let ?p = "fr_path f" and ?n = "new_fid f db"
  let ?new = "map (\<lambda>r. \<lparr>fc_file = ?n, fc_chunk = fst r, fc_idx = snd r\<rparr>) refs"
  have fcs: "db_fcs (upserted f refs db) = other_fcs ?p db @ ?new"
    by (simp add: upserted_def replaced_def Let_def)
  show ?thesis
  proof (cases "q = ?p")
    case True
    have "filter (\<lambda>fc. fc_file fc = ?n) (other_fcs ?p db) = []"
      using other_fcs_files [OF assms] new_fid_fresh by (fastforce simp: filter_empty_conv)
    then show ?thesis using True
      by (simp add: GetFileChunks_def path_fids_upserted fcs filter_map o_def sort_key_map)
  next
    case False
    have "?n \<notin> set (path_fids db q)"
      using False new_fid_fresh [of ?n db f] by (auto simp: set_path_fids)
    moreover have "filter (\<lambda>fc. fc_file fc \<in> set (path_fids db q)) (other_fcs ?p db) =
        filter (\<lambda>fc. fc_file fc \<in> set (path_fids db q)) (db_fcs db)"
      unfolding other_fcs_def filter_filter using fids_disjoint [OF assms False] by (intro filter_cong) auto
    ultimately show ?thesis using False
      by (simp add: GetFileChunks_def path_fids_upserted fcs filter_map o_def)
  qed
qed

lemma path_fids_replaced: "path_fids (replaced p [] db) q = (if q = p then [] else path_fids db q)"
  by (auto simp: path_fids_def replaced_def filter_empty_conv intro!: arg_cong [of _ _ "map df_id"] filter_cong)

lemma GetFileChunks_DeleteFile:
  assumes "db_inv db"
  shows "GetFileChunks q (DeleteFile p db) = (if q = p then [] else GetFileChunks q db)"
proof (cases "q = p")
  case False
  have "filter (\<lambda>fc. fc_file fc \<in> set (path_fids db q)) (other_fcs p db) =
      filter (\<lambda>fc. fc_file fc \<in> set (path_fids db q)) (db_fcs db)"
    unfolding other_fcs_def filter_filter using fids_disjoint [OF assms False] by (intro filter_cong) auto
  then show ?thesis using False assms
    by (simp add: GetFileChunks_def DeleteFile_eq path_fids_replaced) (simp add: replaced_def)
qed (use assms in \<open>simp add: GetFileChunks_def DeleteFile_eq path_fids_replaced\<close>)

text \<open>The columns of a chunk row that no update touches.\<close>

definition chunk_info :: "int \<Rightarrow> meta_db \<Rightarrow> (bytes \<times> int \<times> string) option" where
  "chunk_info i db = map_option (\<lambda>c. (ck_hash c, ck_size c, ck_blob c)) (chunk_by_id i db)"

lemma find_map_upd:
  "(\<And>c. P (g c) = P c) \<Longrightarrow> find P (map g xs) = map_option g (find P xs)"
  by (induction xs) auto

lemma find_filter_keep: "find P (filter Q xs) = find P xs \<or> (\<exists>x \<in> set xs. P x \<and> \<not> Q x)"
  by (induction xs) auto

lemma chunk_info_replaced:
  assumes "uses (other_fcs p db) i \<noteq> 0 \<or> ref_count refs i \<noteq> 0"
  shows "chunk_info i (replaced p refs db) = chunk_info i db"
proof -
  have "find (\<lambda>c. ck_id c = i) (filter (kept p refs db) (db_chunks db)) = find (\<lambda>c. ck_id c = i) (db_chunks db)"
    using assms by (intro find_filter_same) (auto simp: kept_def)
  then show ?thesis
    by (simp add: chunk_info_def chunk_by_id_def replaced_def find_map_upd option.map_comp o_def)
qed

lemma GetFileChunks_set:
  "(c, i) \<in> set (GetFileChunks p db) \<longleftrightarrow> (\<exists>fc \<in> set (db_fcs db). fc_file fc \<in> set (path_fids db p) \<and> fc_chunk fc = c \<and> fc_idx fc = i)"
  by (auto simp: GetFileChunks_def image_iff)

lemma chunk_info_upserted:
  assumes "db_inv db" "r \<in> set (GetFileChunks q (upserted f refs db))"
  shows "chunk_info (fst r) (upserted f refs db) = chunk_info (fst r) db"
proof -
  have "chunk_info (fst r) (upserted f refs db) = chunk_info (fst r) (replaced (fr_path f) refs db)"
    by (simp add: chunk_info_def chunk_by_id_def upserted_def Let_def)
  also have "\<dots> = chunk_info (fst r) db"
  proof (rule chunk_info_replaced, cases "q = fr_path f")
    case True
    then have "r \<in> set refs" using assms by (simp add: GetFileChunks_upserted)
    then show "uses (other_fcs (fr_path f) db) (fst r) \<noteq> 0 \<or> ref_count refs (fst r) \<noteq> 0"
      using ref_count_pos by blast
  next
    case False
    obtain c i where r: "r = (c, i)" by fastforce
    have "(c, i) \<in> set (GetFileChunks q db)" using assms False r by (simp add: GetFileChunks_upserted)
    then show "uses (other_fcs (fr_path f) db) (fst r) \<noteq> 0 \<or> ref_count refs (fst r) \<noteq> 0"
      using fids_disjoint [OF assms(1) False] unfolding GetFileChunks_set
      by (auto simp: r uses_zero_iff other_fcs_def)
  qed
  finally show ?thesis .
qed

lemma chunk_info_DeleteFile:
  assumes "db_inv db" "r \<in> set (GetFileChunks q (DeleteFile p db))"
  shows "chunk_info (fst r) (DeleteFile p db) = chunk_info (fst r) db"
proof -
  obtain c i where r: "r = (c, i)" by fastforce
  have q: "q \<noteq> p" "(c, i) \<in> set (GetFileChunks q db)"
    using assms by (auto simp: GetFileChunks_DeleteFile r split: if_splits)
  then have "uses (other_fcs p db) c \<noteq> 0"
    using fids_disjoint [OF assms(1) q(1)] unfolding GetFileChunks_set
    by (auto simp: uses_zero_iff other_fcs_def)
  then show ?thesis using assms(1) by (simp add: DeleteFile_eq chunk_info_replaced r)
qed


subsection \<open>Validation of a snapshot\<close>

text \<open>
  \<open>ValidateSnapshot\<close> on the tables of the file it opens (that the file is a database with the four
  tables and passes SQLite's own integrity check is taken as given).  The checks are the queries
  of the source: a check fails when its query counts a row.
\<close>

definition fk_check :: "meta_db \<Rightarrow> bool" where
  "fk_check db \<longleftrightarrow> list_all (\<lambda>fc. fc_file fc \<in> set (map df_id (db_files db)) \<and>
     fc_chunk fc \<in> set (map ck_id (db_chunks db))) (db_fcs db)"

definition check_paths :: "meta_db \<Rightarrow> bool" where
  "check_paths db \<longleftrightarrow> distinct (map (\<lambda>d. fr_path (df_row d)) (db_files db))"

definition check_refcounts :: "meta_db \<Rightarrow> bool" where
  "check_refcounts db \<longleftrightarrow> list_all (\<lambda>c. ck_refcount c =
     int (length (filter (\<lambda>fc. fc_chunk fc = ck_id c) (db_fcs db)))) (db_chunks db)"

definition idxs_of :: "meta_db \<Rightarrow> int \<Rightarrow> int list" where
  "idxs_of db fid = map fc_idx (filter (\<lambda>fc. fc_file fc = fid) (db_fcs db))"

definition check_idxs :: "meta_db \<Rightarrow> bool" where
  "check_idxs db \<longleftrightarrow> list_all (\<lambda>fid. Min (set (idxs_of db fid)) = 0 \<and>
     Max (set (idxs_of db fid)) = int (length (idxs_of db fid)) - 1) (map fc_file (db_fcs db))"

definition chunk_size_of :: "meta_db \<Rightarrow> int \<Rightarrow> int" where
  "chunk_size_of db i = (case chunk_by_id i db of Some c \<Rightarrow> ck_size c | None \<Rightarrow> 0)"

definition file_total :: "meta_db \<Rightarrow> int \<Rightarrow> int" where
  "file_total db fid = sum_list (map (\<lambda>fc. chunk_size_of db (fc_chunk fc)) (filter (\<lambda>fc. fc_file fc = fid) (db_fcs db)))"

definition check_sizes :: "meta_db \<Rightarrow> bool" where
  "check_sizes db \<longleftrightarrow> list_all (\<lambda>d. fr_isdir (df_row d) \<or> fr_issymlink (df_row d) \<or>
     fr_size (df_row d) = file_total db (df_id d)) (db_files db)"

definition backup_chunks :: "meta_db \<Rightarrow> (bytes \<times> string \<times> int) list" where
  "backup_chunks db = remdups (map (\<lambda>c. (ck_hash c, ck_blob c, ck_size c))
     (filter (\<lambda>c. \<exists>fc \<in> set (db_fcs db). fc_chunk fc = ck_id c \<and> fc_file fc \<in> set (map df_id (db_files db))) (db_chunks db)))"

definition ValidateSnapshot :: "string \<Rightarrow> meta_db \<Rightarrow> (bytes \<times> string \<times> int) list result" where
  "ValidateSnapshot expected db =
     (if \<not> fk_check db then Inl (Err ''foreign_key_check'')
      else case GetMeta ''repository_id'' db of None \<Rightarrow> Inl (Err ''no repository_id'') | Some rid \<Rightarrow>
      if expected \<noteq> [] \<and> rid \<noteq> expected then Inl (Err ''repository_id mismatch'')
      else case GetMeta ''repository_schema'' db of None \<Rightarrow> Inl (Err ''no repository_schema'') | Some sv \<Rightarrow>
      if sv \<noteq> ''1'' then Inl (Err ''repository_schema not supported'')
      else if \<not> check_paths db then Inl (Err ''duplicate path'')
      else if \<not> check_refcounts db then Inl (Err ''refcount mismatch'')
      else if \<not> check_idxs db then Inl (Err ''chunk index not contiguous'')
      else if \<not> check_sizes db then Inl (Err ''size mismatch'')
      else if \<not> list_all (\<lambda>(h, _). length h = 32) (backup_chunks db) then Inl (Err ''bad hash length'')
      else Inr (backup_chunks db))"

text \<open>The content of every file is complete: its chunks are numbered from 0 and add up to its size.\<close>

definition content_ok :: "meta_db \<Rightarrow> db_file \<Rightarrow> bool" where
  "content_ok db d \<longleftrightarrow> set (idxs_of db (df_id d)) = {0..<int (length (idxs_of db (df_id d)))} \<and>
     (fr_isdir (df_row d) \<or> fr_issymlink (df_row d) \<or> fr_size (df_row d) = file_total db (df_id d))"

definition db_complete :: "meta_db \<Rightarrow> bool" where
  "db_complete db \<longleftrightarrow> list_all (content_ok db) (db_files db)"

lemma idx_range:
  assumes "set is = {0..<int (length is)}" "is \<noteq> []"
  shows "Min (set is) = 0" "Max (set is) = int (length is) - 1"
proof -
  have n: "0 < int (length is)" using assms(2) by simp
  have mem: "x \<in> set is \<longleftrightarrow> 0 \<le> x \<and> x < int (length is)" for x
    using assms(1) by (metis atLeastLessThan_iff)
  show "Min (set is) = 0" by (rule Min_eqI) (use n in \<open>simp_all add: mem\<close>)
  show "Max (set is) = int (length is) - 1" by (rule Max_eqI) (use n in \<open>simp_all add: mem\<close>)
qed

lemma Validate_complete:
  assumes "db_inv db" "db_complete db" "GetMeta ''repository_id'' db = Some rid" "expected = [] \<or> expected = rid"
    "GetMeta ''repository_schema'' db = Some ''1''" "\<forall>c \<in> set (db_chunks db). length (ck_hash c) = 32"
  shows "ValidateSnapshot expected db = Inr (backup_chunks db)"
proof -
  have fk: "fk_check db" "check_paths db" "check_refcounts db"
    using assms(1) by (auto simp: fk_check_def check_paths_def check_refcounts_def db_inv_def list_all_iff uses_def)
  have sizes: "check_sizes db"
    using assms(2) by (auto simp: check_sizes_def db_complete_def content_ok_def list_all_iff)
  have "Min (set (idxs_of db (fc_file fc))) = 0 \<and>
      Max (set (idxs_of db (fc_file fc))) = int (length (idxs_of db (fc_file fc))) - 1"
    if fc: "fc \<in> set (db_fcs db)" for fc
  proof -
    obtain d where d: "d \<in> set (db_files db)" "df_id d = fc_file fc"
      using fc assms(1) by (force simp: db_inv_def)
    then have r: "set (idxs_of db (fc_file fc)) = {0..<int (length (idxs_of db (fc_file fc)))}"
      using assms(2) by (auto simp: db_complete_def content_ok_def list_all_iff)
    have "idxs_of db (fc_file fc) \<noteq> []" using fc by (auto simp: idxs_of_def filter_empty_conv)
    from idx_range [OF r this] show ?thesis by simp
  qed
  then have "check_idxs db" by (auto simp: check_idxs_def list_all_iff)
  moreover have "list_all (\<lambda>(h, _). length h = 32) (backup_chunks db)"
    using assms(6) by (auto simp: backup_chunks_def list_all_iff)
  ultimately show ?thesis
    using fk sizes assms(3-5) by (auto simp: ValidateSnapshot_def)
qed

subsection \<open>Every run keeps the invariant\<close>

datatype db_op =
    OpUpsert file_row "chunk_ref list"
  | OpDelete string
  | OpInsertChunk bytes string int
  | OpDeleteChunk int
  | OpDeleteChunkIfZero int
  | OpSetMeta string string
  | OpEnsureRepositoryID string

fun run_op :: "db_op \<Rightarrow> meta_db \<Rightarrow> meta_db" where
  "run_op (OpUpsert f refs) db = snd (UpsertFile f refs db)"
| "run_op (OpDelete p) db = DeleteFile p db"
| "run_op (OpInsertChunk h n sz) db = snd (InsertChunk h n sz db)"
| "run_op (OpDeleteChunk i) db = DeleteChunk i db"
| "run_op (OpDeleteChunkIfZero i) db = DeleteChunkIfZero i db"
| "run_op (OpSetMeta k v) db = SetMeta k v db"
| "run_op (OpEnsureRepositoryID fresh) db = snd (EnsureRepositoryID fresh db)"

lemma db_inv_run_op: "db_inv db \<Longrightarrow> db_inv (run_op x db)"
  by (cases x) (simp_all add: db_inv_UpsertFile db_inv_DeleteFile db_inv_InsertChunk db_inv_DeleteChunk
      db_inv_DeleteChunkIfZero db_inv_SetMeta EnsureRepositoryID_def Let_def split: option.split)

lemma db_inv_run: "db_inv db \<Longrightarrow> db_inv (fold run_op ops db)"
  by (induction ops arbitrary: db) (simp_all add: db_inv_run_op)

subsection \<open>Properties\<close>


text \<open>
  \<open>UpsertFile\<close> with references to existing chunks at distinct places succeeds, makes the row
  and the references of the path what was given, leaves those of every other path alone, and
  keeps the hash, size and blob of every chunk that is still referenced.
\<close>

lemma UpsertFile_replaces:
  assumes "db_inv db" "refs_ok refs db"
  shows "\<exists>fid db'. UpsertFile f refs db = (Inr fid, db') \<and>
    (\<forall>q. GetFileRow q db' = (if q = fr_path f then Some f else GetFileRow q db)) \<and>
    (\<forall>q. GetFileChunks q db' = (if q = fr_path f then sort_key snd refs else GetFileChunks q db)) \<and>
    (\<forall>q r. r \<in> set (GetFileChunks q db') \<longrightarrow> chunk_info (fst r) db' = chunk_info (fst r) db)"
  using UpsertFile_cases(1) [OF assms, of f] GetFileRow_upserted [of _ f refs db]
    GetFileChunks_upserted [OF assms(1), of _ f refs] chunk_info_upserted [OF assms(1), of _ _ f refs]
  by blast

definition row_named :: "string \<Rightarrow> int \<Rightarrow> file_row" where
  "row_named p n = \<lparr>fr_path = p, fr_isdir = False, fr_issymlink = False, fr_mode = 0x81A4, fr_uid = 0, fr_gid = 0,
     fr_size = n, fr_mtime = 0, fr_xattrs = [], fr_link = []\<rparr>"

definition sample_db :: meta_db where
  "sample_db = fold run_op
     [OpInsertChunk [1] ''b1'' 4, OpInsertChunk [2] ''b2'' 5, OpUpsert (row_named ''x'' 9) [(1, 0), (2, 1)]] empty_db"

lemma sample_db_inv: "db_inv sample_db"
  unfolding sample_db_def by (rule db_inv_run) (rule db_inv_empty)

text \<open>
  An upsert with a reference to a chunk that does not exist, or with two references at one
  place, fails and changes nothing: the row, its references and all counts are as before.
\<close>

lemma UpsertFile_rolls_back:
  assumes "db_inv db" "\<not> refs_ok refs db"
  shows "\<exists>e. UpsertFile f refs db = (Inl e, db)"
  using assms by (rule UpsertFile_cases(2))

text \<open>
  A consistent database whose files are complete passes the validation of a snapshot, under
  the expected repository id or none, and the chunks it returns are the referenced ones.
\<close>

lemma complete_snapshot_validates:
  assumes "db_inv db" "db_complete db" "GetMeta ''repository_id'' db = Some rid" "expected = [] \<or> expected = rid"
    "GetMeta ''repository_schema'' db = Some ''1''" "\<forall>c \<in> set (db_chunks db). length (ck_hash c) = 32"
  shows "ValidateSnapshot expected db = Inr (backup_chunks db)"
  using assms by (rule Validate_complete)

end
