(* ===== verification/Crypto.thy ===== *)
theory Crypto
  imports GoStrings
begin

text \<open>
  The encrypted containers (\<open>internal/core/crypto/crypto.go\<close>, \<open>meta.go\<close>): the key file, the blob
  of one chunk and the framed container of a metadata backup.  AES-GCM is a parameter, the record
  \<open>aead\<close>; what the code relies on is \<open>aead_laws\<close>: opening what was sealed gives the plaintext back,
  sealing adds a tag of 16 bytes, and a ciphertext opens under a nonce and associated data only if
  it is what sealing its plaintext under them yields.  Nonces are arguments.
\<close>

record aead =
  seal :: "bytes \<Rightarrow> bytes \<Rightarrow> bytes \<Rightarrow> bytes"
  aopen :: "bytes \<Rightarrow> bytes \<Rightarrow> bytes \<Rightarrow> bytes option"

definition aead_laws :: "aead \<Rightarrow> bool" where
  "aead_laws A \<longleftrightarrow>
     (\<forall>n p a. aopen A n (seal A n p a) a = Some p) \<and>
     (\<forall>n p a. length (seal A n p a) = length p + 16) \<and>
     (\<forall>n c a p. aopen A n c a = Some p \<longrightarrow> c = seal A n p a)"

lemma aead_lawsD:
  assumes "aead_laws A"
  shows "aopen A n (seal A n p a) a = Some p" "length (seal A n p a) = length p + 16"
    "aopen A n c a = Some p \<Longrightarrow> c = seal A n p a"
  using assms by (auto simp: aead_laws_def)

text \<open>A concrete instance, a tag of zeros behind the plaintext, to run the containers on.\<close>

definition zero_tag :: bytes where
  "zero_tag = replicate 16 0"

definition plain_aead :: aead where
  "plain_aead = \<lparr>seal = (\<lambda>n p a. p @ zero_tag),
     aopen = (\<lambda>n c a. if 16 \<le> length c \<and> drop (length c - 16) c = zero_tag
       then Some (take (length c - 16) c) else None)\<rparr>"

lemma plain_aead_laws: "aead_laws plain_aead"
proof -
  have l: "length zero_tag = 16" by (simp add: zero_tag_def)
  have "c = take (length c - 16) c @ zero_tag" if "drop (length c - 16) c = zero_tag" for c :: bytes
    using that by (metis append_take_drop_id)
  then show ?thesis by (auto simp: aead_laws_def plain_aead_def l split: if_splits)
qed

definition be_bytes :: "nat \<Rightarrow> 'a::len word \<Rightarrow> bytes" where
  "be_bytes k x = rev (le_bytes k x)"

definition be_word :: "bytes \<Rightarrow> 'a::len word" where
  "be_word bs = le_word (rev bs)"

lemma length_be_bytes [simp]: "length (be_bytes k x) = k"
  by (simp add: be_bytes_def)

lemma be_word_be_bytes: "8 * k = LENGTH('a) \<Longrightarrow> be_word (be_bytes k (x :: 'a::len word)) = x"
  by (simp add: be_word_def be_bytes_def le_word_le_bytes take_bit_word_eq_self)

lemma be_bytes_inj: "8 * k = LENGTH('a) \<Longrightarrow> be_bytes k (x :: 'a::len word) = be_bytes k y \<Longrightarrow> x = y"
  by (metis be_word_be_bytes)

lemma be_bytes_be_word: "length bs = k \<Longrightarrow> 8 * k = LENGTH('a) \<Longrightarrow> be_bytes k (be_word bs :: 'a::len word) = bs"
  using le_bytes_le_word [of "rev bs", where 'a = 'a] by (simp add: be_word_def be_bytes_def)

subsection \<open>The key file and the blobs\<close>

definition blobMagic :: bytes where "blobMagic = to_bytes ''CRYB''"
definition keyMagic :: bytes where "keyMagic = to_bytes ''CRYK''"
definition metaMagic :: bytes where "metaMagic = to_bytes ''CRYM''"

definition encodeKey :: "bytes \<Rightarrow> bytes" where
  "encodeKey k = keyMagic @ [1] @ k"

text \<open>\<open>LoadKeyFile\<close> on the content of the file.\<close>

definition LoadKeyFile :: "bytes \<Rightarrow> bytes result" where
  "LoadKeyFile b = (if length b \<noteq> 4 + 1 + 32 \<or> take 4 b \<noteq> keyMagic \<or> b ! 4 \<noteq> 1
     then Inl (Err ''bad key file'') else Inr (drop 5 b))"

definition Encrypt :: "aead \<Rightarrow> bytes \<Rightarrow> bytes \<Rightarrow> string \<Rightarrow> bytes" where
  "Encrypt A nonce plaintext blobName =
     blobMagic @ [1] @ nonce @ seal A nonce plaintext (to_bytes blobName)"

definition Decrypt :: "aead \<Rightarrow> bytes \<Rightarrow> string \<Rightarrow> bytes result" where
  "Decrypt A blob blobName =
     (if length blob < 4 + 1 + 12 + 16 \<or> take 4 blob \<noteq> blobMagic \<or> blob ! 4 \<noteq> 1
      then Inl (Err ''bad blob'')
      else case aopen A (take 12 (drop 5 blob)) (drop (5 + 12) blob) (to_bytes blobName) of
        None \<Rightarrow> Inl (Err ''blob authentication failed'')
      | Some pt \<Rightarrow> Inr pt)"

subsection \<open>The container of a metadata backup\<close>

definition metaFrameSize :: nat where "metaFrameSize = 2 ^ 20"

definition metaAAD :: "bytes \<Rightarrow> string \<Rightarrow> 64 word \<Rightarrow> bool \<Rightarrow> bytes" where
  "metaAAD repoID name index final = to_bytes ''crysync/meta/v1'' @ [0] @ repoID @ [0] @ to_bytes name
     @ be_bytes 8 index @ [if final then 1 else 0]"

definition writeMetaFrame :: "aead \<Rightarrow> bytes \<Rightarrow> bytes \<Rightarrow> string \<Rightarrow> 64 word \<Rightarrow> bool \<Rightarrow> bytes \<Rightarrow> bytes" where
  "writeMetaFrame A nonce repoID name index final plaintext =
     be_bytes 4 (word_of_nat (length plaintext) :: 32 word) @ nonce
       @ seal A nonce plaintext (metaAAD repoID name index final)"

text \<open>
  The loop of \<open>EncryptMeta\<close> over the frames of the source; the nonce of a frame is \<open>nonces i\<close>.  The
  source is its bytes and the error it ends in; \<open>io.ErrUnexpectedEOF\<close> ends it like \<open>io.EOF\<close>.
\<close>

fun enc_frames :: "aead \<Rightarrow> (64 word \<Rightarrow> bytes) \<Rightarrow> bytes \<Rightarrow> string \<Rightarrow> 64 word \<Rightarrow> bytes list \<Rightarrow> bytes" where
  "enc_frames A nonces repoID name i [] = writeMetaFrame A (nonces i) repoID name i True []"
| "enc_frames A nonces repoID name i (p # ps) =
     writeMetaFrame A (nonces i) repoID name i False p @ enc_frames A nonces repoID name (i + 1) ps"

definition meta_header :: "bytes \<Rightarrow> bytes" where
  "meta_header repoID = metaMagic @ [1] @ repoID @ be_bytes 4 (word_of_nat metaFrameSize :: 32 word)"

definition EncryptMeta :: "aead \<Rightarrow> (64 word \<Rightarrow> bytes) \<Rightarrow> bytes \<times> goerr \<Rightarrow> string \<Rightarrow> string \<Rightarrow> bytes result" where
  "EncryptMeta A nonces src backupName repoIDHex =
     (case hex_decode repoIDHex of
        None \<Rightarrow> Inl (Err ''bad repository id'')
      | Some repoID \<Rightarrow>
          if length repoID \<noteq> 16 then Inl (Err ''bad repository id'')
          else if snd src \<noteq> EOF \<and> snd src \<noteq> UnexpectedEOF then Inl (snd src)
          else Inr (meta_header repoID @ enc_frames A nonces repoID backupName 0 (chunks_of metaFrameSize (fst src))))"

definition dec_frame :: "aead \<Rightarrow> bytes \<Rightarrow> string \<Rightarrow> 64 word \<Rightarrow> bytes option reader" where
  "dec_frame A repoID name index = rbind (read_full 4) (\<lambda>l.
     let n = unat (be_word l :: 32 word) in
     if n > metaFrameSize then rfail (Err ''frame too large'')
     else rbind (read_full 12) (\<lambda>nonce. rbind (read_full (n + 16)) (\<lambda>sealed.
       case aopen A nonce sealed (metaAAD repoID name index (n = 0)) of
         None \<Rightarrow> rfail (Err ''authentication failed'')
       | Some pt \<Rightarrow> rret (if n = 0 then None else Some pt))))"

lemma dec_frame_less: "dec_frame A repoID name i bs = Inr (x, rest) \<Longrightarrow> length rest < length bs"
  by (auto simp: dec_frame_def rbind_eq_Inr Let_def rret_def rfail_def split: if_splits option.splits
      dest!: read_full_Inr)

function dec_frames :: "aead \<Rightarrow> bytes \<Rightarrow> string \<Rightarrow> 64 word \<Rightarrow> bytes \<Rightarrow> bytes result" where
  "dec_frames A repoID name i bs = (case dec_frame A repoID name i bs of
       Inl e \<Rightarrow> Inl e
     | Inr (None, rest) \<Rightarrow> if rest = [] then Inr [] else Inl (Err ''trailing data'')
     | Inr (Some pt, rest) \<Rightarrow> bind_res (dec_frames A repoID name (i + 1) rest) (\<lambda>p. Inr (pt @ p)))"
  by pat_completeness auto
termination by (relation "measure (\<lambda>(A, r, n, i, bs). length bs)") (auto dest: dec_frame_less)

declare dec_frames.simps [simp del]

text \<open>The result is the repository id of the header and the plaintext written.\<close>

definition DecryptMeta :: "aead \<Rightarrow> bytes \<Rightarrow> string \<Rightarrow> (string \<times> bytes) result" where
  "DecryptMeta A src backupName =
     bind_res (read_full 25 src) (\<lambda>(header, rest).
       if take 4 header \<noteq> metaMagic \<or> header ! 4 \<noteq> 1 then Inl (Err ''bad meta backup'')
       else let repoID = take 16 (drop 5 header) in
       if unat (be_word (drop 21 header) :: 32 word) \<noteq> metaFrameSize then Inl (Err ''bad frame size'')
       else bind_res (dec_frames A repoID backupName 0 rest) (\<lambda>p. Inr (hex_encode repoID, p)))"


subsection \<open>Round trips\<close>

lemma Decrypt_Encrypt:
  assumes "aead_laws A" "length nonce = 12"
  shows "Decrypt A (Encrypt A nonce pt name) name = Inr pt"
  using assms by (simp add: Decrypt_def Encrypt_def blobMagic_def aead_lawsD nth_append)

lemma Decrypt_Inr:
  assumes "aead_laws A" "Decrypt A blob name = Inr pt"
  shows "\<exists>nonce. length nonce = 12 \<and> blob = Encrypt A nonce pt name"
proof -
  have b: "33 \<le> length blob" "take 4 blob = blobMagic" "blob ! 4 = 1"
    "aopen A (take 12 (drop 5 blob)) (drop 17 blob) (to_bytes name) = Some pt"
    using assms(2) by (auto simp: Decrypt_def split: if_splits option.splits)
  have s: "drop 17 blob = seal A (take 12 (drop 5 blob)) pt (to_bytes name)"
    using aead_lawsD(3) [OF assms(1) b(4)] .
  have "blob = take 4 blob @ [blob ! 4] @ take 12 (drop 5 blob) @ drop 17 blob"
  proof -
    have "blob = take 4 blob @ drop 4 blob" by simp
    also have "drop 4 blob = blob ! 4 # drop 5 blob" using b(1) Cons_nth_drop_Suc [of 4 blob] by simp
    also have "drop 5 blob = take 12 (drop 5 blob) @ drop 17 blob"
      using append_take_drop_id [of 12 "drop 5 blob"] by simp
    finally show ?thesis by simp
  qed
  then have "blob = Encrypt A (take 12 (drop 5 blob)) pt name"
    using b(2,3) s by (simp add: Encrypt_def)
  moreover have "length (take 12 (drop 5 blob)) = 12" using b(1) by simp
  ultimately show ?thesis by blast
qed

lemma dec_frame_write:
  assumes "aead_laws A" "length nonce = 12" "length pt \<le> metaFrameSize" "final \<longleftrightarrow> pt = []"
  shows "dec_frame A repoID name i (writeMetaFrame A nonce repoID name i final pt @ rest) =
    Inr (if pt = [] then None else Some pt, rest)"
proof -
  have n: "unat (be_word (be_bytes 4 (word_of_nat (length pt) :: 32 word)) :: 32 word) = length pt"
    using assms(3) by (simp add: be_word_be_bytes metaFrameSize_def unat_of_nat take_bit_nat_eq_self)
  have m: "\<not> length pt > metaFrameSize" using assms(3) by simp
  show ?thesis
    using assms(2,4) m
    by (simp add: dec_frame_def writeMetaFrame_def rbind_read_full aead_lawsD [OF assms(1)] n Let_def rret_def)
qed

lemma dec_frames_enc_frames:
  assumes "aead_laws A" "\<And>j. length (nonces j) = 12" "\<forall>p \<in> set ps. p \<noteq> [] \<and> length p \<le> metaFrameSize"
  shows "dec_frames A repoID name i (enc_frames A nonces repoID name i ps) = Inr (concat ps)"
  using assms(3)
proof (induction ps arbitrary: i)
  case Nil
  then show ?case
    using dec_frame_write [OF assms(1,2), where pt = "[]" and final = True and rest = "[]"] by (simp add: dec_frames.simps [where i = i])
next
  case (Cons p ps)
  then show ?case
    using dec_frame_write [OF assms(1,2), where pt = p and final = False]
    by (simp add: dec_frames.simps [where i = i])
qed

lemma dec_frame_append:
  "dec_frame A repoID name i bs = Inr (x, rest) \<Longrightarrow> dec_frame A repoID name i (bs @ t) = Inr (x, rest @ t)"
  by (rule stableD) (unfold dec_frame_def Let_def, intro stable_intros)

lemma dec_frames_prefix_free:
  "dec_frames A repoID name i bs = Inr p \<Longrightarrow> t \<noteq> [] \<Longrightarrow> \<exists>e. dec_frames A repoID name i (bs @ t) = Inl e"
proof (induction A repoID name i bs arbitrary: p rule: dec_frames.induct)
  case (1 A repoID name i bs)
  obtain x rest where f: "dec_frame A repoID name i bs = Inr (x, rest)"
    using "1.prems"(1) by (auto simp: dec_frames.simps [of A repoID name i bs] split: sum.splits)
  note g = dec_frame_append [OF f, of t]
  show ?case
  proof (cases x)
    case None
    then show ?thesis using f g "1.prems"
      by (auto simp: dec_frames.simps [of A repoID name i bs] dec_frames.simps [of A repoID name i "bs @ t"] split: if_splits)
  next
    case (Some pt)
    then obtain q where "dec_frames A repoID name (i + 1) rest = Inr q"
      using f "1.prems"(1) by (auto simp: dec_frames.simps [of A repoID name i bs] bind_res_eq_Inr)
    from "1.IH" [OF f refl Some this "1.prems"(2)] show ?thesis
      using g Some by (auto simp: dec_frames.simps [of A repoID name i "bs @ t"])
  qed
qed

lemma meta_header_parts:
  assumes "length repo = 16"
  shows "length (meta_header repo) = 25" "take 4 (meta_header repo) = metaMagic" "meta_header repo ! 4 = 1"
    "take 16 (drop 5 (meta_header repo)) = repo"
    "drop 21 (meta_header repo) = be_bytes 4 (word_of_nat metaFrameSize :: 32 word)"
    "unat (be_word (be_bytes 4 (word_of_nat metaFrameSize :: 32 word)) :: 32 word) = metaFrameSize"
  using assms by (simp_all add: meta_header_def metaMagic_def nth_append be_word_be_bytes metaFrameSize_def)

lemma DecryptMeta_frames:
  assumes "aead_laws A" "\<And>j. length (nonces j) = 12" "length repo = 16"
    "\<forall>p \<in> set ps. p \<noteq> [] \<and> length p \<le> metaFrameSize"
  shows "DecryptMeta A (meta_header repo @ enc_frames A nonces repo name 0 ps) name = Inr (hex_encode repo, concat ps)"
  using dec_frames_enc_frames [OF assms(1,2,4), where repoID = repo and name = name and i = 0] meta_header_parts [OF assms(3)]
  by (simp add: DecryptMeta_def read_full_append)

subsection \<open>Properties\<close>

text \<open>A blob opens under the name it was made for and gives the chunk back.\<close>

lemma blob_roundtrip:
  assumes "aead_laws A" "length nonce = 12"
  shows "Decrypt A (Encrypt A nonce pt name) name = Inr pt"
  using assms by (rule Decrypt_Encrypt)

text \<open>
  C34: what \<open>Decrypt\<close> accepts is a blob that \<open>Encrypt\<close> makes of the returned plaintext under the same
  name, byte for byte: nothing else, in header, length or body, is let through.
\<close>

theorem blob_only_sealed:
  assumes "aead_laws A" "Decrypt A blob name = Inr pt"
  shows "\<exists>nonce. length nonce = 12 \<and> blob = Encrypt A nonce pt name"
  using assms by (rule Decrypt_Inr)

theorem blob_only_sealed_witness:
  "\<exists>nonce. length nonce = 12 \<and> Encrypt plain_aead (replicate 12 5) [1] ''n'' = Encrypt plain_aead nonce [1] ''n''"
  by (rule blob_only_sealed [OF plain_aead_laws]) (rule Decrypt_Encrypt [OF plain_aead_laws], simp)

text \<open>A metadata backup decrypts under its name to the snapshot and the repository id.\<close>

lemma meta_roundtrip:
  assumes "aead_laws A" "\<And>j. length (nonces j) = 12" "length repo = 16" "e = EOF \<or> e = UnexpectedEOF"
  shows "\<exists>c. EncryptMeta A nonces (data, e) name (hex_encode repo) = Inr c \<and>
    DecryptMeta A c name = Inr (hex_encode repo, data)"
proof -
  let ?c = "meta_header repo @ enc_frames A nonces repo name 0 (chunks_of metaFrameSize data)"
  have "EncryptMeta A nonces (data, e) name (hex_encode repo) = Inr ?c"
    using assms(3,4) by (auto simp: EncryptMeta_def)
  moreover have "0 < metaFrameSize" by (simp add: metaFrameSize_def)
  ultimately show ?thesis
    using DecryptMeta_frames [OF assms(1-3), where ps = "chunks_of metaFrameSize data" and name = name]
      chunks_of_lengths [of metaFrameSize _ data] by auto
qed

text \<open>
  C14: no container that decrypts is a proper prefix of another one that does: a backup that was cut
  short, between frames or inside one, or that has bytes behind its last frame, is refused.
\<close>

theorem meta_truncation_detected:
  assumes "DecryptMeta A c name = Inr r" "t \<noteq> []"
  shows "\<exists>e. DecryptMeta A (c @ t) name = Inl e"
proof -
  obtain h rest where h: "read_full 25 c = Inr (h, rest)"
    using assms(1) by (auto simp: DecryptMeta_def bind_res_eq_Inr)
  then have h': "read_full 25 (c @ t) = Inr (h, rest @ t)" by (auto simp: read_full_def split: if_splits)
  obtain p where "dec_frames A (take 16 (drop 5 h)) name 0 rest = Inr p"
    using assms(1) h by (auto simp: DecryptMeta_def bind_res_eq_Inr Let_def split: if_splits)
  from dec_frames_prefix_free [OF this assms(2)] obtain e
    where "dec_frames A (take 16 (drop 5 h)) name 0 (rest @ t) = Inl e" ..
  then show ?thesis by (simp add: DecryptMeta_def h' Let_def)
qed

theorem meta_truncation_detected_witness:
  "\<exists>c e. DecryptMeta plain_aead c ''m'' = Inr (hex_encode (replicate 16 7), [1, 2, 3]) \<and>
     DecryptMeta plain_aead (c @ [0]) ''m'' = Inl e"
proof -
  have "DecryptMeta plain_aead (meta_header (replicate 16 7) @
      enc_frames plain_aead (\<lambda>_. replicate 12 0) (replicate 16 7) ''m'' 0 [[1, 2, 3]]) ''m''
      = Inr (hex_encode (replicate 16 7), concat [[1, 2, 3]])"
  proof (rule DecryptMeta_frames [OF plain_aead_laws])
    have "(3::nat) \<le> metaFrameSize" by (simp add: metaFrameSize_def)
    then show "\<forall>p \<in> set [[1, 2, 3]]. p \<noteq> [] \<and> length p \<le> metaFrameSize" by simp
  qed simp_all
  then have ok: "DecryptMeta plain_aead (meta_header (replicate 16 7) @
      enc_frames plain_aead (\<lambda>_. replicate 12 0) (replicate 16 7) ''m'' 0 [[1, 2, 3]]) ''m''
      = Inr (hex_encode (replicate 16 7), [1, 2, 3])" (is "DecryptMeta _ ?c _ = _") by (simp only: concat.simps append_Nil2)
  obtain e where "DecryptMeta plain_aead (?c @ [0]) ''m'' = Inl e"
    using meta_truncation_detected [OF ok, of "[0]"] by blast
  with ok show ?thesis by blast
qed

text \<open>
  The associated data of a frame names the repository, the backup, the frame's place and whether
  it is the last one, without ambiguity: a frame authenticated for one of them is for no other.
\<close>

lemma metaAAD_injective:
  assumes "metaAAD r n i f = metaAAD r' n' i' f'" "length r = 16" "length r' = 16"
  shows "r = r' \<and> n = n' \<and> i = i' \<and> f = f'"
proof -
  have eq: "r @ 0 # to_bytes n @ be_bytes 8 i @ [if f then 1 else 0] = r' @ 0 # to_bytes n' @ be_bytes 8 i' @ [if f' then 1 else 0]"
    using assms(1) by (simp add: metaAAD_def)
  then have r: "r = r'" and tl: "to_bytes n @ be_bytes 8 i @ [if f then 1 else 0] = to_bytes n' @ be_bytes 8 i' @ [if f' then 1 else 0]"
    using assms(2,3) by (simp_all add: append_eq_append_conv)
  have len: "length (to_bytes n) = length (to_bytes n')" using arg_cong [OF tl, of length] by simp
  note parts = iffD1 [OF append_eq_append_conv [OF disjI1 [OF len]] tl]
  have n: "to_bytes n = to_bytes n'" using parts by (rule conjunct1)
  have b: "be_bytes 8 i @ [if f then 1 else 0 :: byte] = be_bytes 8 i' @ [if f' then 1 else 0]"
    using parts by (rule conjunct2)
  have "n = n'" using n of_bytes_to_bytes by metis
  moreover have "i = i'" using b be_bytes_inj [of 8 i i'] by simp
  moreover have "f = f'" using b by (simp split: if_splits)
  ultimately show ?thesis using r by simp
qed

end
