(* ===== verification/Backends.thy ===== *)
theory Backends
  imports GoStrings
begin

text \<open>
  The blob backends (\<open>internal/backend/backend.go\<close>, \<open>bucket.go\<close>, \<open>dir.go\<close>): the in-memory backend,
  the rules for blob names and buckets and the directory backend over a model of its tree of
  files.  The SHA-256 digest of a name, in hexadecimal, is the parameter \<open>hx\<close>.  The locale
  \<open>blob_store\<close> is the contract the core relies on, in terms of the map from names to blobs that a
  store represents; both backends interpret it.
\<close>

subsection \<open>Names and buckets\<close>

definition DefaultBucketDepth :: int where "DefaultBucketDepth = 2"

definition NormalizeBucketDepth :: "int \<Rightarrow> int result" where
  "NormalizeBucketDepth d =
     (if d = 0 then Inr DefaultBucketDepth
      else if d < 1 \<or> 4 < d then Inl (Err ''backend.bucket_depth must be 0 or 1 to 4'')
      else Inr d)"

definition validateBlobName :: "string \<Rightarrow> unit result" where
  "validateBlobName name =
     (if name = [] then Inl (Err ''empty blob name'')
      else if name = ''.'' \<or> name = ''..'' \<or> HasPrefix name ''/'' \<or>
         has_char CHR ''/'' name \<or> has_char (CHR 0x5C) name
      then Inl (Err ''bad blob name'')
      else Inr ())"

definition valid_name :: "string \<Rightarrow> bool" where
  "valid_name n \<longleftrightarrow> validateBlobName n = Inr ()"

definition bucketParts :: "(string \<Rightarrow> string) \<Rightarrow> string \<Rightarrow> int \<Rightarrow> string list result" where
  "bucketParts hx name depth =
     bind_res (validateBlobName name) (\<lambda>_. bind_res (NormalizeBucketDepth depth) (\<lambda>d.
       Inr (map (\<lambda>i. take 2 (drop (i * 2) (hx name))) [0..<nat d])))"

definition isBucketPart :: "string \<Rightarrow> bool" where
  "isBucketPart s \<longleftrightarrow> length s = 2 \<and>
     list_all (\<lambda>c. let n = of_char c :: nat in (48 \<le> n \<and> n \<le> 57) \<or> (97 \<le> n \<and> n \<le> 102)) s"

definition isTemporaryBlob :: "string \<Rightarrow> bool" where
  "isTemporaryBlob name \<longleftrightarrow> HasPrefix name ''.tmp-''"

definition blobBelongsToBucket :: "(string \<Rightarrow> string) \<Rightarrow> string \<Rightarrow> string list \<Rightarrow> int \<Rightarrow> bool" where
  "blobBelongsToBucket hx name parts depth \<longleftrightarrow> bucketParts hx name depth = Inr parts"

subsection \<open>The in-memory backend\<close>

record mem_backend =
  mem_m :: "(string \<times> bytes) list"
  mem_mm :: "(string \<times> bytes) list"

definition NewInMemory :: mem_backend where
  "NewInMemory = \<lparr>mem_m = [], mem_mm = []\<rparr>"

definition assoc_put :: "string \<Rightarrow> bytes \<Rightarrow> (string \<times> bytes) list \<Rightarrow> (string \<times> bytes) list" where
  "assoc_put n d m = (n, d) # filter (\<lambda>(k, v). k \<noteq> n) m"

definition assoc_del :: "string \<Rightarrow> (string \<times> bytes) list \<Rightarrow> (string \<times> bytes) list" where
  "assoc_del n m = filter (\<lambda>(k, v). k \<noteq> n) m"

definition mem_Put :: "string \<Rightarrow> bytes \<Rightarrow> mem_backend \<Rightarrow> unit result \<times> mem_backend" where
  "mem_Put n d b = (Inr (), b\<lparr>mem_m := assoc_put n d (mem_m b)\<rparr>)"

definition mem_Get :: "string \<Rightarrow> mem_backend \<Rightarrow> bytes result" where
  "mem_Get n b = (case map_of (mem_m b) n of None \<Rightarrow> Inl (Err ''no such blob'') | Some d \<Rightarrow> Inr d)"

definition mem_Delete :: "string \<Rightarrow> mem_backend \<Rightarrow> unit result \<times> mem_backend" where
  "mem_Delete n b = (Inr (), b\<lparr>mem_m := assoc_del n (mem_m b)\<rparr>)"

definition mem_List :: "mem_backend \<Rightarrow> string list" where
  "mem_List b = map fst (mem_m b)"

text \<open>\<open>PutMetaContext\<close> reads one byte more than announced and refuses a source of another size.\<close>

definition mem_PutMeta :: "string \<Rightarrow> bytes \<Rightarrow> nat \<Rightarrow> mem_backend \<Rightarrow> unit result \<times> mem_backend" where
  "mem_PutMeta n src sz b = (case validateBlobName n of Inl e \<Rightarrow> (Inl e, b) | Inr _ \<Rightarrow>
     let d = take (sz + 1) src in
     if length d \<noteq> sz then (Inl (Err ''meta object size mismatch''), b)
     else (Inr (), b\<lparr>mem_mm := assoc_put n d (mem_mm b)\<rparr>))"

definition mem_GetMeta :: "string \<Rightarrow> mem_backend \<Rightarrow> bytes result" where
  "mem_GetMeta n b = (case map_of (mem_mm b) n of None \<Rightarrow> Inl (Err ''no such meta backup'') | Some d \<Rightarrow> Inr d)"

definition mem_ListMeta :: "mem_backend \<Rightarrow> string list" where
  "mem_ListMeta b = map fst (mem_mm b)"

definition mem_DeleteMeta :: "string \<Rightarrow> mem_backend \<Rightarrow> unit result \<times> mem_backend" where
  "mem_DeleteMeta n b = (Inr (), b\<lparr>mem_mm := assoc_del n (mem_mm b)\<rparr>)"

subsection \<open>The directory backend\<close>

text \<open>
  The tree below the directory: the regular files, each with the directories on its way, its name
  and its content.  Files that are not blobs (a temporary file, a file in a wrong bucket, the
  backups under \<open>meta\<close>) may be among them.
\<close>

type_synonym fs_key = "string list \<times> string"

record dir_backend =
  dir_depth :: int
  dir_files :: "(fs_key \<times> bytes) list"

definition fs_put :: "fs_key \<Rightarrow> bytes \<Rightarrow> (fs_key \<times> bytes) list \<Rightarrow> (fs_key \<times> bytes) list" where
  "fs_put k d fs = (k, d) # filter (\<lambda>(j, v). j \<noteq> k) fs"

definition fs_del :: "fs_key \<Rightarrow> (fs_key \<times> bytes) list \<Rightarrow> (fs_key \<times> bytes) list" where
  "fs_del k fs = filter (\<lambda>(j, v). j \<noteq> k) fs"

text \<open>
  \<open>Put\<close> writes a temporary file and renames it; \<open>fault\<close> is where the operating system fails, if it
  does: the temporary file is removed and the blob is untouched.
\<close>

definition NewDir :: "int \<Rightarrow> dir_backend result" where
  "NewDir depth = bind_res (NormalizeBucketDepth depth) (\<lambda>d. Inr \<lparr>dir_depth = d, dir_files = []\<rparr>)"

definition dir_Put :: "(string \<Rightarrow> string) \<Rightarrow> goerr option \<Rightarrow> string \<Rightarrow> bytes \<Rightarrow> dir_backend \<Rightarrow> unit result \<times> dir_backend" where
  "dir_Put hx fault n d b = (case bucketParts hx n (dir_depth b) of
       Inl e \<Rightarrow> (Inl e, b)
     | Inr parts \<Rightarrow> (case fault of
         Some e \<Rightarrow> (Inl e, b)
       | None \<Rightarrow> (Inr (), b\<lparr>dir_files := fs_put (parts, n) d (dir_files b)\<rparr>)))"

definition dir_Get :: "(string \<Rightarrow> string) \<Rightarrow> string \<Rightarrow> dir_backend \<Rightarrow> bytes result" where
  "dir_Get hx n b = bind_res (bucketParts hx n (dir_depth b)) (\<lambda>parts.
     case map_of (dir_files b) (parts, n) of None \<Rightarrow> Inl ErrNotExist | Some d \<Rightarrow> Inr d)"

definition dir_Delete :: "(string \<Rightarrow> string) \<Rightarrow> string \<Rightarrow> dir_backend \<Rightarrow> unit result \<times> dir_backend" where
  "dir_Delete hx n b = (case bucketParts hx n (dir_depth b) of
       Inl e \<Rightarrow> (Inl e, b)
     | Inr parts \<Rightarrow> (case map_of (dir_files b) (parts, n) of
         None \<Rightarrow> (Inl ErrNotExist, b)
       | Some _ \<Rightarrow> (Inr (), b\<lparr>dir_files := fs_del (parts, n) (dir_files b)\<rparr>)))"

definition is_blob_file :: "(string \<Rightarrow> string) \<Rightarrow> int \<Rightarrow> fs_key \<Rightarrow> bool" where
  "is_blob_file hx depth k \<longleftrightarrow> (case k of (parts, n) \<Rightarrow>
     int (length parts) = depth \<and> list_all isBucketPart parts \<and> \<not> isTemporaryBlob n \<and> blobBelongsToBucket hx n parts depth)"

definition dir_List :: "(string \<Rightarrow> string) \<Rightarrow> dir_backend \<Rightarrow> string list" where
  "dir_List hx b = map (\<lambda>(k, v). snd k) (filter (\<lambda>(k, v). is_blob_file hx (dir_depth b) k) (dir_files b))"

subsection \<open>What the core relies on\<close>

locale blob_store =
  fixes view :: "'s \<Rightarrow> string \<Rightarrow> bytes option"
    and inv :: "'s \<Rightarrow> bool"
    and name_ok :: "string \<Rightarrow> bool"
    and put :: "string \<Rightarrow> bytes \<Rightarrow> 's \<Rightarrow> unit result \<times> 's"
    and get :: "string \<Rightarrow> 's \<Rightarrow> bytes result"
    and del :: "string \<Rightarrow> 's \<Rightarrow> unit result \<times> 's"
    and names :: "'s \<Rightarrow> string list"
  assumes put_ok: "inv s \<Longrightarrow> name_ok n \<Longrightarrow> fst (put n d s) = Inr ()"
    and put_view: "inv s \<Longrightarrow> name_ok n \<Longrightarrow> view (snd (put n d s)) = (view s)(n \<mapsto> d)"
    and put_inv: "inv s \<Longrightarrow> name_ok n \<Longrightarrow> inv (snd (put n d s))"
    and get_some: "inv s \<Longrightarrow> name_ok n \<Longrightarrow> view s n = Some d \<Longrightarrow> get n s = Inr d"
    and get_none: "inv s \<Longrightarrow> name_ok n \<Longrightarrow> view s n = None \<Longrightarrow> \<exists>e. get n s = Inl e"
    and del_view: "inv s \<Longrightarrow> name_ok n \<Longrightarrow> view (snd (del n s)) = (view s)(n := None)"
    and del_inv: "inv s \<Longrightarrow> name_ok n \<Longrightarrow> inv (snd (del n s))"
    and names_view: "inv s \<Longrightarrow> n \<in> set (names s) \<longleftrightarrow> name_ok n \<and> view s n \<noteq> None"
begin

lemma get_put: "inv s \<Longrightarrow> name_ok n \<Longrightarrow> get n (snd (put n d s)) = Inr d"
  by (simp add: get_some put_inv put_view)

lemma get_put_other:
  "inv s \<Longrightarrow> name_ok n \<Longrightarrow> name_ok m \<Longrightarrow> m \<noteq> n \<Longrightarrow> view s m = Some v \<Longrightarrow> get m (snd (put n d s)) = Inr v"
  by (simp add: get_some put_inv put_view)

lemma get_del: "inv s \<Longrightarrow> name_ok n \<Longrightarrow> \<exists>e. get n (snd (del n s)) = Inl e"
  by (simp add: get_none del_inv del_view)

lemma names_put: "inv s \<Longrightarrow> name_ok n \<Longrightarrow> set (names (snd (put n d s))) = insert n (set (names s))"
  by (auto simp: names_view put_inv put_view split: if_splits)

lemma names_del: "inv s \<Longrightarrow> name_ok n \<Longrightarrow> set (names (snd (del n s))) = set (names s) - {n}"
  by (auto simp: names_view del_inv del_view split: if_splits)

text \<open>Any sequence of writes: every name reads back the last value written under it.\<close>

lemma put_all_view:
  "inv s \<Longrightarrow> list_all (\<lambda>(n, d). name_ok n) ws \<Longrightarrow>
    inv (fold (\<lambda>(n, d) s. snd (put n d s)) ws s) \<and>
    view (fold (\<lambda>(n, d) s. snd (put n d s)) ws s) = view s ++ map_of (rev ws)"
  by (induction ws arbitrary: s) (auto simp: put_inv put_view map_add_def fun_eq_iff split: option.splits)

lemma put_all_get:
  "inv s \<Longrightarrow> list_all (\<lambda>(n, d). name_ok n) ws \<Longrightarrow> name_ok n \<Longrightarrow> map_of (rev ws) n = Some d \<Longrightarrow>
    get n (fold (\<lambda>(n, d) s. snd (put n d s)) ws s) = Inr d"
  using put_all_view [of s ws] by (simp add: get_some map_add_def)

end

lemma map_of_assoc_put: "map_of (assoc_put n d m) = (map_of m)(n \<mapsto> d)"
  by (simp add: assoc_put_def map_of_filter_key)

lemma map_of_assoc_del: "map_of (assoc_del n m) = (map_of m)(n := None)"
  by (simp add: assoc_del_def map_of_filter_key)

lemma keys_map_of: "n \<in> set (map fst m) \<longleftrightarrow> map_of m n \<noteq> None"
  by (simp add: map_of_eq_None_iff)

interpretation mem: blob_store "\<lambda>b. map_of (mem_m b)" "\<lambda>_. True" "\<lambda>_. True" mem_Put mem_Get mem_Delete mem_List
  by unfold_locales
    (auto simp: mem_Put_def mem_Get_def mem_Delete_def mem_List_def map_of_assoc_put map_of_assoc_del keys_map_of
      simp del: set_map split: option.splits)

definition dir_view :: "(string \<Rightarrow> string) \<Rightarrow> dir_backend \<Rightarrow> string \<Rightarrow> bytes option" where
  "dir_view hx b n = (case bucketParts hx n (dir_depth b) of Inl _ \<Rightarrow> None | Inr parts \<Rightarrow> map_of (dir_files b) (parts, n))"

definition dir_inv :: "dir_backend \<Rightarrow> bool" where
  "dir_inv b \<longleftrightarrow> 1 \<le> dir_depth b \<and> dir_depth b \<le> 4"

text \<open>The names the core uses are 64 lower-case hexadecimal digits: valid and not temporary.\<close>

definition hex64 :: "(string \<Rightarrow> string) \<Rightarrow> bool" where
  "hex64 hx \<longleftrightarrow> (\<forall>n. length (hx n) = 64 \<and> (\<forall>c \<in> set (hx n). isBucketPart [c, c]))"

definition store_name :: "string \<Rightarrow> bool" where
  "store_name n \<longleftrightarrow> valid_name n \<and> \<not> isTemporaryBlob n"

lemma bucketParts_ok:
  assumes "dir_inv b" "valid_name n"
  shows "bucketParts hx n (dir_depth b) = Inr (map (\<lambda>i. take 2 (drop (i * 2) (hx n))) [0..<nat (dir_depth b)])"
  using assms by (simp add: bucketParts_def valid_name_def NormalizeBucketDepth_def dir_inv_def)

lemma bucketParts_valid: "bucketParts hx n d = Inr p \<Longrightarrow> valid_name n"
  by (auto simp: bucketParts_def bind_res_eq_Inr valid_name_def)

lemma bucket_is_part:
  assumes "hex64 hx" "i < 4"
  shows "isBucketPart (take 2 (drop (i * 2) (hx n)))"
proof -
  have l: "length (hx n) = 64" and s: "\<And>c. c \<in> set (hx n) \<Longrightarrow> isBucketPart [c, c]" using assms(1) by (auto simp: hex64_def)
  have "set (take 2 (drop (i * 2) (hx n))) \<subseteq> set (hx n)" by (meson set_drop_subset set_take_subset order_trans)
  then show ?thesis using s l assms(2) by (auto simp: isBucketPart_def list_all_iff Let_def)
qed

lemma map_of_fs_put: "map_of (fs_put k d fs) = (map_of fs)(k \<mapsto> d)"
  by (simp add: fs_put_def map_of_filter_key)

lemma map_of_fs_del: "map_of (fs_del k fs) = (map_of fs)(k := None)"
  by (simp add: fs_del_def map_of_filter_key)

lemma dir_names_view:
  assumes hx: "hex64 hx" and inv: "dir_inv b"
  shows "n \<in> set (dir_List hx b) \<longleftrightarrow> store_name n \<and> dir_view hx b n \<noteq> None"
proof
  assume "n \<in> set (dir_List hx b)"
  then obtain parts v where "((parts, n), v) \<in> set (dir_files b)" "is_blob_file hx (dir_depth b) (parts, n)"
    by (auto simp: dir_List_def)
  then show "store_name n \<and> dir_view hx b n \<noteq> None"
    using bucketParts_valid by (force simp: is_blob_file_def blobBelongsToBucket_def store_name_def dir_view_def map_of_eq_None_iff)
next
  assume n: "store_name n \<and> dir_view hx b n \<noteq> None"
  let ?p = "map (\<lambda>i. take 2 (drop (i * 2) (hx n))) [0..<nat (dir_depth b)]"
  have bp: "bucketParts hx n (dir_depth b) = Inr ?p" using n inv by (intro bucketParts_ok) (auto simp: store_name_def)
  then obtain v where "map_of (dir_files b) (?p, n) = Some v" using n by (auto simp: dir_view_def)
  then have "((?p, n), v) \<in> set (dir_files b)" by (rule map_of_SomeD)
  moreover have "is_blob_file hx (dir_depth b) (?p, n)"
    using bp n inv bucket_is_part [OF hx]
    by (auto simp: is_blob_file_def blobBelongsToBucket_def store_name_def list_all_iff dir_inv_def)
  ultimately show "n \<in> set (dir_List hx b)"
    by (force simp: dir_List_def)
qed


lemma dir_parts: "dir_inv b \<Longrightarrow> store_name n \<Longrightarrow> \<exists>p. bucketParts hx n (dir_depth b) = Inr p"
  by (auto simp: store_name_def bucketParts_ok)

lemma dir_view_upd:
  assumes "dir_inv b" "store_name n" "bucketParts hx n (dir_depth b) = Inr p" "map_of fs' = (map_of (dir_files b))((p, n) := x)"
  shows "dir_view hx (b\<lparr>dir_files := fs'\<rparr>) = (dir_view hx b)(n := x)"
proof
  fix m
  show "dir_view hx (b\<lparr>dir_files := fs'\<rparr>) m = ((dir_view hx b)(n := x)) m"
    using assms by (cases "m = n") (auto simp: dir_view_def split: sum.splits)
qed

text \<open>The interpretation holds for every digest function whose digests are 64 hexadecimal digits.\<close>

interpretation dir: blob_store "dir_view hx" "\<lambda>b. hex64 hx \<and> dir_inv b" store_name
  "dir_Put hx None" "dir_Get hx" "dir_Delete hx" "dir_List hx" for hx
proof unfold_locales
  fix s :: dir_backend and n d
  assume inv: "hex64 hx \<and> dir_inv s" and n: "store_name n"
  obtain p where p: "bucketParts hx n (dir_depth s) = Inr p" using dir_parts inv n by blast
  show "fst (dir_Put hx None n d s) = Inr ()" by (simp add: dir_Put_def p)
  show "dir_view hx (snd (dir_Put hx None n d s)) = (dir_view hx s)(n \<mapsto> d)"
    using dir_view_upd [of s n hx p "fs_put (p, n) d (dir_files s)"] inv n p by (simp add: dir_Put_def map_of_fs_put)
  show "hex64 hx \<and> dir_inv (snd (dir_Put hx None n d s))" using inv by (simp add: dir_Put_def p dir_inv_def)
  show "dir_view hx s n = Some d \<Longrightarrow> dir_Get hx n s = Inr d"
    by (simp add: dir_view_def dir_Get_def p)
  show "dir_view hx s n = None \<Longrightarrow> \<exists>e. dir_Get hx n s = Inl e"
    by (simp add: dir_view_def dir_Get_def p)
  show "dir_view hx (snd (dir_Delete hx n s)) = (dir_view hx s)(n := None)"
  proof (cases "map_of (dir_files s) (p, n)")
    case None
    then show ?thesis by (auto simp: dir_Delete_def p dir_view_def fun_eq_iff)
  next
    case (Some v)
    then show ?thesis
      using dir_view_upd [of s n hx p "fs_del (p, n) (dir_files s)"] inv n p by (simp add: dir_Delete_def map_of_fs_del)
  qed
  show "hex64 hx \<and> dir_inv (snd (dir_Delete hx n s))"
    using inv by (simp add: dir_Delete_def p dir_inv_def split: option.split)
next
  fix s :: dir_backend and n
  assume "hex64 hx \<and> dir_inv s"
  then show "n \<in> set (dir_List hx s) \<longleftrightarrow> store_name n \<and> dir_view hx s n \<noteq> None"
    using dir_names_view by blast
qed

subsection \<open>Properties\<close>

text \<open>
  A name that passes the check is one path component: it contains no separator and is neither
  of the dot names, so no blob is written outside its bucket.
\<close>

lemma valid_name_is_component:
  assumes "validateBlobName n = Inr ()"
  shows "n \<noteq> [] \<and> CHR ''/'' \<notin> set n \<and> CHR 0x5C \<notin> set n \<and> n \<noteq> ''.'' \<and> n \<noteq> ''..''"
  using assms by (auto simp: validateBlobName_def has_char_def split: if_splits)

text \<open>
  The directory backend returns, after any sequence of writes to any names, the last blob
  written under each name, and \<open>List\<close> names it; a failed write in between changes nothing.
\<close>

lemma dir_reads_last_write:
  assumes "hex64 hx" "1 \<le> dir_depth b" "dir_depth b \<le> 4" "list_all (\<lambda>(n, d). store_name n) ws"
    "map_of (rev ws) n = Some d"
  shows "let b' = fold (\<lambda>(n, d) b. snd (dir_Put hx None n d b)) ws b in
    dir_Get hx n b' = Inr d \<and> n \<in> set (dir_List hx b') \<and> (\<forall>e m x. snd (dir_Put hx (Some e) m x b') = b')"
proof -
  have inv: "hex64 hx \<and> dir_inv b" using assms by (simp add: dir_inv_def)
  have n: "store_name n" using assms(4,5) by (auto simp: list_all_iff dest!: map_of_SomeD)
  let ?b = "fold (\<lambda>(n, d) b. snd (dir_Put hx None n d b)) ws b"
  note pa = dir.put_all_view [OF inv assms(4)]
  have "dir_Get hx n ?b = Inr d"
    using dir.put_all_get [OF inv assms(4) n assms(5)] .
  moreover have "n \<in> set (dir_List hx ?b)"
    using dir.names_view [of hx ?b n] pa n assms(5) by (simp add: map_add_def)
  moreover have "snd (dir_Put hx (Some e) m x ?b) = ?b" for e m x
    by (simp add: dir_Put_def split: sum.split)
  ultimately show ?thesis by (simp add: Let_def)
qed

end
