(* ===== verification/Repo.thy ===== *)
theory Repo
  imports MetaDB Crypto Backends
begin

text \<open>
  The repository of a module (\<open>internal/core/repo/repo.go\<close>): deduplicating storage of chunks, writing,
  reading, moving and deleting files.  The state is the metadata database and the blob backend,
  taken as the map it represents (every backend refines it, \<open>Backends\<close>).  SHA-256 and MD5, AES-GCM
  and the chunk size are the environment.  What is random or may fail in one upload, the blob's
  name, the nonce, a cancelled request and the failure of the backend, is the record \<open>upload\<close>.

  \<open>PutFileContext\<close> works in two phases: the chunks are uploaded by four workers without the write
  lock, in an order that the argument \<open>sched\<close> gives, and the row is committed under the lock.  The
  phases are definitions of their own, so that other requests can be placed between them.
\<close>

record repo_env =
  re_hash :: "bytes \<Rightarrow> bytes"
  re_md5 :: "bytes \<Rightarrow> bytes"
  re_aead :: aead
  re_chunk :: nat

record repo =
  rp_db :: meta_db
  rp_be :: mem_backend

record upload =
  up_name :: string
  up_nonce :: bytes
  up_cancelled :: bool
  up_fault :: "(goerr \<times> bool) option"

subsection \<open>Storing chunks\<close>

text \<open>
  \<open>putBlobContext\<close>: a write of the backend that fails may or may not have stored the blob.
\<close>

definition putBlob :: "upload \<Rightarrow> bytes \<Rightarrow> repo \<Rightarrow> unit result \<times> repo" where
  "putBlob u blob st = (case up_fault u of
       None \<Rightarrow> (Inr (), st\<lparr>rp_be := snd (mem_Put (up_name u) blob (rp_be st))\<rparr>)
     | Some (e, stored) \<Rightarrow>
         (Inl e, if stored then st\<lparr>rp_be := snd (mem_Put (up_name u) blob (rp_be st))\<rparr> else st))"

text \<open>
  \<open>storeChunkContext\<close> from the upload on; another request may have inserted the same content since
  the lookup, then the own blob is deleted and the other row is used.
\<close>

definition store_new :: "repo_env \<Rightarrow> upload \<Rightarrow> bytes \<Rightarrow> repo \<Rightarrow> (int \<times> bool) result \<times> repo" where
  "store_new E u data st =
     (let h = re_hash E data;
          blob = Encrypt (re_aead E) (up_nonce u) data (up_name u) in
      case putBlob u blob st of
        (Inl e, st1) \<Rightarrow> (Inl e, st1)
      | (Inr _, st1) \<Rightarrow>
          (case InsertChunk h (up_name u) (int (length data)) (rp_db st1) of
             (Inr i, db) \<Rightarrow> (Inr (i, False), st1\<lparr>rp_db := db\<rparr>)
           | (Inl e, db) \<Rightarrow>
               (case FindChunkByHash h db of
                  Some c \<Rightarrow> (Inr (ck_id c, True), st1\<lparr>rp_be := snd (mem_Delete (up_name u) (rp_be st1))\<rparr>)
                | None \<Rightarrow> (Inl e, st1))))"

definition StoreChunk :: "repo_env \<Rightarrow> upload \<Rightarrow> bytes \<Rightarrow> repo \<Rightarrow> (int \<times> bool) result \<times> repo" where
  "StoreChunk E u data st =
     (if up_cancelled u then (Inl Canceled, st)
      else case FindChunkByHash (re_hash E data) (rp_db st) of
        Some c \<Rightarrow> (Inr (ck_id c, True), st)
      | None \<Rightarrow> store_new E u data st)"

subsection \<open>Reading\<close>

definition FileRows :: "string \<Rightarrow> meta_db \<Rightarrow> file_row list" where
  "FileRows pfx db =
     (if pfx = [] then GetFiles db
      else filter (\<lambda>f. fr_path f = pfx \<or> HasPrefix (fr_path f) (pfx @ ''/'')) (GetFiles db))"

definition ListDir :: "string \<Rightarrow> meta_db \<Rightarrow> file_row list" where
  "ListDir path db =
     (let pfx = (if path = [] then [] else path @ ''/'') in
      filter (\<lambda>f. HasPrefix (fr_path f) pfx \<and>
        (let rest = drop (length pfx) (fr_path f) in rest \<noteq> [] \<and> \<not> has_char CHR ''/'' rest)) (GetFiles db))"

definition read_blob :: "repo_env \<Rightarrow> string \<Rightarrow> repo \<Rightarrow> bytes result" where
  "read_blob E name st =
     bind_res (mem_Get name (rp_be st)) (\<lambda>raw. Decrypt (re_aead E) raw name)"

definition ReadChunkAt :: "repo_env \<Rightarrow> string \<Rightarrow> int \<Rightarrow> repo \<Rightarrow> bytes result" where
  "ReadChunkAt E path idx st =
     (case filter (\<lambda>r. snd r = idx) (GetFileChunks path (rp_db st)) of
        [] \<Rightarrow> Inl ErrNotExist
      | r # _ \<Rightarrow> (case chunk_by_id (fst r) (rp_db st) of
          None \<Rightarrow> Inl ErrNotExist
        | Some c \<Rightarrow> read_blob E (ck_blob c) st))"

text \<open>\<open>StreamFile\<close>: the bytes written to the writer, and the count with the checksum or an error.\<close>

fun stream_blobs :: "repo_env \<Rightarrow> (string \<times> int) list \<Rightarrow> repo \<Rightarrow> bytes \<times> unit result" where
  "stream_blobs E [] st = ([], Inr ())"
| "stream_blobs E ((name, sz) # bs) st = (case read_blob E name st of
       Inl e \<Rightarrow> ([], Inl e)
     | Inr pt \<Rightarrow> (case stream_blobs E bs st of (w, r) \<Rightarrow> (pt @ w, r)))"

definition StreamFile :: "repo_env \<Rightarrow> string \<Rightarrow> repo \<Rightarrow> bytes \<times> (int \<times> bytes) result" where
  "StreamFile E path st = (case GetFileRow path (rp_db st) of
       None \<Rightarrow> ([], Inl (Err ''no such file in the repository''))
     | Some f \<Rightarrow> (case stream_blobs E (file_blobs path (rp_db st)) st of
         (w, Inl e) \<Rightarrow> (w, Inl e)
       | (w, Inr _) \<Rightarrow>
           if int (length w) \<noteq> fr_size f then (w, Inl (Err ''file content incomplete''))
           else (w, Inr (int (length w), re_md5 E w))))"

subsection \<open>Writing\<close>

definition checkParentDir :: "string \<Rightarrow> meta_db \<Rightarrow> unit result" where
  "checkParentDir path db =
     (let parent = path_Dir path in
      if parent = ''.'' \<or> parent = ''/'' then Inr ()
      else case GetFileRow parent db of
        None \<Rightarrow> Inl ErrNotExist
      | Some row \<Rightarrow> if fr_isdir row then Inr () else Inl ErrNotExist)"

definition cleanupNewChunks :: "int list \<Rightarrow> repo \<Rightarrow> repo" where
  "cleanupNewChunks is st = st\<lparr>rp_db := fold DeleteChunkIfZero is (rp_db st)\<rparr>"

text \<open>
  Phase 1: the jobs in the order in which the workers finish them.  The result collects the
  references, the chunks that are new, the bytes stored and the first error.
\<close>

record put_acc =
  pa_refs :: "(nat \<times> int) list"
  pa_new :: "int list"
  pa_total :: nat
  pa_err :: "goerr option"

definition put_job :: "repo_env \<Rightarrow> bytes list \<Rightarrow> nat \<times> upload \<Rightarrow> put_acc \<times> repo \<Rightarrow> put_acc \<times> repo" where
  "put_job E cs j s = (case (j, s) of ((i, u), (acc, st)) \<Rightarrow>
     (case StoreChunk E u (cs ! i) st of
        (Inl e, st') \<Rightarrow> (acc\<lparr>pa_err := (case pa_err acc of None \<Rightarrow> Some e | Some e0 \<Rightarrow> Some e0)\<rparr>, st')
      | (Inr (c, reused), st') \<Rightarrow>
          (acc\<lparr>pa_refs := (i, c) # pa_refs acc, pa_new := (if reused then pa_new acc else pa_new acc @ [c]),
               pa_total := pa_total acc + length (cs ! i)\<rparr>, st')))"

text \<open>
  The source is its bytes and the error its last read returns; \<open>io.EOF\<close> and \<open>io.ErrUnexpectedEOF\<close>
  both end the file, any other error is the producer's.
\<close>

definition put_upload :: "repo_env \<Rightarrow> (nat \<times> upload) list \<Rightarrow> bytes \<times> goerr \<Rightarrow> repo \<Rightarrow> put_acc \<times> repo" where
  "put_upload E sched src st =
     (let cs = chunks_of (re_chunk E) (fst src);
          jobs = filter (\<lambda>j. fst j < length cs) sched;
          (acc, st') = fold (put_job E cs) jobs (\<lparr>pa_refs = [], pa_new = [], pa_total = 0, pa_err = None\<rparr>, st) in
      (acc\<lparr>pa_err := (case pa_err acc of
           Some e \<Rightarrow> Some e
         | None \<Rightarrow> if snd src = EOF \<or> snd src = UnexpectedEOF then None else Some (snd src))\<rparr>, st'))"

definition put_abort :: "put_acc \<Rightarrow> repo \<Rightarrow> repo" where
  "put_abort acc st = cleanupNewChunks (pa_new acc) st"

definition put_refs :: "put_acc \<Rightarrow> chunk_ref list" where
  "put_refs acc = map (\<lambda>i. (case map_of (pa_refs acc) i of Some c \<Rightarrow> (c, int i) | None \<Rightarrow> (0, 0)))
     [0..<length (pa_refs acc)]"

definition new_file_row :: "string \<Rightarrow> 32 word \<Rightarrow> int \<Rightarrow> int \<Rightarrow> file_row" where
  "new_file_row path mode sz mtime = \<lparr>fr_path = path, fr_isdir = False, fr_issymlink = False, fr_mode = mode,
     fr_uid = 0, fr_gid = 0, fr_size = sz, fr_mtime = mtime, fr_xattrs = [], fr_link = []\<rparr>"

text \<open>Phase 2, under the write lock.\<close>

definition put_commit :: "string \<Rightarrow> 32 word \<Rightarrow> int \<Rightarrow> bool \<Rightarrow> put_acc \<Rightarrow> repo \<Rightarrow> int result \<times> repo" where
  "put_commit path mode mtime cancelled acc st =
     (if cancelled then (Inl Canceled, put_abort acc st)
      else case checkParentDir path (rp_db st) of
        Inl e \<Rightarrow> (Inl e, put_abort acc st)
      | Inr _ \<Rightarrow>
          (case UpsertFile (new_file_row path mode (int (pa_total acc)) mtime) (put_refs acc) (rp_db st) of
             (Inl e, db) \<Rightarrow> (Inl e, put_abort acc (st\<lparr>rp_db := db\<rparr>))
           | (Inr _, db) \<Rightarrow> (Inr (int (pa_total acc)), st\<lparr>rp_db := db\<rparr>)))"

definition PutFileContext ::
  "repo_env \<Rightarrow> (nat \<times> upload) list \<Rightarrow> string \<Rightarrow> 32 word \<Rightarrow> int \<Rightarrow> bool \<Rightarrow> bytes \<times> goerr \<Rightarrow> repo \<Rightarrow> int result \<times> repo" where
  "PutFileContext E sched path mode mtime cancelled src st =
     (let (acc, st1) = put_upload E sched src st in
      case pa_err acc of
        Some e \<Rightarrow> (Inl e, put_abort acc st1)
      | None \<Rightarrow> put_commit path mode mtime cancelled acc st1)"

definition dir_row :: "string \<Rightarrow> int \<Rightarrow> file_row" where
  "dir_row path now = \<lparr>fr_path = path, fr_isdir = True, fr_issymlink = False, fr_mode = 0x41ED,
     fr_uid = 0, fr_gid = 0, fr_size = 0, fr_mtime = now, fr_xattrs = [], fr_link = []\<rparr>"

definition Mkcol :: "string \<Rightarrow> int \<Rightarrow> meta_db \<Rightarrow> unit result \<times> meta_db" where
  "Mkcol path now db = (case checkParentDir path db of
       Inl e \<Rightarrow> (Inl e, db)
     | Inr _ \<Rightarrow>
         if GetFileRow path db \<noteq> None then (Inr (), db)
         else (case UpsertFile (dir_row path now) [] db of
             (Inl e, db') \<Rightarrow> (Inl e, db')
           | (Inr _, db') \<Rightarrow> (Inr (), db')))"

definition DeletePath :: "string \<Rightarrow> meta_db \<Rightarrow> meta_db" where
  "DeletePath path db =
     (if GetFileRow path db = None then db
      else fold (\<lambda>row d. DeleteFile (fr_path row) d) (FileRows path db) db)"

definition move_row :: "string \<Rightarrow> string \<Rightarrow> file_row \<Rightarrow> unit result \<times> meta_db \<Rightarrow> unit result \<times> meta_db" where
  "move_row src dst row s = (case s of
       (Inl e, db) \<Rightarrow> (Inl e, db)
     | (Inr _, db) \<Rightarrow>
         let newPath = (if fr_path row = src then dst else dst @ drop (length src) (fr_path row)) in
         (case UpsertFile (row\<lparr>fr_path := newPath\<rparr>) (GetFileChunks (fr_path row) db) db of
            (Inl e, db') \<Rightarrow> (Inl e, db')
          | (Inr _, db') \<Rightarrow> (Inr (), DeleteFile (fr_path row) db')))"

definition MovePath :: "string \<Rightarrow> string \<Rightarrow> meta_db \<Rightarrow> unit result \<times> meta_db" where
  "MovePath src dst db = (case checkParentDir dst db of
       Inl e \<Rightarrow> (Inl e, db)
     | Inr _ \<Rightarrow>
         let rows = FileRows src db in
         if rows = [] then (Inl ErrNotExist, db)
         else let
             srcSet = set (map fr_path rows);
             db1 = fold (\<lambda>row d. if fr_path row \<in> srcSet then d else DeleteFile (fr_path row) d) (FileRows dst db) db in
           fold (move_row src dst) rows (Inr (), db1))"


subsection \<open>The invariant of a repository\<close>

text \<open>Chunk \<open>i\<close> has a row, and its blob decrypts to \<open>pt\<close>, of the row's hash and size.\<close>

definition row_holds :: "repo_env \<Rightarrow> repo \<Rightarrow> chunk_row \<Rightarrow> bytes \<Rightarrow> bool" where
  "row_holds E st c pt \<longleftrightarrow> read_blob E (ck_blob c) st = Inr pt \<and> ck_hash c = re_hash E pt \<and> ck_size c = int (length pt)"

definition holds :: "repo_env \<Rightarrow> repo \<Rightarrow> int \<Rightarrow> bytes \<Rightarrow> bool" where
  "holds E st i pt \<longleftrightarrow> (\<exists>c \<in> set (db_chunks (rp_db st)). ck_id c = i \<and> row_holds E st c pt)"

definition blob_names :: "repo \<Rightarrow> string set" where
  "blob_names st = set (mem_List (rp_be st))"

definition repo_ok :: "repo_env \<Rightarrow> repo \<Rightarrow> bool" where
  "repo_ok E st \<longleftrightarrow> db_inv (rp_db st) \<and> distinct (map ck_blob (db_chunks (rp_db st))) \<and>
     (\<forall>c \<in> set (db_chunks (rp_db st)). \<exists>pt. row_holds E st c pt)"

definition stored_plaintexts :: "repo_env \<Rightarrow> repo \<Rightarrow> bytes set" where
  "stored_plaintexts E st = {pt. \<exists>c \<in> set (db_chunks (rp_db st)). row_holds E st c pt}"

text \<open>\<open>st'\<close> has everything \<open>st\<close> has; only chunk rows and blobs may have been added.\<close>

definition extends :: "repo \<Rightarrow> repo \<Rightarrow> bool" where
  "extends st st' \<longleftrightarrow> db_files (rp_db st') = db_files (rp_db st) \<and> db_fcs (rp_db st') = db_fcs (rp_db st) \<and>
     db_meta (rp_db st') = db_meta (rp_db st) \<and> set (db_chunks (rp_db st)) \<subseteq> set (db_chunks (rp_db st')) \<and>
     map_of (mem_m (rp_be st)) \<subseteq>\<^sub>m map_of (mem_m (rp_be st'))"

lemma extends_refl [simp]: "extends st st"
  by (simp add: extends_def)

lemma extends_trans: "extends a b \<Longrightarrow> extends b c \<Longrightarrow> extends a c"
  unfolding extends_def by (auto intro: map_le_trans)

lemma read_blob_extends: "extends st st' \<Longrightarrow> read_blob E n st = Inr pt \<Longrightarrow> read_blob E n st' = Inr pt"
  by (auto simp: read_blob_def bind_res_eq_Inr mem_Get_def extends_def map_le_def dom_def split: option.splits)

lemma row_holds_extends: "extends st st' \<Longrightarrow> row_holds E st c pt \<Longrightarrow> row_holds E st' c pt"
  using read_blob_extends by (auto simp: row_holds_def)

lemma holds_extends:
  assumes "extends st st'" "holds E st i pt"
  shows "holds E st' i pt"
proof -
  obtain c where "c \<in> set (db_chunks (rp_db st))" "ck_id c = i" "row_holds E st c pt"
    using assms(2) by (auto simp: holds_def)
  then have "c \<in> set (db_chunks (rp_db st'))" "ck_id c = i" "row_holds E st' c pt"
    using assms(1) row_holds_extends [OF assms(1)] by (auto simp: extends_def)
  then show ?thesis unfolding holds_def by blast
qed

lemma row_holds_unique: "row_holds E st c pt \<Longrightarrow> row_holds E st c pt' \<Longrightarrow> pt = pt'"
  by (simp add: row_holds_def)

lemma row_blob_exists: "row_holds E st c pt \<Longrightarrow> ck_blob c \<in> blob_names st"
  by (auto simp: row_holds_def read_blob_def bind_res_eq_Inr mem_Get_def blob_names_def mem_List_def
      keys_map_of [unfolded set_map] split: option.splits)

subsection \<open>Storing a chunk\<close>

definition upload_ok :: "upload \<Rightarrow> bool" where
  "upload_ok u \<longleftrightarrow> \<not> up_cancelled u \<and> up_fault u = None \<and> length (up_nonce u) = 12"

lemma find_Some_in: "find P xs = Some x \<Longrightarrow> x \<in> set xs \<and> P x"
  by (induction xs) (auto split: if_splits)

lemma find_None_all: "find P xs = None \<longleftrightarrow> (\<forall>x \<in> set xs. \<not> P x)"
  by (induction xs) auto

text \<open>The state after an upload whose content has no row yet.\<close>

definition with_chunk :: "repo_env \<Rightarrow> upload \<Rightarrow> bytes \<Rightarrow> repo \<Rightarrow> repo" where
  "with_chunk E u data st = (let db = rp_db st; i = next_id (map ck_id (db_chunks db)) in
     \<lparr>rp_db = db\<lparr>db_chunks := db_chunks db @ [\<lparr>ck_id = i, ck_hash = re_hash E data, ck_size = int (length data),
        ck_refcount = 0, ck_blob = up_name u\<rparr>]\<rparr>,
      rp_be = snd (mem_Put (up_name u) (Encrypt (re_aead E) (up_nonce u) data (up_name u)) (rp_be st))\<rparr>)"

lemma store_new_eq:
  "re_hash E data \<notin> ck_hash ` set (db_chunks (rp_db st)) \<Longrightarrow> up_fault u = None \<Longrightarrow>
     store_new E u data st = (Inr (next_id (map ck_id (db_chunks (rp_db st))), False), with_chunk E u data st)"
  by (simp add: store_new_def putBlob_def InsertChunk_def with_chunk_def Let_def)

lemma extends_put_blob:
  assumes "n \<notin> blob_names st"
  shows "extends st (st\<lparr>rp_be := snd (mem_Put n b (rp_be st))\<rparr>)"
proof -
  have "map_of (mem_m (rp_be st)) n = None"
    using assms by (simp add: blob_names_def mem_List_def map_of_eq_None_iff)
  then show ?thesis by (auto simp: extends_def mem_Put_def map_of_assoc_put map_le_def)
qed

lemma names_put_blob: "blob_names (st\<lparr>rp_be := snd (mem_Put n b (rp_be st))\<rparr>) \<subseteq> insert n (blob_names st)"
  by (auto simp: blob_names_def mem_List_def mem_Put_def assoc_put_def)

lemma repo_ok_same_db:
  "extends st st' \<Longrightarrow> rp_db st' = rp_db st \<Longrightarrow> repo_ok E st \<Longrightarrow> repo_ok E st'"
  unfolding repo_ok_def using row_holds_extends by metis

lemma stored_same_db:
  assumes "extends st st'" "rp_db st' = rp_db st" "repo_ok E st"
  shows "stored_plaintexts E st' = stored_plaintexts E st"
proof -
  have "row_holds E st' c pt \<longleftrightarrow> row_holds E st c pt" if "c \<in> set (db_chunks (rp_db st))" for c pt
    using that assms(3) row_holds_extends [OF assms(1)] row_holds_unique unfolding repo_ok_def by metis
  then show ?thesis using assms(2) by (auto simp: stored_plaintexts_def)
qed

lemma with_chunk_ok:
  assumes ok: "repo_ok E st" and A: "aead_laws (re_aead E)" and nonce: "length (up_nonce u) = 12"
    and fresh: "up_name u \<notin> blob_names st" and nh: "re_hash E data \<notin> ck_hash ` set (db_chunks (rp_db st))"
  shows "repo_ok E (with_chunk E u data st) \<and> extends st (with_chunk E u data st) \<and>
    holds E (with_chunk E u data st) (next_id (map ck_id (db_chunks (rp_db st)))) data \<and>
    blob_names (with_chunk E u data st) \<subseteq> insert (up_name u) (blob_names st) \<and>
    stored_plaintexts E (with_chunk E u data st) \<subseteq> insert data (stored_plaintexts E st)"
proof -
  let ?h = "re_hash E data" and ?db = "rp_db st"
  let ?blob = "Encrypt (re_aead E) (up_nonce u) data (up_name u)"
  let ?i = "next_id (map ck_id (db_chunks ?db))"
  let ?c = "\<lparr>ck_id = ?i, ck_hash = ?h, ck_size = int (length data), ck_refcount = 0, ck_blob = up_name u\<rparr>"
  let ?st = "\<lparr>rp_db = ?db\<lparr>db_chunks := db_chunks ?db @ [?c]\<rparr>, rp_be = snd (mem_Put (up_name u) ?blob (rp_be st))\<rparr>"
  have S: "with_chunk E u data st = ?st" by (simp add: with_chunk_def Let_def)
  have ins: "InsertChunk ?h (up_name u) (int (length data)) ?db = (Inr ?i, ?db\<lparr>db_chunks := db_chunks ?db @ [?c]\<rparr>)"
    using nh by (simp add: InsertChunk_def Let_def)
  have be: "map_of (mem_m (rp_be ?st)) = (map_of (mem_m (rp_be st)))(up_name u \<mapsto> ?blob)"
    by (simp add: mem_Put_def map_of_assoc_put)
  have nf: "map_of (mem_m (rp_be st)) (up_name u) = None"
    using fresh by (simp add: blob_names_def mem_List_def map_of_eq_None_iff)
  have ext: "extends st ?st"
    unfolding extends_def be using nf by (auto simp: map_le_def)
  have new: "row_holds E ?st ?c data"
    using nonce Decrypt_Encrypt [OF A] be by (simp add: row_holds_def read_blob_def mem_Get_def)
  have "db_inv (rp_db ?st)"
    using db_inv_InsertChunk [of ?db ?h "up_name u" "int (length data)"] ok ins by (simp add: repo_ok_def)
  moreover have "up_name u \<notin> ck_blob ` set (db_chunks ?db)"
  proof
    assume "up_name u \<in> ck_blob ` set (db_chunks ?db)"
    then obtain c where "c \<in> set (db_chunks ?db)" "ck_blob c = up_name u" by auto
    then show False using fresh ok row_blob_exists unfolding repo_ok_def by metis
  qed
  moreover have "\<exists>pt. row_holds E ?st c pt" if "c \<in> set (db_chunks (rp_db ?st))" for c
  proof (cases "c = ?c")
    case True
    then show ?thesis using new by blast
  next
    case False
    then have "c \<in> set (db_chunks ?db)" using that by simp
    then obtain pt where "row_holds E st c pt" using ok unfolding repo_ok_def by blast
    then show ?thesis using row_holds_extends [OF ext] by blast
  qed
  ultimately have "repo_ok E ?st" using ok by (simp add: repo_ok_def)
  moreover have "holds E ?st ?i data" using new by (auto simp: holds_def)
  moreover have "blob_names ?st \<subseteq> insert (up_name u) (blob_names st)"
    by (auto simp: blob_names_def mem_List_def mem_Put_def assoc_put_def)
  moreover have "stored_plaintexts E ?st \<subseteq> insert data (stored_plaintexts E st)"
  proof
    fix pt assume "pt \<in> stored_plaintexts E ?st"
    then obtain c where c: "c = ?c \<or> c \<in> set (db_chunks ?db)" "row_holds E ?st c pt"
      by (auto simp: stored_plaintexts_def)
    show "pt \<in> insert data (stored_plaintexts E st)"
    proof (cases "c = ?c")
      case True
      then show ?thesis using c(2) new row_holds_unique by blast
    next
      case False
      then obtain q where "row_holds E st c q" "c \<in> set (db_chunks ?db)" using c(1) ok by (auto simp: repo_ok_def)
      moreover from this have "q = pt" using row_holds_unique [OF row_holds_extends [OF ext] c(2)] by blast
      ultimately show ?thesis unfolding stored_plaintexts_def by blast
    qed
  qed
  ultimately show ?thesis using ext unfolding S by blast
qed


text \<open>
  Storing a chunk, whatever fails: nothing is lost, and a chunk id that is returned stands for content
  with the hash of the data.
\<close>

lemma StoreChunk_any:
  assumes ok: "repo_ok E st" and A: "aead_laws (re_aead E)" and nonce: "length (up_nonce u) = 12"
    and fresh: "up_name u \<notin> blob_names st"
  shows "\<exists>r st'. StoreChunk E u data st = (r, st') \<and> repo_ok E st' \<and> extends st st' \<and>
    blob_names st' \<subseteq> insert (up_name u) (blob_names st) \<and>
    stored_plaintexts E st' \<subseteq> insert data (stored_plaintexts E st) \<and>
    (\<forall>i b. r = Inr (i, b) \<longrightarrow> (\<exists>pt. holds E st' i pt \<and> re_hash E pt = re_hash E data)) \<and>
    (upload_ok u \<longrightarrow> (\<exists>i b. r = Inr (i, b)))"
proof (cases "up_cancelled u")
  case True
  then show ?thesis using ok by (auto simp: StoreChunk_def upload_ok_def)
next
  case nc: False
  show ?thesis
  proof (cases "FindChunkByHash (re_hash E data) (rp_db st)")
    case (Some c)
    then have c: "c \<in> set (db_chunks (rp_db st))" "ck_hash c = re_hash E data"
      by (auto simp: FindChunkByHash_def dest: find_Some_in)
    then obtain pt where pt: "row_holds E st c pt" using ok by (auto simp: repo_ok_def)
    then have "holds E st (ck_id c) pt" "re_hash E pt = re_hash E data"
      using c by (auto simp: holds_def row_holds_def)
    then show ?thesis using Some nc ok by (auto simp: StoreChunk_def)
  next
    case None
    then have nh: "re_hash E data \<notin> ck_hash ` set (db_chunks (rp_db st))"
      by (auto simp: FindChunkByHash_def find_None_all)
    show ?thesis
    proof (cases "up_fault u")
      case None': None
      have "StoreChunk E u data st = (Inr (next_id (map ck_id (db_chunks (rp_db st))), False), with_chunk E u data st)"
        using None nc store_new_eq [OF nh None'] by (simp add: StoreChunk_def)
      then show ?thesis using with_chunk_ok [OF ok A nonce fresh nh] by auto
    next
      case (Some f)
      obtain e s where f: "f = (e, s)" by fastforce
      define st' where "st' = (if s then st\<lparr>rp_be := snd (mem_Put (up_name u)
        (Encrypt (re_aead E) (up_nonce u) data (up_name u)) (rp_be st))\<rparr> else st)"
      have "StoreChunk E u data st = (Inl e, st')"
        using None nc Some f by (simp add: StoreChunk_def store_new_def putBlob_def st'_def Let_def)
      moreover have ext: "extends st st'" using extends_put_blob [OF fresh] by (simp add: st'_def)
      moreover have db: "rp_db st' = rp_db st" by (simp add: st'_def)
      moreover have "blob_names st' \<subseteq> insert (up_name u) (blob_names st)"
        using names_put_blob by (auto simp: st'_def)
      ultimately show ?thesis
        using repo_ok_same_db [OF ext db ok] stored_same_db [OF ext db ok] Some by (auto simp: upload_ok_def)
    qed
  qed
qed

end
