(* ===== verification/RepoWrite.thy ===== *)
theory RepoWrite
  imports Repo
begin

text \<open>
  What the writing operations of the repository promise: \<open>PutFileContext\<close> stores what the reader
  gives and what \<open>StreamFile\<close> returns afterwards, a write that fails leaves every file as it was,
  and no write touches the content of another path.
\<close>

subsection \<open>The content of a file\<close>

text \<open>The content a reader gets depends on the row, the references, and the chunks these name.\<close>

lemma file_blobs_info:
  "file_blobs p db = List.map_filter (\<lambda>r. map_option (\<lambda>(h, s, b). (b, s)) (chunk_info (fst r) db)) (GetFileChunks p db)"
  by (simp add: file_blobs_def chunk_info_def option.map_comp o_def)

lemma map_filter_cong: "(\<And>x. x \<in> set xs \<Longrightarrow> f x = g x) \<Longrightarrow> List.map_filter f xs = List.map_filter g xs"
  by (induction xs) (auto simp: List.map_filter_simps split: option.splits)

lemma stream_blobs_cong:
  "\<forall>n \<in> fst ` set bs. read_blob E n st' = read_blob E n st \<Longrightarrow> stream_blobs E bs st' = stream_blobs E bs st"
proof (induction bs)
  case (Cons b bs)
  obtain n s where b: "b = (n, s)" by fastforce
  have "read_blob E n st' = read_blob E n st" using Cons.prems b by simp
  moreover have "stream_blobs E bs st' = stream_blobs E bs st" using Cons by simp
  ultimately show ?case by (simp add: b split: sum.split)
qed simp

definition same_content :: "repo_env \<Rightarrow> string \<Rightarrow> repo \<Rightarrow> repo \<Rightarrow> bool" where
  "same_content E q st st' \<longleftrightarrow> GetFileRow q (rp_db st') = GetFileRow q (rp_db st) \<and>
     GetFileChunks q (rp_db st') = GetFileChunks q (rp_db st) \<and>
     (\<forall>r \<in> set (GetFileChunks q (rp_db st)). chunk_info (fst r) (rp_db st') = chunk_info (fst r) (rp_db st) \<and>
       (\<forall>h s b. chunk_info (fst r) (rp_db st) = Some (h, s, b) \<longrightarrow> read_blob E b st' = read_blob E b st))"

lemma same_content_refl: "same_content E q st st"
  by (simp add: same_content_def)

lemma same_content_trans: "same_content E q a b \<Longrightarrow> same_content E q b c \<Longrightarrow> same_content E q a c"
  unfolding same_content_def by (metis (no_types, lifting))

lemma map_filter_in: "y \<in> set (List.map_filter f xs) \<Longrightarrow> \<exists>x \<in> set xs. f x = Some y"
  by (induction xs) (auto simp: List.map_filter_simps split: option.splits)

lemma file_blobs_same:
  assumes "same_content E q st st'"
  shows "file_blobs q (rp_db st') = file_blobs q (rp_db st)"
    "b \<in> set (file_blobs q (rp_db st)) \<Longrightarrow> read_blob E (fst b) st' = read_blob E (fst b) st"
proof -
  note S = assms [unfolded same_content_def]
  show "file_blobs q (rp_db st') = file_blobs q (rp_db st)"
    unfolding file_blobs_info using S by (auto intro!: map_filter_cong)
  assume b: "b \<in> set (file_blobs q (rp_db st))"
  obtain r where "r \<in> set (GetFileChunks q (rp_db st))"
    "map_option (\<lambda>(h, s, b). (b, s)) (chunk_info (fst r) (rp_db st)) = Some b"
    using map_filter_in [OF b [unfolded file_blobs_info]] by blast
  then show "read_blob E (fst b) st' = read_blob E (fst b) st" using S by (auto simp: case_prod_beta)
qed

lemma StreamFile_same:
  assumes "same_content E q st st'"
  shows "StreamFile E q st' = StreamFile E q st"
proof -
  have "stream_blobs E (file_blobs q (rp_db st)) st' = stream_blobs E (file_blobs q (rp_db st)) st"
    using file_blobs_same(2) [OF assms] by (intro stream_blobs_cong) auto
  with file_blobs_same(1) [OF assms] assms show ?thesis by (simp add: StreamFile_def same_content_def split: option.split)
qed

lemma StreamFile_size: "StreamFile E q st = (w, Inr x) \<Longrightarrow> GetFileRow q (rp_db st) = Some f \<Longrightarrow> fr_size f = int (length w)"
  by (auto simp: StreamFile_def split: prod.splits sum.splits if_splits)

lemma chunk_by_id_Some: "chunk_by_id i db = Some c \<Longrightarrow> c \<in> set (db_chunks db) \<and> ck_id c = i"
  by (auto simp: chunk_by_id_def dest: find_Some_in)

lemma chunk_by_id_in: "db_inv db \<Longrightarrow> c \<in> set (db_chunks db) \<Longrightarrow> chunk_by_id (ck_id c) db = Some c"
  unfolding chunk_by_id_def using find_distinct [of ck_id "db_chunks db" c] by (simp add: db_inv_def)

lemma referenced_chunk:
  assumes "db_inv db" "r \<in> set (GetFileChunks q db)"
  shows "\<exists>c \<in> set (db_chunks db). ck_id c = fst r"
proof -
  obtain fc where "fc \<in> set (db_fcs db)" "fc_chunk fc = fst r"
    using assms(2) GetFileChunks_set [of "fst r" "snd r" q db] by auto
  then show ?thesis using assms(1) by (force simp: db_inv_def)
qed

lemma extends_same_content:
  assumes ok: "repo_ok E st" and ok': "repo_ok E st'" and ext: "extends st st'"
  shows "same_content E q st st'"
proof -
  have d: "db_inv (rp_db st)" "db_inv (rp_db st')" using ok ok' by (simp_all add: repo_ok_def)
  have rows: "GetFileRow q (rp_db st') = GetFileRow q (rp_db st)"
    "GetFileChunks q (rp_db st') = GetFileChunks q (rp_db st)"
    using ext by (simp_all add: extends_def GetFileRow_def GetFileChunks_def path_fids_def)
  have "chunk_info (fst r) (rp_db st') = chunk_info (fst r) (rp_db st) \<and>
     (\<forall>h s b. chunk_info (fst r) (rp_db st) = Some (h, s, b) \<longrightarrow> read_blob E b st' = read_blob E b st)"
    if r: "r \<in> set (GetFileChunks q (rp_db st))" for r
  proof -
    obtain c where c: "c \<in> set (db_chunks (rp_db st))" "ck_id c = fst r" using referenced_chunk [OF d(1) r] ..
    then have c': "c \<in> set (db_chunks (rp_db st'))" using ext by (auto simp: extends_def)
    obtain pt where "row_holds E st c pt" using ok c by (auto simp: repo_ok_def)
    then have "read_blob E (ck_blob c) st' = read_blob E (ck_blob c) st"
      using read_blob_extends [OF ext] by (auto simp: row_holds_def)
    then show ?thesis
      using chunk_by_id_in [OF d(1) c(1)] chunk_by_id_in [OF d(2) c'] by (simp add: chunk_info_def c(2))
  qed
  then show ?thesis using rows by (simp add: same_content_def)
qed

subsection \<open>The upload phase\<close>

lemma still_fresh: "B \<subseteq> insert n A \<Longrightarrow> n \<notin> N \<Longrightarrow> N \<inter> A = {} \<Longrightarrow> N \<inter> B = {}"
  by blast

lemma put_fold_any:
  assumes "repo_ok E st" "aead_laws (re_aead E)" "\<forall>j \<in> set jobs. length (up_nonce (snd j)) = 12"
    "distinct (map (up_name \<circ> snd) jobs)" "(up_name \<circ> snd) ` set jobs \<inter> blob_names st = {}"
    "\<forall>(i, c) \<in> set (pa_refs acc). \<exists>pt. holds E st c pt \<and> re_hash E pt = re_hash E (cs ! i)"
    "fold (put_job E cs) jobs (acc, st) = (acc', st')"
  shows "repo_ok E st' \<and> extends st st' \<and>
    stored_plaintexts E st' \<subseteq> stored_plaintexts E st \<union> (\<lambda>j. cs ! fst j) ` set jobs \<and>
    (\<forall>(i, c) \<in> set (pa_refs acc'). \<exists>pt. holds E st' c pt \<and> re_hash E pt = re_hash E (cs ! i))"
  using assms
proof (induction jobs arbitrary: acc st)
  case (Cons j jobs)
  obtain i u where j: "j = (i, u)" by fastforce
  have nonce: "length (up_nonce u) = 12" and fresh: "up_name u \<notin> blob_names st" using Cons.prems(3,5) j by auto
  obtain r st1 where S: "StoreChunk E u (cs ! i) st = (r, st1)" and ok1: "repo_ok E st1" and ext1: "extends st st1"
    and n1: "blob_names st1 \<subseteq> insert (up_name u) (blob_names st)"
    and p1: "stored_plaintexts E st1 \<subseteq> insert (cs ! i) (stored_plaintexts E st)"
    and r: "\<forall>c b. r = Inr (c, b) \<longrightarrow> (\<exists>pt. holds E st1 c pt \<and> re_hash E pt = re_hash E (cs ! i))"
    using StoreChunk_any [OF Cons.prems(1,2) nonce fresh, of "cs ! i"] by blast
  define acc1 where "acc1 = fst (put_job E cs j (acc, st))"
  have pj: "put_job E cs j (acc, st) = (acc1, st1)"
    unfolding acc1_def by (auto simp: put_job_def j S split: sum.splits prod.splits)
  have refs1: "\<forall>(i, c) \<in> set (pa_refs acc1). \<exists>pt. holds E st1 c pt \<and> re_hash E pt = re_hash E (cs ! i)"
  proof
    fix x assume "x \<in> set (pa_refs acc1)"
    then have "x \<in> set (pa_refs acc) \<or> (\<exists>b. r = Inr (snd x, b) \<and> fst x = i)"
      unfolding acc1_def by (auto simp: put_job_def j S split: sum.splits prod.splits)
    then show "case x of (i, c) \<Rightarrow> \<exists>pt. holds E st1 c pt \<and> re_hash E pt = re_hash E (cs ! i)"
      using Cons.prems(6) r holds_extends [OF ext1] by (cases x) (fastforce)
  qed
  have rest: "fold (put_job E cs) jobs (acc1, st1) = (acc', st')" using Cons.prems(7) pj by simp
  have "(up_name \<circ> snd) ` set jobs \<inter> blob_names st1 = {}"
    by (rule still_fresh [OF n1]) (use Cons.prems(4,5) j in auto)
  from Cons.IH [OF ok1 Cons.prems(2) _ _ this refs1 rest] Cons.prems(3,4)
  have IH: "repo_ok E st'" "extends st1 st'"
    "stored_plaintexts E st' \<subseteq> stored_plaintexts E st1 \<union> (\<lambda>j. cs ! fst j) ` set jobs"
    "\<forall>(i, c) \<in> set (pa_refs acc'). \<exists>pt. holds E st' c pt \<and> re_hash E pt = re_hash E (cs ! i)" by auto
  then show ?case using extends_trans [OF ext1 IH(2)] p1 j by auto
qed simp

lemma put_fold_ok:
  assumes "repo_ok E st" "aead_laws (re_aead E)" "\<forall>j \<in> set jobs. upload_ok (snd j)"
    "distinct (map (up_name \<circ> snd) jobs)" "(up_name \<circ> snd) ` set jobs \<inter> blob_names st = {}"
  shows "\<exists>acc' st'. fold (put_job E cs) jobs (acc, st) = (acc', st') \<and> pa_err acc' = pa_err acc \<and>
    map fst (pa_refs acc') = rev (map fst jobs) @ map fst (pa_refs acc) \<and>
    pa_total acc' = pa_total acc + sum_list (map (\<lambda>j. length (cs ! fst j)) jobs)"
  using assms
proof (induction jobs arbitrary: acc st)
  case (Cons j jobs)
  obtain i u where j: "j = (i, u)" by fastforce
  have u: "upload_ok u" "length (up_nonce u) = 12" "up_name u \<notin> blob_names st"
    using Cons.prems(3,5) j by (auto simp: upload_ok_def)
  from StoreChunk_any [OF Cons.prems(1,2) u(2,3), of "cs ! i"]
  obtain r st1 where S: "StoreChunk E u (cs ! i) st = (r, st1)" and ok1: "repo_ok E st1"
    and n1: "blob_names st1 \<subseteq> insert (up_name u) (blob_names st)" and r': "upload_ok u \<longrightarrow> (\<exists>c b. r = Inr (c, b))"
    by (elim exE conjE) (rule that)
  obtain c b where r: "r = Inr (c, b)" using r' u(1) by blast
  let ?acc1 = "acc\<lparr>pa_refs := (i, c) # pa_refs acc, pa_new := (if b then pa_new acc else pa_new acc @ [c]),
               pa_total := pa_total acc + length (cs ! i)\<rparr>"
  have pj: "put_job E cs j (acc, st) = (?acc1, st1)" by (simp add: put_job_def j S r)
  have "(up_name \<circ> snd) ` set jobs \<inter> blob_names st1 = {}"
    by (rule still_fresh [OF n1]) (use Cons.prems(4,5) j in auto)
  from Cons.IH [OF ok1 Cons.prems(2) _ _ this, of ?acc1] Cons.prems(3,4) obtain acc' st'
    where "fold (put_job E cs) jobs (?acc1, st1) = (acc', st')" "pa_err acc' = pa_err acc"
      "map fst (pa_refs acc') = rev (map fst jobs) @ i # map fst (pa_refs acc)"
      "pa_total acc' = pa_total acc + length (cs ! i) + sum_list (map (\<lambda>j. length (cs ! fst j)) jobs)" by auto
  then show ?case using pj j by simp
qed simp

subsection \<open>Database operations on a repository\<close>

text \<open>Operations that remove chunk rows or change their counts, and leave the backend alone.\<close>

definition pruned :: "meta_db \<Rightarrow> meta_db \<Rightarrow> bool" where
  "pruned db db' \<longleftrightarrow> (\<exists>K g. db_chunks db' = map g (filter K (db_chunks db)) \<and>
     (\<forall>c. ck_id (g c) = ck_id c \<and> ck_hash (g c) = ck_hash c \<and> ck_size (g c) = ck_size c \<and> ck_blob (g c) = ck_blob c))"

lemma pruned_upserted: "pruned db (upserted f refs db)"
  unfolding pruned_def
  by (rule exI [of _ "kept (fr_path f) refs db"],
      rule exI [of _ "\<lambda>c. c\<lparr>ck_refcount := int (uses (other_fcs (fr_path f) db) (ck_id c) + ref_count refs (ck_id c))\<rparr>"])
    (simp add: upserted_def replaced_def Let_def)

lemma pruned_DeleteFile: "db_inv db \<Longrightarrow> pruned db (DeleteFile p db)"
  unfolding pruned_def
  by (rule exI [of _ "kept p [] db"],
      rule exI [of _ "\<lambda>c. c\<lparr>ck_refcount := int (uses (other_fcs p db) (ck_id c) + ref_count [] (ck_id c))\<rparr>"])
    (simp add: DeleteFile_eq replaced_def)

lemma pruned_delete_chunks: "pruned db (delete_chunks P db)"
  unfolding pruned_def
  by (rule exI [of _ "\<lambda>c. \<not> P c"], rule exI [of _ "\<lambda>c. c"]) (simp add: delete_chunks_def)

lemma repo_ok_pruned:
  assumes ok: "repo_ok E st" and p: "pruned (rp_db st) db'" and inv: "db_inv db'"
  shows "repo_ok E (st\<lparr>rp_db := db'\<rparr>)"
proof -
  obtain K g where db': "db_chunks db' = map g (filter K (db_chunks (rp_db st)))"
    and g: "\<And>c. ck_id (g c) = ck_id c \<and> ck_hash (g c) = ck_hash c \<and> ck_size (g c) = ck_size c \<and> ck_blob (g c) = ck_blob c"
    using p unfolding pruned_def by blast
  have "map ck_blob (db_chunks db') = map ck_blob (filter K (db_chunks (rp_db st)))" by (simp add: db' g)
  then have "distinct (map ck_blob (db_chunks db'))"
    using ok by (simp add: repo_ok_def distinct_map inj_on_def)
  moreover have "\<exists>pt. row_holds E (st\<lparr>rp_db := db'\<rparr>) c' pt" if c': "c' \<in> set (db_chunks db')" for c'
  proof -
    obtain c where "c \<in> set (db_chunks (rp_db st))" "c' = g c" using c' by (auto simp: db')
    moreover from this obtain pt where "row_holds E st c pt" using ok unfolding repo_ok_def by blast
    ultimately show ?thesis by (auto simp: row_holds_def read_blob_def g)
  qed
  ultimately show ?thesis using ok inv by (simp add: repo_ok_def)
qed

lemma stored_pruned:
  assumes "pruned (rp_db st) db'"
  shows "stored_plaintexts E (st\<lparr>rp_db := db'\<rparr>) \<subseteq> stored_plaintexts E st"
proof -
  obtain K g where db': "db_chunks db' = map g (filter K (db_chunks (rp_db st)))"
    and g: "\<And>c. ck_id (g c) = ck_id c \<and> ck_hash (g c) = ck_hash c \<and> ck_size (g c) = ck_size c \<and> ck_blob (g c) = ck_blob c"
    using assms unfolding pruned_def by blast
  show ?thesis by (auto simp: stored_plaintexts_def db' row_holds_def read_blob_def g)
qed

lemma same_content_db:
  assumes "GetFileRow q db' = GetFileRow q (rp_db st)" "GetFileChunks q db' = GetFileChunks q (rp_db st)"
    "\<And>r. r \<in> set (GetFileChunks q db') \<Longrightarrow> chunk_info (fst r) db' = chunk_info (fst r) (rp_db st)"
  shows "same_content E q st (st\<lparr>rp_db := db'\<rparr>)"
  using assms by (simp add: same_content_def read_blob_def)

lemma upserted_same_content:
  assumes "db_inv (rp_db st)" "q \<noteq> fr_path f"
  shows "same_content E q st (st\<lparr>rp_db := upserted f refs (rp_db st)\<rparr>)"
  by (rule same_content_db)
    (use assms in \<open>simp add: GetFileRow_upserted, simp add: GetFileChunks_upserted, blast intro: chunk_info_upserted\<close>)

lemma DeleteFile_same_content:
  assumes "db_inv (rp_db st)" "q \<noteq> p"
  shows "same_content E q st (st\<lparr>rp_db := DeleteFile p (rp_db st)\<rparr>)"
  by (rule same_content_db)
    (use assms in \<open>simp add: GetFileRow_DeleteFile, simp add: GetFileChunks_DeleteFile, blast intro: chunk_info_DeleteFile\<close>)

lemma DeleteChunkIfZero_same_content:
  assumes inv: "db_inv (rp_db st)"
  shows "same_content E q st (st\<lparr>rp_db := DeleteChunkIfZero i (rp_db st)\<rparr>)"
proof (rule same_content_db)
  let ?db = "rp_db st" and ?P = "\<lambda>c. ck_id c = i \<and> ck_refcount c \<le> 0"
  have live: "\<not> ?P c" if "fc \<in> set (db_fcs ?db)" "c \<in> set (db_chunks ?db)" "ck_id c = fc_chunk fc" for fc c
    using that inv uses_zero_iff [of "db_fcs ?db" "ck_id c"] by (auto simp: db_inv_def)
  have fcs: "db_fcs (DeleteChunkIfZero i ?db) = db_fcs ?db"
  proof -
    have "fc_chunk fc \<notin> ck_id ` {c \<in> set (db_chunks ?db). ?P c}" if "fc \<in> set (db_fcs ?db)" for fc
      using live [OF that] by auto
    then show ?thesis by (simp add: DeleteChunkIfZero_def delete_chunks_def filter_id_conv)
  qed
  show rows: "GetFileRow q (DeleteChunkIfZero i ?db) = GetFileRow q ?db"
    by (simp add: GetFileRow_def DeleteChunkIfZero_def delete_chunks_def)
  show chunks: "GetFileChunks q (DeleteChunkIfZero i ?db) = GetFileChunks q ?db"
    unfolding GetFileChunks_def fcs by (simp add: path_fids_def DeleteChunkIfZero_def delete_chunks_def)
  fix r assume "r \<in> set (GetFileChunks q (DeleteChunkIfZero i ?db))"
  then have r: "r \<in> set (GetFileChunks q ?db)" by (simp add: chunks)
  then obtain fc where fc: "fc \<in> set (db_fcs ?db)" "fc_chunk fc = fst r"
    using GetFileChunks_set [of "fst r" "snd r" q ?db] by auto
  have "find (\<lambda>c. ck_id c = fst r) (filter (\<lambda>c. \<not> ?P c) (db_chunks ?db)) = find (\<lambda>c. ck_id c = fst r) (db_chunks ?db)"
    using live [OF fc(1)] fc(2) by (intro find_filter_same) auto
  then show "chunk_info (fst r) (DeleteChunkIfZero i ?db) = chunk_info (fst r) ?db"
    by (simp add: chunk_info_def chunk_by_id_def DeleteChunkIfZero_def delete_chunks_def)
qed

lemma cleanup_same_content:
  "repo_ok E st \<Longrightarrow> repo_ok E (cleanupNewChunks is st) \<and> same_content E q st (cleanupNewChunks is st)"
proof (induction "is" arbitrary: st)
  case Nil
  then show ?case by (simp add: cleanupNewChunks_def same_content_refl)
next
  case (Cons i "is")
  let ?st1 = "st\<lparr>rp_db := DeleteChunkIfZero i (rp_db st)\<rparr>"
  have inv: "db_inv (rp_db st)" using Cons.prems by (simp add: repo_ok_def)
  have "repo_ok E ?st1"
    using repo_ok_pruned [OF Cons.prems pruned_delete_chunks] db_inv_DeleteChunkIfZero [OF inv]
    by (simp add: DeleteChunkIfZero_def)
  from Cons.IH [OF this] DeleteChunkIfZero_same_content [OF inv, of E q i] show ?case
    by (auto simp: cleanupNewChunks_def intro: same_content_trans)
qed

subsection \<open>Writing a file\<close>

text \<open>
  The uploads of one request: every chunk has one job, no job is cancelled or fails, and the random
  names are new and distinct.
\<close>

definition schedule_ok :: "repo_env \<Rightarrow> (nat \<times> upload) list \<Rightarrow> bytes \<Rightarrow> repo \<Rightarrow> bool" where
  "schedule_ok E sched data st \<longleftrightarrow> distinct (map fst sched) \<and>
     set (map fst sched) = set [0..<length (chunks_of (re_chunk E) data)] \<and> (\<forall>j \<in> set sched. upload_ok (snd j)) \<and>
     distinct (map (up_name \<circ> snd) sched) \<and> (up_name \<circ> snd) ` set sched \<inter> blob_names st = {}"

lemma put_refs_map:
  assumes "distinct (map fst (pa_refs acc))" "set (map fst (pa_refs acc)) = {0..<n}"
  shows "\<exists>c. put_refs acc = map (\<lambda>i. (c i, int i)) [0..<n] \<and> (\<forall>i < n. (i, c i) \<in> set (pa_refs acc))"
proof -
  have n: "length (pa_refs acc) = n"
    using distinct_card [OF assms(1)] assms(2) by simp
  have "\<exists>c. map_of (pa_refs acc) i = Some c" if "i < n" for i
    using assms(2) that by (metis atLeastLessThan_iff map_of_eq_None_iff not_None_eq set_map zero_le)
  then obtain c where c: "\<And>i. i < n \<Longrightarrow> map_of (pa_refs acc) i = Some (c i)" by metis
  then show ?thesis
    by (intro exI [of _ c]) (auto simp: put_refs_def n intro: map_of_SomeD)
qed

lemma sum_by_index:
  assumes "distinct is" "set is = set [0..<length cs]"
  shows "sum_list (map (\<lambda>i. length (cs ! i)) is) = length (concat cs)"
proof -
  have "mset is = mset [0..<length cs]" using assms set_eq_iff_mset_eq_distinct [OF assms(1), of "[0..<length cs]"] by simp
  then have "sum_list (map (\<lambda>i. length (cs ! i)) is) = sum_list (map (\<lambda>i. length (cs ! i)) [0..<length cs])"
    by (simp flip: sum_mset_sum_list)
  also have "map (\<lambda>i. length (cs ! i)) [0..<length cs] = map length cs"
    by (rule nth_equalityI) simp_all
  finally show ?thesis by (simp add: length_concat)
qed

text \<open>The chunks named by the references, read in order, give the data.\<close>

lemma stream_refs:
  assumes "\<And>i. i < length cs \<Longrightarrow> \<exists>c. chunk_by_id (k i) db = Some c \<and> read_blob E (ck_blob c) st = Inr (cs ! i)"
  shows "stream_blobs E (List.map_filter (\<lambda>r. map_option (\<lambda>c. (ck_blob c, ck_size c)) (chunk_by_id (fst r) db))
     (map (\<lambda>i. (k i, int i)) [m..<length cs])) st = (concat (drop m cs), Inr ())"
proof (induction "length cs - m" arbitrary: m)
  case 0
  then show ?case by (simp add: List.map_filter_simps)
next
  case (Suc d)
  then have m: "m < length cs" by simp
  obtain c where c: "chunk_by_id (k m) db = Some c" "read_blob E (ck_blob c) st = Inr (cs ! m)" using assms [OF m] by blast
  have "d = length cs - Suc m" using Suc.hyps(2) by simp
  from Suc.hyps(1) [OF this] c show ?case
    by (simp add: upt_conv_Cons [OF m] List.map_filter_simps Cons_nth_drop_Suc [OF m, symmetric])
qed

lemma put_upload_ok:
  assumes ok: "repo_ok E st" and A: "aead_laws (re_aead E)" and s: "schedule_ok E sched (fst src) st"
    and e: "snd src = EOF \<or> snd src = UnexpectedEOF" and k: "0 < re_chunk E"
    and inj: "inj_on (re_hash E) (stored_plaintexts E st \<union> set (chunks_of (re_chunk E) (fst src)))"
  defines "cs \<equiv> chunks_of (re_chunk E) (fst src)"
  shows "\<exists>acc st'. put_upload E sched src st = (acc, st') \<and> pa_err acc = None \<and> pa_total acc = length (fst src) \<and>
    repo_ok E st' \<and> extends st st' \<and>
    (\<exists>c. put_refs acc = map (\<lambda>i. (c i, int i)) [0..<length cs] \<and> (\<forall>i < length cs. holds E st' (c i) (cs ! i)))"
proof -
  note S = s [unfolded schedule_ok_def, folded cs_def]
  let ?acc0 = "\<lparr>pa_refs = [], pa_new = [], pa_total = 0, pa_err = None\<rparr>"
  have jobs: "filter (\<lambda>j. fst j < length cs) sched = sched"
    unfolding filter_id_conv using S by (metis atLeastLessThan_iff imageI set_map set_upt)
  have u: "\<forall>j \<in> set sched. upload_ok (snd j)" "\<forall>j \<in> set sched. length (up_nonce (snd j)) = 12"
    "distinct (map (up_name \<circ> snd) sched)" "(up_name \<circ> snd) ` set sched \<inter> blob_names st = {}"
    using S by (auto simp: upload_ok_def)
  obtain acc st' where F: "fold (put_job E cs) sched (?acc0, st) = (acc, st')" and acc: "pa_err acc = None"
    "map fst (pa_refs acc) = rev (map fst sched)" "pa_total acc = sum_list (map (\<lambda>j. length (cs ! fst j)) sched)"
    using put_fold_ok [OF ok A u(1,3,4), of cs ?acc0] by auto
  have any: "repo_ok E st'" "extends st st'"
    "stored_plaintexts E st' \<subseteq> stored_plaintexts E st \<union> (\<lambda>j. cs ! fst j) ` set sched"
    "\<forall>(i, c) \<in> set (pa_refs acc). \<exists>pt. holds E st' c pt \<and> re_hash E pt = re_hash E (cs ! i)"
    using put_fold_any [OF ok A u(2,3,4) _ F] by auto
  have up: "put_upload E sched src st = (acc, st')"
    using F acc(1) e by (simp add: put_upload_def cs_def [symmetric] jobs)
  have "pa_total acc = length (concat cs)"
    unfolding acc(3) using sum_by_index [of "map fst sched" cs] S by (simp add: o_def)
  then have tot: "pa_total acc = length (fst src)" by (simp add: cs_def concat_chunks_of k)
  obtain c where c: "put_refs acc = map (\<lambda>i. (c i, int i)) [0..<length cs]" "\<forall>i < length cs. (i, c i) \<in> set (pa_refs acc)"
    using put_refs_map [of acc "length cs"] acc(2) S by auto
  have "holds E st' (c i) (cs ! i)" if i: "i < length cs" for i
  proof -
    obtain pt where pt: "holds E st' (c i) pt" "re_hash E pt = re_hash E (cs ! i)" using any(4) c(2) i by blast
    then have "pt \<in> stored_plaintexts E st'" by (auto simp: holds_def stored_plaintexts_def)
    moreover have "(\<lambda>j. cs ! fst j) ` set sched \<subseteq> set cs"
    proof
      fix y assume "y \<in> (\<lambda>j. cs ! fst j) ` set sched"
      then obtain j where "j \<in> set sched" "y = cs ! fst j" by auto
      moreover from this have "fst j \<in> set [0..<length cs]" using S by (metis imageI set_map)
      ultimately show "y \<in> set cs" by simp
    qed
    ultimately have "pt \<in> stored_plaintexts E st \<union> set cs" using any(3) by blast
    moreover have "cs ! i \<in> set cs" using i by simp
    ultimately have "pt = cs ! i" using pt(2) inj [folded cs_def] by (auto simp: inj_on_def)
    then show ?thesis using pt(1) by simp
  qed
  then show ?thesis using up acc(1) tot any(1,2) c(1) by blast
qed

lemma checkParentDir_extends: "extends st st' \<Longrightarrow> checkParentDir p (rp_db st') = checkParentDir p (rp_db st)"
  by (simp add: checkParentDir_def GetFileRow_def extends_def Let_def)

text \<open>A row whose references name chunks that are held: the file is the chunks in order.\<close>

lemma upsert_content:
  assumes ok: "repo_ok E st" and path: "fr_path row = path"
    and c: "refs = map (\<lambda>i. (c i, int i)) [0..<length cs]" "\<forall>i < length cs. holds E st (c i) (cs ! i)"
  shows "\<exists>n. UpsertFile row refs (rp_db st) = (Inr n, upserted row refs (rp_db st))"
    and "repo_ok E (st\<lparr>rp_db := upserted row refs (rp_db st)\<rparr>)"
    and "GetFileRow path (upserted row refs (rp_db st)) = Some row"
    and "StreamFile E path (st\<lparr>rp_db := upserted row refs (rp_db st)\<rparr>) =
      (if int (length (concat cs)) \<noteq> fr_size row then (concat cs, Inl (Err ''file content incomplete''))
       else (concat cs, Inr (int (length (concat cs)), re_md5 E (concat cs))))"
proof -
  let ?db' = "upserted row refs (rp_db st)"
  have inv: "db_inv (rp_db st)" using ok by (simp add: repo_ok_def)
  have "fst r \<in> ck_id ` set (db_chunks (rp_db st))" if "r \<in> set refs" for r
    using that c by (force simp: holds_def)
  then have refs: "refs_ok refs (rp_db st)"
    by (simp add: refs_ok_def) (simp add: c(1) o_def distinct_map inj_on_def)
  show "\<exists>n. UpsertFile row refs (rp_db st) = (Inr n, ?db')" using UpsertFile_cases(1) [OF inv refs] by blast
  have inv': "db_inv ?db'" by (rule db_inv_upserted [OF inv refs])
  show "repo_ok E (st\<lparr>rp_db := ?db'\<rparr>)" by (rule repo_ok_pruned [OF ok pruned_upserted inv'])
  show row: "GetFileRow path ?db' = Some row" by (simp add: GetFileRow_upserted path)
  have srt: "sort_key snd refs = refs"
    unfolding c(1) by (rule sort_key_id_if_sorted) (simp add: o_def sorted_iff_nth_mono)
  have chunks: "GetFileChunks path ?db' = refs" by (simp add: GetFileChunks_upserted [OF inv] path srt)
  have "\<exists>d. chunk_by_id (c i) ?db' = Some d \<and> read_blob E (ck_blob d) (st\<lparr>rp_db := ?db'\<rparr>) = Inr (cs ! i)"
    if i: "i < length cs" for i
  proof -
    obtain d where d: "d \<in> set (db_chunks (rp_db st))" "ck_id d = c i" "row_holds E st d (cs ! i)"
      using c(2) i by (auto simp: holds_def)
    have "(c i, int i) \<in> set (GetFileChunks path ?db')" unfolding chunks using i by (simp add: c(1))
    from chunk_info_upserted [OF inv this] have "chunk_info (c i) ?db' = chunk_info (c i) (rp_db st)" by simp
    then show ?thesis
      using d chunk_by_id_in [OF inv d(1)] by (auto simp: chunk_info_def row_holds_def read_blob_def)
  qed
  from stream_refs [of cs c ?db' E "st\<lparr>rp_db := ?db'\<rparr>" 0, OF this]
  have "stream_blobs E (file_blobs path ?db') (st\<lparr>rp_db := ?db'\<rparr>) = (concat cs, Inr ())"
    unfolding file_blobs_def chunks by (simp add: c(1))
  then show "StreamFile E path (st\<lparr>rp_db := ?db'\<rparr>) =
      (if int (length (concat cs)) \<noteq> fr_size row then (concat cs, Inl (Err ''file content incomplete''))
       else (concat cs, Inr (int (length (concat cs)), re_md5 E (concat cs))))"
    by (simp add: StreamFile_def row)
qed

lemma put_commit_ok:
  assumes ok: "repo_ok E st" and par: "checkParentDir path (rp_db st) = Inr ()"
    and c: "put_refs acc = map (\<lambda>i. (c i, int i)) [0..<length cs]" "\<forall>i < length cs. holds E st (c i) (cs ! i)"
    and tot: "pa_total acc = length (concat cs)"
  shows "\<exists>st'. put_commit path mode mtime False acc st = (Inr (int (length (concat cs))), st') \<and> repo_ok E st' \<and>
    StreamFile E path st' = (concat cs, Inr (int (length (concat cs)), re_md5 E (concat cs))) \<and>
    GetFileRow path (rp_db st') = Some (new_file_row path mode (int (length (concat cs))) mtime) \<and>
    (\<forall>q. q \<noteq> path \<longrightarrow> same_content E q st st')"
proof -
  let ?row = "new_file_row path mode (int (length (concat cs))) mtime"
  let ?db' = "upserted ?row (put_refs acc) (rp_db st)"
  have row: "fr_path ?row = path" "fr_size ?row = int (length (concat cs))" by (simp_all add: new_file_row_def)
  note U = upsert_content [OF ok row(1) c]
  have put: "put_commit path mode mtime False acc st = (Inr (int (length (concat cs))), st\<lparr>rp_db := ?db'\<rparr>)"
    using par U(1) tot by (auto simp: put_commit_def)
  have "same_content E q st (st\<lparr>rp_db := ?db'\<rparr>)" if "q \<noteq> path" for q
    using upserted_same_content [of st q ?row] ok that row(1) by (simp add: repo_ok_def)
  then show ?thesis using put U(2-4) row(2) by auto
qed

lemma PutFile_ok:
  assumes ok: "repo_ok E st" and A: "aead_laws (re_aead E)" and s: "schedule_ok E sched (fst src) st"
    and e: "snd src = EOF \<or> snd src = UnexpectedEOF" and k: "0 < re_chunk E"
    and inj: "inj_on (re_hash E) (stored_plaintexts E st \<union> set (chunks_of (re_chunk E) (fst src)))"
    and par: "checkParentDir path (rp_db st) = Inr ()"
  shows "\<exists>st'. PutFileContext E sched path mode mtime False src st = (Inr (int (length (fst src))), st') \<and> repo_ok E st' \<and>
    StreamFile E path st' = (fst src, Inr (int (length (fst src)), re_md5 E (fst src))) \<and>
    GetFileRow path (rp_db st') = Some (new_file_row path mode (int (length (fst src))) mtime) \<and>
    (\<forall>q. q \<noteq> path \<longrightarrow> StreamFile E q st' = StreamFile E q st \<and> GetFileRow q (rp_db st') = GetFileRow q (rp_db st))"
proof -
  let ?cs = "chunks_of (re_chunk E) (fst src)"
  have cc: "concat ?cs = fst src" using k by simp
  from put_upload_ok [OF ok A s e k inj] obtain acc st1 c where up: "put_upload E sched src st = (acc, st1)"
    "pa_err acc = None" "pa_total acc = length (concat ?cs)" and ok1: "repo_ok E st1" and ext: "extends st st1"
    and c: "put_refs acc = map (\<lambda>i. (c i, int i)) [0..<length ?cs]" "\<forall>i < length ?cs. holds E st1 (c i) (?cs ! i)"
    unfolding cc by blast
  have par1: "checkParentDir path (rp_db st1) = Inr ()" using par checkParentDir_extends [OF ext] by simp
  from put_commit_ok [OF ok1 par1 c up(3), of mode mtime] obtain st' where
    st': "put_commit path mode mtime False acc st1 = (Inr (int (length (fst src))), st')" "repo_ok E st'"
    "StreamFile E path st' = (fst src, Inr (int (length (fst src)), re_md5 E (fst src)))"
    "GetFileRow path (rp_db st') = Some (new_file_row path mode (int (length (fst src))) mtime)"
    and other: "\<forall>q. q \<noteq> path \<longrightarrow> same_content E q st1 st'"
    unfolding cc by blast
  have "same_content E q st st'" if "q \<noteq> path" for q
    using same_content_trans [OF extends_same_content [OF ok ok1 ext]] other that by blast
  then have "\<forall>q. q \<noteq> path \<longrightarrow> StreamFile E q st' = StreamFile E q st \<and> GetFileRow q (rp_db st') = GetFileRow q (rp_db st)"
    using StreamFile_same by (simp add: same_content_def)
  then show ?thesis using st' up by (simp add: PutFileContext_def)
qed

lemma put_abort_ok: "repo_ok E st \<Longrightarrow> repo_ok E (put_abort acc st) \<and> same_content E q st (put_abort acc st)"
  by (simp add: put_abort_def cleanup_same_content)

lemma put_commit_fails:
  assumes ok: "repo_ok E st" and f: "put_commit path mode mtime cancelled acc st = (Inl e, st')"
  shows "repo_ok E st' \<and> same_content E q st st'"
proof (cases "cancelled \<or> checkParentDir path (rp_db st) \<noteq> Inr ()")
  case True
  then have "st' = put_abort acc st"
    using f by (auto simp: put_commit_def split: sum.splits prod.splits if_splits)
  then show ?thesis using put_abort_ok [OF ok] by simp
next
  case False
  have inv: "db_inv (rp_db st)" using ok by (simp add: repo_ok_def)
  let ?f = "new_file_row path mode (int (pa_total acc)) mtime"
  have "\<not> refs_ok (put_refs acc) (rp_db st)"
    using f False UpsertFile_cases(1) [OF inv, of "put_refs acc" ?f] by (auto simp: put_commit_def split: sum.splits)
  then obtain e' where "UpsertFile ?f (put_refs acc) (rp_db st) = (Inl e', rp_db st)"
    using UpsertFile_cases(2) [OF inv] by blast
  then have "st' = put_abort acc st" using f False by (auto simp: put_commit_def split: sum.splits)
  then show ?thesis using put_abort_ok [OF ok] by simp
qed

text \<open>The uploads of a request that may fail at any point: the names are still new and distinct.\<close>

definition names_fresh :: "(nat \<times> upload) list \<Rightarrow> repo \<Rightarrow> bool" where
  "names_fresh sched st \<longleftrightarrow> (\<forall>j \<in> set sched. length (up_nonce (snd j)) = 12) \<and>
     distinct (map (up_name \<circ> snd) sched) \<and> (up_name \<circ> snd) ` set sched \<inter> blob_names st = {}"

lemma put_upload_any:
  assumes "repo_ok E st" "aead_laws (re_aead E)" "names_fresh sched st" "put_upload E sched src st = (acc, st')"
  shows "repo_ok E st' \<and> extends st st'"
proof -
  let ?cs = "chunks_of (re_chunk E) (fst src)" and ?acc0 = "\<lparr>pa_refs = [], pa_new = [], pa_total = 0, pa_err = None\<rparr>"
  let ?jobs = "filter (\<lambda>j. fst j < length ?cs) sched"
  obtain acc1 where F: "fold (put_job E ?cs) ?jobs (?acc0, st) = (acc1, st')"
    using assms(4) by (auto simp: put_upload_def Let_def split: prod.splits)
  have "\<forall>j \<in> set ?jobs. length (up_nonce (snd j)) = 12" "distinct (map (up_name \<circ> snd) ?jobs)"
    "(up_name \<circ> snd) ` set ?jobs \<inter> blob_names st = {}"
    using assms(3) by (auto simp: names_fresh_def distinct_map_filter)
  from put_fold_any [OF assms(1,2) this _ F] show ?thesis by simp
qed

lemma PutFile_fails:
  assumes ok: "repo_ok E st" and A: "aead_laws (re_aead E)" and n: "names_fresh sched st"
    and f: "PutFileContext E sched path mode mtime cancelled src st = (Inl e, st')"
  shows "repo_ok E st' \<and> same_content E q st st'"
proof -
  obtain acc st1 where up: "put_upload E sched src st = (acc, st1)" by fastforce
  have 1: "repo_ok E st1" "same_content E q st st1"
    using put_upload_any [OF ok A n up] extends_same_content [OF ok] by blast+
  show ?thesis
  proof (cases "pa_err acc")
    case None
    then have "put_commit path mode mtime cancelled acc st1 = (Inl e, st')"
      using f up by (simp add: PutFileContext_def)
    from put_commit_fails [OF 1(1) this] 1(2) show ?thesis using same_content_trans by blast
  next
    case (Some e')
    then have "st' = put_abort acc st1" using f up by (simp add: PutFileContext_def)
    then show ?thesis using put_abort_ok [OF 1(1)] 1(2) same_content_trans by blast
  qed
qed

end
