(* ===== verification/RepoFiles.thy ===== *)
theory RepoFiles
  imports RepoWrite
begin

text \<open>
  Deleting, moving and listing: the effect of \<open>DeletePath\<close> and \<open>MovePath\<close> on every path, through the
  relation \<open>kept_info\<close> between databases (no chunk that is still referenced has changed).
\<close>

subsection \<open>Databases that keep what is referenced\<close>

definition kept_info :: "meta_db \<Rightarrow> meta_db \<Rightarrow> bool" where
  "kept_info db db' \<longleftrightarrow> (\<forall>q r. r \<in> set (GetFileChunks q db') \<longrightarrow>
     (\<exists>p. r \<in> set (GetFileChunks p db)) \<and> chunk_info (fst r) db' = chunk_info (fst r) db)"

lemma kept_info_refl: "kept_info db db"
  by (auto simp: kept_info_def)

lemma kept_info_trans: "kept_info a b \<Longrightarrow> kept_info b c \<Longrightarrow> kept_info a c"
  unfolding kept_info_def by metis

lemma kept_info_DeleteFile: "db_inv db \<Longrightarrow> kept_info db (DeleteFile p db)"
  unfolding kept_info_def using chunk_info_DeleteFile [of db] GetFileChunks_DeleteFile [of db]
  by (metis empty_iff empty_set)

text \<open>The content of path \<open>q'\<close> in \<open>db'\<close> is the content of \<open>q\<close> in the repository before.\<close>

lemma StreamFile_moved:
  assumes "GetFileChunks q' db' = GetFileChunks q (rp_db st)" "kept_info (rp_db st) db'"
    "GetFileRow q (rp_db st) = Some f" "GetFileRow q' db' = Some f'" "fr_size f' = fr_size f"
  shows "StreamFile E q' (st\<lparr>rp_db := db'\<rparr>) = StreamFile E q st"
proof -
  have "chunk_info (fst r) db' = chunk_info (fst r) (rp_db st)" if "r \<in> set (GetFileChunks q (rp_db st))" for r
    using that assms(1,2) unfolding kept_info_def by metis
  then have fb: "file_blobs q' db' = file_blobs q (rp_db st)"
    unfolding file_blobs_info assms(1) by (intro map_filter_cong) simp
  have "stream_blobs E bs (st\<lparr>rp_db := db'\<rparr>) = stream_blobs E bs st" for bs
    by (intro stream_blobs_cong) (simp add: read_blob_def)
  then show ?thesis using assms(3-5) fb by (simp add: StreamFile_def)
qed

lemma StreamFile_kept:
  assumes "GetFileRow q db' = GetFileRow q (rp_db st)" "GetFileChunks q db' = GetFileChunks q (rp_db st)"
    "kept_info (rp_db st) db'"
  shows "StreamFile E q (st\<lparr>rp_db := db'\<rparr>) = StreamFile E q st"
  by (rule StreamFile_same, rule same_content_db) (use assms in \<open>simp, simp, unfold kept_info_def, metis\<close>)

subsection \<open>The rows of a subtree\<close>

definition in_tree :: "string \<Rightarrow> string \<Rightarrow> bool" where
  "in_tree p q \<longleftrightarrow> q = p \<or> HasPrefix q (p @ ''/'')"

lemma in_tree_append: "in_tree p q \<Longrightarrow> q = p @ drop (length p) q"
  by (auto simp: in_tree_def HasPrefix_iff)

lemma in_tree_shift: "in_tree p (p @ x) \<longleftrightarrow> in_tree p' (p' @ x)"
  by (auto simp: in_tree_def HasPrefix_iff)

lemma GetFileRow_in:
  assumes "db_inv db"
  shows "GetFileRow p db = Some f \<longleftrightarrow> f \<in> df_row ` set (db_files db) \<and> fr_path f = p"
proof
  assume "GetFileRow p db = Some f"
  then show "f \<in> df_row ` set (db_files db) \<and> fr_path f = p"
    by (auto simp: GetFileRow_def dest: find_Some_in)
next
  assume "f \<in> df_row ` set (db_files db) \<and> fr_path f = p"
  then obtain d where "d \<in> set (db_files db)" "df_row d = f" "fr_path (df_row d) = p" by auto
  moreover from this have "find (\<lambda>y. fr_path (df_row y) = fr_path (df_row d)) (db_files db) = Some d"
    using assms by (intro find_distinct [of "\<lambda>d. fr_path (df_row d)"]) (auto simp: db_inv_def)
  ultimately show "GetFileRow p db = Some f" by (simp add: GetFileRow_def)
qed

lemma set_FileRows:
  assumes "db_inv db" "p \<noteq> []"
  shows "f \<in> set (FileRows p db) \<longleftrightarrow> in_tree p (fr_path f) \<and> GetFileRow (fr_path f) db = Some f"
  using assms(2) GetFileRow_in [OF assms(1), of "fr_path f" f] by (auto simp: FileRows_def GetFiles_def in_tree_def)

lemma distinct_FileRows:
  assumes "db_inv db"
  shows "distinct (map fr_path (FileRows p db))"
proof -
  have "distinct (map fr_path (GetFiles db))"
    using assms by (simp add: GetFiles_def db_inv_def o_def distinct_map inj_on_def) blast
  then show ?thesis by (simp add: FileRows_def distinct_map_filter)
qed

subsection \<open>Deleting\<close>

lemma fold_DeleteFile:
  assumes "db_inv db"
  shows "db_inv (fold (\<lambda>row d. DeleteFile (fr_path row) d) rows db) \<and>
    kept_info db (fold (\<lambda>row d. DeleteFile (fr_path row) d) rows db) \<and>
    GetFileRow q (fold (\<lambda>row d. DeleteFile (fr_path row) d) rows db) =
      (if q \<in> fr_path ` set rows then None else GetFileRow q db) \<and>
    GetFileChunks q (fold (\<lambda>row d. DeleteFile (fr_path row) d) rows db) =
      (if q \<in> fr_path ` set rows then [] else GetFileChunks q db)"
  using assms
proof (induction rows arbitrary: db)
  case Nil
  then show ?case by (simp add: kept_info_refl)
next
  case (Cons r rows)
  have inv: "db_inv (DeleteFile (fr_path r) db)" using Cons.prems by (rule db_inv_DeleteFile)
  from Cons.IH [OF inv] kept_info_trans [OF kept_info_DeleteFile [OF Cons.prems]] show ?case
    by (auto simp: GetFileRow_DeleteFile [OF Cons.prems] GetFileChunks_DeleteFile [OF Cons.prems])
qed

lemma DeletePath_rows:
  assumes "db_inv db" "p \<noteq> []" "GetFileRow p db \<noteq> None"
  shows "db_inv (DeletePath p db) \<and> kept_info db (DeletePath p db) \<and>
    GetFileRow q (DeletePath p db) = (if in_tree p q then None else GetFileRow q db) \<and>
    (\<not> in_tree p q \<longrightarrow> GetFileChunks q (DeletePath p db) = GetFileChunks q db)"
proof -
  have mem: "q \<in> fr_path ` set (FileRows p db) \<longleftrightarrow> in_tree p q \<and> GetFileRow q db \<noteq> None"
  proof
    assume "q \<in> fr_path ` set (FileRows p db)"
    then show "in_tree p q \<and> GetFileRow q db \<noteq> None" using set_FileRows [OF assms(1,2)] by auto
  next
    assume "in_tree p q \<and> GetFileRow q db \<noteq> None"
    then obtain f where "in_tree p q" "GetFileRow q db = Some f" by auto
    moreover from this have "fr_path f = q" using GetFileRow_in [OF assms(1)] by blast
    ultimately have "f \<in> set (FileRows p db)" using set_FileRows [OF assms(1,2)] by simp
    then show "q \<in> fr_path ` set (FileRows p db)" using \<open>fr_path f = q\<close> by blast
  qed
  show ?thesis
    using fold_DeleteFile [OF assms(1), of "FileRows p db" q] assms(3) unfolding mem by (auto simp: DeletePath_def)
qed

subsection \<open>Moving\<close>

definition moved_path :: "string \<Rightarrow> string \<Rightarrow> string \<Rightarrow> string" where
  "moved_path src dst p = dst @ drop (length src) p"

lemma refs_ok_GetFileChunks:
  assumes "db_inv db"
  shows "refs_ok (GetFileChunks p db) db"
proof -
  have "distinct (map snd (GetFileChunks p db))"
  proof -
    let ?fcs = "filter (\<lambda>fc. fc_file fc \<in> set (path_fids db p)) (db_fcs db)"
    have one: "i = j" if "i \<in> set (path_fids db p)" "j \<in> set (path_fids db p)" for i j
      using that assms by (auto simp: set_path_fids db_inv_def distinct_map inj_on_def)
    have "distinct (map fc_key ?fcs)" using assms by (simp add: db_inv_def distinct_map_filter)
    then have "inj_on fc_idx (set ?fcs)" "distinct ?fcs"
      using one by (auto simp: distinct_map inj_on_def fc_key_def)
    then show ?thesis by (simp add: GetFileChunks_def o_def distinct_map)
  qed
  moreover have "fst r \<in> ck_id ` set (db_chunks db)" if "r \<in> set (GetFileChunks p db)" for r
    using referenced_chunk [OF assms that] by force
  ultimately show ?thesis by (simp add: refs_ok_def)
qed

lemma sorted_GetFileChunks: "sort_key snd (GetFileChunks p db) = GetFileChunks p db"
  by (rule sort_key_id_if_sorted) (simp add: GetFileChunks_def o_def)

lemma move_row_step:
  assumes inv: "db_inv db" and row: "GetFileRow p db = Some row" and np: "moved_path src dst p \<noteq> p"
    and u: "in_tree src p"
  shows "\<exists>db'. move_row src dst row (Inr (), db) = (Inr (), db') \<and> db_inv db' \<and> kept_info db db' \<and>
    (\<forall>q. GetFileRow q db' = (if q = p then None else if q = moved_path src dst p
       then Some (row\<lparr>fr_path := moved_path src dst p\<rparr>) else GetFileRow q db)) \<and>
    (\<forall>q. q \<noteq> p \<longrightarrow> GetFileChunks q db' = (if q = moved_path src dst p then GetFileChunks p db else GetFileChunks q db))"
proof -
  let ?n = "moved_path src dst p" and ?f = "row\<lparr>fr_path := moved_path src dst p\<rparr>" and ?refs = "GetFileChunks p db"
  have p: "fr_path row = p" using row GetFileRow_in [OF inv] by blast
  have n: "(if fr_path row = src then dst else dst @ drop (length src) (fr_path row)) = ?n"
    by (simp add: p moved_path_def)
  let ?db1 = "upserted ?f ?refs db"
  have inv1: "db_inv ?db1" by (rule db_inv_upserted [OF inv refs_ok_GetFileChunks [OF inv]])
  have step: "move_row src dst row (Inr (), db) = (Inr (), DeleteFile p ?db1)"
    using UpsertFile_cases(1) [OF inv refs_ok_GetFileChunks [OF inv]] n by (simp add: move_row_def Let_def p)
  have rows1: "GetFileRow q ?db1 = (if q = ?n then Some ?f else GetFileRow q db)" for q
    by (simp add: GetFileRow_upserted)
  have chunks1: "GetFileChunks q ?db1 = (if q = ?n then ?refs else GetFileChunks q db)" for q
    by (simp add: GetFileChunks_upserted [OF inv] sorted_GetFileChunks)
  have "kept_info db ?db1"
    unfolding kept_info_def using chunk_info_upserted [OF inv] chunks1 by (metis (no_types, lifting))
  then have "kept_info db (DeleteFile p ?db1)" using kept_info_trans kept_info_DeleteFile [OF inv1] by blast
  then show ?thesis
    using step db_inv_DeleteFile [OF inv1] np
    by (auto simp: GetFileRow_DeleteFile [OF inv1] GetFileChunks_DeleteFile [OF inv1] rows1 chunks1)
qed

lemma in_tree_both:
  assumes "in_tree a p" "in_tree b p"
  shows "in_tree a b \<or> in_tree b a"
proof -
  have split: "\<exists>x. p = c @ x \<and> (x = [] \<or> (\<exists>z. x = CHR ''/'' # z))" if "in_tree c p" for c
    using that by (auto simp: in_tree_def HasPrefix_iff)
  obtain x where x: "p = a @ x" "x = [] \<or> (\<exists>z. x = CHR ''/'' # z)" using split [OF assms(1)] by blast
  obtain y where y: "p = b @ y" "y = [] \<or> (\<exists>z. y = CHR ''/'' # z)" using split [OF assms(2)] by blast
  from x(1) y(1) have "a @ x = b @ y" by simp
  then obtain u where "a = b @ u \<and> u @ x = y \<or> a @ u = b \<and> x = u @ y"
    by (auto simp: append_eq_append_conv2)
  then show ?thesis using x(2) y(2) by (cases u) (auto simp: in_tree_def HasPrefix_iff)
qed

lemma moved_in_tree: "in_tree src p \<Longrightarrow> in_tree dst (moved_path src dst p)"
  using in_tree_append [of src p] in_tree_shift [of src "drop (length src) p" dst] by (simp add: moved_path_def)

lemma moved_inj: "in_tree src p \<Longrightarrow> in_tree src q \<Longrightarrow> moved_path src dst p = moved_path src dst q \<Longrightarrow> p = q"
  using in_tree_append [of src p] in_tree_append [of src q] by (simp add: moved_path_def)

lemma move_rows:
  assumes "db_inv db" "distinct (map fr_path rows)" "\<not> in_tree src dst" "\<not> in_tree dst src"
    "\<forall>r \<in> set rows. in_tree src (fr_path r) \<and> GetFileRow (fr_path r) db = Some r"
  shows "\<exists>db'. fold (move_row src dst) rows (Inr (), db) = (Inr (), db') \<and> db_inv db' \<and> kept_info db db' \<and>
    (\<forall>r \<in> set rows. GetFileRow (fr_path r) db' = None \<and>
       GetFileRow (moved_path src dst (fr_path r)) db' = Some (r\<lparr>fr_path := moved_path src dst (fr_path r)\<rparr>) \<and>
       GetFileChunks (moved_path src dst (fr_path r)) db' = GetFileChunks (fr_path r) db) \<and>
    (\<forall>q. q \<notin> fr_path ` set rows \<and> q \<notin> moved_path src dst ` fr_path ` set rows \<longrightarrow>
       GetFileRow q db' = GetFileRow q db \<and> GetFileChunks q db' = GetFileChunks q db)"
  using assms
proof (induction rows arbitrary: db)
  case Nil
  then show ?case by (auto simp: kept_info_refl)
next
  case (Cons r rows)
  let ?p = "fr_path r" and ?mv = "moved_path src dst"
  have u: "in_tree src ?p" "GetFileRow ?p db = Some r" using Cons.prems(5) by auto
  have apart: "?mv (fr_path a) \<noteq> fr_path b" if "a \<in> set (r # rows)" "b \<in> set (r # rows)" for a b
    using that Cons.prems(3-5) moved_in_tree [of src _ dst] in_tree_both [of src _ dst] by metis
  obtain db1 where d1: "move_row src dst r (Inr (), db) = (Inr (), db1)" "db_inv db1" "kept_info db db1"
    and row1: "\<And>q. GetFileRow q db1 = (if q = ?p then None else if q = ?mv ?p then Some (r\<lparr>fr_path := ?mv ?p\<rparr>) else GetFileRow q db)"
    and ch1: "\<And>q. q \<noteq> ?p \<Longrightarrow> GetFileChunks q db1 = (if q = ?mv ?p then GetFileChunks ?p db else GetFileChunks q db)"
    using move_row_step [OF Cons.prems(1) u(2) _ u(1), of dst] apart [of r r] by auto
  have ne: "fr_path r' \<noteq> ?p" "?mv ?p \<noteq> fr_path r'" "?mv (fr_path r') \<noteq> ?p" "?mv (fr_path r') \<noteq> ?mv ?p"
    "fr_path r' \<noteq> ?mv ?p" if r': "r' \<in> set rows" for r'
  proof -
    show n: "fr_path r' \<noteq> ?p" using r' Cons.prems(2) by (auto simp: image_iff)
    show "?mv ?p \<noteq> fr_path r'" "?mv (fr_path r') \<noteq> ?p" using apart r' by simp_all
    then show "fr_path r' \<noteq> ?mv ?p" by simp
    show "?mv (fr_path r') \<noteq> ?mv ?p" using n moved_inj [of src "fr_path r'" ?p dst] u(1) Cons.prems(5) r' by force
  qed
  have "\<forall>r' \<in> set rows. in_tree src (fr_path r') \<and> GetFileRow (fr_path r') db1 = Some r'"
    using Cons.prems(5) ne row1 by simp
  from Cons.IH [OF d1(2) _ Cons.prems(3,4) this] Cons.prems(2) obtain db' where
    d': "fold (move_row src dst) rows (Inr (), db1) = (Inr (), db')" "db_inv db'" "kept_info db1 db'"
    and in': "\<And>r. r \<in> set rows \<Longrightarrow> GetFileRow (fr_path r) db' = None \<and>
       GetFileRow (?mv (fr_path r)) db' = Some (r\<lparr>fr_path := ?mv (fr_path r)\<rparr>) \<and>
       GetFileChunks (?mv (fr_path r)) db' = GetFileChunks (fr_path r) db1"
    and out': "\<And>q. q \<notin> fr_path ` set rows \<Longrightarrow> q \<notin> ?mv ` fr_path ` set rows \<Longrightarrow>
       GetFileRow q db' = GetFileRow q db1 \<and> GetFileChunks q db' = GetFileChunks q db1"
    by auto
  have outp: "?p \<notin> fr_path ` set rows" "?p \<notin> ?mv ` fr_path ` set rows"
    "?mv ?p \<notin> fr_path ` set rows" "?mv ?p \<notin> ?mv ` fr_path ` set rows"
    using ne by (force simp: image_iff)+
  have first: "GetFileRow ?p db' = None" "GetFileRow (?mv ?p) db' = Some (r\<lparr>fr_path := ?mv ?p\<rparr>)"
    "GetFileChunks (?mv ?p) db' = GetFileChunks ?p db"
    using out' [OF outp(1,2)] out' [OF outp(3,4)] row1 ch1 [of "?mv ?p"] apart [of r r] by simp_all
  have others: "GetFileChunks (?mv (fr_path r')) db' = GetFileChunks (fr_path r') db" if "r' \<in> set rows" for r'
    using in' [OF that] ch1 [of "fr_path r'"] ne [OF that] by simp
  have rest: "GetFileRow q db' = GetFileRow q db \<and> GetFileChunks q db' = GetFileChunks q db"
    if "q \<notin> fr_path ` set (r # rows)" "q \<notin> ?mv ` fr_path ` set (r # rows)" for q
    using that out' [of q] row1 [of q] ch1 [of q] by simp
  have "fold (move_row src dst) (r # rows) (Inr (), db) = (Inr (), db')" using d1 d' by simp
  then show ?case
    using d'(2) kept_info_trans [OF d1(3) d'(3)] first others rest in' by (intro exI [of _ db'] conjI) auto
qed

lemma MovePath_rows:
  assumes inv: "db_inv db" and ne: "src \<noteq> []" "dst \<noteq> []" and ov: "\<not> in_tree src dst" "\<not> in_tree dst src"
    and par: "checkParentDir dst db = Inr ()" and ex: "GetFileRow src db \<noteq> None"
  shows "\<exists>db'. MovePath src dst db = (Inr (), db') \<and> db_inv db' \<and> kept_info db db' \<and>
    (\<forall>q. GetFileRow q db' = (if in_tree src q then None
       else if in_tree dst q then map_option (\<lambda>r. r\<lparr>fr_path := q\<rparr>) (GetFileRow (moved_path dst src q) db)
       else GetFileRow q db)) \<and>
    (\<forall>q. \<not> in_tree src q \<and> GetFileRow q db' \<noteq> None \<longrightarrow>
       GetFileChunks q db' = GetFileChunks (if in_tree dst q then moved_path dst src q else q) db)"
proof -
  let ?rows = "FileRows src db" and ?drows = "FileRows dst db" and ?mv = "moved_path src dst"
  let ?db1 = "fold (\<lambda>row d. DeleteFile (fr_path row) d) ?drows db"
  have src: "r \<in> set ?rows \<longleftrightarrow> in_tree src (fr_path r) \<and> GetFileRow (fr_path r) db = Some r" for r
    by (rule set_FileRows [OF inv ne(1)])
  have dst: "r \<in> set ?drows \<longleftrightarrow> in_tree dst (fr_path r) \<and> GetFileRow (fr_path r) db = Some r" for r
    by (rule set_FileRows [OF inv ne(2)])
  have row_path: "fr_path r = q" if "GetFileRow q db = Some r" for q r using that GetFileRow_in [OF inv] by blast
  have apart: "\<not> (in_tree src q \<and> in_tree dst q)" for q using ov in_tree_both by blast
  have D: "fold (\<lambda>row d. if fr_path row \<in> set (map fr_path ?rows) then d else DeleteFile (fr_path row) d) ?drows db = ?db1"
  proof (rule fold_cong)
    fix r assume "r \<in> set ?drows"
    then have "\<not> in_tree src (fr_path r)" using dst apart by blast
    then have "fr_path r \<notin> set (map fr_path ?rows)" unfolding set_map using src by (metis imageE)
    then show "(\<lambda>d. if fr_path r \<in> set (map fr_path ?rows) then d else DeleteFile (fr_path r) d) = DeleteFile (fr_path r)"
      by simp
  qed simp_all
  have d1: "db_inv ?db1" "kept_info db ?db1"
    and row1: "\<And>q. GetFileRow q ?db1 = (if q \<in> fr_path ` set ?drows then None else GetFileRow q db)"
    and ch1: "\<And>q. GetFileChunks q ?db1 = (if q \<in> fr_path ` set ?drows then [] else GetFileChunks q db)"
    using fold_DeleteFile [OF inv, of ?drows] by auto
  have dmem: "q \<in> fr_path ` set ?drows \<longleftrightarrow> in_tree dst q \<and> GetFileRow q db \<noteq> None" for q
    using dst row_path by (force simp: image_iff)
  have smem: "q \<in> fr_path ` set ?rows \<longleftrightarrow> in_tree src q \<and> GetFileRow q db \<noteq> None" for q
    using src row_path by (force simp: image_iff)
  have "\<forall>r \<in> set ?rows. in_tree src (fr_path r) \<and> GetFileRow (fr_path r) ?db1 = Some r"
    using src row1 dmem apart by auto
  from move_rows [OF d1(1) distinct_FileRows [OF inv] ov this] obtain db' where
    F: "fold (move_row src dst) ?rows (Inr (), ?db1) = (Inr (), db')" "db_inv db'" "kept_info ?db1 db'"
    and in': "\<And>r. r \<in> set ?rows \<Longrightarrow> GetFileRow (fr_path r) db' = None \<and>
       GetFileRow (?mv (fr_path r)) db' = Some (r\<lparr>fr_path := ?mv (fr_path r)\<rparr>) \<and>
       GetFileChunks (?mv (fr_path r)) db' = GetFileChunks (fr_path r) ?db1"
    and out': "\<And>q. q \<notin> fr_path ` set ?rows \<Longrightarrow> q \<notin> ?mv ` fr_path ` set ?rows \<Longrightarrow>
       GetFileRow q db' = GetFileRow q ?db1 \<and> GetFileChunks q db' = GetFileChunks q ?db1" by auto
  have rows_ne: "?rows \<noteq> []" using ex smem [of src] by (auto simp: in_tree_def)
  have M: "MovePath src dst db = (Inr (), db')"
    unfolding MovePath_def Let_def par sum.case D using rows_ne F(1) by simp
  have bk: "?mv (moved_path dst src q) = q" "in_tree src (moved_path dst src q)" if "in_tree dst q" for q
    using that in_tree_append [of dst q] moved_in_tree [of dst q src] by (simp_all add: moved_path_def)
  have mmem: "q \<in> ?mv ` fr_path ` set ?rows \<longleftrightarrow> in_tree dst q \<and> GetFileRow (moved_path dst src q) db \<noteq> None" for q
  proof
    assume "q \<in> ?mv ` fr_path ` set ?rows"
    then obtain p where "in_tree src p" "GetFileRow p db \<noteq> None" "q = ?mv p" using smem by blast
    moreover from this have "moved_path dst src q = p" using in_tree_append [of src p] by (simp add: moved_path_def)
    ultimately show "in_tree dst q \<and> GetFileRow (moved_path dst src q) db \<noteq> None" using moved_in_tree by simp
  next
    assume q: "in_tree dst q \<and> GetFileRow (moved_path dst src q) db \<noteq> None"
    then have "moved_path dst src q \<in> fr_path ` set ?rows" using smem bk(2) by blast
    then show "q \<in> ?mv ` fr_path ` set ?rows" using bk(1) q by (metis imageI)
  qed
  have in_q: "GetFileRow q db' = Some (r\<lparr>fr_path := q\<rparr>) \<and> GetFileChunks q db' = GetFileChunks (moved_path dst src q) db"
    if q: "in_tree dst q" "GetFileRow (moved_path dst src q) db = Some r" for q r
  proof -
    have r: "fr_path r = moved_path dst src q" "r \<in> set ?rows" using row_path [OF q(2)] src bk(2) [OF q(1)] q(2) by auto
    have "fr_path r \<notin> fr_path ` set ?drows" using dmem apart bk(2) [OF q(1)] r(1) by metis
    then show ?thesis using in' [OF r(2)] ch1 [of "fr_path r"] bk(1) [OF q(1)] r(1) by simp
  qed
  have rows': "GetFileRow q db' = (if in_tree src q then None
       else if in_tree dst q then map_option (\<lambda>r. r\<lparr>fr_path := q\<rparr>) (GetFileRow (moved_path dst src q) db)
       else GetFileRow q db)" for q
  proof (cases "q \<in> fr_path ` set ?rows")
    case True
    then obtain r where r: "r \<in> set ?rows" "q = fr_path r" by (rule imageE)
    have none: "GetFileRow q db' = None" using in' [OF r(1)] unfolding r(2) by (rule conjunct1)
    have "in_tree src q" using True smem by blast
    then show ?thesis using none by (simp only: if_True)
  next
    case nin: False
    show ?thesis
    proof (cases "q \<in> ?mv ` fr_path ` set ?rows")
      case True
      then show ?thesis using in_q [of q] mmem [of q] apart [of q] by auto
    next
      case False
      then show ?thesis
        using out' [OF nin False] row1 [of q] dmem [of q] mmem [of q] smem [of q] nin by auto
    qed
  qed
  have chunks': "GetFileChunks q db' = GetFileChunks (if in_tree dst q then moved_path dst src q else q) db"
    if q: "\<not> in_tree src q" "GetFileRow q db' \<noteq> None" for q
  proof (cases "in_tree dst q")
    case True
    then obtain r where "GetFileRow (moved_path dst src q) db = Some r" using q rows' [of q] by auto
    then show ?thesis using in_q True by simp
  next
    case False
    then show ?thesis using out' [of q] smem mmem dmem ch1 [of q] q(1) by simp
  qed
  show ?thesis using M F(2) kept_info_trans [OF d1(2) F(3)] rows' chunks' by blast
qed

text \<open>Moving a path to itself: every row of the subtree is written again and then deleted.\<close>

lemma move_self:
  assumes "db_inv db" "checkParentDir p db = Inr ()" "FileRows p db = [row]" "fr_path row = p" "GetFileRow p db = Some row"
  shows "\<exists>db'. MovePath p p db = (Inr (), db') \<and> GetFileRow p db' = None \<and> GetFileChunks p db' = []"
proof -
  let ?db1 = "upserted row (GetFileChunks p db) db"
  have r: "refs_ok (GetFileChunks p db) db" by (rule refs_ok_GetFileChunks [OF assms(1)])
  have inv1: "db_inv ?db1" by (rule db_inv_upserted [OF assms(1) r])
  have same: "row\<lparr>fr_path := p\<rparr> = row" using assms(4) by (cases row) simp
  have "MovePath p p db = (Inr (), DeleteFile p ?db1)"
    using assms(2-4) UpsertFile_cases(1) [OF assms(1) r, of row] by (simp add: MovePath_def move_row_def Let_def same)
  then show ?thesis
    by (simp add: GetFileRow_DeleteFile [OF inv1] GetFileChunks_DeleteFile [OF inv1])
qed

subsection \<open>Properties\<close>

text \<open>
  Deleting a path removes the row of the path and of everything below it, and leaves the rows and
  the content of every other path as they were.
\<close>

lemma DeletePath_removes_subtree:
  assumes "repo_ok E st" "p \<noteq> []" "GetFileRow p (rp_db st) \<noteq> None"
  shows "(\<forall>q. GetFileRow q (DeletePath p (rp_db st)) = (if in_tree p q then None else GetFileRow q (rp_db st))) \<and>
    (\<forall>q. \<not> in_tree p q \<longrightarrow> StreamFile E q (st\<lparr>rp_db := DeletePath p (rp_db st)\<rparr>) = StreamFile E q st)"
  using DeletePath_rows [of "rp_db st", OF _ assms(2,3)] assms(1) StreamFile_kept by (simp add: repo_ok_def)

definition two_file_db :: meta_db where
  "two_file_db = fold run_op
     [OpInsertChunk [1] ''b1'' 1, OpInsertChunk [2] ''b2'' 1, OpUpsert (dir_row ''d'' 0) [],
      OpUpsert (row_named ''d/x'' 1) [(1, 0)], OpUpsert (row_named ''e'' 1) [(2, 0)]] empty_db"

definition identity_env :: repo_env where
  "identity_env = \<lparr>re_hash = (\<lambda>x. x), re_md5 = (\<lambda>x. []), re_aead = plain_aead, re_chunk = 1\<rparr>"

definition two_file_repo :: repo where
  "two_file_repo = \<lparr>rp_db = two_file_db, rp_be = snd (mem_Put ''b1'' (Encrypt plain_aead (replicate 12 0) [1] ''b1'')
     (snd (mem_Put ''b2'' (Encrypt plain_aead (replicate 12 0) [2] ''b2'') NewInMemory)))\<rparr>"

lemma two_file_db_inv: "db_inv two_file_db"
  unfolding two_file_db_def by (rule db_inv_run) (rule db_inv_empty)

lemma two_file_repo_ok: "repo_ok identity_env two_file_repo"
proof -
  have "row_holds identity_env two_file_repo c (ck_hash c)" if "c \<in> set (db_chunks two_file_db)" for c
  proof -
    have "list_all (\<lambda>c. read_blob identity_env (ck_blob c) two_file_repo = Inr (ck_hash c) \<and>
        ck_size c = int (length (ck_hash c))) (db_chunks two_file_db)" by code_simp
    then show ?thesis using that by (auto simp: list_all_iff row_holds_def identity_env_def)
  qed
  moreover have "distinct (map ck_blob (db_chunks two_file_db))" by code_simp
  moreover have "rp_db two_file_repo = two_file_db" by (simp add: two_file_repo_def)
  ultimately show ?thesis using two_file_db_inv unfolding repo_ok_def by auto
qed

text \<open>
  C35: moving a path to a place that does not overlap it moves the whole subtree: afterwards nothing is
  left under the source, a path under the destination has the row and the content that the
  corresponding path under the source had (or nothing), and every other path is as before.
\<close>

theorem MovePath_moves_subtree:
  assumes "repo_ok E st" "src \<noteq> []" "dst \<noteq> []" "\<not> in_tree src dst" "\<not> in_tree dst src"
    "checkParentDir dst (rp_db st) = Inr ()" "GetFileRow src (rp_db st) \<noteq> None"
  shows "\<exists>db'. MovePath src dst (rp_db st) = (Inr (), db') \<and> db_inv db' \<and>
    (\<forall>q. in_tree src q \<longrightarrow> GetFileRow q db' = None) \<and>
    (\<forall>q. in_tree dst q \<longrightarrow> GetFileRow q db' =
       map_option (\<lambda>r. r\<lparr>fr_path := q\<rparr>) (GetFileRow (moved_path dst src q) (rp_db st)) \<and>
       (GetFileRow q db' \<noteq> None \<longrightarrow>
          StreamFile E q (st\<lparr>rp_db := db'\<rparr>) = StreamFile E (moved_path dst src q) st)) \<and>
    (\<forall>q. \<not> in_tree src q \<and> \<not> in_tree dst q \<longrightarrow> GetFileRow q db' = GetFileRow q (rp_db st) \<and>
       StreamFile E q (st\<lparr>rp_db := db'\<rparr>) = StreamFile E q st)"
proof -
  have inv: "db_inv (rp_db st)" using assms(1) by (simp add: repo_ok_def)
  obtain db' where M: "MovePath src dst (rp_db st) = (Inr (), db')" "db_inv db'" "kept_info (rp_db st) db'"
    and rows: "\<And>q. GetFileRow q db' = (if in_tree src q then None
       else if in_tree dst q then map_option (\<lambda>r. r\<lparr>fr_path := q\<rparr>) (GetFileRow (moved_path dst src q) (rp_db st))
       else GetFileRow q (rp_db st))"
    and chunks: "\<And>q. \<not> in_tree src q \<Longrightarrow> GetFileRow q db' \<noteq> None \<Longrightarrow>
       GetFileChunks q db' = GetFileChunks (if in_tree dst q then moved_path dst src q else q) (rp_db st)"
    using MovePath_rows [OF inv assms(2-7)] by blast
  have apart: "\<not> (in_tree src q \<and> in_tree dst q)" for q using assms(4,5) in_tree_both by blast
  have "StreamFile E q (st\<lparr>rp_db := db'\<rparr>) = StreamFile E (moved_path dst src q) st"
    if q: "in_tree dst q" "GetFileRow q db' \<noteq> None" for q
  proof -
    obtain r where r: "GetFileRow (moved_path dst src q) (rp_db st) = Some r" "GetFileRow q db' = Some (r\<lparr>fr_path := q\<rparr>)"
      using rows [of q] q apart [of q] by auto
    show ?thesis
      by (rule StreamFile_moved [OF _ M(3) r]) (use chunks [OF _ q(2)] q(1) apart in auto)
  qed
  moreover have "StreamFile E q (st\<lparr>rp_db := db'\<rparr>) = StreamFile E q st"
    if q: "\<not> in_tree src q" "\<not> in_tree dst q" for q
  proof (cases "GetFileRow q db'")
    case None
    then show ?thesis using rows [of q] q by (simp add: StreamFile_def)
  next
    case (Some r)
    then show ?thesis using rows [of q] chunks [of q] q M(3) by (intro StreamFile_kept) auto
  qed
  ultimately show ?thesis
    using M rows apart by (intro exI [of _ db'] conjI) auto
qed

theorem MovePath_moves_subtree_witness:
  "\<exists>db'. MovePath ''d'' ''f'' two_file_db = (Inr (), db') \<and> GetFileRow ''f/x'' db' = Some (row_named ''f/x'' 1) \<and>
     StreamFile identity_env ''f/x'' (two_file_repo\<lparr>rp_db := db'\<rparr>) = ([1], Inr (1, []))"
proof -
  have db: "rp_db two_file_repo = two_file_db" by (simp add: two_file_repo_def)
  have h: "\<not> in_tree ''d'' ''f''" "\<not> in_tree ''f'' ''d''" "in_tree ''f'' ''f/x''"
    "checkParentDir ''f'' (rp_db two_file_repo) = Inr ()" "GetFileRow ''d'' (rp_db two_file_repo) \<noteq> None" by code_simp+
  have v: "GetFileRow (moved_path ''f'' ''d'' ''f/x'') two_file_db = Some (row_named ''d/x'' 1)"
    "StreamFile identity_env (moved_path ''f'' ''d'' ''f/x'') two_file_repo = ([1], Inr (1, []))" by code_simp+
  obtain db' where M: "MovePath ''d'' ''f'' (rp_db two_file_repo) = (Inr (), db')"
    and q: "\<forall>q. in_tree ''f'' q \<longrightarrow> GetFileRow q db' =
       map_option (\<lambda>r. r\<lparr>fr_path := q\<rparr>) (GetFileRow (moved_path ''f'' ''d'' q) (rp_db two_file_repo)) \<and>
       (GetFileRow q db' \<noteq> None \<longrightarrow>
          StreamFile identity_env q (two_file_repo\<lparr>rp_db := db'\<rparr>) = StreamFile identity_env (moved_path ''f'' ''d'' q) two_file_repo)"
    using MovePath_moves_subtree [OF two_file_repo_ok list.distinct(2) list.distinct(2) h(1,2,4,5)]
    by (elim exE conjE) (rule that)
  from q h(3) v show ?thesis using M by (auto simp: db row_named_def)
qed

text \<open>
  Moving a file to its own path reports success and loses the file: its row and its references are
  gone afterwards.
\<close>

lemma MovePath_to_itself_deletes:
  assumes "db_inv db" "checkParentDir p db = Inr ()" "FileRows p db = [row]" "fr_path row = p" "GetFileRow p db = Some row"
  shows "\<exists>db'. MovePath p p db = (Inr (), db') \<and> GetFileRow p db' = None \<and> GetFileChunks p db' = []"
  using assms by (rule move_self)

text \<open>
  C1: a file that is uploaded without faults, in any order of the four workers, is afterwards read back
  byte for byte, with its length and checksum and the row that was asked for; the rows and contents of
  all other paths are unchanged and the repository is still consistent.  The hash must not collide on
  the chunks at hand.
\<close>

theorem PutFile_then_StreamFile:
  assumes "repo_ok E st" "aead_laws (re_aead E)" "schedule_ok E sched data st" "0 < re_chunk E"
    "inj_on (re_hash E) (stored_plaintexts E st \<union> set (chunks_of (re_chunk E) data))"
    "checkParentDir path (rp_db st) = Inr ()"
  shows "\<exists>st'. PutFileContext E sched path mode mtime False (data, EOF) st = (Inr (int (length data)), st') \<and> repo_ok E st' \<and>
    StreamFile E path st' = (data, Inr (int (length data), re_md5 E data)) \<and>
    GetFileRow path (rp_db st') = Some (new_file_row path mode (int (length data)) mtime) \<and>
    (\<forall>q. q \<noteq> path \<longrightarrow> StreamFile E q st' = StreamFile E q st \<and> GetFileRow q (rp_db st') = GetFileRow q (rp_db st))"
  using PutFile_ok [of E st sched "(data, EOF)" path mode mtime] assms by simp

definition upload_named :: "string \<Rightarrow> upload" where
  "upload_named n = \<lparr>up_name = n, up_nonce = replicate 12 0, up_cancelled = False, up_fault = None\<rparr>"

theorem PutFile_then_StreamFile_witness:
  "\<exists>st'. PutFileContext identity_env [(1, upload_named ''n1''), (0, upload_named ''n2'')] ''d/y'' 0x81A4 5 False ([1, 7], EOF)
      two_file_repo = (Inr 2, st') \<and> StreamFile identity_env ''d/y'' st' = ([1, 7], Inr (2, []))"
proof -
  have "schedule_ok identity_env [(1, upload_named ''n1''), (0, upload_named ''n2'')] [1, 7] two_file_repo"
  proof -
    have "length (chunks_of 1 [1, 7 :: byte]) = 2" by code_simp
    moreover have "blob_names two_file_repo = {''b1'', ''b2''}" by code_simp
    ultimately show ?thesis
      by (auto simp: schedule_ok_def upload_named_def upload_ok_def identity_env_def less_Suc_eq numeral_2_eq_2)
  qed
  moreover have "inj_on (re_hash identity_env) A" for A by (simp add: identity_env_def inj_on_def)
  moreover have "aead_laws (re_aead identity_env)" "0 < re_chunk identity_env" "re_md5 identity_env = (\<lambda>x. [])"
    by (simp_all add: identity_env_def plain_aead_laws)
  moreover have "checkParentDir ''d/y'' (rp_db two_file_repo) = Inr ()" by code_simp
  ultimately have "\<exists>st'. PutFileContext identity_env [(1, upload_named ''n1''), (0, upload_named ''n2'')] ''d/y'' 0x81A4 5 False
      ([1, 7], EOF) two_file_repo = (Inr (int (length [1, 7 :: byte])), st') \<and>
      StreamFile identity_env ''d/y'' st' = ([1, 7], Inr (int (length [1, 7 :: byte]), re_md5 identity_env [1, 7]))"
    using PutFile_then_StreamFile [OF two_file_repo_ok, of "[(1, upload_named ''n1''), (0, upload_named ''n2'')]" "[1, 7]" "''d/y''" "0x81A4" 5]
    by blast
  then show ?thesis by (simp add: identity_env_def)
qed

text \<open>
  C3: an upload that fails, wherever it fails (a cancelled request, a backend error, a read error of the
  body, a missing parent directory, a refused row), leaves every row and the content of every file as
  they were, and the repository consistent.
\<close>

theorem PutFile_failure_keeps_files:
  assumes "repo_ok E st" "aead_laws (re_aead E)" "names_fresh sched st"
    "PutFileContext E sched path mode mtime cancelled src st = (Inl e, st')"
  shows "repo_ok E st' \<and> (\<forall>q. GetFileRow q (rp_db st') = GetFileRow q (rp_db st) \<and> StreamFile E q st' = StreamFile E q st)"
  using PutFile_fails [OF assms] StreamFile_same by (auto simp: same_content_def)

theorem PutFile_failure_keeps_files_witness:
  "fst (PutFileContext identity_env [(0, upload_named ''n1'')] ''no/y'' 0x81A4 5 False ([7], EOF) two_file_repo) = Inl ErrNotExist \<and>
   StreamFile identity_env ''d/x'' (snd (PutFileContext identity_env [(0, upload_named ''n1'')] ''no/y'' 0x81A4 5 False ([7], EOF) two_file_repo))
     = StreamFile identity_env ''d/x'' two_file_repo"
proof -
  let ?r = "PutFileContext identity_env [(0, upload_named ''n1'')] ''no/y'' 0x81A4 5 False ([7], EOF) two_file_repo"
  have f: "fst ?r = Inl ErrNotExist" by code_simp
  have "names_fresh [(0, upload_named ''n1'')] two_file_repo"
  proof -
    have "blob_names two_file_repo = {''b1'', ''b2''}" by code_simp
    then show ?thesis by (simp add: names_fresh_def upload_named_def)
  qed
  moreover have "?r = (Inl ErrNotExist, snd ?r)" using f by (metis prod.collapse)
  ultimately show ?thesis
    using PutFile_failure_keeps_files [OF two_file_repo_ok, of "[(0, upload_named ''n1'')]" "''no/y''" "0x81A4" 5 False "([7], EOF)"]
      f plain_aead_laws by (simp add: identity_env_def)
qed

text \<open>
  An upload whose body ends early with \<open>io.ErrUnexpectedEOF\<close>, which is what the HTTP server reports
  for a connection cut before the announced length, is treated exactly as one that is complete: the
  part received is committed as the file.
\<close>

lemma truncated_upload_is_committed:
  "PutFileContext E sched path mode mtime cancelled (data, UnexpectedEOF) st =
   PutFileContext E sched path mode mtime cancelled (data, EOF) st"
  by (simp add: PutFileContext_def put_upload_def)

subsection \<open>An aborted upload and a chunk id that is used again\<close>

text \<open>
  Two uploads of one content and a third of another, interleaved: A stores a new chunk, B finds it and
  will refer to it by its id, A fails (its directory does not exist) and removes the chunk that no row
  refers to yet, C stores another content under the id that became free, and B commits.
\<close>

definition race_run :: "(int result \<times> int result \<times> int result) \<times> repo" where
  "race_run =
     (let st0 = \<lparr>rp_db = empty_db, rp_be = NewInMemory\<rparr>;
          (accA, st1) = put_upload identity_env [(0, upload_named ''a'')] ([7], EOF) st0;
          (accB, st2) = put_upload identity_env [(0, upload_named ''b'')] ([7], EOF) st1;
          (rA, st3) = put_commit ''missing/a'' 0x81A4 0 False accA st2;
          (rC, st4) = PutFileContext identity_env [(0, upload_named ''c'')] ''c'' 0x81A4 0 False ([9], EOF) st3;
          (rB, st5) = put_commit ''b'' 0x81A4 0 False accB st4 in
      ((rA, rC, rB), st5))"

text \<open>The states in between.\<close>

definition one_chunk_db :: "bytes \<Rightarrow> string \<Rightarrow> int \<Rightarrow> meta_db" where
  "one_chunk_db h n k = empty_db\<lparr>db_chunks := [\<lparr>ck_id = 1, ck_hash = h, ck_size = 1, ck_refcount = k, ck_blob = n\<rparr>]\<rparr>"

definition blob_of :: "byte \<Rightarrow> string \<Rightarrow> string \<times> bytes" where
  "blob_of b n = (n, Encrypt plain_aead (replicate 12 0) [b] n)"

definition race_acc :: "int list \<Rightarrow> put_acc" where
  "race_acc new = \<lparr>pa_refs = [(0, 1)], pa_new = new, pa_total = 1, pa_err = None\<rparr>"

definition race_c :: meta_db where
  "race_c = (one_chunk_db [9] ''c'' 1)\<lparr>db_files := [\<lparr>df_id = 1, df_row = new_file_row ''c'' 0x81A4 1 0\<rparr>],
     db_fcs := [\<lparr>fc_file = 1, fc_chunk = 1, fc_idx = 0\<rparr>]\<rparr>"

abbreviation race_be :: "(string \<times> bytes) list \<Rightarrow> mem_backend" where
  "race_be bs \<equiv> \<lparr>mem_m = bs, mem_mm = []\<rparr>"

lemma race_steps:
  "put_upload identity_env [(0, upload_named ''a'')] ([7], EOF) \<lparr>rp_db = empty_db, rp_be = NewInMemory\<rparr> =
     (race_acc [1], \<lparr>rp_db = one_chunk_db [7] ''a'' 0, rp_be = race_be [blob_of 7 ''a'']\<rparr>)"
  "put_upload identity_env [(0, upload_named ''b'')] ([7], EOF) \<lparr>rp_db = one_chunk_db [7] ''a'' 0, rp_be = race_be [blob_of 7 ''a'']\<rparr> =
     (race_acc [], \<lparr>rp_db = one_chunk_db [7] ''a'' 0, rp_be = race_be [blob_of 7 ''a'']\<rparr>)"
  "put_commit ''missing/a'' 0x81A4 0 False (race_acc [1]) \<lparr>rp_db = one_chunk_db [7] ''a'' 0, rp_be = race_be [blob_of 7 ''a'']\<rparr> =
     (Inl ErrNotExist, \<lparr>rp_db = empty_db, rp_be = race_be [blob_of 7 ''a'']\<rparr>)"
  by code_simp+

lemma race_steps2:
  "put_upload identity_env [(0, upload_named ''c'')] ([9], EOF) \<lparr>rp_db = empty_db, rp_be = race_be [blob_of 7 ''a'']\<rparr> =
     (race_acc [1], \<lparr>rp_db = one_chunk_db [9] ''c'' 0, rp_be = race_be [blob_of 9 ''c'', blob_of 7 ''a'']\<rparr>)"
  by code_simp

lemma race_steps3:
  "put_commit ''c'' 0x81A4 0 False (race_acc [1]) \<lparr>rp_db = one_chunk_db [9] ''c'' 0, rp_be = race_be bs\<rparr> =
     (Inr 1, \<lparr>rp_db = race_c, rp_be = race_be bs\<rparr>)"
  by code_simp

lemma race_steps4:
  "put_commit ''b'' 0x81A4 0 False (race_acc []) \<lparr>rp_db = race_c, rp_be = race_be bs\<rparr> = (Inr 1, \<lparr>rp_db =
     race_c\<lparr>db_chunks := db_chunks (one_chunk_db [9] ''c'' 2), db_files := db_files race_c @ [\<lparr>df_id = 2, df_row = new_file_row ''b'' 0x81A4 1 0\<rparr>],
     db_fcs := db_fcs race_c @ [\<lparr>fc_file = 2, fc_chunk = 1, fc_idx = 0\<rparr>]\<rparr>, rp_be = race_be bs\<rparr>)"
  by code_simp

lemma race_end:
  "StreamFile identity_env ''b'' (snd (put_commit ''b'' 0x81A4 0 False (race_acc [])
     \<lparr>rp_db = race_c, rp_be = race_be [blob_of 9 ''c'', blob_of 7 ''a'']\<rparr>)) = ([9], Inr (1, []))"
  unfolding race_steps4 snd_conv by code_simp

lemma race_run_end: "fst race_run = (Inl ErrNotExist, Inr 1, Inr 1) \<and>
    StreamFile identity_env ''b'' (snd race_run) = ([9], Inr (1, []))"
proof -
  have C: "PutFileContext identity_env [(0, upload_named ''c'')] ''c'' 0x81A4 0 False ([9], EOF)
     \<lparr>rp_db = empty_db, rp_be = race_be [blob_of 7 ''a'']\<rparr> = (Inr 1, \<lparr>rp_db = race_c, rp_be = race_be [blob_of 9 ''c'', blob_of 7 ''a'']\<rparr>)"
    unfolding PutFileContext_def Let_def race_steps2 prod.case
    by (simp only: race_steps3) (simp add: race_acc_def)
  have "race_run = ((Inl ErrNotExist, Inr 1, Inr 1), snd (put_commit ''b'' 0x81A4 0 False (race_acc [])
     \<lparr>rp_db = race_c, rp_be = race_be [blob_of 9 ''c'', blob_of 7 ''a'']\<rparr>))"
    unfolding race_run_def Let_def race_steps prod.case C race_steps4 snd_conv ..
  then show ?thesis using race_end by (metis fst_conv snd_conv)
qed

text \<open>
  That run ends with B reported as stored and B's file holding C's content.
\<close>

lemma aborted_upload_corrupts_other_file:
  "fst race_run = (Inl ErrNotExist, Inr 1, Inr 1) \<and> StreamFile identity_env ''b'' (snd race_run) = ([9], Inr (1, []))"
  by (rule race_run_end)

end
