(* ===== verification/FileReader.thy ===== *)
theory FileReader
  imports RepoFiles
begin

text \<open>
  Reading a stored file by parts (\<open>OpenFile\<close> and \<open>FileReader\<close> in \<open>internal/core/repo/repo.go\<close>) and the
  splitting of a stream into chunks (\<open>chunker.go\<close>).  The reader keeps one decrypted chunk and a
  position; the lemmas show that \<open>Read\<close> and \<open>Seek\<close> refine a position in the whole content.
\<close>

subsection \<open>Splitting\<close>

text \<open>\<open>Split\<close> on a source of bytes that ends with the given error: the chunks \<open>fn\<close> is called on.\<close>

function Split_loop :: "nat \<Rightarrow> bytes \<times> goerr \<Rightarrow> bytes list \<times> unit result" where
  "Split_loop n src =
     (let (data, e) = src in
      if n = 0 then ([], Inl (Err ''chunk size 0''))
      else if n \<le> length data
      then (case Split_loop n (drop n data, e) of (cs, r) \<Rightarrow> (take n data # cs, r))
      else ((if data = [] then [] else [data]),
        if e = EOF \<or> e = UnexpectedEOF then Inr () else Inl e))"
  by pat_completeness auto
termination by (relation "measure (\<lambda>(n, data, e). length data)") auto

declare Split_loop.simps [simp del]

lemma Split_loop_chunks:
  "0 < n \<Longrightarrow> Split_loop n (data, e) = (chunks_of n data, if e = EOF \<or> e = UnexpectedEOF then Inr () else Inl e)"
proof (induction "length data" arbitrary: data rule: less_induct)
  case less
  show ?case
  proof (cases "n \<le> length data")
    case True
    then have "Split_loop n (drop n data, e) = (chunks_of n (drop n data), if e = EOF \<or> e = UnexpectedEOF then Inr () else Inl e)"
      using less by (intro less.hyps) auto
    moreover have "data \<noteq> []" using True less.prems by auto
    ultimately show ?thesis
      using True less.prems by (simp add: Split_loop.simps [of n "(data, e)"] chunks_of.simps [of n data])
  next
    case False
    then show ?thesis
      using less.prems by (auto simp: Split_loop.simps [of n "(data, e)"] chunks_of.simps [of n data])
  qed
qed

subsection \<open>The reader\<close>

record file_reader =
  rd_row :: file_row
  rd_chunks :: "(string \<times> int) list"
  rd_pos :: int
  rd_buf :: bytes
  rd_chunk :: int
  rd_off :: nat
  rd_closed :: bool

definition OpenFile :: "string \<Rightarrow> meta_db \<Rightarrow> file_reader result" where
  "OpenFile path db = (case GetFileRow path db of
       None \<Rightarrow> Inl ErrNotExist
     | Some row \<Rightarrow> if fr_isdir row then Inl (Err ''is a directory'')
         else Inr \<lparr>rd_row = row, rd_chunks = file_blobs path db, rd_pos = 0, rd_buf = [], rd_chunk = -1,
           rd_off = 0, rd_closed = False\<rparr>)"

definition loadChunk :: "repo_env \<Rightarrow> repo \<Rightarrow> int \<Rightarrow> file_reader \<Rightarrow> unit result \<times> file_reader" where
  "loadChunk E st ci f = (case read_blob E (fst (rd_chunks f ! nat ci)) st of
       Inl e \<Rightarrow> (Inl e, f)
     | Inr pt \<Rightarrow> (Inr (), f\<lparr>rd_buf := pt, rd_chunk := ci, rd_off := 0\<rparr>))"

text \<open>The loop of \<open>Read\<close>: load chunks until the buffer has a byte; it ends with the chunks.\<close>

function rd_fill :: "repo_env \<Rightarrow> repo \<Rightarrow> file_reader \<Rightarrow> unit result \<times> file_reader" where
  "rd_fill E st f =
     (if rd_off f < length (rd_buf f) then (Inr (), f)
      else if int (length (rd_chunks f)) \<le> rd_chunk f + 1 then (Inl EOF, f)
      else (case loadChunk E st (rd_chunk f + 1) f of
          (Inl e, f') \<Rightarrow> (Inl e, f')
        | (Inr _, f') \<Rightarrow> rd_fill E st f'))"
  by pat_completeness auto
termination
  by (relation "measure (\<lambda>(E, st, f). nat (int (length (rd_chunks f)) - rd_chunk f))")
    (auto simp: loadChunk_def split: sum.splits)

declare rd_fill.simps [simp del]

definition rd_Read :: "repo_env \<Rightarrow> repo \<Rightarrow> nat \<Rightarrow> file_reader \<Rightarrow> bytes result \<times> file_reader" where
  "rd_Read E st n f =
     (if rd_closed f then (Inl ErrClosedPipe, f)
      else if n = 0 then (Inr [], f)
      else (case rd_fill E st f of
          (Inl e, f') \<Rightarrow> (Inl e, f')
        | (Inr _, f') \<Rightarrow> let xs = take n (drop (rd_off f') (rd_buf f')) in
            (Inr xs, f'\<lparr>rd_off := rd_off f' + length xs, rd_pos := rd_pos f' + int (length xs)\<rparr>)))"

fun seek_chunk :: "(string \<times> int) list \<Rightarrow> int \<Rightarrow> nat \<Rightarrow> int \<Rightarrow> nat \<times> int" where
  "seek_chunk [] acc ci target = (ci, acc)"
| "seek_chunk ((name, sz) # cs) acc ci target =
     (if acc + sz \<le> target then seek_chunk cs (acc + sz) (ci + 1) target else (ci, acc))"

definition rd_Seek :: "repo_env \<Rightarrow> repo \<Rightarrow> int \<Rightarrow> int \<Rightarrow> file_reader \<Rightarrow> int result \<times> file_reader" where
  "rd_Seek E st offset whence f =
     (if rd_closed f then (Inl ErrClosedPipe, f)
      else if whence \<noteq> 0 \<and> whence \<noteq> 1 \<and> whence \<noteq> 2 then (Inl (Err ''bad whence''), f)
      else let t0 = (if whence = 0 then offset else if whence = 1 then rd_pos f + offset else fr_size (rd_row f) + offset) in
      if t0 < 0 then (Inl (Err ''offset out of range''), f)
      else let target = min t0 (fr_size (rd_row f)); (ci, acc) = seek_chunk (rd_chunks f) 0 0 target in
      if length (rd_chunks f) \<le> ci
      then (Inr target, f\<lparr>rd_buf := [], rd_chunk := int (length (rd_chunks f)), rd_off := 0, rd_pos := target\<rparr>)
      else (case loadChunk E st (int ci) f of
          (Inl e, f') \<Rightarrow> (Inl e, f')
        | (Inr _, f') \<Rightarrow> (Inr target, f'\<lparr>rd_off := nat (target - acc), rd_pos := target\<rparr>)))"

definition rd_Close :: "file_reader \<Rightarrow> file_reader" where
  "rd_Close f = f\<lparr>rd_closed := True\<rparr>"

subsection \<open>Refinement of a position in the content\<close>

text \<open>The chunks of the reader hold \<open>pts\<close>, and the row has their total size.\<close>

definition backed :: "repo_env \<Rightarrow> repo \<Rightarrow> bytes list \<Rightarrow> file_reader \<Rightarrow> bool" where
  "backed E st pts f \<longleftrightarrow> length (rd_chunks f) = length pts \<and>
     (\<forall>i < length pts. read_blob E (fst (rd_chunks f ! i)) st = Inr (pts ! i) \<and> snd (rd_chunks f ! i) = int (length (pts ! i))) \<and>
     fr_size (rd_row f) = int (length (concat pts))"

text \<open>What is left to read: the rest of the buffer and the chunks after it.\<close>

definition rest_of :: "bytes list \<Rightarrow> file_reader \<Rightarrow> bytes" where
  "rest_of pts f = drop (rd_off f) (rd_buf f) @ concat (drop (nat (rd_chunk f + 1)) pts)"

definition rd_inv :: "bytes list \<Rightarrow> file_reader \<Rightarrow> bool" where
  "rd_inv pts f \<longleftrightarrow> -1 \<le> rd_chunk f \<and> 0 \<le> rd_pos f \<and> rd_pos f \<le> int (length (concat pts)) \<and>
     rest_of pts f = drop (nat (rd_pos f)) (concat pts)"

lemma loadChunk_backed:
  "backed E st pts f \<Longrightarrow> 0 \<le> ci \<Longrightarrow> nat ci < length pts \<Longrightarrow>
     loadChunk E st ci f = (Inr (), f\<lparr>rd_buf := pts ! nat ci, rd_chunk := ci, rd_off := 0\<rparr>)"
  by (simp add: loadChunk_def backed_def)

lemma rd_fill_backed:
  assumes "backed E st pts f" "-1 \<le> rd_chunk f"
  shows "\<exists>f'. rd_fill E st f = ((if rest_of pts f = [] then Inl EOF else Inr ()), f') \<and>
    backed E st pts f' \<and> -1 \<le> rd_chunk f' \<and> rest_of pts f' = rest_of pts f \<and> rd_pos f' = rd_pos f \<and>
    rd_closed f' = rd_closed f \<and> (rest_of pts f \<noteq> [] \<longrightarrow> rd_off f' < length (rd_buf f'))"
  using assms
proof (induction E st f rule: rd_fill.induct)
  case (1 E st f)
  have len: "length (rd_chunks f) = length pts" using "1.prems" by (simp add: backed_def)
  consider "rd_off f < length (rd_buf f)"
    | "\<not> rd_off f < length (rd_buf f)" "int (length pts) \<le> rd_chunk f + 1"
    | "\<not> rd_off f < length (rd_buf f)" "rd_chunk f + 1 < int (length pts)" by linarith
  then show ?case
  proof cases
    case 1
    then show ?thesis using "1.prems" by (auto simp: rd_fill.simps [of E st f] rest_of_def)
  next
    case 2
    then show ?thesis using "1.prems" len by (auto simp: rd_fill.simps [of E st f] rest_of_def)
  next
    case 3
    let ?ci = "rd_chunk f + 1" and ?f = "f\<lparr>rd_buf := pts ! nat (rd_chunk f + 1), rd_chunk := rd_chunk f + 1, rd_off := 0\<rparr>"
    have ci: "0 \<le> ?ci" "nat ?ci < length pts" using 3 "1.prems"(2) by auto
    have load: "loadChunk E st ?ci f = (Inr (), ?f)" by (rule loadChunk_backed [OF "1.prems"(1) ci])
    have "backed E st pts ?f" using "1.prems"(1) by (simp add: backed_def)
    moreover have rest: "rest_of pts ?f = rest_of pts f"
    proof -
      have "nat (?ci + 1) = Suc (nat ?ci)" using ci(1) by simp
      then show ?thesis using 3 Cons_nth_drop_Suc [OF ci(2), symmetric] by (simp add: rest_of_def)
    qed
    ultimately show ?thesis
      using "1.IH" [OF 3(1) _ load [symmetric] refl] 3 ci(1) len load by (simp add: rd_fill.simps [of E st f])
  qed
qed

lemma drop_taken: "drop (m + length (take n (drop m xs))) xs = drop n (drop m xs)"
  by (simp add: min_def add.commute)

lemma Read_backed:
  assumes "backed E st pts f" "rd_inv pts f" "\<not> rd_closed f" "0 < n"
  shows "\<exists>f'. backed E st pts f' \<and> rd_inv pts f' \<and> \<not> rd_closed f' \<and>
    (if rest_of pts f = [] then rd_Read E st n f = (Inl EOF, f')
     else \<exists>xs. rd_Read E st n f = (Inr xs, f') \<and> xs \<noteq> [] \<and> length xs \<le> n \<and>
       xs = take (length xs) (drop (nat (rd_pos f)) (concat pts)) \<and> rd_pos f' = rd_pos f + int (length xs))"
proof -
  have lo: "-1 \<le> rd_chunk f" using assms(2) by (simp add: rd_inv_def)
  obtain f1 where F: "rd_fill E st f = ((if rest_of pts f = [] then Inl EOF else Inr ()), f1)"
    and b: "backed E st pts f1" "-1 \<le> rd_chunk f1" "rest_of pts f1 = rest_of pts f" "rd_pos f1 = rd_pos f" "rd_closed f1 = rd_closed f"
    and ne: "rest_of pts f \<noteq> [] \<longrightarrow> rd_off f1 < length (rd_buf f1)"
    using rd_fill_backed [OF assms(1) lo] by blast
  show ?thesis
  proof (cases "rest_of pts f = []")
    case True
    then have "rd_Read E st n f = (Inl EOF, f1)" using F assms(3,4) by (simp add: rd_Read_def)
    moreover have "rd_inv pts f1" using b assms(2) by (simp add: rd_inv_def)
    ultimately show ?thesis using True b assms(3) by auto
  next
    case False
    define xs where "xs = take n (drop (rd_off f1) (rd_buf f1))"
    define f' where "f' = f1\<lparr>rd_off := rd_off f1 + length xs, rd_pos := rd_pos f1 + int (length xs)\<rparr>"
    have R: "rd_Read E st n f = (Inr xs, f')"
      using F False assms(3,4) by (simp add: rd_Read_def xs_def f'_def Let_def)
    have xs: "xs \<noteq> []" "length xs \<le> n" using ne False assms(4) by (auto simp: xs_def)
    have split: "rest_of pts f1 = xs @ rest_of pts f'"
      unfolding rest_of_def f'_def xs_def
      by (simp add: drop_taken del: length_take length_drop drop_drop)
    have rest: "rest_of pts f1 = drop (nat (rd_pos f)) (concat pts)" using b(3) assms(2) by (simp add: rd_inv_def)
    have r': "rest_of pts f' = drop (nat (rd_pos f) + length xs) (concat pts)"
    proof -
      have "drop (length xs) (rest_of pts f1) = rest_of pts f'" by (simp add: split)
      then show ?thesis unfolding rest by (simp add: add.commute)
    qed
    have le: "length xs \<le> length (concat pts) - nat (rd_pos f)"
    proof -
      have "length xs \<le> length (rest_of pts f1)" by (simp add: split)
      then show ?thesis unfolding rest by simp
    qed
    have pos: "0 \<le> rd_pos f" "rd_pos f \<le> int (length (concat pts))" using assms(2) by (simp_all add: rd_inv_def)
    have "nat (rd_pos f + int (length xs)) = nat (rd_pos f) + length xs" using pos(1) by simp
    then have "rd_inv pts f'"
      using r' b pos le by (simp add: rd_inv_def f'_def)
    moreover have "xs = take (length xs) (drop (nat (rd_pos f)) (concat pts))"
      unfolding rest [symmetric] by (simp add: split)
    moreover have "backed E st pts f'" "\<not> rd_closed f'" "rd_pos f' = rd_pos f + int (length xs)"
      using b assms(3) by (simp_all add: f'_def backed_def)
    ultimately show ?thesis using R xs False by auto
  qed
qed

text \<open>Where the search of \<open>Seek\<close> ends.\<close>

lemma seek_chunk_spec:
  assumes "length cs = length pts" "\<forall>i < length pts. snd (cs ! i) = int (length (pts ! i))"
    "acc \<le> target" "seek_chunk cs acc k target = (ci, a)"
  shows "k \<le> ci \<and> ci \<le> k + length pts \<and> a = acc + int (length (concat (take (ci - k) pts))) \<and> a \<le> target \<and>
    (ci < k + length pts \<longrightarrow> target < a + int (length (pts ! (ci - k))))"
  using assms
proof (induction cs arbitrary: pts acc k)
  case (Cons c cs)
  obtain n s where c: "c = (n, s)" by fastforce
  obtain p ps where pts: "pts = p # ps" using Cons.prems(1) by (cases pts) auto
  have s: "s = int (length p)" using Cons.prems(2) c pts by force
  show ?case
  proof (cases "acc + s \<le> target")
    case True
    have "\<forall>i < length ps. snd (cs ! i) = int (length (ps ! i))" using Cons.prems(2) pts by fastforce
    moreover have "length cs = length ps" "seek_chunk cs (acc + s) (k + 1) target = (ci, a)"
      using Cons.prems(1,4) True by (simp_all add: c pts)
    ultimately have IH: "k + 1 \<le> ci \<and> ci \<le> k + 1 + length ps \<and>
      a = acc + s + int (length (concat (take (ci - (k + 1)) ps))) \<and> a \<le> target \<and>
      (ci < k + 1 + length ps \<longrightarrow> target < a + int (length (ps ! (ci - (k + 1)))))"
      using Cons.IH True by blast
    then have ih: "k + 1 \<le> ci" "ci \<le> k + 1 + length ps" "a = acc + s + int (length (concat (take (ci - (k + 1)) ps)))" "a \<le> target"
      "ci < k + 1 + length ps \<longrightarrow> target < a + int (length (ps ! (ci - (k + 1))))" by blast+
    have sub: "ci - k = Suc (ci - (k + 1))" using ih(1) by simp
    have "k \<le> ci" "ci \<le> k + length pts" "a = acc + int (length (concat (take (ci - k) pts)))"
      using ih(1-3) by (simp_all add: sub pts s)
    moreover have "ci < k + length pts \<longrightarrow> target < a + int (length (pts ! (ci - k)))"
      using ih(5) by (simp add: sub pts)
    ultimately show ?thesis using ih(4) by blast
  next
    case False
    then show ?thesis using Cons.prems(3,4) by (auto simp: c pts s)
  qed
qed simp

lemma Seek_backed:
  assumes b: "backed E st pts f" and i: "rd_inv pts f" and "\<not> rd_closed f" "0 \<le> offset"
  shows "\<exists>f'. rd_Seek E st offset 0 f = (Inr (min offset (int (length (concat pts)))), f') \<and> backed E st pts f' \<and>
    rd_inv pts f' \<and> \<not> rd_closed f' \<and> rd_pos f' = min offset (int (length (concat pts)))"
proof -
  define t where "t = min offset (int (length (concat pts)))"
  have size: "fr_size (rd_row f) = int (length (concat pts))" "length (rd_chunks f) = length pts"
    using b by (simp_all add: backed_def)
  obtain ci a where S: "seek_chunk (rd_chunks f) 0 0 t = (ci, a)" by fastforce
  have t0: "0 \<le> t" "t \<le> int (length (concat pts))" using assms(4) by (simp_all add: t_def)
  have "\<forall>i < length pts. snd (rd_chunks f ! i) = int (length (pts ! i))" using b by (simp add: backed_def)
  from seek_chunk_spec [OF size(2) this t0(1) S]
  have ci: "ci \<le> length pts" and a: "a = int (length (concat (take ci pts)))" "a \<le> t"
    and hi: "ci < length pts \<longrightarrow> t < a + int (length (pts ! ci))" by auto
  show ?thesis
  proof (cases "ci < length pts")
    case False
    let ?f = "f\<lparr>rd_buf := [], rd_chunk := int (length pts), rd_off := 0, rd_pos := t\<rparr>"
    have "t = int (length (concat pts))" using False ci a t0 by simp
    then have "rd_inv pts ?f" by (simp add: rd_inv_def rest_of_def)
    moreover have "rd_Seek E st offset 0 f = (Inr t, ?f)"
      using assms(3,4) S False size by (simp add: rd_Seek_def Let_def t_def [symmetric])
    ultimately show ?thesis using b assms(3) by (auto simp: backed_def t_def)
  next
    case True
    let ?f = "f\<lparr>rd_buf := pts ! ci, rd_chunk := int ci, rd_off := nat (t - a), rd_pos := t\<rparr>"
    have R: "rd_Seek E st offset 0 f = (Inr t, ?f)"
      using assms(3,4) S True size loadChunk_backed [OF b, of "int ci"] by (simp add: rd_Seek_def Let_def t_def [symmetric])
    have cat: "concat pts = concat (take ci pts) @ pts ! ci @ concat (drop (Suc ci) pts)"
      using True by (metis append_take_drop_id concat.simps(2) concat_append Cons_nth_drop_Suc)
    have "nat t = length (concat (take ci pts)) + nat (t - a)" using a t0 by simp
    moreover have "nat (t - a) \<le> length (pts ! ci)" using hi True a by simp
    moreover have "nat (int ci + 1) = Suc ci" by simp
    ultimately have "rest_of pts ?f = drop (nat t) (concat pts)"
      by (subst cat) (simp add: rest_of_def)
    then have "rd_inv pts ?f" using t0 by (simp add: rd_inv_def)
    then show ?thesis using R b assms(3) by (auto simp: backed_def t_def)
  qed
qed

subsection \<open>Reading from an offset to the end\<close>

text \<open>\<open>io.Copy\<close> with a buffer of \<open>n\<close> bytes; \<open>fuel\<close> bounds the rounds.\<close>

fun drain :: "nat \<Rightarrow> repo_env \<Rightarrow> repo \<Rightarrow> nat \<Rightarrow> file_reader \<Rightarrow> bytes result" where
  "drain 0 E st n f = Inl (Err ''fuel'')"
| "drain (Suc k) E st n f = (case rd_Read E st n f of
     (Inl e, f') \<Rightarrow> if e = EOF then Inr [] else Inl e
   | (Inr xs, f') \<Rightarrow> bind_res (drain k E st n f') (\<lambda>ys. Inr (xs @ ys)))"

lemma drain_backed:
  assumes "backed E st pts f" "rd_inv pts f" "\<not> rd_closed f" "0 < n" "length (rest_of pts f) < k"
  shows "drain k E st n f = Inr (rest_of pts f)"
  using assms
proof (induction k arbitrary: f)
  case (Suc k)
  from Read_backed [OF Suc.prems(1-4)] obtain f' where f': "backed E st pts f'" "rd_inv pts f'" "\<not> rd_closed f'"
    and R: "if rest_of pts f = [] then rd_Read E st n f = (Inl EOF, f')
     else \<exists>xs. rd_Read E st n f = (Inr xs, f') \<and> xs \<noteq> [] \<and> length xs \<le> n \<and>
       xs = take (length xs) (drop (nat (rd_pos f)) (concat pts)) \<and> rd_pos f' = rd_pos f + int (length xs)" by blast
  show ?case
  proof (cases "rest_of pts f = []")
    case True
    then show ?thesis using R by simp
  next
    case False
    then obtain xs where xs: "rd_Read E st n f = (Inr xs, f')" "xs \<noteq> []"
      "xs = take (length xs) (drop (nat (rd_pos f)) (concat pts))" "rd_pos f' = rd_pos f + int (length xs)" using R by auto
    have r: "rest_of pts f = drop (nat (rd_pos f)) (concat pts)" "0 \<le> rd_pos f" using Suc.prems(2) by (simp_all add: rd_inv_def)
    have "rest_of pts f' = drop (length xs) (rest_of pts f)"
      using f'(2) xs(4) r by (simp add: rd_inv_def nat_add_distrib add.commute)
    then have split: "rest_of pts f = xs @ rest_of pts f'"
      using xs(3) r(1) by (metis append_take_drop_id)
    then have "length (rest_of pts f') < k" using Suc.prems(5) xs(2) by (cases xs) auto
    from Suc.IH [OF f' Suc.prems(4) this] xs(1) split show ?thesis by simp
  qed
qed simp

text \<open>A stored file is backed by its chunks.\<close>

lemma stream_blobs_backed:
  assumes "\<forall>(n, s) \<in> set bs. \<exists>pt. read_blob E n st = Inr pt \<and> s = int (length pt)" "stream_blobs E bs st = (data, Inr ())"
  shows "\<exists>pts. length bs = length pts \<and> concat pts = data \<and>
    (\<forall>i < length pts. read_blob E (fst (bs ! i)) st = Inr (pts ! i) \<and> snd (bs ! i) = int (length (pts ! i)))"
  using assms
proof (induction bs arbitrary: data)
  case (Cons b bs)
  obtain n s where b: "b = (n, s)" by fastforce
  obtain pt where pt: "read_blob E n st = Inr pt" "s = int (length pt)" using Cons.prems(1) b by auto
  obtain w where w: "stream_blobs E bs st = (w, Inr ())" "data = pt @ w"
    using Cons.prems(2) b pt(1) by (auto split: prod.splits)
  obtain pts where pts: "length bs = length pts" "concat pts = w"
    "\<forall>i < length pts. read_blob E (fst (bs ! i)) st = Inr (pts ! i) \<and> snd (bs ! i) = int (length (pts ! i))"
    using Cons.IH [OF _ w(1)] Cons.prems(1) by auto
  show ?case
    by (rule exI [of _ "pt # pts"]) (use pts w b pt in \<open>auto simp: nth_Cons split: nat.split\<close>)
qed simp

lemma file_blobs_sizes:
  assumes "repo_ok E st" "(n, s) \<in> set (file_blobs p (rp_db st))"
  shows "\<exists>pt. read_blob E n st = Inr pt \<and> s = int (length pt)"
proof -
  have "\<exists>c. c \<in> set (db_chunks (rp_db st)) \<and> n = ck_blob c \<and> s = ck_size c"
    using assms(2) unfolding file_blobs_def List.map_filter_def
    by (auto simp: chunk_by_id_def dest: find_Some_in)
  then obtain c where c: "c \<in> set (db_chunks (rp_db st))" "n = ck_blob c" "s = ck_size c" by blast
  then obtain pt where "row_holds E st c pt" using assms(1) unfolding repo_ok_def by blast
  then show ?thesis using c(2,3) by (auto simp: row_holds_def)
qed

lemma OpenFile_backed:
  assumes ok: "repo_ok E st" and row: "GetFileRow p (rp_db st) = Some row" "\<not> fr_isdir row"
    and S: "StreamFile E p st = (data, Inr r)"
  shows "\<exists>f pts. OpenFile p (rp_db st) = Inr f \<and> concat pts = data \<and> backed E st pts f \<and> rd_inv pts f \<and> \<not> rd_closed f"
proof -
  have s: "stream_blobs E (file_blobs p (rp_db st)) st = (data, Inr ())" "int (length data) = fr_size row"
    using S row by (auto simp: StreamFile_def split: prod.splits sum.splits if_splits)
  obtain pts where pts: "length (file_blobs p (rp_db st)) = length pts" "concat pts = data"
    "\<forall>i < length pts. read_blob E (fst (file_blobs p (rp_db st) ! i)) st = Inr (pts ! i) \<and>
       snd (file_blobs p (rp_db st) ! i) = int (length (pts ! i))"
    using stream_blobs_backed [OF _ s(1)] file_blobs_sizes [OF ok] by blast
  let ?f = "\<lparr>rd_row = row, rd_chunks = file_blobs p (rp_db st), rd_pos = 0, rd_buf = [], rd_chunk = -1,
    rd_off = 0, rd_closed = False\<rparr>"
  show ?thesis
    by (rule exI [of _ ?f], rule exI [of _ pts])
      (use row pts s(2) in \<open>simp add: OpenFile_def backed_def rd_inv_def rest_of_def\<close>)
qed

subsection \<open>Properties\<close>

text \<open>
  C13: a file that streams completely is also read correctly by parts: opening it, seeking to any offset
  and reading to the end, with any buffer size, gives the content from that offset on (nothing, when
  the offset is beyond the end); one round per byte and one more is enough.
\<close>

theorem ranged_read_agrees_with_stream:
  assumes "repo_ok E st" "GetFileRow p (rp_db st) = Some row" "\<not> fr_isdir row" "StreamFile E p st = (data, Inr r)"
    "0 \<le> offset" "0 < n" "length data < fuel"
  shows "\<exists>f f'. OpenFile p (rp_db st) = Inr f \<and>
    rd_Seek E st offset 0 f = (Inr (min offset (int (length data))), f') \<and>
    drain fuel E st n f' = Inr (drop (nat offset) data)"
proof -
  obtain f pts where f: "OpenFile p (rp_db st) = Inr f" "concat pts = data" "backed E st pts f" "rd_inv pts f" "\<not> rd_closed f"
    using OpenFile_backed [OF assms(1-4)] by blast
  obtain f' where f': "rd_Seek E st offset 0 f = (Inr (min offset (int (length data))), f')" "backed E st pts f'"
    "rd_inv pts f'" "\<not> rd_closed f'" "rd_pos f' = min offset (int (length data))"
    using Seek_backed [OF f(3-5) assms(5)] f(2) by auto
  have r: "rest_of pts f' = drop (nat offset) data"
    using f'(3,5) f(2) by (cases "offset \<le> int (length data)") (simp_all add: rd_inv_def min_def)
  then have "length (rest_of pts f') < fuel" using assms(7) by simp
  from drain_backed [OF f'(2-4) assms(6) this] show ?thesis using f f' r by auto
qed

theorem ranged_read_agrees_with_stream_witness:
  "\<exists>f f'. OpenFile ''e'' (rp_db two_file_repo) = Inr f \<and>
     rd_Seek identity_env two_file_repo 0 0 f = (Inr 0, f') \<and> drain 2 identity_env two_file_repo 8 f' = Inr [2]"
proof -
  have "GetFileRow ''e'' (rp_db two_file_repo) = Some (row_named ''e'' 1)" "\<not> fr_isdir (row_named ''e'' 1)"
    "StreamFile identity_env ''e'' two_file_repo = ([2], Inr (1, []))" by code_simp+
  from ranged_read_agrees_with_stream [OF two_file_repo_ok this, of 0 8 2] show ?thesis by simp
qed

end
