(* ===== verification/Gc.thy ===== *)
theory Gc
  imports RepoFiles
begin

text \<open>
  Garbage collection (\<open>GC\<close> in \<open>internal/core/repo/repo.go\<close>): chunk rows without a reference and blobs
  without a row are removed, except what a metadata backup protects.  The protected set, or the
  error of reading it, is an argument (\<open>ProtectedMetaBlobs\<close> is in \<open>MetaBackup\<close>); \<open>fault\<close> tells which
  deletions of the backend fail.  The garbage is a Go map: its names have no order that matters, the
  model takes them in the order of the rows and of the listing.
\<close>

definition referenced_ids :: "meta_db \<Rightarrow> int set" where
  "referenced_ids db = set (map fc_chunk (filter (\<lambda>fc. fc_file fc \<in> set (map df_id (db_files db))) (db_fcs db)))"

definition dead_rows :: "meta_db \<Rightarrow> chunk_row list" where
  "dead_rows db = filter (\<lambda>c. ck_id c \<notin> referenced_ids db) (db_chunks db)"

definition garbage :: "string list \<Rightarrow> repo \<Rightarrow> string list" where
  "garbage prot st = (let db = rp_db st in
     remdups (filter (\<lambda>n. n \<notin> set prot)
       (map ck_blob (dead_rows db) @ filter (\<lambda>n. n \<notin> set (map ck_blob (db_chunks db))) (mem_List (rp_be st)))))"

definition delete_blobs :: "(string \<Rightarrow> bool) \<Rightarrow> string list \<Rightarrow> mem_backend \<Rightarrow> mem_backend" where
  "delete_blobs fault ns be = fold (\<lambda>n b. if fault n then b else snd (mem_Delete n b)) ns be"

definition GC :: "string list result \<Rightarrow> (string \<Rightarrow> bool) \<Rightarrow> repo \<Rightarrow> int result \<times> repo" where
  "GC protected fault st =
     (if mem_List (rp_be st) = [] then (Inr 0, st)
      else case protected of
        Inl e \<Rightarrow> (Inl (Err ''protected set of the backups''), st)
      | Inr prot \<Rightarrow>
          let dead = map ck_id (dead_rows (rp_db st));
              ns = garbage prot st;
              st' = \<lparr>rp_db = fold DeleteChunk dead (rp_db st), rp_be = delete_blobs fault ns (rp_be st)\<rparr> in
          (if filter fault ns \<noteq> [] then Inl (Err ''deleting orphan blobs'') else Inr (int (length ns)), st'))"

subsection \<open>Chunk rows\<close>

lemma referenced_ids_inv: "db_inv db \<Longrightarrow> referenced_ids db = fc_chunk ` set (db_fcs db)"
  by (auto simp: referenced_ids_def db_inv_def)

lemma DeleteChunk_unreferenced:
  assumes "i \<notin> fc_chunk ` set (db_fcs db)"
  shows "DeleteChunk i db = db\<lparr>db_chunks := filter (\<lambda>c. ck_id c \<noteq> i) (db_chunks db)\<rparr>"
proof -
  have "filter (\<lambda>fc. fc_chunk fc \<notin> set (map ck_id (filter (\<lambda>c. ck_id c = i) (db_chunks db)))) (db_fcs db) = db_fcs db"
    using assms by (auto simp: filter_id_conv)
  then show ?thesis by (simp add: DeleteChunk_def delete_chunks_def)
qed

lemma DeleteChunks_unreferenced:
  assumes "set is \<inter> fc_chunk ` set (db_fcs db) = {}"
  shows "fold DeleteChunk is db = db\<lparr>db_chunks := filter (\<lambda>c. ck_id c \<notin> set is) (db_chunks db)\<rparr>"
  using assms
proof (induction "is" arbitrary: db)
  case Nil
  then show ?case by simp
next
  case (Cons i "is")
  then show ?case by (simp add: DeleteChunk_unreferenced conj_commute)
qed

lemma fold_DeleteChunk_inv: "db_inv db \<Longrightarrow> db_inv (fold DeleteChunk is db)"
  by (induction "is" arbitrary: db) (simp_all add: db_inv_DeleteChunk)

definition live_db :: "meta_db \<Rightarrow> meta_db" where
  "live_db db = db\<lparr>db_chunks := filter (\<lambda>c. ck_id c \<in> fc_chunk ` set (db_fcs db)) (db_chunks db)\<rparr>"

lemma GC_db:
  assumes "db_inv db"
  shows "fold DeleteChunk (map ck_id (dead_rows db)) db = live_db db" "db_inv (live_db db)"
proof -
  have d: "set (map ck_id (dead_rows db)) \<inter> fc_chunk ` set (db_fcs db) = {}"
    using referenced_ids_inv [OF assms] by (auto simp: dead_rows_def)
  have "filter (\<lambda>c. ck_id c \<notin> set (map ck_id (dead_rows db))) (db_chunks db) =
      filter (\<lambda>c. ck_id c \<in> fc_chunk ` set (db_fcs db)) (db_chunks db)"
    using referenced_ids_inv [OF assms] by (intro filter_cong) (auto simp: dead_rows_def)
  then show eq: "fold DeleteChunk (map ck_id (dead_rows db)) db = live_db db"
    unfolding DeleteChunks_unreferenced [OF d] live_db_def by simp
  show "db_inv (live_db db)" using fold_DeleteChunk_inv [OF assms] eq by metis
qed

subsection \<open>Blobs\<close>

lemma delete_blobs_map_of:
  "map_of (mem_m (delete_blobs fault ns be)) n = (if n \<in> set ns \<and> \<not> fault n then None else map_of (mem_m be) n)"
proof (induction ns arbitrary: be)
  case (Cons m ns)
  then show ?case by (auto simp: delete_blobs_def mem_Delete_def map_of_assoc_del)
qed (simp add: delete_blobs_def)

lemma blob_names_map_of: "n \<in> blob_names st \<longleftrightarrow> map_of (mem_m (rp_be st)) n \<noteq> None"
  using keys_map_of [of n "mem_m (rp_be st)"] by (simp add: blob_names_def mem_List_def)

lemma garbage_set:
  assumes "repo_ok E st"
  shows "n \<in> set (garbage prot st) \<longleftrightarrow> n \<in> blob_names st \<and> n \<notin> set prot \<and>
    n \<notin> ck_blob ` set (db_chunks (live_db (rp_db st)))"
proof -
  let ?db = "rp_db st"
  have inv: "db_inv ?db" and dist: "distinct (map ck_blob (db_chunks ?db))" using assms by (simp_all add: repo_ok_def)
  have have_blob: "ck_blob c \<in> blob_names st" if "c \<in> set (db_chunks ?db)" for c
    using assms that row_blob_exists unfolding repo_ok_def by blast
  have dead: "c \<in> set (dead_rows ?db) \<longleftrightarrow> c \<in> set (db_chunks ?db) \<and> c \<notin> set (db_chunks (live_db ?db))" for c
    using referenced_ids_inv [OF inv] by (auto simp: dead_rows_def live_db_def)
  have inj: "c = d" if "c \<in> set (db_chunks ?db)" "d \<in> set (db_chunks ?db)" "ck_blob c = ck_blob d" for c d
    using dist that by (auto simp: distinct_map inj_on_def)
  have sub: "set (db_chunks (live_db ?db)) \<subseteq> set (db_chunks ?db)" by (auto simp: live_db_def)
  have 1: "n \<in> ck_blob ` set (dead_rows ?db) \<longleftrightarrow>
      n \<in> ck_blob ` set (db_chunks ?db) \<and> n \<notin> ck_blob ` set (db_chunks (live_db ?db))"
    using dead inj sub by (auto simp: image_iff) blast
  have 2: "n \<in> ck_blob ` set (db_chunks ?db) \<Longrightarrow> n \<in> blob_names st" using have_blob by blast
  have 3: "n \<in> ck_blob ` set (db_chunks (live_db ?db)) \<Longrightarrow> n \<in> ck_blob ` set (db_chunks ?db)" using sub by blast
  have "n \<in> set (garbage prot st) \<longleftrightarrow> n \<notin> set prot \<and>
      (n \<in> ck_blob ` set (dead_rows ?db) \<or> n \<in> blob_names st \<and> n \<notin> ck_blob ` set (db_chunks ?db))"
    by (auto simp: garbage_def Let_def blob_names_def)
  then show ?thesis using 1 2 3 by blast
qed

subsection \<open>What a collection does\<close>

lemma GC_state:
  assumes ok: "repo_ok E st" and g: "GC (Inr prot) fault st = (r, st')" and ne: "mem_List (rp_be st) \<noteq> []"
  shows "st' = \<lparr>rp_db = live_db (rp_db st), rp_be = delete_blobs fault (garbage prot st) (rp_be st)\<rparr>"
  using g ne GC_db(1) ok by (auto simp: GC_def Let_def repo_ok_def)

lemma GC_same_content:
  assumes ok: "repo_ok E st" and g: "GC (Inr prot) fault st = (r, st')" and ne: "mem_List (rp_be st) \<noteq> []"
  shows "repo_ok E st' \<and> same_content E q st st'"
proof -
  let ?db = "rp_db st" and ?live = "live_db (rp_db st)"
  have inv: "db_inv ?db" using ok by (simp add: repo_ok_def)
  have st': "st' = \<lparr>rp_db = ?live, rp_be = delete_blobs fault (garbage prot st) (rp_be st)\<rparr>"
    by (rule GC_state [OF ok g ne])
  have sub: "set (db_chunks ?live) \<subseteq> set (db_chunks ?db)" by (auto simp: live_db_def)
  have blob: "read_blob E (ck_blob c) st' = read_blob E (ck_blob c) st" if "c \<in> set (db_chunks ?live)" for c
  proof -
    have "ck_blob c \<notin> set (garbage prot st)" using garbage_set [OF ok] that by blast
    then show ?thesis by (simp add: read_blob_def mem_Get_def st' delete_blobs_map_of)
  qed
  have live_row: "c \<in> set (db_chunks ?live)" if "fc \<in> set (db_fcs ?db)" "c \<in> set (db_chunks ?db)" "ck_id c = fc_chunk fc" for fc c
    using that by (auto simp: live_db_def)
  have holds': "\<exists>pt. row_holds E st' c pt" if c: "c \<in> set (db_chunks ?live)" for c
  proof -
    obtain pt where "row_holds E st c pt" using ok c sub unfolding repo_ok_def by blast
    then show ?thesis using blob [OF c] by (auto simp: row_holds_def)
  qed
  have "distinct (map ck_blob (db_chunks ?live))"
    using ok by (auto simp: repo_ok_def live_db_def distinct_map_filter)
  then have "repo_ok E st'" using holds' GC_db(2) [OF inv] by (simp add: repo_ok_def st')
  moreover have "chunk_info (fst r) ?live = chunk_info (fst r) ?db \<and>
      (\<forall>h s b. chunk_info (fst r) ?db = Some (h, s, b) \<longrightarrow> read_blob E b st' = read_blob E b st)"
    if r: "r \<in> set (GetFileChunks q ?db)" for r
  proof -
    obtain fc where fc: "fc \<in> set (db_fcs ?db)" "fc_chunk fc = fst r"
      using r GetFileChunks_set [of "fst r" "snd r" q ?db] by auto
    obtain c where c: "c \<in> set (db_chunks ?db)" "ck_id c = fst r" using referenced_chunk [OF inv r] by blast
    have cl: "c \<in> set (db_chunks ?live)" using live_row [OF fc(1) c(1)] fc(2) c(2) by simp
    show ?thesis
      using chunk_by_id_in [OF inv c(1)] chunk_by_id_in [OF GC_db(2) [OF inv] cl] blob [OF cl]
      by (simp add: chunk_info_def c(2))
  qed
  then have "same_content E q st st'"
    by (simp add: same_content_def st' GetFileRow_def GetFileChunks_def path_fids_def live_db_def)
  ultimately show ?thesis by blast
qed

subsection \<open>Properties\<close>

text \<open>
  C4: a collection never takes anything a file needs: whatever deletions fail, the repository stays
  consistent and every file has the row and the content it had.
\<close>

theorem GC_keeps_files:
  assumes "repo_ok E st" "GC protected fault st = (r, st')"
  shows "repo_ok E st' \<and> (\<forall>q. GetFileRow q (rp_db st') = GetFileRow q (rp_db st) \<and> StreamFile E q st' = StreamFile E q st)"
proof (cases "mem_List (rp_be st) = [] \<or> (\<exists>e. protected = Inl e)")
  case True
  then have "st' = st" using assms(2) by (auto simp: GC_def split: if_splits)
  then show ?thesis using assms(1) by simp
next
  case False
  then obtain prot where "protected = Inr prot" by (cases protected) auto
  then have "repo_ok E st' \<and> same_content E q st st'" for q
    using GC_same_content [OF assms(1)] assms(2) False by blast
  then show ?thesis using StreamFile_same by (auto simp: same_content_def)
qed

text \<open>
  A collection that reports success leaves exactly the blobs that a backup protects or that a chunk
  row with a reference names, and no chunk row without a reference; it returns the number of blobs
  it has removed.
\<close>

lemma GC_collects_garbage:
  assumes "repo_ok E st" "GC (Inr prot) fault st = (Inr n, st')" "mem_List (rp_be st) \<noteq> []"
  shows "blob_names st' = blob_names st \<inter> (set prot \<union> ck_blob ` set (db_chunks (rp_db st'))) \<and>
    (\<forall>c \<in> set (db_chunks (rp_db st')). \<exists>fc \<in> set (db_fcs (rp_db st')). fc_chunk fc = ck_id c) \<and>
    n = int (card (blob_names st - blob_names st'))"
proof -
  let ?g = "garbage prot st"
  have st': "st' = \<lparr>rp_db = live_db (rp_db st), rp_be = delete_blobs fault ?g (rp_be st)\<rparr>"
    by (rule GC_state [OF assms])
  have nf: "\<not> fault x" if "x \<in> set ?g" for x
    using assms(2,3) that by (auto simp: GC_def Let_def filter_empty_conv split: if_splits)
  have n: "n = int (length ?g)" using assms(2,3) by (auto simp: GC_def Let_def split: if_splits)
  have names: "blob_names st' = blob_names st - set ?g"
    using nf by (auto simp: blob_names_map_of st' delete_blobs_map_of split: if_splits)
  have g: "set ?g \<subseteq> blob_names st" using garbage_set [OF assms(1)] by blast
  have "card (blob_names st - blob_names st') = length ?g"
  proof -
    have "blob_names st - blob_names st' = set ?g" using names g by blast
    moreover have "distinct ?g" by (simp add: garbage_def Let_def)
    ultimately show ?thesis by (simp add: distinct_card)
  qed
  moreover have "blob_names st' = blob_names st \<inter> (set prot \<union> ck_blob ` set (db_chunks (rp_db st')))"
    unfolding names using garbage_set [OF assms(1)] by (auto simp: st')
  moreover have "\<forall>c \<in> set (db_chunks (rp_db st')). \<exists>fc \<in> set (db_fcs (rp_db st')). fc_chunk fc = ck_id c"
    by (auto simp: st' live_db_def)
  ultimately show ?thesis using n by simp
qed

definition orphaned_repo :: repo where
  "orphaned_repo = two_file_repo\<lparr>rp_be := snd (mem_Put ''o1'' [1] (snd (mem_Put ''o2'' [2] (rp_be two_file_repo))))\<rparr>"

lemma orphaned_repo_ok: "repo_ok identity_env orphaned_repo"
proof -
  have names: "blob_names two_file_repo = {''b1'', ''b2''}" by code_simp
  let ?r1 = "two_file_repo\<lparr>rp_be := snd (mem_Put ''o2'' [2] (rp_be two_file_repo))\<rparr>"
  have 1: "repo_ok identity_env ?r1"
    by (rule repo_ok_same_db [OF extends_put_blob]) (simp_all add: names two_file_repo_ok)
  have "''o1'' \<notin> blob_names ?r1" using names_put_blob [where st = two_file_repo and n = "''o2''" and b = "[2]"] names by auto
  from repo_ok_same_db [OF extends_put_blob [OF this, of "[1]"] _ 1] show ?thesis
    by (simp add: orphaned_repo_def)
qed

theorem GC_keeps_files_witness:
  "fst (GC (Inr [''o1'']) (\<lambda>n. False) orphaned_repo) = Inr 1 \<and>
   StreamFile identity_env ''e'' (snd (GC (Inr [''o1'']) (\<lambda>n. False) orphaned_repo)) = StreamFile identity_env ''e'' orphaned_repo"
proof -
  have "fst (GC (Inr [''o1'']) (\<lambda>n. False) orphaned_repo) = Inr 1" by code_simp
  moreover have "GC (Inr [''o1'']) (\<lambda>n. False) orphaned_repo =
    (fst (GC (Inr [''o1'']) (\<lambda>n. False) orphaned_repo), snd (GC (Inr [''o1'']) (\<lambda>n. False) orphaned_repo))" by simp
  ultimately show ?thesis using GC_keeps_files [OF orphaned_repo_ok] by blast
qed

end
