(* ===== verification/Handshake.thy ===== *)
theory Handshake
  imports Mux GoStrings
begin

text \<open>
  The text phase of the daemon protocol and the negotiation (\<open>handshake.go\<close>), with the path argument
  of a module (\<open>modulePrefix\<close>, \<open>pathBase\<close> in \<open>sender.go\<close>).  MD5, the random challenge, the time
  that seeds the checksums and the answer of the connection limiter are arguments.  What the
  server prints is the list of its lines.
\<close>

subsection \<open>Lines and numbers\<close>

text \<open>\<open>bufio.Reader.ReadString\<close>, the delimiter removed.\<close>

fun read_until :: "byte \<Rightarrow> bytes reader" where
  "read_until d [] = Inl EOF"
| "read_until d (b # bs) = (if b = d then Inr ([], bs)
     else (case read_until d bs of Inl e \<Rightarrow> Inl e | Inr (s, rest) \<Rightarrow> Inr (b # s, rest)))"

definition readLine :: "string reader" where
  "readLine = rbind (read_until 10) (\<lambda>bs. rret (of_bytes bs))"

definition is_digit :: "char \<Rightarrow> bool" where
  "is_digit c \<longleftrightarrow> 48 \<le> (of_char c :: nat) \<and> (of_char c :: nat) \<le> 57"

definition digits_val :: "string \<Rightarrow> int" where
  "digits_val s = foldl (\<lambda>a c. 10 * a + (of_char c - 48)) 0 s"

definition split_sign :: "string \<Rightarrow> int \<times> string" where
  "split_sign s = (case s of [] \<Rightarrow> (1, [])
     | c # cs \<Rightarrow> if c = CHR ''-'' then (-1, cs) else if c = CHR ''+'' then (1, cs) else (1, s))"

definition int64_range :: "int \<Rightarrow> bool" where
  "int64_range v \<longleftrightarrow> - (2 ^ 63) \<le> v \<and> v < 2 ^ 63"

text \<open>\<open>fmt.Sscanf(s, "%d", &v)\<close>: white space, a sign, digits; what follows is not looked at.\<close>

definition scan_d :: "string \<Rightarrow> int option" where
  "scan_d s = (let (sg, t) = split_sign (dropWhile is_space s); ds = takeWhile is_digit t; v = sg * digits_val ds in
     if ds = [] \<or> \<not> int64_range v then None else Some v)"

definition Atoi :: "string \<Rightarrow> int option" where
  "Atoi s = (let (sg, t) = split_sign s; v = sg * digits_val t in
     if t = [] \<or> \<not> list_all is_digit t \<or> \<not> int64_range v then None else Some v)"

subsection \<open>Authentication\<close>

definition b64_char :: "nat \<Rightarrow> char" where
  "b64_char n = (if n < 26 then char_of (65 + n) else if n < 52 then char_of (71 + n)
     else if n < 62 then char_of (n - 4) else if n = 62 then CHR ''+'' else CHR ''/'')"

text \<open>\<open>base64.RawStdEncoding\<close>: no padding.\<close>

fun base64_raw :: "bytes \<Rightarrow> string" where
  "base64_raw [] = []"
| "base64_raw [a] = (let n = unat a * 16 in [b64_char (n div 64), b64_char (n mod 64)])"
| "base64_raw [a, b] = (let n = (unat a * 256 + unat b) * 4 in
     [b64_char (n div 4096), b64_char (n div 64 mod 64), b64_char (n mod 64)])"
| "base64_raw (a # b # c # r) = (let n = unat a * 65536 + unat b * 256 + unat c in
     [b64_char (n div 262144), b64_char (n div 4096 mod 64), b64_char (n div 64 mod 64), b64_char (n mod 64)]
     @ base64_raw r)"

definition authDigest :: "(bytes \<Rightarrow> bytes) \<Rightarrow> string \<Rightarrow> string \<Rightarrow> string" where
  "authDigest md5 password seed = base64_raw (md5 (to_bytes (password @ seed)))"

definition VerifyAuth :: "(bytes \<Rightarrow> bytes) \<Rightarrow> string \<Rightarrow> string \<Rightarrow> string \<Rightarrow> string \<Rightarrow> bool" where
  "VerifyAuth md5 user seed password digest \<longleftrightarrow> authDigest md5 password seed = digest"

fun show_nat_aux :: "nat \<Rightarrow> nat \<Rightarrow> string" where
  "show_nat_aux 0 n = []"
| "show_nat_aux (Suc k) n = (if n < 10 then [char_of (48 + n)] else show_nat_aux k (n div 10) @ [char_of (48 + n mod 10)])"

definition show_nat :: "nat \<Rightarrow> string" where
  "show_nat n = show_nat_aux (Suc n) n"

definition show_int :: "int \<Rightarrow> string" where
  "show_int n = (if n < 0 then CHR ''-'' # show_nat (nat (- n)) else show_nat (nat n))"

text \<open>\<open>randomSeed\<close> from the four bytes of the random source.\<close>

definition randomSeed :: "byte \<Rightarrow> byte \<Rightarrow> byte \<Rightarrow> byte \<Rightarrow> string" where
  "randomSeed a b c d = (let n = push_bit 24 (ucast a) OR push_bit 16 (ucast b) OR push_bit 8 (ucast c) OR ucast d :: 32 word in
     show_nat (unat (n AND 0x7FFFFFFF)))"

subsection \<open>Choosing a module\<close>

record module_config =
  mo_name :: string
  mo_path :: string
  mo_readonly :: bool
  mo_maxconn :: int

record rsync_config =
  rc_modules :: "module_config list"
  rc_users :: "(string \<times> string) list"

text \<open>\<open>strings.SplitN(s, ".", 2)[0]\<close> is the part before the first dot.\<close>

definition checkClientGreeting :: "string \<Rightarrow> unit result" where
  "checkClientGreeting line =
     (if \<not> HasPrefix line ''@RSYNCD: '' then Inl (Err ''bad greeting'')
      else case Fields (TrimPrefix line ''@RSYNCD: '') of
        [] \<Rightarrow> Inl (Err ''greeting without version'')
      | v # digests \<Rightarrow>
          (case scan_d (takeWhile (\<lambda>c. c \<noteq> CHR ''.'') v) of
             None \<Rightarrow> Inl (Err ''unsupported version'')
           | Some n \<Rightarrow> if n < 30 then Inl (Err ''unsupported version'')
               else if ''md5'' \<in> set digests then Inr () else Inl (Err ''no md5'')))"

definition greeting_line :: string where
  "greeting_line = ''@RSYNCD: 31.0 md5''"

definition auth_line :: "string \<Rightarrow> string" where
  "auth_line name = ''@ERROR: auth failed on module '' @ name"

definition check_auth :: "(bytes \<Rightarrow> bytes) \<Rightarrow> (string \<times> string) list \<Rightarrow> string \<Rightarrow> string \<Rightarrow> bool" where
  "check_auth md5 users seed line = (case Fields line of
       [user, digest] \<Rightarrow> (case map_of users user of None \<Rightarrow> False | Some pass \<Rightarrow> digest = authDigest md5 pass seed)
     | _ \<Rightarrow> False)"

text \<open>The result, the lines printed and what is left of the input.\<close>

definition authenticate :: "(bytes \<Rightarrow> bytes) \<Rightarrow> rsync_config \<Rightarrow> string \<Rightarrow> module_config \<Rightarrow> bytes \<Rightarrow>
    module_config result \<times> string list \<times> bytes" where
  "authenticate md5 cfg seed m bs =
     (if rc_users cfg = [] then (Inr m, [''@RSYNCD: OK''], bs)
      else (case readLine bs of
          Inl e \<Rightarrow> (Inl e, [''@RSYNCD: AUTHREQD '' @ seed], [])
        | Inr (line, bs') \<Rightarrow>
            if check_auth md5 (rc_users cfg) seed line
            then (Inr m, [''@RSYNCD: AUTHREQD '' @ seed, ''@RSYNCD: OK''], bs')
            else (Inl ErrAuthFailed, [''@RSYNCD: AUTHREQD '' @ seed, auth_line (mo_name m)], bs')))"

definition select_module :: "(bytes \<Rightarrow> bytes) \<Rightarrow> rsync_config \<Rightarrow> (module_config \<Rightarrow> bool) \<Rightarrow> string \<Rightarrow> string \<Rightarrow> bytes \<Rightarrow>
    module_config result \<times> string list \<times> bytes" where
  "select_module md5 cfg allow seed line bs =
     (let name = TrimSpace line in
      if line = ''#list'' \<or> name = [] then
        (Inl ErrClientClosed, map (\<lambda>m. mo_name m @ [CHR 0x09] @ mo_path m) (rc_modules cfg) @ [''@RSYNCD: EXIT''], bs)
      else if HasPrefix name ''#'' then (Inl (Err ''unknown command''), [''@ERROR: Unknown command '' @ [CHR 0x27] @ name @ [CHR 0x27]], bs)
      else case find (\<lambda>m. mo_name m = name) (rc_modules cfg) of
        None \<Rightarrow> (Inl (Err ''unknown module''), [''@ERROR: Unknown module '' @ [CHR 0x27] @ name @ [CHR 0x27]], bs)
      | Some m \<Rightarrow>
          if \<not> allow m then (Inl (Err ''max connections''), [''@ERROR: max connections ('' @ show_int (mo_maxconn m) @ '') reached -- try again later''], bs)
          else authenticate md5 cfg seed m bs)"

definition HandleModuleRequest :: "(bytes \<Rightarrow> bytes) \<Rightarrow> rsync_config \<Rightarrow> (module_config \<Rightarrow> bool) \<Rightarrow> string \<Rightarrow> bytes \<Rightarrow>
    module_config result \<times> string list \<times> bytes" where
  "HandleModuleRequest md5 cfg allow seed bs = (case readLine bs of
       Inl e \<Rightarrow> (Inl e, [greeting_line], [])
     | Inr (cg, bs1) \<Rightarrow> (case checkClientGreeting cg of
         Inl e \<Rightarrow> (Inl e, [greeting_line, ''@ERROR: protocol startup error''], bs1)
       | Inr _ \<Rightarrow> (case readLine bs1 of
           Inl e \<Rightarrow> (Inl e, [greeting_line], [])
         | Inr (line, bs2) \<Rightarrow> (case select_module md5 cfg allow seed line bs2 of
             (r, out, bs3) \<Rightarrow> (r, greeting_line # out, bs3)))))"

subsection \<open>Arguments\<close>

fun read_args :: "nat \<Rightarrow> string list reader" where
  "read_args 0 = rfail (Err ''out of fuel'')"
| "read_args (Suc k) = rbind (read_until 0) (\<lambda>bs.
     let s = of_bytes bs in
     if s = [] then rret []
     else if HasPrefix s ''@'' then rfail (Err ''unexpected argument'')
     else rbind (read_args k) (\<lambda>args. rret (s # args)))"

definition ReadArgvLine :: "string list reader" where
  "ReadArgvLine bs = read_args (Suc (length bs)) bs"

definition write_args :: "string list \<Rightarrow> bytes" where
  "write_args args = concat (map (\<lambda>a. to_bytes a @ [0]) args) @ [0]"

record negotiation =
  ngUID :: bool
  ngGID :: bool
  ngLinks :: bool
  ngDevices :: bool
  ngRecurse :: bool
  ngChecksum :: bool
  ngAtimes :: bool
  ngAppend :: nat
  ngCompression :: bool
  ngDelete :: bool
  ngPrune :: bool
  ngNumericIDs :: bool
  ngSender :: bool
  ngDryRun :: bool
  ngIoTimeout :: int
  ngSeed :: int32
  ngModuleArg :: string

definition empty_neg :: negotiation where
  "empty_neg = \<lparr>ngUID = False, ngGID = False, ngLinks = False, ngDevices = False, ngRecurse = False,
     ngChecksum = False, ngAtimes = False, ngAppend = 0, ngCompression = False, ngDelete = False,
     ngPrune = False, ngNumericIDs = False, ngSender = False, ngDryRun = False, ngIoTimeout = 0,
     ngSeed = 0, ngModuleArg = []\<rparr>"

definition long_option :: "string \<Rightarrow> negotiation \<Rightarrow> negotiation" where
  "long_option a n = (let
     n1 = (if a = ''--delete'' \<or> HasPrefix a ''--delete-'' then n\<lparr>ngDelete := True\<rparr> else n);
     n2 = (if a = ''--prune-empty-dirs'' then n1\<lparr>ngPrune := True\<rparr> else n1);
     n3 = (if a = ''--numeric-ids'' then n2\<lparr>ngNumericIDs := True\<rparr> else n2);
     n4 = (if HasPrefix a ''--timeout='' then (case Atoi (TrimPrefix a ''--timeout='') of
             Some v \<Rightarrow> if 0 < v then n3\<lparr>ngIoTimeout := v\<rparr> else n3 | None \<Rightarrow> n3) else n3);
     n5 = (if a = ''--checksum'' then n4\<lparr>ngChecksum := True\<rparr> else n4);
     n6 = (if a = ''--devices'' then n5\<lparr>ngDevices := True\<rparr> else n5);
     n7 = (if a = ''--old-compress'' \<or> a = ''--new-compress'' \<or> HasPrefix a ''--compress-choice'' \<or>
             HasPrefix a ''--compress-level'' then n6\<lparr>ngCompression := True\<rparr> else n6) in
     if a = ''--append'' then n7\<lparr>ngAppend := ngAppend n7 + 1\<rparr> else n7)"

definition short_flag :: "char \<Rightarrow> negotiation \<Rightarrow> negotiation" where
  "short_flag c n = (if c = CHR ''o'' then n\<lparr>ngUID := True\<rparr>
     else if c = CHR ''g'' then n\<lparr>ngGID := True\<rparr>
     else if c = CHR ''l'' then n\<lparr>ngLinks := True\<rparr>
     else if c = CHR ''D'' then n\<lparr>ngDevices := True\<rparr>
     else if c = CHR ''r'' then n\<lparr>ngRecurse := True\<rparr>
     else if c = CHR ''c'' then n\<lparr>ngChecksum := True\<rparr>
     else if c = CHR ''z'' then n\<lparr>ngCompression := True\<rparr>
     else if c = CHR ''m'' then n\<lparr>ngPrune := True\<rparr>
     else if c = CHR ''U'' then n\<lparr>ngAtimes := True\<rparr>
     else if c = CHR ''n'' then n\<lparr>ngDryRun := True\<rparr> else n)"

definition parse_arg :: "string \<Rightarrow> negotiation \<Rightarrow> negotiation" where
  "parse_arg a n =
     (if a = ''--server'' then n
      else if a = ''--sender'' then n\<lparr>ngSender := True\<rparr>
      else if HasPrefix a ''--'' then long_option a n
      else if HasPrefix a ''-'' \<and> 1 < length a then fold short_flag (takeWhile (\<lambda>c. c \<noteq> CHR ''e'') (drop 1 a)) n
      else n\<lparr>ngModuleArg := a\<rparr>)"

definition parseServerArgs :: "string list \<Rightarrow> negotiation" where
  "parseServerArgs argv = fold parse_arg (drop 1 argv) empty_neg"

text \<open>\<open>now\<close> is the clock in nanoseconds; the bytes are what is written to the client.\<close>

definition NegotiateBinary :: "int \<Rightarrow> bytes \<Rightarrow> (negotiation \<times> bytes \<times> bytes) result" where
  "NegotiateBinary now bs = (case ReadArgvLine bs of
       Inl e \<Rightarrow> Inl e
     | Inr (argv, rest) \<Rightarrow>
         if argv = [] \<or> hd argv \<noteq> ''--server'' then Inl (Err ''bad arguments'')
         else let seed = (word_of_int now :: int32) AND 0x7FFFFFFF in
           Inr ((parseServerArgs argv)\<lparr>ngSeed := seed\<rparr>, WriteVarint 0 @ WriteInt32 seed, rest))"

subsection \<open>Refusals\<close>

text \<open>The frames a refusal writes, with its error; every text ends with a line feed.\<close>

definition line_bytes :: "string \<Rightarrow> bytes" where
  "line_bytes t = to_bytes t @ [10]"

definition exit_frames :: "string \<Rightarrow> int32 \<Rightarrow> (byte \<times> bytes) list" where
  "exit_frames text code = [(3, line_bytes text),
     (3, line_bytes (''rsync error: syntax or usage error (code '' @ show_int (sint code) @ '') [Receiver=crysync]'')),
     (86, le_bytes 4 code)]"

definition rejectCompression :: "negotiation \<Rightarrow> (byte \<times> bytes) list \<times> unit result" where
  "rejectCompression n = (if \<not> ngCompression n then ([], Inr ())
     else ([(1, line_bytes ''ERROR: compression is not supported by this server; remove -z/--compress options'')],
       Inl (Err ''compression is not supported'')))"

definition rejectAppend :: "negotiation \<Rightarrow> (byte \<times> bytes) list \<times> unit result" where
  "rejectAppend n = (if ngAppend n = 0 then ([], Inr ())
     else (exit_frames ''ERROR: --append is not supported by this server; remove --append (or --append-verify) options'' 1,
       Inl (Err ''append is not supported'')))"

definition rejectRestoreAtimes :: "negotiation \<Rightarrow> (byte \<times> bytes) list \<times> unit result" where
  "rejectRestoreAtimes n = (if \<not> ngSender n \<or> \<not> ngAtimes n then ([], Inr ())
     else (exit_frames ''ERROR: --atimes is not supported on restore; remove -U/--atimes options'' 1,
       Inl (Err ''atimes are not supported on restore'')))"

definition reject_readonly :: "module_config \<Rightarrow> negotiation \<Rightarrow> (byte \<times> bytes) list \<times> unit result" where
  "reject_readonly m n = (if mo_readonly m \<and> \<not> ngSender n
     then (exit_frames ''ERROR: module is read only'' 1, Inl (Err ''read only'')) else ([], Inr ()))"

text \<open>The checks of \<open>RunSession\<close> in their order; the first that refuses ends the session.\<close>

fun first_refusal :: "((byte \<times> bytes) list \<times> unit result) list \<Rightarrow> (byte \<times> bytes) list \<times> unit result" where
  "first_refusal [] = ([], Inr ())"
| "first_refusal ((fs, r) # cs) = (case r of Inl e \<Rightarrow> (fs, Inl e) | Inr _ \<Rightarrow> first_refusal cs)"

definition session_checks :: "module_config \<Rightarrow> negotiation \<Rightarrow> (byte \<times> bytes) list \<times> unit result" where
  "session_checks m n = first_refusal [rejectCompression n, reject_readonly m n, rejectAppend n, rejectRestoreAtimes n]"

subsection \<open>The path argument\<close>

definition pathBase :: "string \<Rightarrow> string" where
  "pathBase p = (case last_index CHR ''/'' p of Some i \<Rightarrow> drop (Suc i) p | None \<Rightarrow> p)"

definition modulePrefix :: "string \<Rightarrow> string \<Rightarrow> string" where
  "modulePrefix arg name =
     (let p = (if HasPrefix arg name \<and> (length arg = length name \<or> arg ! length name = CHR ''/'')
               then drop (length name) arg else arg);
          q = TrimChar CHR ''/'' p in
      if q = [] then [] else if ''..'' \<in> set (split_at CHR ''/'' q) then [] else q)"

subsection \<open>Lemmas\<close>

lemma read_until_append [simp]: "d \<notin> set xs \<Longrightarrow> read_until d (xs @ d # rest) = Inr (xs, rest)"
  by (induction xs) auto

lemma read_until_Inr: "read_until d bs = Inr (xs, rest) \<longleftrightarrow> bs = xs @ d # rest \<and> d \<notin> set xs"
proof
  assume "read_until d bs = Inr (xs, rest)"
  then show "bs = xs @ d # rest \<and> d \<notin> set xs"
    by (induction bs arbitrary: xs) (auto split: if_splits sum.splits)
qed auto

lemma readLine_Inr: "readLine bs = Inr (l, rest) \<Longrightarrow> bs = to_bytes l @ 10 # rest"
  by (auto simp: readLine_def rbind_eq_Inr rret_def read_until_Inr)

lemma char_byte_inj: "(word_of_nat (of_char c) :: byte) = word_of_nat (of_char d) \<longleftrightarrow> c = d"
proof
  assume "(word_of_nat (of_char c) :: byte) = word_of_nat (of_char d)"
  then have "to_bytes [c] = to_bytes [d]" by (simp add: to_bytes_def)
  then have "[c] = [d]" by (metis of_bytes_to_bytes)
  then show "c = d" by simp
qed simp

lemma readLine_line: "CHR 0x0A \<notin> set s \<Longrightarrow> readLine (line_bytes s @ rest) = Inr (s, rest)"
proof -
  assume a: "CHR 0x0A \<notin> set s"
  have "(10 :: byte) = word_of_nat (of_char (CHR 0x0A))" by simp
  then have "(10 :: byte) \<notin> set (to_bytes s)" using a char_byte_inj by (metis (no_types, lifting) imageE set_map to_bytes_def)
  then show ?thesis by (simp add: readLine_def line_bytes_def rbind_def rret_def)
qed

definition arg_ok :: "string \<Rightarrow> bool" where
  "arg_ok a \<longleftrightarrow> a \<noteq> [] \<and> 0 \<notin> set (to_bytes a) \<and> \<not> HasPrefix a ''@''"

lemma read_args_write_args:
  "list_all arg_ok args \<Longrightarrow> length args < k \<Longrightarrow> read_args k (write_args args @ rest) = Inr (args, rest)"
proof (induction args arbitrary: k)
  case Nil
  then obtain j where "k = Suc j" by (cases k) auto
  moreover have "read_until 0 (0 # rest) = Inr ([], rest)" by simp
  ultimately show ?case by (simp add: write_args_def rbind_def Let_def of_bytes_def rret_def)
next
  case (Cons a args)
  obtain j where k: "k = Suc j" using Cons.prems by (cases k) auto
  have w: "write_args (a # args) @ rest = to_bytes a @ 0 # (write_args args @ rest)" by (simp add: write_args_def)
  have "read_args j (write_args args @ rest) = Inr (args, rest)" using Cons k by simp
  then show ?case using Cons.prems(1) by (simp add: k w rbind_def Let_def arg_ok_def rret_def)
qed

lemma args_length: "length args < length (write_args args)"
  by (induction args) (simp_all add: write_args_def)

lemma dropWhile_ends: "dropWhile P xs \<noteq> [] \<Longrightarrow> \<not> P (hd (dropWhile P xs))"
  by (rule hd_dropWhile)

lemma TrimChar_ends:
  assumes "TrimChar c s \<noteq> []"
  shows "hd (TrimChar c s) \<noteq> c \<and> last (TrimChar c s) \<noteq> c"
proof -
  define a where "a = dropWhile (\<lambda>x. x = c) s"
  define b where "b = dropWhile (\<lambda>x. x = c) (rev a)"
  have T: "TrimChar c s = rev b" by (simp add: TrimChar_def a_def b_def)
  have b: "b \<noteq> []" using assms by (simp add: T)
  have "hd b \<noteq> c" using hd_dropWhile [OF b [unfolded b_def]] by (simp add: b_def)
  moreover have a: "a \<noteq> []" using b by (auto simp: b_def)
  moreover have "hd a \<noteq> c" using hd_dropWhile [OF a [unfolded a_def]] by (simp add: a_def)
  moreover have "a = rev b @ rev (takeWhile (\<lambda>x. x = c) (rev a))"
    unfolding b_def by (metis rev_append rev_rev_ident takeWhile_dropWhile_id)
  then have "hd a = hd (rev b)" using b by (metis hd_append2 rev_is_Nil_conv)
  ultimately show ?thesis using b by (simp add: T last_rev)
qed

lemma modulePrefix_relative:
  "modulePrefix arg name = [] \<or>
   (''..'' \<notin> set (split_at CHR ''/'' (modulePrefix arg name)) \<and> hd (modulePrefix arg name) \<noteq> CHR ''/'' \<and>
    last (modulePrefix arg name) \<noteq> CHR ''/'')"
  using TrimChar_ends unfolding modulePrefix_def Let_def by auto

lemma module_request:
  assumes "HandleModuleRequest md5 cfg allow seed bs = (Inr m, out, rest)"
  shows "m \<in> set (rc_modules cfg) \<and> allow m \<and>
    (rc_users cfg = [] \<or> (\<exists>pre line user pass. bs = pre @ to_bytes line @ 10 # rest \<and>
       map_of (rc_users cfg) user = Some pass \<and> Fields line = [user, authDigest md5 pass seed]))"
proof -
  obtain cg bs1 line bs2 out' where 1: "readLine bs = Inr (cg, bs1)" "readLine bs1 = Inr (line, bs2)"
    "select_module md5 cfg allow seed line bs2 = (Inr m, out', rest)"
    using assms by (auto simp: HandleModuleRequest_def split: sum.splits prod.splits)
  then have 2: "m \<in> set (rc_modules cfg)" "allow m" "authenticate md5 cfg seed m bs2 = (Inr m, out', rest)"
    by (auto simp: select_module_def Let_def authenticate_def find_Some_iff split: if_splits option.splits sum.splits)
  show ?thesis
  proof (cases "rc_users cfg = []")
    case False
    then obtain l where l: "readLine bs2 = Inr (l, rest)" "check_auth md5 (rc_users cfg) seed l"
      using 2(3) by (auto simp: authenticate_def split: sum.splits if_splits)
    have "bs = (to_bytes cg @ 10 # to_bytes line @ [10]) @ to_bytes l @ 10 # rest"
      using readLine_Inr [OF 1(1)] readLine_Inr [OF 1(2)] readLine_Inr [OF l(1)] by simp
    moreover obtain user pass where "Fields l = [user, authDigest md5 pass seed]" "map_of (rc_users cfg) user = Some pass"
      using l(2) by (auto simp: check_auth_def split: list.splits option.splits)
    ultimately show ?thesis using 2 by blast
  qed (use 2 in simp)
qed

subsection \<open>Properties\<close>

text \<open>
  C29: a request is answered with a module only when the module is configured, the connection limiter
  let it in and, when users are configured, the input has a line with a configured user and the
  digest of that user's password and the challenge.
\<close>

theorem module_request_is_authenticated:
  assumes "HandleModuleRequest md5 cfg allow seed bs = (Inr m, out, rest)"
  shows "m \<in> set (rc_modules cfg) \<and> allow m \<and>
    (rc_users cfg = [] \<or> (\<exists>pre line user pass. bs = pre @ to_bytes line @ 10 # rest \<and>
       map_of (rc_users cfg) user = Some pass \<and> Fields line = [user, authDigest md5 pass seed]))"
  using assms by (rule module_request)

definition sample_module :: module_config where
  "sample_module = \<lparr>mo_name = ''home'', mo_path = ''/srv'', mo_readonly = False, mo_maxconn = 0\<rparr>"

definition sample_rsync :: rsync_config where
  "sample_rsync = \<lparr>rc_modules = [sample_module], rc_users = [(''u'', ''pw'')]\<rparr>"

definition sample_request :: bytes where
  "sample_request = line_bytes ''@RSYNCD: 31.0 md5'' @ line_bytes ''home'' @ line_bytes (''u '' @ authDigest id ''pw'' ''7'')"

theorem module_request_is_authenticated_witness:
  "fst (HandleModuleRequest id sample_rsync (\<lambda>m. True) ''7'' sample_request) = Inr sample_module \<and>
   sample_module \<in> set (rc_modules sample_rsync) \<and>
   (\<exists>user pass. map_of (rc_users sample_rsync) user = Some pass)"
proof -
  have no_lf: "(CHR 0x0A) \<notin> set ''@RSYNCD: 31.0 md5''" "(CHR 0x0A) \<notin> set ''home''" "(CHR 0x0A) \<notin> set ''u cHc3''"
    by code_simp+
  have d: "authDigest id ''pw'' ''7'' = ''cHc3''" by (simp add: authDigest_def to_bytes_def b64_char_def Let_def) code_simp
  have l: "readLine sample_request = Inr (''@RSYNCD: 31.0 md5'', line_bytes ''home'' @ line_bytes ''u cHc3'')"
    "readLine (line_bytes ''home'' @ line_bytes ''u cHc3'') = Inr (''home'', line_bytes ''u cHc3'')"
    "readLine (line_bytes ''u cHc3'') = Inr (''u cHc3'', [])"
    using readLine_line [OF no_lf(1)] readLine_line [OF no_lf(2)] readLine_line [OF no_lf(3), of "[]"]
    by (simp_all add: sample_request_def d)
  have c: "checkClientGreeting ''@RSYNCD: 31.0 md5'' = Inr ()" "TrimSpace ''home'' = ''home''" "Fields ''u cHc3'' = [''u'', ''cHc3'']"
    by code_simp+
  have a: "check_auth id [(''u'', ''pw'')] ''7'' ''u cHc3''" by (simp add: check_auth_def c d)
  have r: "HandleModuleRequest id sample_rsync (\<lambda>m. True) ''7'' sample_request =
    (Inr sample_module, [greeting_line, ''@RSYNCD: AUTHREQD 7'', ''@RSYNCD: OK''], [])"
    using a by (simp add: HandleModuleRequest_def l c select_module_def authenticate_def sample_rsync_def sample_module_def HasPrefix_def)
  moreover have "rc_users sample_rsync \<noteq> []" by (simp add: sample_rsync_def)
  ultimately show ?thesis using module_request_is_authenticated [OF r] by auto
qed

text \<open>An argument list that a client sends is read back as it was sent, and nothing after it.\<close>

lemma argv_roundtrip:
  assumes "list_all arg_ok args"
  shows "ReadArgvLine (write_args args @ rest) = Inr (args, rest)"
  using read_args_write_args [OF assms, of "Suc (length (write_args args @ rest))" rest] args_length [of args]
  by (simp add: ReadArgvLine_def)

text \<open>
  A path argument with a dot-dot segment is not refused: it stands for the root of the module, so
  that a session meant for a part of it works on all of it.
\<close>

lemma dotdot_path_is_module_root:
  assumes "''..'' \<in> set (split_at CHR ''/'' (TrimChar CHR ''/'' p))"
  shows "modulePrefix (name @ CHR ''/'' # p) name = []"
proof -
  have "TrimChar CHR ''/'' (CHR ''/'' # p) = TrimChar CHR ''/'' p" by (simp add: TrimChar_def)
  then show ?thesis using assms by (simp add: modulePrefix_def Let_def)
qed

end
