(* ===== verification/ConnLimiter.thy ===== *)
theory ConnLimiter
  imports Handshake "HOL-Library.Multiset"
begin

text \<open>
  The limit on the connections of a module (\<open>moduleConnLimiter\<close> and its use in \<open>handleConn\<close>,
  \<open>internal/front/rsync/server.go\<close>).  The counters are the map \<open>counts\<close>; \<open>allow\<close> is two atomic
  steps, the increment and, when it went over the limit, the decrement.  Connections are a
  multiset of (phase, module), so any number of them may be at any point.  \<open>mx\<close> is
  \<open>MaxConnections\<close>: 0 is no limit, a negative value disables the module.
\<close>

type_synonym counts = "string \<rightharpoonup> int"

definition counter :: "counts \<Rightarrow> string \<Rightarrow> int" where
  "counter c m = (case c m of None \<Rightarrow> 0 | Some n \<Rightarrow> n)"

text \<open>The first atomic step of \<open>allow\<close>: whether the connection may go on, and the counters.\<close>

definition limiter_allow :: "(string \<Rightarrow> int) \<Rightarrow> string \<Rightarrow> counts \<Rightarrow> bool \<times> counts" where
  "limiter_allow mx m c =
     (if mx m = 0 then (True, c)
      else if mx m < 0 then (False, c)
      else let n = counter c m + 1 in (n \<le> mx m, c(m \<mapsto> n)))"

definition limiter_undo :: "string \<Rightarrow> counts \<Rightarrow> counts" where
  "limiter_undo m c = c(m \<mapsto> counter c m - 1)"

definition limiter_release :: "string \<Rightarrow> counts \<Rightarrow> counts" where
  "limiter_release m c = (case c m of None \<Rightarrow> c | Some n \<Rightarrow> c(m \<mapsto> n - 1))"

text \<open>
  A connection is in the handshake after \<open>allow\<close>, in its session after the authentication, or about
  to undo its increment.  A handshake that fails returns before \<open>defer limiter.release\<close>.
\<close>

datatype phase = Undoing | Handshaking | InSession

type_synonym lim_state = "counts \<times> (phase \<times> string) multiset"

inductive lim_step :: "(string \<Rightarrow> int) \<Rightarrow> lim_state \<Rightarrow> lim_state \<Rightarrow> bool" for mx where
  Admit: "limiter_allow mx m c = (True, c') \<Longrightarrow> lim_step mx (c, K) (c', add_mset (Handshaking, m) K)"
| Disabled: "limiter_allow mx m c = (False, c') \<Longrightarrow> mx m < 0 \<Longrightarrow> lim_step mx (c, K) (c', K)"
| Over: "limiter_allow mx m c = (False, c') \<Longrightarrow> 0 < mx m \<Longrightarrow> lim_step mx (c, K) (c', add_mset (Undoing, m) K)"
| Undo: "lim_step mx (c, add_mset (Undoing, m) K) (limiter_undo m c, K)"
| Authenticated: "lim_step mx (c, add_mset (Handshaking, m) K) (c, add_mset (InSession, m) K)"
| Handshake_failed: "lim_step mx (c, add_mset (Handshaking, m) K) (c, K)"
| Closed: "lim_step mx (c, add_mset (InSession, m) K) (limiter_release m c, K)"

inductive lim_reach :: "(string \<Rightarrow> int) \<Rightarrow> lim_state \<Rightarrow> lim_state \<Rightarrow> bool" for mx where
  Refl: "lim_reach mx s s"
| Step: "lim_reach mx s t \<Longrightarrow> lim_step mx t u \<Longrightarrow> lim_reach mx s u"

lemma lim_reach_trans: "lim_reach mx t u \<Longrightarrow> lim_reach mx s t \<Longrightarrow> lim_reach mx s u"
  by (induction rule: lim_reach.induct) (auto intro: lim_reach.intros)

definition served :: "string \<Rightarrow> (phase \<times> string) multiset \<Rightarrow> nat" where
  "served m K = count K (Handshaking, m) + count K (InSession, m)"

definition holding :: "string \<Rightarrow> (phase \<times> string) multiset \<Rightarrow> nat" where
  "holding m K = served m K + count K (Undoing, m)"

text \<open>Increments that no connection will ever undo.\<close>

definition leaked :: "string \<Rightarrow> lim_state \<Rightarrow> int" where
  "leaked m s = counter (fst s) m - int (holding m (snd s))"

definition lim_ok :: "(string \<Rightarrow> int) \<Rightarrow> string \<Rightarrow> int \<Rightarrow> lim_state \<Rightarrow> bool" where
  "lim_ok mx m L s \<longleftrightarrow> 0 \<le> L \<and> L \<le> leaked m s \<and> int (served m (snd s)) \<le> max 0 (mx m - L)"

lemmas lim_defs = lim_ok_def leaked_def holding_def served_def counter_def limiter_allow_def limiter_undo_def
  limiter_release_def Let_def

lemma lim_ok_step:
  assumes "lim_step mx s t" "0 < mx m" "lim_ok mx m L s"
  shows "lim_ok mx m L t"
  using assms(1)
proof (cases rule: lim_step.cases)
  case (Admit m' c c' K)
  then show ?thesis using assms(2,3) by (auto simp: lim_defs split: if_splits option.splits)
next
  case (Disabled m' c c' K)
  then show ?thesis using assms(2,3) by (auto simp: lim_defs split: if_splits option.splits)
next
  case (Over m' c c' K)
  then show ?thesis using assms(2,3) by (auto simp: lim_defs split: if_splits option.splits)
next
  case (Undo c m' K)
  then show ?thesis using assms(2,3) by (auto simp: lim_defs split: if_splits option.splits)
next
  case (Authenticated c m' K)
  then show ?thesis using assms(2,3) by (auto simp: lim_defs split: if_splits option.splits)
next
  case (Handshake_failed c m' K)
  then show ?thesis using assms(2,3) by (auto simp: lim_defs split: if_splits option.splits)
next
  case (Closed c m' K)
  then show ?thesis using assms(2,3) by (auto simp: lim_defs split: if_splits option.splits)
qed

lemma lim_ok_reach: "lim_reach mx s t \<Longrightarrow> 0 < mx m \<Longrightarrow> lim_ok mx m L s \<Longrightarrow> lim_ok mx m L t"
  by (induction rule: lim_reach.induct) (auto intro: lim_ok_step)

text \<open>\<open>n\<close> handshakes that fail one after the other.\<close>

lemma failed_handshakes:
  "0 < mx m \<Longrightarrow> int n \<le> mx m \<Longrightarrow> \<exists>c. lim_reach mx (\<lambda>_. None, {#}) (c, {#}) \<and> counter c m = int n"
proof (induction n)
  case 0
  then show ?case by (intro exI [of _ "\<lambda>_. None"]) (simp add: counter_def lim_reach.Refl)
next
  case (Suc n)
  then have "int n \<le> mx m" by simp
  from Suc.IH [OF Suc.prems(1) this] obtain c where c: "lim_reach mx (\<lambda>_. None, {#}) (c, {#})" "counter c m = int n" by blast
  let ?c = "c(m \<mapsto> int n + 1)"
  have "limiter_allow mx m c = (True, ?c)" using Suc.prems c(2) by (simp add: limiter_allow_def Let_def)
  then have "lim_step mx (c, {#}) (?c, add_mset (Handshaking, m) {#})" by (rule lim_step.Admit)
  moreover have "lim_step mx (?c, add_mset (Handshaking, m) {#}) (?c, {#})" by (rule lim_step.Handshake_failed)
  ultimately have "lim_reach mx (\<lambda>_. None, {#}) (?c, {#})" by (rule lim_reach.Step [OF lim_reach.Step [OF c(1)]])
  moreover have "counter ?c m = int (Suc n)" by (simp add: counter_def)
  ultimately show ?case by blast
qed

subsection \<open>Properties\<close>

text \<open>
  Whatever connections come, fail and go, in any interleaving, never more of a limited module
  are in their handshake or session than its limit says.
\<close>

lemma connections_within_limit:
  assumes "lim_reach mx (\<lambda>_. None, {#}) (c, K)" "0 < mx m"
  shows "int (served m K) \<le> mx m"
proof -
  have "lim_ok mx m 0 (\<lambda>_. None, {#})" using assms(2) by (simp add: lim_defs)
  from lim_ok_reach [OF assms this] show ?thesis using assms(2) by (simp add: lim_ok_def)
qed

text \<open>
  As many failed handshakes as the limit allows, one after the other, lead to a state with no
  connection in which the module is locked: no run from there ever serves a connection again.
\<close>

lemma failed_handshakes_lock_module:
  assumes "0 < mx m"
  shows "\<exists>c. lim_reach mx (\<lambda>_. None, {#}) (c, {#}) \<and>
    (\<forall>c' K. lim_reach mx (c, {#}) (c', K) \<longrightarrow> served m K = 0)"
proof -
  obtain c where c: "lim_reach mx (\<lambda>_. None, {#}) (c, {#})" "counter c m = mx m"
    using failed_handshakes [of mx m "nat (mx m)"] assms by auto
  have ok: "lim_ok mx m (mx m) (c, {#})" using assms c(2) by (simp add: lim_ok_def leaked_def holding_def served_def)
  have "served m K = 0" if "lim_reach mx (c, {#}) (c', K)" for c' K
  proof -
    have "lim_ok mx m (mx m) (c', K)" by (rule lim_ok_reach [OF that assms ok])
    then show ?thesis by (simp add: lim_ok_def)
  qed
  then show ?thesis using c(1) by blast
qed

end
