(* ===== verification/Sums.thy ===== *)
theory Sums
  imports Wire Repo
begin

text \<open>
  Block checksums (\<open>internal/front/rsync/protocol/sum.go\<close>, \<open>sumTableWriter\<close> and
  \<open>calcBlockSumsFromRepo\<close> in \<open>receiver.go\<close>).  MD5 is the one of the environment.  The block sizes are
  computed on unbounded integers: all values stay below \<open>2 ^ 40\<close>, far from the width of \<open>int64\<close>.
\<close>

subsection \<open>Block sizes\<close>

definition blockSize :: int where "blockSize = 700"
definition maxBlockSize :: int where "maxBlockSize = 131072"
definition strongSumLen :: nat where "strongSumLen = 16"

function root_bit :: "int \<Rightarrow> int \<Rightarrow> int" where
  "root_bit l c = (if l div 4 \<le> 0 then c else root_bit (l div 4) (2 * c))"
  by pat_completeness auto
termination by (relation "measure (\<lambda>(l, c). nat l)") auto

declare root_bit.simps [simp del]

function root_loop :: "int \<Rightarrow> int \<Rightarrow> int \<Rightarrow> int" where
  "root_loop len c b =
     (if c < 8 then b
      else let b1 = b OR c in root_loop len (c div 2) (if len < b1 * b1 then b1 AND NOT c else b1))"
  by pat_completeness auto
termination by (relation "measure (\<lambda>(len, c, b). nat c)") auto

declare root_loop.simps [simp del]

definition block_length :: "int \<Rightarrow> int" where
  "block_length len =
     (if len \<le> blockSize * blockSize then blockSize
      else let c = root_bit len 1 in
        if maxBlockSize \<le> c then maxBlockSize
        else let b = root_loop len c 0 in if b < blockSize then blockSize else b)"

text \<open>\<open>CalcSizes\<close>: count, block length and remainder.\<close>

definition CalcSizes :: "int \<Rightarrow> (int \<times> int \<times> int) result" where
  "CalcSizes len =
     (if len < 0 then Inl (Err ''negative file length'')
      else let b = block_length len; r = len mod b; cnt = len div b + (if r \<noteq> 0 then 1 else 0) in
        if 2 ^ 24 < cnt then Inl (Err ''too many blocks'') else Inr (cnt, b, r))"

subsection \<open>Checksums\<close>

text \<open>The unrolled loop takes four bytes while more than four are left; bytes count as signed.\<close>

definition sx :: "byte \<Rightarrow> int32" where
  "sx b = scast b"

fun roll_tail :: "bytes \<Rightarrow> int32 \<Rightarrow> int32 \<Rightarrow> int32 \<times> int32" where
  "roll_tail [] s1 s2 = (s1, s2)"
| "roll_tail (b # bs) s1 s2 = roll_tail bs (s1 + sx b) (s2 + (s1 + sx b))"

fun roll4 :: "bytes \<Rightarrow> int32 \<Rightarrow> int32 \<Rightarrow> int32 \<times> int32" where
  "roll4 (a # b # c # d # e # bs) s1 s2 =
     roll4 (e # bs) (s1 + (sx a + sx b + sx c + sx d)) (s2 + (4 * (s1 + sx a) + 3 * sx b + 2 * sx c + sx d))"
| "roll4 bs s1 s2 = roll_tail bs s1 s2"

definition pack_sums :: "int32 \<times> int32 \<Rightarrow> int32" where
  "pack_sums s = (fst s AND 0xFFFF) + push_bit 16 (snd s)"

definition RollingSum1 :: "bytes \<Rightarrow> int32" where
  "RollingSum1 data = pack_sums (roll4 data 0 0)"

definition StrongSum2 :: "(bytes \<Rightarrow> bytes) \<Rightarrow> bytes \<Rightarrow> int32 \<Rightarrow> bytes" where
  "StrongSum2 md5 data seed = md5 (if seed \<noteq> 0 then data @ le_bytes 4 seed else data)"

type_synonym block_sum = "int32 \<times> bytes"

record sum_table =
  tb_count :: int
  tb_blength :: int
  tb_s2length :: int
  tb_remainder :: int
  tb_sums :: "block_sum list"

definition block_sum :: "(bytes \<Rightarrow> bytes) \<Rightarrow> int32 \<Rightarrow> bytes \<Rightarrow> block_sum" where
  "block_sum md5 seed block = (RollingSum1 block, StrongSum2 md5 block seed)"

text \<open>\<open>CalcBlockSums\<close> on a source with the error its last read returns.\<close>

definition CalcBlockSums :: "(bytes \<Rightarrow> bytes) \<Rightarrow> int \<Rightarrow> bytes \<times> goerr \<Rightarrow> int32 \<Rightarrow> sum_table result" where
  "CalcBlockSums md5 len src seed = bind_res (CalcSizes len) (\<lambda>(cnt, b, r).
     let t = \<lparr>tb_count = cnt, tb_blength = b, tb_s2length = int strongSumLen, tb_remainder = r, tb_sums = []\<rparr> in
     if len = 0 then Inr t
     else if snd src \<noteq> EOF \<and> snd src \<noteq> UnexpectedEOF then Inl (snd src)
     else let blocks = chunks_of (nat b) (fst src) in
     if int (length (fst src)) \<noteq> len then Inl (Err ''checksums: wrong number of bytes'')
     else if int (length blocks) \<noteq> cnt then Inl (Err ''checksums: wrong number of blocks'')
     else Inr (t\<lparr>tb_sums := map (block_sum md5 seed) blocks\<rparr>))"

definition sum_head_bytes :: "sum_table \<Rightarrow> bytes" where
  "sum_head_bytes t = WriteInt32 (word_of_int (tb_count t)) @ WriteInt32 (word_of_int (tb_blength t)) @
     WriteInt32 (word_of_int (tb_s2length t)) @ WriteInt32 (word_of_int (tb_remainder t))"

definition sums_bytes :: "sum_table \<Rightarrow> bytes" where
  "sums_bytes t = concat (map (\<lambda>(s1, s2). WriteInt32 s1 @ s2) (tb_sums t))"

text \<open>The payload of \<open>WriteSumTable\<close>.\<close>

definition WriteSumTable :: "sum_table \<Rightarrow> bytes" where
  "WriteSumTable t = sum_head_bytes t @ sums_bytes t"

subsection \<open>The writer\<close>

record sum_writer =
  sw_tbl :: sum_table
  sw_buf :: bytes
  sw_seed :: int32
  sw_total :: int
  sw_len :: int

text \<open>The loop of \<open>Write\<close>; a block length of zero, which \<open>CalcSizes\<close> never gives, would not end.\<close>

function cut_blocks :: "nat \<Rightarrow> bytes \<Rightarrow> bytes list \<times> bytes" where
  "cut_blocks n buf =
     (if n = 0 \<or> length buf < n then ([], buf)
      else (case cut_blocks n (drop n buf) of (bs, rest) \<Rightarrow> (take n buf # bs, rest)))"
  by pat_completeness auto
termination by (relation "measure (\<lambda>(n, buf). length buf)") auto

declare cut_blocks.simps [simp del]

definition sw_Write :: "(bytes \<Rightarrow> bytes) \<Rightarrow> bytes \<Rightarrow> sum_writer \<Rightarrow> sum_writer" where
  "sw_Write md5 p w = (case cut_blocks (nat (tb_blength (sw_tbl w))) (sw_buf w @ p) of (blocks, rest) \<Rightarrow>
     w\<lparr>sw_total := sw_total w + int (length p), sw_buf := rest,
       sw_tbl := (sw_tbl w)\<lparr>tb_sums := tb_sums (sw_tbl w) @ map (block_sum md5 (sw_seed w)) blocks\<rparr>\<rparr>)"

definition sw_finish :: "(bytes \<Rightarrow> bytes) \<Rightarrow> sum_writer \<Rightarrow> sum_table result" where
  "sw_finish md5 w =
     (if sw_total w \<noteq> sw_len w then Inl (Err ''old file incomplete'')
      else let sums = tb_sums (sw_tbl w) @ (if sw_buf w \<noteq> [] then [block_sum md5 (sw_seed w) (sw_buf w)] else []) in
        if int (length sums) \<noteq> tb_count (sw_tbl w) then Inl (Err ''wrong number of blocks'')
        else Inr ((sw_tbl w)\<lparr>tb_sums := sums\<rparr>))"

definition new_sum_writer :: "int \<times> int \<times> int \<Rightarrow> int \<Rightarrow> int32 \<Rightarrow> sum_writer" where
  "new_sum_writer sz len seed = (case sz of (cnt, b, r) \<Rightarrow>
     \<lparr>sw_tbl = \<lparr>tb_count = cnt, tb_blength = b, tb_s2length = int strongSumLen, tb_remainder = r, tb_sums = []\<rparr>,
      sw_buf = [], sw_seed = seed, sw_total = 0, sw_len = len\<rparr>)"

text \<open>
  \<open>calcBlockSumsFromRepo\<close>: \<open>StreamFile\<close> writes chunk by chunk; by \<open>sw_Write_append\<close> the cut does not
  matter, so the model writes what was streamed at once.
\<close>

definition calcBlockSumsFromRepo :: "repo_env \<Rightarrow> string \<Rightarrow> int \<Rightarrow> int32 \<Rightarrow> repo \<Rightarrow> sum_table result" where
  "calcBlockSumsFromRepo E path len seed st = bind_res (CalcSizes len) (\<lambda>sz.
     case StreamFile E path st of
       (w, Inl e) \<Rightarrow> Inl e
     | (w, Inr _) \<Rightarrow> sw_finish (re_md5 E) (sw_Write (re_md5 E) w (new_sum_writer sz len seed)))"

subsection \<open>Block sizes: lemmas\<close>

lemma or_pow2:
  assumes "b mod 2 ^ Suc k = (0 :: int)"
  shows "b OR 2 ^ k = b + 2 ^ k" "(b OR 2 ^ k) AND NOT (2 ^ k) = b"
proof -
  have nb: "\<not> bit b k"
  proof -
    have "take_bit (Suc k) b = 0" using assms by (simp add: take_bit_eq_mod)
    then show ?thesis by (metis bit_0_eq bit_take_bit_iff bot_apply bot_bool_def lessI)
  qed
  have "b AND 2 ^ k = 0"
    by (rule bit_eqI) (use nb in \<open>auto simp: bit_simps\<close>)
  then show "b OR 2 ^ k = b + 2 ^ k" by (simp add: disjunctive_add [symmetric] bit_eq_iff bit_simps)
  show "(b OR 2 ^ k) AND NOT (2 ^ k) = b"
    by (rule bit_eqI) (use nb in \<open>auto simp: bit_simps\<close>)
qed

lemma root_loop_bounds:
  "b mod 2 ^ Suc k = 0 \<Longrightarrow> b \<le> root_loop len (2 ^ k) b \<and> root_loop len (2 ^ k) b < b + 2 ^ Suc k"
proof (induction k arbitrary: b)
  case 0
  then show ?case by (simp add: root_loop.simps)
next
  case (Suc k)
  show ?case
  proof (cases "(2::int) ^ Suc k < 8")
    case True
    then show ?thesis by (simp add: root_loop.simps)
  next
    case False
    let ?b' = "if len < (b + 2 ^ Suc k) * (b + 2 ^ Suc k) then b else b + 2 ^ Suc k"
    have r: "root_loop len (2 ^ Suc k) b = root_loop len (2 ^ k) ?b'"
      using False or_pow2 [OF Suc.prems] by (simp add: root_loop.simps [of len "2 ^ Suc k"] Let_def del: power_Suc) simp
    have "b mod 2 ^ Suc k = 0" using Suc.prems by (metis dvd_eq_mod_eq_0 le_imp_power_dvd dvd_trans lessI less_imp_le)
    then have "?b' mod 2 ^ Suc k = 0" by simp
    from Suc.IH [OF this] show ?thesis unfolding r by (auto split: if_splits)
  qed
qed

lemma root_bit_pow2: "\<exists>k. root_bit l (2 ^ j) = 2 ^ k"
proof (induction "nat l" arbitrary: l j rule: less_induct)
  case less
  show ?case
  proof (cases "l div 4 \<le> 0")
    case False
    then have "nat (l div 4) < nat l" by auto
    from less [OF this, of "Suc j"] show ?thesis using False by (simp add: root_bit.simps [of l])
  qed (auto simp: root_bit.simps [of l])
qed

lemma block_length_bounds: "700 \<le> block_length len" "block_length len \<le> 131072"
proof -
  obtain k where k: "root_bit len 1 = 2 ^ k" using root_bit_pow2 [of len 0] by auto
  show "700 \<le> block_length len" by (auto simp: block_length_def blockSize_def maxBlockSize_def Let_def)
  have "root_loop len (2 ^ k) 0 \<le> 131072" if "(2::int) ^ k < 131072"
  proof -
    have "(2::int) ^ k < 2 ^ 17" using that by simp
    then have "k < 17" by (rule power_less_imp_less_exp [rotated]) simp
    then have "(2::int) ^ Suc k \<le> 2 ^ 17" by (intro power_increasing) auto
    then show ?thesis using root_loop_bounds [of 0 k len] by simp
  qed
  then show "block_length len \<le> 131072"
    by (auto simp: block_length_def blockSize_def maxBlockSize_def Let_def k)
qed

lemma CalcSizes_Inr:
  assumes "CalcSizes len = Inr (cnt, b, r)"
  shows "700 \<le> b" "b \<le> 131072" "0 \<le> r" "r < b" "0 \<le> cnt" "cnt \<le> 2 ^ 24" "0 \<le> len"
    "len = (if r = 0 then cnt * b else (cnt - 1) * b + r)" "cnt = (len + b - 1) div b"
proof -
  have "700 \<le> b \<and> b \<le> 131072 \<and> 0 \<le> r \<and> r < b \<and> 0 \<le> cnt \<and> cnt \<le> 2 ^ 24 \<and> 0 \<le> len \<and>
    len = (if r = 0 then cnt * b else (cnt - 1) * b + r) \<and> cnt = (len + b - 1) div b"
  proof -
  have b: "b = block_length len" "r = len mod b" "cnt = len div b + (if r \<noteq> 0 then 1 else 0)" "0 \<le> len" "cnt \<le> 2 ^ 24"
    using assms by (auto simp: CalcSizes_def Let_def split: if_splits)
  have bb: "700 \<le> b" "b \<le> 131072" using block_length_bounds [of len] b(1) by auto
  have q: "len = len div b * b + r" using b(2) by simp
  have r: "0 \<le> r" "r < b" using b(2) bb by auto
  have "0 \<le> len div b" using b(4) bb by (simp add: pos_imp_zdiv_nonneg_iff)
  moreover have "(len + b - 1) div b = cnt"
  proof -
    have "len + b - 1 = (r + b - 1) + len div b * b" using q by simp
    then have "(len + b - 1) div b = (r + b - 1) div b + len div b"
      using bb by (metis div_mult_self1 add.commute less_le_not_le mult.commute zero_neq_numeral not_numeral_le_zero order.trans)
    also have "(r + b - 1) div b = (if r \<noteq> 0 then 1 else 0)"
      using r bb by (auto simp: div_pos_pos_trivial int_div_pos_eq)
    finally show ?thesis using b(3) by simp
  qed
  ultimately show ?thesis using b bb r q by (auto simp: algebra_simps split: if_splits)
  qed
  then show "700 \<le> b" "b \<le> 131072" "0 \<le> r" "r < b" "0 \<le> cnt" "cnt \<le> 2 ^ 24" "0 \<le> len"
    "len = (if r = 0 then cnt * b else (cnt - 1) * b + r)" "cnt = (len + b - 1) div b"
    by blast+
qed

subsection \<open>The rolling checksum\<close>

text \<open>The two sums of the checksum over a block: the bytes, and the bytes weighted by their distance from the end.\<close>

definition sum_a :: "bytes \<Rightarrow> int32" where
  "sum_a bs = sum_list (map sx bs)"

fun sum_b :: "bytes \<Rightarrow> int32" where
  "sum_b [] = 0"
| "sum_b (b # bs) = of_nat (Suc (length bs)) * sx b + sum_b bs"

lemma roll_tail_sums: "roll_tail bs s1 s2 = (s1 + sum_a bs, s2 + of_nat (length bs) * s1 + sum_b bs)"
  by (induction bs arbitrary: s1 s2) (simp_all add: sum_a_def algebra_simps)

lemma roll4_roll_tail: "roll4 bs s1 s2 = roll_tail bs s1 s2"
  by (induction bs s1 s2 rule: roll4.induct) (simp_all add: algebra_simps)

lemma RollingSum1_sums: "RollingSum1 bs = pack_sums (sum_a bs, sum_b bs)"
  by (simp add: RollingSum1_def roll4_roll_tail roll_tail_sums)

lemma sum_b_snoc: "sum_b (bs @ [z]) = sum_b bs + sum_a (bs @ [z])"
  by (induction bs) (simp_all add: sum_a_def algebra_simps)

subsection \<open>The writer: lemmas\<close>

lemma cut_blocks_rest: "0 < n \<Longrightarrow> cut_blocks n buf = (bs, rest) \<Longrightarrow>
    buf = concat bs @ rest \<and> length rest < n \<and> (\<forall>b \<in> set bs. length b = n)"
proof (induction n buf arbitrary: bs rest rule: cut_blocks.induct)
  case (1 n buf)
  note unf = cut_blocks.simps [of n buf]
  show ?case
  proof (cases "length buf < n")
    case True
    then show ?thesis using "1.prems" by (simp add: unf)
  next
    case False
    obtain bs' where c: "cut_blocks n (drop n buf) = (bs', rest)" "bs = take n buf # bs'"
      using "1.prems" False by (auto simp: unf split: prod.splits)
    have "drop n buf = concat bs' @ rest \<and> length rest < n \<and> (\<forall>b \<in> set bs'. length b = n)"
      using "1.IH" [OF _ "1.prems"(1) c(1)] "1.prems"(1) False by simp
    then show ?thesis using c(2) False by (metis append_assoc append_take_drop_id concat.simps(2) length_take min.absorb2 not_less set_ConsD)
  qed
qed

lemma chunks_of_blocks:
  "0 < n \<Longrightarrow> \<forall>b \<in> set bs. length b = n \<Longrightarrow> length rest < n \<Longrightarrow>
     chunks_of n (concat bs @ rest) = bs @ (if rest = [] then [] else [rest])"
  by (simp add: chunks_of_append chunks_of_short)

lemma cut_blocks_append:
  assumes "0 < n" "cut_blocks n a = (bs, r)" "cut_blocks n (r @ b) = (cs, r')"
  shows "cut_blocks n (a @ b) = (bs @ cs, r')"
  using assms
proof (induction n a arbitrary: bs r rule: cut_blocks.induct)
  case (1 n a)
  note unf = cut_blocks.simps [of n a] cut_blocks.simps [of n "a @ b"]
  show ?case
  proof (cases "length a < n")
    case True
    then show ?thesis using "1.prems" by (simp add: unf(1))
  next
    case False
    obtain bs' where c: "cut_blocks n (drop n a) = (bs', r)" "bs = take n a # bs'"
      using "1.prems" False by (auto simp: unf(1) split: prod.splits)
    have "cut_blocks n (drop n a @ b) = (bs' @ cs, r')"
      using "1.IH" [OF _ "1.prems"(1) c(1) "1.prems"(3)] "1.prems"(1) False by simp
    then show ?thesis using "1.prems"(1) False c(2) by (simp add: unf(2))
  qed
qed

text \<open>The state of the writer after \<open>data\<close>, however it was cut into writes.\<close>

definition sw_after :: "(bytes \<Rightarrow> bytes) \<Rightarrow> sum_writer \<Rightarrow> bytes \<Rightarrow> sum_writer \<Rightarrow> bool" where
  "sw_after md5 w0 data w \<longleftrightarrow> (\<exists>bs. cut_blocks (nat (tb_blength (sw_tbl w0))) data = (bs, sw_buf w) \<and>
     w = w0\<lparr>sw_total := int (length data), sw_buf := sw_buf w,
       sw_tbl := (sw_tbl w0)\<lparr>tb_sums := map (block_sum md5 (sw_seed w0)) bs\<rparr>\<rparr>)"

lemma sw_Write_after:
  assumes "0 < tb_blength (sw_tbl w0)" "sw_after md5 w0 data w"
  shows "sw_after md5 w0 (data @ p) (sw_Write md5 p w)"
proof -
  let ?n = "nat (tb_blength (sw_tbl w0))"
  obtain bs where bs: "cut_blocks ?n data = (bs, sw_buf w)"
    and w: "w = w0\<lparr>sw_total := int (length data), sw_buf := sw_buf w,
       sw_tbl := (sw_tbl w0)\<lparr>tb_sums := map (block_sum md5 (sw_seed w0)) bs\<rparr>\<rparr>"
    using assms(2) by (auto simp: sw_after_def)
  obtain cs r' where cs: "cut_blocks ?n (sw_buf w @ p) = (cs, r')" by fastforce
  have cut: "cut_blocks ?n (data @ p) = (bs @ cs, r')" using cut_blocks_append [OF _ bs cs] assms(1) by simp
  define q where "q = sw_buf w"
  have w': "w = w0\<lparr>sw_total := int (length data), sw_buf := q,
       sw_tbl := (sw_tbl w0)\<lparr>tb_sums := map (block_sum md5 (sw_seed w0)) bs\<rparr>\<rparr>"
    using w by (simp only: q_def)
  have "sw_Write md5 p w = w0\<lparr>sw_total := int (length (data @ p)), sw_buf := r',
       sw_tbl := (sw_tbl w0)\<lparr>tb_sums := map (block_sum md5 (sw_seed w0)) (bs @ cs)\<rparr>\<rparr>"
    using cs unfolding q_def [symmetric] unfolding w' by (simp add: sw_Write_def)
  then show ?thesis
    unfolding sw_after_def by (intro exI [of _ "bs @ cs"]) (simp add: cut)
qed

lemma sw_Writes_after:
  "0 < tb_blength (sw_tbl w0) \<Longrightarrow> sw_after md5 w0 data w \<Longrightarrow> sw_after md5 w0 (data @ concat ps) (foldl (\<lambda>w p. sw_Write md5 p w) w ps)"
proof (induction ps arbitrary: data w)
  case (Cons p ps)
  from Cons.IH [OF Cons.prems(1) sw_Write_after [OF Cons.prems]] show ?case by simp
qed simp

lemma sw_after_new:
  assumes "0 < b"
  shows "sw_after md5 (new_sum_writer (cnt, b, r) len seed) [] (new_sum_writer (cnt, b, r) len seed)"
  using assms by (auto simp: sw_after_def new_sum_writer_def cut_blocks.simps)

lemma sum_writer_result:
  assumes sz: "CalcSizes len = Inr (cnt, b, r)" and len: "int (length (concat ps)) = len"
  shows "sw_finish md5 (foldl (\<lambda>w p. sw_Write md5 p w) (new_sum_writer (cnt, b, r) len seed) ps) =
    Inr \<lparr>tb_count = cnt, tb_blength = b, tb_s2length = 16, tb_remainder = r,
      tb_sums = map (block_sum md5 seed) (chunks_of (nat b) (concat ps))\<rparr>"
proof -
  let ?init = "new_sum_writer (cnt, b, r) len seed" and ?data = "concat ps"
  let ?w = "foldl (\<lambda>w p. sw_Write md5 p w) ?init ps"
  note sizes = CalcSizes_Inr [OF sz]
  have b: "0 < b" "tb_blength (sw_tbl ?init) = b" using sizes(1) by (simp_all add: new_sum_writer_def)
  have "sw_after md5 ?init ?data ?w"
  proof -
    have "0 < tb_blength (sw_tbl ?init)" using b by metis
    from sw_Writes_after [OF this sw_after_new [OF b(1)], of md5 ps] show ?thesis by (simp only: append_Nil)
  qed
  then obtain bs where bs: "cut_blocks (nat b) ?data = (bs, sw_buf ?w)"
    and w: "?w = ?init\<lparr>sw_total := int (length ?data), sw_buf := sw_buf ?w,
       sw_tbl := (sw_tbl ?init)\<lparr>tb_sums := map (block_sum md5 (sw_seed ?init)) bs\<rparr>\<rparr>"
    unfolding sw_after_def b(2) by blast
  have n: "0 < nat b" using b(1) by simp
  note cr = cut_blocks_rest [OF n bs]
  have ch: "chunks_of (nat b) ?data = bs @ (if sw_buf ?w = [] then [] else [sw_buf ?w])"
    using chunks_of_blocks [OF n] cr by metis
  have "length (chunks_of (nat b) ?data) = nat cnt"
  proof -
    have "length (chunks_of (nat b) ?data) = (length ?data + nat b - 1) div nat b" by (rule length_chunks_of [OF n])
    then have "int (length (chunks_of (nat b) ?data)) = (len + b - 1) div b"
      using len b(1) n by (simp add: zdiv_int of_nat_diff)
    then show ?thesis using sizes(9) by simp
  qed
  then have cnt: "int (length (bs @ (if sw_buf ?w = [] then [] else [sw_buf ?w]))) = cnt" unfolding ch using sizes(5) by simp
  define q where "q = sw_buf ?w"
  have fin: "sw_finish md5 (?init\<lparr>sw_total := int (length ?data), sw_buf := q,
       sw_tbl := (sw_tbl ?init)\<lparr>tb_sums := map (block_sum md5 (sw_seed ?init)) bs\<rparr>\<rparr>) =
    Inr \<lparr>tb_count = cnt, tb_blength = b, tb_s2length = 16, tb_remainder = r,
      tb_sums = map (block_sum md5 seed) (bs @ (if q = [] then [] else [q]))\<rparr>"
    using cnt len by (auto simp: sw_finish_def new_sum_writer_def q_def strongSumLen_def)
  show ?thesis unfolding ch by (subst w) (use fin in \<open>simp add: q_def\<close>)
qed

subsection \<open>Properties\<close>

text \<open>
  The sizes of a block table describe a file of the given length: blocks of 700 to 131072 bytes,
  all full but the last, whose length is the remainder when that is not zero, and no more than
  \<open>2 ^ 24\<close> of them.
\<close>

lemma CalcSizes_geometry:
  assumes "CalcSizes len = Inr (cnt, b, r)"
  shows "700 \<le> b \<and> b \<le> 131072 \<and> 0 \<le> r \<and> r < b \<and> 0 \<le> cnt \<and> cnt \<le> 2 ^ 24 \<and>
    len = (if r = 0 then cnt * b else (cnt - 1) * b + r)"
  by (intro conjI CalcSizes_Inr [OF assms])

text \<open>
  The unrolled checksum loop computes the two sums of the specification, and sliding the window by
  one byte changes them as the sender's rolling update assumes.
\<close>

lemma RollingSum1_rolls:
  "RollingSum1 (w @ [z]) = pack_sums
     (sum_a (a # w) - sx a + sx z,
      sum_b (a # w) - of_nat (length (a # w)) * sx a + (sum_a (a # w) - sx a + sx z))"
  by (simp add: RollingSum1_sums sum_b_snoc) (simp add: sum_a_def)

text \<open>
  The table the writer builds while the old file is streamed is the same however the stream is cut
  into writes: the checksums of the blocks of the file, in order.
\<close>

lemma sum_writer_builds_block_table:
  assumes "CalcSizes len = Inr sz" "int (length (concat ps)) = len"
  shows "sw_finish md5 (foldl (\<lambda>w p. sw_Write md5 p w) (new_sum_writer sz len seed) ps) =
    CalcBlockSums md5 len (concat ps, EOF) seed"
proof -
  obtain cnt b r where sz: "sz = (cnt, b, r)" by (cases sz) auto
  note c = assms(1) [unfolded sz]
  note sizes = CalcSizes_Inr [OF c]
  have n: "0 < nat b" using sizes(1) by simp
  have "int (length (chunks_of (nat b) (concat ps))) = cnt"
    using sizes(1) assms(2) length_chunks_of [OF n, of "concat ps"] unfolding sizes(9) by (simp add: zdiv_int of_nat_diff)
  then show ?thesis
    unfolding sz sum_writer_result [OF c assms(2)]
    using assms(2) by (auto simp: CalcBlockSums_def c Let_def strongSumLen_def chunks_of.simps)
qed

end
