(* ===== verification/Session.thy ===== *)
theory Session
  imports Mux RepoFiles
begin

text \<open>
  The state of a transfer session and the steps the receiver and the sender are written in.  The
  input is the abstract stream of \<open>Mux\<close>: data bytes and \<open>MSG_NO_SEND\<close> marks with the error the
  stream ends in (\<open>stream_refines_items\<close> is the link to the frames).  The output is the list of
  frames; the connection accepts the next \<open>se_room\<close> frames and fails afterwards, \<open>None\<close> is a
  connection that does not fail.  \<open>se_polls\<close> counts the polls of \<open>ctx.Err()\<close> until the context is
  cancelled.  The uploads of chunks take what is random from \<open>se_ups\<close>, one element each.
\<close>

record sess =
  se_in :: "item list"
  se_end :: goerr
  se_out :: "(byte \<times> bytes) list"
  se_room :: "nat option"
  se_polls :: "nat option"
  se_nout :: ndx_codec
  se_nin :: ndx_codec
  se_repo :: repo
  se_ups :: "nat \<Rightarrow> upload"
  se_upn :: nat

type_synonym 'a step = "sess \<Rightarrow> 'a result \<times> sess"

named_theorems step_simps \<open>running the steps of a session\<close>

subsection \<open>Steps\<close>

definition sret :: "'a \<Rightarrow> 'a step" where
  "sret x s = (Inr x, s)"

definition sfail :: "goerr \<Rightarrow> 'a step" where
  "sfail e s = (Inl e, s)"

definition sbind :: "'a step \<Rightarrow> ('a \<Rightarrow> 'b step) \<Rightarrow> 'b step" where
  "sbind m f s = (case m s of (Inl e, s') \<Rightarrow> (Inl e, s') | (Inr x, s') \<Rightarrow> f x s')"

definition sseq :: "'a step \<Rightarrow> 'b step \<Rightarrow> 'b step" where
  "sseq m k = sbind m (\<lambda>_. k)"

definition sget :: "(sess \<Rightarrow> 'a) \<Rightarrow> 'a step" where
  "sget f s = (Inr (f s), s)"

definition slift :: "'a result \<Rightarrow> 'a step" where
  "slift r s = (r, s)"

text \<open>A step whose error is handled by the caller.\<close>

definition strap :: "'a step \<Rightarrow> 'a result step" where
  "strap m s = (case m s of (r, s') \<Rightarrow> (Inr r, s'))"

text \<open>\<open>_ = f()\<close>: the error is dropped.\<close>

definition signore :: "'a step \<Rightarrow> unit step" where
  "signore m = sseq (strap m) (sret ())"

fun count_down :: "nat option \<Rightarrow> (nat option) option" where
  "count_down None = Some None"
| "count_down (Some 0) = None"
| "count_down (Some (Suc n)) = Some (Some n)"

text \<open>\<open>if err := ctx.Err(); err != nil { return err }\<close>.\<close>

definition sctx :: "unit step" where
  "sctx s = (case count_down (se_polls s) of
       None \<Rightarrow> (Inl Canceled, s)
     | Some p \<Rightarrow> (Inr (), s\<lparr>se_polls := p\<rparr>))"

text \<open>\<open>writeFrame\<close>, and \<open>WriteData\<close> as the frame of tag 0.\<close>

definition semit :: "byte \<Rightarrow> bytes \<Rightarrow> unit step" where
  "semit ty data s = (case writeFrame ty data of
       Inl e \<Rightarrow> (Inl e, s)
     | Inr _ \<Rightarrow> (case count_down (se_room s) of
         None \<Rightarrow> (Inl (Err ''write''), s)
       | Some r \<Rightarrow> (Inr (), s\<lparr>se_room := r, se_out := se_out s @ [(ty, data)]\<rparr>)))"

fun data_prefix :: "item list \<Rightarrow> bytes" where
  "data_prefix (Data b # is) = b # data_prefix is"
| "data_prefix is = []"

text \<open>
  A reader of bytes on the stream.  When the bytes before the next mark do not suffice, the read that
  runs into the mark returns it as its error; at the end of the stream it is the error of the stream,
  which \<open>io.ReadFull\<close> turns into \<open>UnexpectedEOF\<close> when it is \<open>EOF\<close> after some bytes.
\<close>

definition sread :: "'a reader \<Rightarrow> 'a step" where
  "sread r s = (let bs = data_prefix (se_in s) in case r bs of
       Inr (x, rest) \<Rightarrow> (Inr x, s\<lparr>se_in := drop (length bs - length rest) (se_in s)\<rparr>)
     | Inl e \<Rightarrow>
         if e = EOF \<or> e = UnexpectedEOF then
           (case drop (length bs) (se_in s) of
              Skip k # is \<Rightarrow> (Inl (NoSend k), s\<lparr>se_in := is\<rparr>)
            | _ \<Rightarrow> (Inl (if e = UnexpectedEOF \<and> se_end s = EOF then UnexpectedEOF else se_end s), s\<lparr>se_in := []\<rparr>))
         else (Inl e, s))"

definition ndx_out :: "int32 \<Rightarrow> bytes step" where
  "ndx_out i s = (case ndx_write (se_nout s) i of (c, bs) \<Rightarrow> (Inr bs, s\<lparr>se_nout := c\<rparr>))"

definition ndx_in :: "int32 step" where
  "ndx_in = sbind (sget se_nin) (\<lambda>c. sbind (sread (ndx_read c)) (\<lambda>(i, c') s. (Inr i, s\<lparr>se_nin := c'\<rparr>)))"

definition sstore :: "repo_env \<Rightarrow> bytes \<Rightarrow> (int \<times> bool) step" where
  "sstore E data s = (case StoreChunk E (se_ups s (se_upn s)) data (se_repo s) of
     (r, st) \<Rightarrow> (r, s\<lparr>se_repo := st, se_upn := se_upn s + 1\<rparr>))"

definition supsert :: "file_row \<Rightarrow> chunk_ref list \<Rightarrow> unit step" where
  "supsert f refs s = (case UpsertFile f refs (rp_db (se_repo s)) of
       (Inl e, db) \<Rightarrow> (Inl e, s\<lparr>se_repo := (se_repo s)\<lparr>rp_db := db\<rparr>\<rparr>)
     | (Inr _, db) \<Rightarrow> (Inr (), s\<lparr>se_repo := (se_repo s)\<lparr>rp_db := db\<rparr>\<rparr>))"

definition sdelete :: "string \<Rightarrow> unit step" where
  "sdelete path s = (Inr (), s\<lparr>se_repo := (se_repo s)\<lparr>rp_db := DeleteFile path (rp_db (se_repo s))\<rparr>\<rparr>)"

lemma sbind_step [step_simps]:
  "m s = (Inr x, s') \<Longrightarrow> sbind m f s = f x s'" "m s = (Inl e, s') \<Longrightarrow> sbind m f s = (Inl e, s')"
  by (simp_all add: sbind_def)

lemma sseq_step [step_simps]:
  "m s = (Inr x, s') \<Longrightarrow> sseq m k s = k s'" "m s = (Inl e, s') \<Longrightarrow> sseq m k s = (Inl e, s')"
  by (simp_all add: sseq_def sbind_def)

lemma sbind_eq_Inr: "sbind m f s = (Inr y, s') \<longleftrightarrow> (\<exists>x s1. m s = (Inr x, s1) \<and> f x s1 = (Inr y, s'))"
  by (auto simp: sbind_def split: prod.splits sum.splits)

lemma sseq_eq_Inr: "sseq m k s = (Inr y, s') \<longleftrightarrow> (\<exists>x s1. m s = (Inr x, s1) \<and> k s1 = (Inr y, s'))"
  by (simp add: sseq_def sbind_eq_Inr)

lemma sret_step [step_simps]: "sret x s = (Inr x, s)"
  by (simp add: sret_def)

lemma sget_step [step_simps]: "sget f s = (Inr (f s), s)"
  by (simp add: sget_def)

lemma sfail_step [step_simps]: "sfail e s = (Inl e, s)"
  by (simp add: sfail_def)

lemma slift_step [step_simps]: "slift r s = (r, s)"
  by (simp add: slift_def)

lemma sbind_sget: "sbind (sget g) f s = f (g s) s"
  by (simp add: sbind_def sget_def)

lemma sbind_slift: "sbind (slift (Inr x)) f s = f x s"
  by (simp add: sbind_def slift_def)

subsection \<open>Reading from the stream\<close>

lemma data_prefix_data [simp]: "data_prefix (map Data bs @ is) = bs @ data_prefix is"
  by (induction bs) simp_all

lemma items_split: "is = map Data (data_prefix is) @ drop (length (data_prefix is)) is"
  by (induction "is" rule: data_prefix.induct) simp_all

text \<open>Reading \<open>n\<close> bytes is \<open>io.ReadFull\<close> on the items.\<close>

lemma sread_full_iread:
  "sread (read_full n) s = (case iread_full n False (se_in s) (se_end s) of (r, is) \<Rightarrow> (r, s\<lparr>se_in := is\<rparr>))"
proof -
  define got where "got = False"
  have "iread_full n got is t = (case read_full n (data_prefix is) of
       Inr (x, rest) \<Rightarrow> (Inr x, drop (length (data_prefix is) - length rest) is)
     | Inl e \<Rightarrow> (case drop (length (data_prefix is)) is of
          Skip k # js \<Rightarrow> (Inl (NoSend k), js)
        | _ \<Rightarrow> (Inl (if t = EOF \<and> (got \<or> data_prefix is \<noteq> []) then UnexpectedEOF else t), [])))" for "is" t
  proof (induction n got "is" t rule: iread_full.induct)
    case (4 n got b "is" t)
    then show ?case
      by (auto simp: read_full_def Suc_diff_le split: list.splits item.splits)
  qed (auto simp: read_full_def)
  from this [of "se_in s" "se_end s"] show ?thesis
    unfolding got_def sread_def
    by (auto simp: Let_def read_full_def split: list.splits item.splits)
qed

text \<open>A reader that only looks at what it takes reads the same from the front of the stream.\<close>

lemma sread_data [step_simps]:
  "se_in s = map Data bs @ is \<Longrightarrow> r (bs @ data_prefix is) = Inr (x, data_prefix is) \<Longrightarrow> sread r s = (Inr x, s\<lparr>se_in := is\<rparr>)"
  by (simp add: sread_def)

subsection \<open>What every step keeps\<close>

text \<open>
  Steps that keep a reflexive and transitive relation between the states before and after, whatever
  their result; the handlers of the sessions are put together from such steps.
\<close>

locale step_relation =
  fixes R :: "sess \<Rightarrow> sess \<Rightarrow> bool"
  assumes refl: "R s s"
    and trans: "R s t \<Longrightarrow> R t u \<Longrightarrow> R s u"
begin

definition keeps :: "'a step \<Rightarrow> bool" where
  "keeps m \<longleftrightarrow> (\<forall>s. R s (snd (m s)))"

lemma keepsD: "keeps m \<Longrightarrow> m s = (r, s') \<Longrightarrow> R s s'"
  unfolding keeps_def by (metis snd_conv)

lemma keeps_sret: "keeps (sret x)" and keeps_sfail: "keeps (sfail e)" and keeps_sget: "keeps (sget f)"
  and keeps_slift: "keeps (slift r)"
  by (simp_all add: keeps_def refl step_simps)

lemma keeps_sbind:
  assumes "keeps m" "\<And>x. keeps (f x)"
  shows "keeps (sbind m f)"
  unfolding keeps_def
proof
  fix s :: sess
  obtain r s1 where m: "m s = (r, s1)" by fastforce
  have "R s s1" using keepsD [OF assms(1) m] .
  moreover have "R s1 (snd (f x s1))" for x using assms(2) unfolding keeps_def by blast
  ultimately show "R s (snd (sbind m f s))" using m trans by (auto simp: sbind_def split: sum.splits)
qed

lemma keeps_sseq: "keeps m \<Longrightarrow> keeps k \<Longrightarrow> keeps (sseq m k)"
  unfolding sseq_def by (rule keeps_sbind)

lemma keeps_strap: "keeps m \<Longrightarrow> keeps (strap m)"
  unfolding keeps_def strap_def by (simp add: case_prod_beta)

lemma keeps_signore: "keeps m \<Longrightarrow> keeps (signore m)"
  unfolding signore_def by (intro keeps_sseq keeps_strap keeps_sret)

lemma keeps_if: "(b \<Longrightarrow> keeps m) \<Longrightarrow> (\<not> b \<Longrightarrow> keeps k) \<Longrightarrow> keeps (if b then m else k)"
  by simp

lemma keeps_option: "(x = None \<Longrightarrow> keeps m) \<Longrightarrow> (\<And>y. x = Some y \<Longrightarrow> keeps (k y)) \<Longrightarrow> keeps (case x of None \<Rightarrow> m | Some y \<Rightarrow> k y)"
  by (simp split: option.splits)

lemma keeps_sum: "(\<And>e. x = Inl e \<Longrightarrow> keeps (m e)) \<Longrightarrow> (\<And>y. x = Inr y \<Longrightarrow> keeps (k y)) \<Longrightarrow> keeps (case x of Inl e \<Rightarrow> m e | Inr y \<Rightarrow> k y)"
  by (simp split: sum.splits)

lemma keeps_prod: "(\<And>a b. x = (a, b) \<Longrightarrow> keeps (k a b)) \<Longrightarrow> keeps (case x of (a, b) \<Rightarrow> k a b)"
  by (cases x) simp

lemma keeps_let: "keeps (f x) \<Longrightarrow> keeps (let y = x in f y)"
  by simp

lemmas keeps_intros = keeps_sbind keeps_sseq keeps_signore keeps_strap keeps_sret keeps_sfail keeps_sget keeps_slift
  keeps_if keeps_option keeps_sum keeps_prod keeps_let

end

text \<open>The steps that leave the repository alone.\<close>

definition repo_same :: "sess \<Rightarrow> sess \<Rightarrow> bool" where
  "repo_same s t \<longleftrightarrow> se_repo t = se_repo s \<and> se_ups t = se_ups s \<and> se_upn t = se_upn s"

interpretation same: step_relation repo_same
  by unfold_locales (simp_all add: repo_same_def)

lemma same_io: "same.keeps sctx" "same.keeps (semit ty data)" "same.keeps (sread r)" "same.keeps (ndx_out i)"
  unfolding same.keeps_def repo_same_def
  by (auto simp: sctx_def semit_def sread_def ndx_out_def Let_def split: option.splits sum.splits prod.splits list.splits item.splits)

lemma same_ndx_in: "same.keeps ndx_in"
  unfolding ndx_in_def
  by (intro same.keeps_intros same_io) (auto simp: same.keeps_def repo_same_def)

text \<open>
  The steps that keep a repository consistent and every path outside \<open>P\<close> as it is, as long as the
  names that the uploads draw are new.
\<close>

definition ups_fresh :: "sess \<Rightarrow> bool" where
  "ups_fresh s \<longleftrightarrow> (\<forall>n \<ge> se_upn s. length (up_nonce (se_ups s n)) = 12 \<and> up_name (se_ups s n) \<notin> blob_names (se_repo s)) \<and>
     inj_on (\<lambda>n. up_name (se_ups s n)) {se_upn s..}"

definition repo_step :: "repo_env \<Rightarrow> (string \<Rightarrow> bool) \<Rightarrow> sess \<Rightarrow> sess \<Rightarrow> bool" where
  "repo_step E P s t \<longleftrightarrow> (aead_laws (re_aead E) \<and> repo_ok E (se_repo s) \<and> ups_fresh s \<longrightarrow>
     repo_ok E (se_repo t) \<and> ups_fresh t \<and> (\<forall>q. \<not> P q \<longrightarrow> same_content E q (se_repo s) (se_repo t)))"

lemma repo_step_refl: "repo_step E P s s"
  by (simp add: repo_step_def same_content_refl)

lemma repo_step_trans: "repo_step E P s t \<Longrightarrow> repo_step E P t u \<Longrightarrow> repo_step E P s u"
  unfolding repo_step_def using same_content_trans by blast

interpretation rstep: step_relation "repo_step E P" for E P
  by unfold_locales (fact repo_step_refl, fact repo_step_trans)

lemma rstep_same: "same.keeps m \<Longrightarrow> rstep.keeps E P m"
  unfolding same.keeps_def rstep.keeps_def repo_same_def repo_step_def ups_fresh_def
  by (simp add: same_content_refl)

lemma rstep_sstore: "rstep.keeps E P (sstore E data)"
  unfolding rstep.keeps_def
proof
  fix s :: sess
  let ?u = "se_ups s (se_upn s)"
  show "repo_step E P s (snd (sstore E data s))"
    unfolding repo_step_def
  proof
    assume a: "aead_laws (re_aead E) \<and> repo_ok E (se_repo s) \<and> ups_fresh s"
    then have u: "length (up_nonce ?u) = 12" "up_name ?u \<notin> blob_names (se_repo s)" by (simp_all add: ups_fresh_def)
    obtain r st where st: "StoreChunk E ?u data (se_repo s) = (r, st)" "repo_ok E st" "extends (se_repo s) st"
      "blob_names st \<subseteq> insert (up_name ?u) (blob_names (se_repo s))"
      using StoreChunk_any [OF _ _ u] a by blast
    have "up_name (se_ups s n) \<notin> blob_names st" if "se_upn s + 1 \<le> n" for n
    proof -
      have "inj_on (\<lambda>n. up_name (se_ups s n)) {se_upn s..}" using a by (simp add: ups_fresh_def)
      from inj_onD [OF this, of n "se_upn s"] have "up_name (se_ups s n) \<noteq> up_name ?u" using that by auto
      moreover have "up_name (se_ups s n) \<notin> blob_names (se_repo s)" using a that by (simp add: ups_fresh_def)
      ultimately show ?thesis using st(4) by blast
    qed
    moreover have "inj_on (\<lambda>n. up_name (se_ups s n)) {se_upn s + 1..}"
      using a by (auto simp: ups_fresh_def intro: inj_on_subset)
    ultimately have "ups_fresh (snd (sstore E data s))"
      using a st(1) by (simp add: sstore_def ups_fresh_def)
    then show "repo_ok E (se_repo (snd (sstore E data s))) \<and> ups_fresh (snd (sstore E data s)) \<and>
      (\<forall>q. \<not> P q \<longrightarrow> same_content E q (se_repo s) (se_repo (snd (sstore E data s))))"
      using st extends_same_content a by (simp add: sstore_def)
  qed
qed

lemma ups_fresh_db: "ups_fresh s \<Longrightarrow> ups_fresh (s\<lparr>se_repo := (se_repo s)\<lparr>rp_db := db\<rparr>\<rparr>)"
  by (simp add: ups_fresh_def blob_names_def)

lemma rstep_supsert:
  assumes "P (fr_path f)"
  shows "rstep.keeps E P (supsert f refs)"
  unfolding rstep.keeps_def
proof
  fix s :: sess
  show "repo_step E P s (snd (supsert f refs s))"
    unfolding repo_step_def
  proof
    let ?db = "rp_db (se_repo s)"
    assume a: "aead_laws (re_aead E) \<and> repo_ok E (se_repo s) \<and> ups_fresh s"
    then have inv: "db_inv ?db" by (simp add: repo_ok_def)
    show "repo_ok E (se_repo (snd (supsert f refs s))) \<and> ups_fresh (snd (supsert f refs s)) \<and>
      (\<forall>q. \<not> P q \<longrightarrow> same_content E q (se_repo s) (se_repo (snd (supsert f refs s))))"
    proof (cases "refs_ok refs ?db")
      case True
      obtain i where u: "UpsertFile f refs ?db = (Inr i, upserted f refs ?db)"
        using UpsertFile_cases(1) [OF inv True] by blast
      have "repo_ok E ((se_repo s)\<lparr>rp_db := upserted f refs ?db\<rparr>)"
        using repo_ok_pruned [OF _ pruned_upserted db_inv_upserted [OF inv True]] a by blast
      moreover have "same_content E q (se_repo s) ((se_repo s)\<lparr>rp_db := upserted f refs ?db\<rparr>)" if "\<not> P q" for q
        using upserted_same_content [OF inv] that assms by metis
      ultimately show ?thesis using a u by (simp add: supsert_def ups_fresh_db)
    next
      case False
      then obtain e where "UpsertFile f refs ?db = (Inl e, ?db)" using UpsertFile_cases(2) [OF inv] by blast
      then show ?thesis using a by (simp add: supsert_def ups_fresh_db same_content_refl)
    qed
  qed
qed

lemma rstep_sdelete:
  assumes "P path"
  shows "rstep.keeps E P (sdelete path)"
  unfolding rstep.keeps_def
proof
  fix s :: sess
  show "repo_step E P s (snd (sdelete path s))"
    unfolding repo_step_def
  proof
    let ?db = "rp_db (se_repo s)"
    assume a: "aead_laws (re_aead E) \<and> repo_ok E (se_repo s) \<and> ups_fresh s"
    then have inv: "db_inv ?db" by (simp add: repo_ok_def)
    have "repo_ok E ((se_repo s)\<lparr>rp_db := DeleteFile path ?db\<rparr>)"
      using repo_ok_pruned [OF _ pruned_DeleteFile [OF inv] db_inv_DeleteFile [OF inv]] a by blast
    moreover have "same_content E q (se_repo s) ((se_repo s)\<lparr>rp_db := DeleteFile path ?db\<rparr>)" if "\<not> P q" for q
      using DeleteFile_same_content [OF inv] that assms by metis
    ultimately show "repo_ok E (se_repo (snd (sdelete path s))) \<and> ups_fresh (snd (sdelete path s)) \<and>
      (\<forall>q. \<not> P q \<longrightarrow> same_content E q (se_repo s) (se_repo (snd (sdelete path s))))"
      using a by (simp add: sdelete_def ups_fresh_db)
  qed
qed

end
