(* ===== verification/Receiver.thy ===== *)
theory Receiver
  imports Session Sums Handshake FlistOrder
begin

text \<open>
  The backup direction: \<open>processSession\<close> and what it calls in \<open>receiver.go\<close>.  The client is its input;
  nothing is assumed of it in the definitions.  Log lines and timers are left out; \<open>keep\<close> says whether
  the client negotiated a timeout, then empty data frames are sent before slow work.  The quoting of a
  name in a message (\<open>%q\<close>) depends on Unicode tables and is the argument \<open>quote\<close>.
\<close>

subsection \<open>Indices, filter rules and static entries\<close>

definition itemTransfer :: "16 word" where "itemTransfer = 0x8000"
definition itemIsNew :: "16 word" where "itemIsNew = 0x2000"
definition xferSumLen :: nat where "xferSumLen = 16"

definition neg_preserve :: "negotiation \<Rightarrow> preserve" where
  "neg_preserve n = \<lparr>preserveUID = ngUID n, preserveGID = ngGID n, preserveLinks = ngLinks n,
     preserveDevices = ngDevices n, preserveAtimes = ngAtimes n, checksumMode = ngChecksum n\<rparr>"

definition sendNdxIflags :: "nat \<Rightarrow> 16 word \<Rightarrow> unit step" where
  "sendNdxIflags i fl = sbind (ndx_out (word_of_nat i)) (\<lambda>b. semit 0 (b @ WriteShortint fl))"

definition recvNdxEcho :: "unit step" where
  "recvNdxEcho = sseq ndx_in (sseq (sread ReadShortint) (sret ()))"

definition driveEntry :: "nat \<Rightarrow> 16 word \<Rightarrow> unit step" where
  "driveEntry i fl = sseq (sendNdxIflags i fl) recvNdxEcho"

definition writeNdxDone :: "unit step" where
  "writeNdxDone = sbind (ndx_out ndxDone) (semit 0)"

definition readNdxDone :: "unit step" where
  "readNdxDone = sbind ndx_in (\<lambda>v. if v \<noteq> ndxDone then sfail (Err ''goodbye'') else sret ())"

text \<open>\<open>io.CopyN(io.Discard, r, n)\<close>.\<close>

definition discard_n :: "nat \<Rightarrow> unit reader" where
  "discard_n n bs = (if n \<le> length bs then Inr ((), drop n bs) else Inl EOF)"

fun filter_rules :: "nat \<Rightarrow> unit step" where
  "filter_rules 0 = sfail (Err ''out of fuel'')"
| "filter_rules (Suc k) = sbind (sread ReadInt32) (\<lambda>n.
     if n = 0 then sret ()
     else if sint n < 0 \<or> 2 ^ 20 < sint n then sfail (Err ''filter rule length'')
     else sseq (sread (discard_n (nat (sint n)))) (filter_rules k))"

text \<open>Every rule takes at least four bytes of the input, so its length is fuel enough.\<close>

definition recvFilterList :: "unit step" where
  "recvFilterList s = filter_rules (Suc (length (se_in s))) s"

definition static_row :: "file_entry \<Rightarrow> string \<Rightarrow> bool \<Rightarrow> file_row" where
  "static_row e path dir = \<lparr>fr_path = path, fr_isdir = dir, fr_issymlink = \<not> dir, fr_mode = fe_mode e,
     fr_uid = fe_uid e, fr_gid = fe_gid e, fr_size = 0, fr_mtime = sint (fe_mtime e), fr_xattrs = [],
     fr_link = (if dir then [] else fe_link e)\<rparr>"

definition applyStaticEntry :: "file_entry \<Rightarrow> string \<Rightarrow> unit step" where
  "applyStaticEntry e path =
     (if fe_issymlink e then supsert (static_row e path False) []
      else if fe_isdir e then supsert (static_row e (TrimSuffix path ''/'') True) []
      else sret ())"

subsection \<open>The content of a file\<close>

record file_stats =
  fs_method :: string
  fs_matched :: int
  fs_literal :: int
  fs_chunks :: nat
  fs_stored :: nat
  fs_blength :: int
  fs_badSum :: bool

definition new_stats :: "string \<Rightarrow> file_stats" where
  "new_stats method = \<lparr>fs_method = method, fs_matched = 0, fs_literal = 0, fs_chunks = 0, fs_stored = 0,
     fs_blength = 0, fs_badSum = False\<rparr>"

record basis_reader =
  br_cur :: bytes
  br_pos :: int

text \<open>
  The variables of the token loops: the bytes of the current chunk, the references so far (the next
  index is their number), the bytes that went into the checksum, and for a delta the reader of the
  old file with the offset consumed.
\<close>

record file_acc =
  fa_data :: bytes
  fa_refs :: "chunk_ref list"
  fa_hashed :: bytes
  fa_st :: file_stats
  fa_br :: basis_reader
  fa_consumed :: int

definition new_acc :: "string \<Rightarrow> file_acc" where
  "new_acc method = \<lparr>fa_data = [], fa_refs = [], fa_hashed = [], fa_st = new_stats method,
     fa_br = \<lparr>br_cur = [], br_pos = 0\<rparr>, fa_consumed = 0\<rparr>"

definition keep_alive :: "bool \<Rightarrow> unit step" where
  "keep_alive keep = (if keep then signore (semit 0 []) else sret ())"

definition store_piece :: "repo_env \<Rightarrow> bytes \<Rightarrow> file_acc \<Rightarrow> file_acc step" where
  "store_piece E data acc = sbind (sstore E data) (\<lambda>(i, reused).
     sret (acc\<lparr>fa_refs := fa_refs acc @ [(i, int (length (fa_refs acc)))],
       fa_st := (fa_st acc)\<lparr>fs_stored := fs_stored (fa_st acc) + (if reused then 0 else 1)\<rparr>\<rparr>))"

definition flush :: "repo_env \<Rightarrow> bool \<Rightarrow> file_acc \<Rightarrow> file_acc step" where
  "flush E keep acc =
     (if fa_data acc = [] then sret acc
      else sseq (keep_alive keep) (sbind (store_piece E (fa_data acc) acc) (\<lambda>acc'. sret (acc'\<lparr>fa_data := []\<rparr>))))"

fun flush_full :: "nat \<Rightarrow> repo_env \<Rightarrow> file_acc \<Rightarrow> file_acc step" where
  "flush_full 0 E acc = sfail (Err ''out of fuel'')"
| "flush_full (Suc k) E acc =
     (if length (fa_data acc) < re_chunk E then sret acc
      else sbind (store_piece E (take (re_chunk E) (fa_data acc)) acc) (\<lambda>acc'.
        flush_full k E (acc'\<lparr>fa_data := drop (re_chunk E) (fa_data acc)\<rparr>)))"

text \<open>The loop over the bytes of a literal; each round takes what fits into the current chunk.\<close>

fun read_literal :: "nat \<Rightarrow> repo_env \<Rightarrow> bool \<Rightarrow> nat \<Rightarrow> file_acc \<Rightarrow> file_acc step" where
  "read_literal 0 E keep n acc = sfail (Err ''out of fuel'')"
| "read_literal (Suc k) E keep n acc =
     (if n = 0 then sret acc
      else let t = min n (re_chunk E - length (fa_data acc)) in
        sbind (sread (read_full t)) (\<lambda>p.
          let acc1 = acc\<lparr>fa_data := fa_data acc @ p, fa_hashed := fa_hashed acc @ p\<rparr> in
          sbind (if length (fa_data acc1) = re_chunk E then flush E keep acc1 else sret acc1)
            (read_literal k E keep (n - t))))"

definition add_literal :: "int \<Rightarrow> file_acc \<Rightarrow> file_acc" where
  "add_literal n acc = acc\<lparr>fa_st := (fa_st acc)\<lparr>fs_literal := fs_literal (fa_st acc) + n\<rparr>\<rparr>"

text \<open>The token loop; \<open>m\<close> is what a match token does.\<close>

fun token_loop :: "nat \<Rightarrow> repo_env \<Rightarrow> bool \<Rightarrow> (int32 \<Rightarrow> file_acc \<Rightarrow> file_acc step) \<Rightarrow> file_acc \<Rightarrow> file_acc step" where
  "token_loop 0 E keep m acc = sfail (Err ''out of fuel'')"
| "token_loop (Suc k) E keep m acc = sseq sctx (sbind (sread ReadInt32) (\<lambda>token.
     if token = 0 then sret acc
     else if sint token < 0 then sbind (m token acc) (token_loop k E keep m)
     else if 32 * 2 ^ 20 < sint token then sfail (Err ''literal too large'')
     else let n = nat (sint token) in
       sbind (read_literal (Suc n) E keep n (add_literal (sint token) acc)) (token_loop k E keep m)))"

text \<open>Every token takes four bytes of the input, so its length is fuel enough.\<close>

definition read_tokens :: "repo_env \<Rightarrow> bool \<Rightarrow> (int32 \<Rightarrow> file_acc \<Rightarrow> file_acc step) \<Rightarrow> file_acc \<Rightarrow> file_acc step" where
  "read_tokens E keep m acc s = token_loop (Suc (length (se_in s))) E keep m acc s"

definition file_end :: "repo_env \<Rightarrow> bool \<Rightarrow> file_acc \<Rightarrow> (chunk_ref list \<times> file_stats) step" where
  "file_end E keep acc = sbind (flush E keep acc) (\<lambda>acc. sbind (sread (read_full xferSumLen)) (\<lambda>sum.
     if re_md5 E (fa_hashed acc) \<noteq> sum then sret ([], (fa_st acc)\<lparr>fs_badSum := True\<rparr>)
     else sret (fa_refs acc, (fa_st acc)\<lparr>fs_chunks := length (fa_refs acc)\<rparr>)))"

fun read_int32s :: "nat \<Rightarrow> int32 list reader" where
  "read_int32s 0 = rret []"
| "read_int32s (Suc n) = rbind ReadInt32 (\<lambda>x. rbind (read_int32s n) (\<lambda>xs. rret (x # xs)))"

definition null_sum_head :: bytes where
  "null_sum_head = concat (replicate 4 (WriteInt32 0))"

definition refuse_match :: "int32 \<Rightarrow> file_acc \<Rightarrow> file_acc step" where
  "refuse_match token acc = sfail (Err ''unexpected match token'')"

definition receiveFileLegacy :: "repo_env \<Rightarrow> bool \<Rightarrow> nat \<Rightarrow> (chunk_ref list \<times> file_stats) step" where
  "receiveFileLegacy E keep i =
     sbind (ndx_out (word_of_nat i)) (\<lambda>b.
     sseq (semit 0 (b @ WriteShortint (itemTransfer OR itemIsNew) @ null_sum_head))
     (sseq recvNdxEcho
     (sseq (sread (read_int32s 4))
     (sbind (read_tokens E keep refuse_match (new_acc ''full''))
     (file_end E keep)))))"

subsection \<open>Delta transfer\<close>

text \<open>
  \<open>io.ReadFull\<close> on a \<open>basisReader\<close> (\<open>io.CopyN\<close> into \<open>io.Discard\<close> reads the same way): chunk \<open>pos / chunkSize\<close>
  is fetched whenever the current one is used up.  An empty chunk, which is never stored, would make the
  code loop; here it is an error.
\<close>

function basis_read :: "repo_env \<Rightarrow> string \<Rightarrow> int \<Rightarrow> repo \<Rightarrow> nat \<Rightarrow> basis_reader \<Rightarrow> (bytes \<times> basis_reader) result" where
  "basis_read E path fileSize st n b =
     (if n = 0 then Inr ([], b)
      else if br_cur b = [] then
        (if fileSize \<le> br_pos b then Inl EOF
         else (case ReadChunkAt E path (br_pos b div int (re_chunk E)) st of
             Inl e \<Rightarrow> Inl e
           | Inr blob \<Rightarrow>
               if blob = [] then Inl (Err ''no progress'')
               else basis_read E path fileSize st n (b\<lparr>br_cur := blob\<rparr>)))
      else let p = take n (br_cur b) in
        bind_res (basis_read E path fileSize st (n - length p) \<lparr>br_cur = drop n (br_cur b), br_pos = br_pos b + int (length p)\<rparr>)
          (\<lambda>(q, b'). Inr (p @ q, b')))"
  by pat_completeness auto
termination
  by (relation "measure (\<lambda>(E, p, f, st, n, b). 2 * n + (if br_cur b = [] then 1 else 0))")
    (auto simp: min_def length_greater_0_conv [symmetric] simp del: length_greater_0_conv)

declare basis_read.simps [simp del]

definition take_basis :: "repo_env \<Rightarrow> string \<Rightarrow> int \<Rightarrow> int \<Rightarrow> file_acc \<Rightarrow> (bytes \<times> file_acc) step" where
  "take_basis E path fileSize n acc = sbind (sget se_repo) (\<lambda>st.
     sbind (slift (basis_read E path fileSize st (nat n) (fa_br acc))) (\<lambda>(bs, b).
       sret (bs, acc\<lparr>fa_br := b, fa_consumed := fa_consumed acc + n\<rparr>)))"

definition match_block :: "repo_env \<Rightarrow> string \<Rightarrow> int \<Rightarrow> sum_table \<Rightarrow> int32 \<Rightarrow> file_acc \<Rightarrow> file_acc step" where
  "match_block E path fileSize tbl token acc =
     (let b = sint (- token) - 1; off = b * tb_blength tbl in
      if tb_count tbl \<le> b then sfail (Err ''match index out of range'')
      else if off < fa_consumed acc then sfail (Err ''match goes back'')
      else sbind (take_basis E path fileSize (off - fa_consumed acc) acc) (\<lambda>(skipped, acc1).
        let blen = (if b = tb_count tbl - 1 \<and> tb_remainder tbl \<noteq> 0 then tb_remainder tbl else tb_blength tbl) in
        if fileSize < fa_consumed acc1 + blen then sfail (Err ''match beyond the old file'')
        else sbind (take_basis E path fileSize blen acc1) (\<lambda>(bs, acc2).
          flush_full (Suc (length (fa_data acc2 @ bs))) E
            (acc2\<lparr>fa_data := fa_data acc2 @ bs, fa_hashed := fa_hashed acc2 @ bs,
              fa_st := (fa_st acc2)\<lparr>fs_matched := fs_matched (fa_st acc2) + blen\<rparr>\<rparr>))))"

definition entry_path :: "string \<Rightarrow> file_entry \<Rightarrow> string" where
  "entry_path pfx e = (if pfx = [] then fe_path e else pfx @ ''/'' @ fe_path e)"

definition unchanged :: "file_row \<Rightarrow> file_entry \<Rightarrow> bool" where
  "unchanged row e \<longleftrightarrow> \<not> fr_isdir row \<and> \<not> fr_issymlink row \<and> fr_mtime row = sint (fe_mtime e) \<and> fr_size row = sint (fe_size e)"

definition receive_delta :: "repo_env \<Rightarrow> bool \<Rightarrow> int32 \<Rightarrow> string \<Rightarrow> file_row \<Rightarrow> nat \<Rightarrow> (chunk_ref list \<times> file_stats) step" where
  "receive_delta E keep seed path row i =
     sbind (sget (\<lambda>s. calcBlockSumsFromRepo E path (fr_size row) seed (se_repo s))) (\<lambda>t.
     sbind (slift t) (\<lambda>tbl.
     sbind (ndx_out (word_of_nat i)) (\<lambda>b.
     sseq (semit 0 (b @ WriteShortint (itemTransfer OR itemIsNew) @ sum_head_bytes tbl @ sums_bytes tbl))
     (sseq recvNdxEcho
     (sbind (sread (read_int32s 4)) (\<lambda>echo.
       if echo \<noteq> [word_of_int (tb_count tbl), word_of_int (tb_blength tbl), word_of_int (tb_s2length tbl), word_of_int (tb_remainder tbl)]
       then sfail (Err ''sum head echo'')
       else sbind (read_tokens E keep (match_block E path (fr_size row) tbl)
           ((new_acc ''delta'')\<lparr>fa_st := (new_stats ''delta'')\<lparr>fs_blength := tb_blength tbl\<rparr>\<rparr>))
         (file_end E keep)))))))"

text \<open>The references, whether the row is to be updated, and the statistics.\<close>

definition receiveFileDelta :: "repo_env \<Rightarrow> bool \<Rightarrow> negotiation \<Rightarrow> file_entry \<Rightarrow> nat \<Rightarrow> string \<Rightarrow> (chunk_ref list \<times> bool \<times> file_stats) step" where
  "receiveFileDelta E keep neg e i pfx = (let path = entry_path pfx e in
     sbind (sget (\<lambda>s. GetFileRow path (rp_db (se_repo s)))) (\<lambda>old.
     let transfer = (case old of
          None \<Rightarrow> receiveFileLegacy E keep i
        | Some row \<Rightarrow>
            if fe_size e = 0 \<or> fr_size row = 0 \<or> fr_isdir row \<or> fr_issymlink row
            then receiveFileLegacy E keep i
            else receive_delta E keep (ngSeed neg) path row i) in
     if (case old of None \<Rightarrow> False | Some row \<Rightarrow> unchanged row e) then sret ([], False, new_stats ''quick_check'')
     else if ngDryRun neg then
       sseq (sendNdxIflags i (itemTransfer OR itemIsNew)) (sseq recvNdxEcho (sret ([], False, new_stats ''dry_run'')))
     else sbind transfer (\<lambda>(refs, st). sret (refs, True, st))))"

subsection \<open>The session\<close>

fun recv_entries :: "nat \<Rightarrow> preserve \<Rightarrow> flist_parser \<Rightarrow> (file_entry list \<times> flist_parser) step" where
  "recv_entries 0 pr p = sfail (Err ''out of fuel'')"
| "recv_entries (Suc k) pr p = sseq sctx (sbind (sread (Parse pr p)) (\<lambda>(r, p'). case r of
       None \<Rightarrow> sret ([], p')
     | Some e \<Rightarrow> sbind (recv_entries k pr p') (\<lambda>(es, p''). sret (e # es, p''))))"

definition full_path :: "string \<Rightarrow> string \<Rightarrow> string" where
  "full_path pfx p = (if pfx = [] then p else if p = [] then pfx else pfx @ ''/'' @ p)"

definition is_special :: "32 word \<Rightarrow> bool" where
  "is_special mode \<longleftrightarrow> (let mt = mode AND sIfmt in mt = sIfChr \<or> mt = sIfBlk \<or> mt = sIfFifo \<or> mt = sIfSock)"

definition regular_row :: "string \<Rightarrow> file_entry \<Rightarrow> file_row" where
  "regular_row path e = \<lparr>fr_path = path, fr_isdir = False, fr_issymlink = False, fr_mode = fe_mode e,
     fr_uid = fe_uid e, fr_gid = fe_gid e, fr_size = sint (fe_size e), fr_mtime = sint (fe_mtime e), fr_xattrs = [], fr_link = []\<rparr>"

text \<open>A regular file: a file the client could not open or read is passed over.\<close>

definition process_file :: "repo_env \<Rightarrow> (string \<Rightarrow> string) \<Rightarrow> bool \<Rightarrow> negotiation \<Rightarrow> string \<Rightarrow> nat \<Rightarrow> file_entry \<Rightarrow> unit step" where
  "process_file E quote keep neg pfx i e =
     sbind (strap (receiveFileDelta E keep neg e i pfx)) (\<lambda>r. case r of
       Inl (NoSend k) \<Rightarrow> if k \<noteq> word_of_nat i then sfail (Err ''MSG_NO_SEND of another file'') else sret ()
     | Inl err \<Rightarrow> sfail err
     | Inr (refs, updated, st) \<Rightarrow>
         if fs_badSum st then signore (semit 1 (to_bytes (''file corruption in '' @ quote (fe_path e) @ '' (checksum mismatch)'') @ [10]))
         else if updated \<and> \<not> ngDryRun neg then supsert (regular_row (full_path pfx (fe_path e)) e) refs
         else sret ())"

definition process_entry :: "repo_env \<Rightarrow> (string \<Rightarrow> string) \<Rightarrow> bool \<Rightarrow> negotiation \<Rightarrow> string \<Rightarrow> nat \<Rightarrow> file_entry \<Rightarrow> unit step" where
  "process_entry E quote keep neg pfx i e =
     (if fe_path e = [] then
        (if \<not> fe_isdir e then sfail (Err ''bad path'')
         else sseq (driveEntry i itemIsNew)
           (if pfx \<noteq> [] \<and> \<not> ngDryRun neg then applyStaticEntry e pfx else sret ()))
      else if is_special (fe_mode e) then
        sseq (signore (semit 2 (to_bytes (''skipping non-regular file '' @ quote (fe_path e) @
            '' (device/special files are not supported by this server)'') @ [10])))
          (driveEntry i itemIsNew)
      else if fe_isdir e \<or> fe_issymlink e then
        (if fe_issymlink e \<and> fe_link e = [] then
           sseq (signore (semit 2 (to_bytes (''skipping non-regular file '' @ quote (fe_path e)) @ [10]))) (driveEntry i itemIsNew)
         else sseq (driveEntry i itemIsNew)
           (if ngDryRun neg then sret () else applyStaticEntry e (full_path pfx (fe_path e))))
      else process_file E quote keep neg pfx i e)"

fun process_entries :: "repo_env \<Rightarrow> (string \<Rightarrow> string) \<Rightarrow> bool \<Rightarrow> negotiation \<Rightarrow> string \<Rightarrow> nat \<Rightarrow> file_entry list \<Rightarrow> unit step" where
  "process_entries E quote keep neg pfx i [] = sret ()"
| "process_entries E quote keep neg pfx i (e # es) = sseq sctx
     (sseq (process_entry E quote keep neg pfx i e) (process_entries E quote keep neg pfx (i + 1) es))"

definition covered :: "string \<Rightarrow> file_entry list \<Rightarrow> string set" where
  "covered pfx es = set (map (\<lambda>e. full_path pfx (TrimSuffix (fe_path e) ''/'')) es)"

fun delete_rows_not_in :: "bool \<Rightarrow> string set \<Rightarrow> file_row list \<Rightarrow> unit step" where
  "delete_rows_not_in keep C [] = sret ()"
| "delete_rows_not_in keep C (row # rows) =
     (if fr_path row \<in> C then delete_rows_not_in keep C rows
      else sseq sctx (sseq (keep_alive keep) (sseq (sdelete (fr_path row)) (delete_rows_not_in keep C rows))))"

definition delete_phase :: "bool \<Rightarrow> negotiation \<Rightarrow> string \<Rightarrow> int32 \<Rightarrow> file_entry list \<Rightarrow> unit step" where
  "delete_phase keep neg pfx ioError es =
     (if ngDelete neg \<and> \<not> ngDryRun neg \<and> ioError = 0
      then sbind (sget (\<lambda>s. FileRows pfx (rp_db (se_repo s)))) (delete_rows_not_in keep (covered pfx es))
      else sret ())"

fun goodbye :: "(nat \<times> nat) list \<Rightarrow> unit step" where
  "goodbye [] = sret ()"
| "goodbye ((Suc w, a) # ss) = sseq writeNdxDone (goodbye ((w, a) # ss))"
| "goodbye ((0, Suc a) # ss) = sseq readNdxDone (goodbye ((0, a) # ss))"
| "goodbye ((0, 0) # ss) = goodbye ss"

definition goodbye_steps :: "(nat \<times> nat) list" where
  "goodbye_steps = [(1, 1), (1, 1), (2, 1), (1, 0)]"

definition processSession :: "repo_env \<Rightarrow> (string \<Rightarrow> string) \<Rightarrow> bool \<Rightarrow> module_config \<Rightarrow> negotiation \<Rightarrow> unit step" where
  "processSession E quote keep m neg =
     sseq (if ngDelete neg \<or> ngPrune neg then recvFilterList else sret ())
     (sbind (sget (\<lambda>s. length (se_in s))) (\<lambda>n.
     sbind (recv_entries (Suc n) (neg_preserve neg) NewFlistParser) (\<lambda>(unsorted, p).
     let es = SortFlistEntries unsorted; pfx = modulePrefix (ngModuleArg neg) (mo_name m) in
     sseq (sread (ReadIdList (neg_preserve neg)))
     (sseq (process_entries E quote keep neg pfx 0 es)
     (sseq (delete_phase keep neg pfx (IoError p) es)
       (goodbye goodbye_steps))))))"

end
