(* ===== verification/ReceiverSafe.thy ===== *)
theory ReceiverSafe
  imports Receiver
begin

text \<open>
  What a backup session can do to the repository, whatever the client sends, whichever uploads fail and
  wherever the connection breaks: the consistency of the repository, the paths outside the transfer
  root, a dry run, and the deletion phase.
\<close>

subsection \<open>Steps that leave the repository alone\<close>

lemma same_simple_io: "same.keeps (sendNdxIflags i fl)" "same.keeps recvNdxEcho" "same.keeps (driveEntry i fl)"
    "same.keeps writeNdxDone" "same.keeps readNdxDone" "same.keeps (keep_alive keep)"
  unfolding sendNdxIflags_def recvNdxEcho_def driveEntry_def writeNdxDone_def readNdxDone_def keep_alive_def
  by (intro same.keeps_intros same_io same_ndx_in)+

lemma same_filter_rules: "same.keeps (filter_rules k)"
proof (induction k)
  case (Suc k)
  then show ?case unfolding filter_rules.simps by (intro same.keeps_intros same_io)
qed (simp add: same.keeps_sfail)

lemma same_recvFilterList: "same.keeps recvFilterList"
  using same_filter_rules unfolding same.keeps_def recvFilterList_def by blast

lemma same_recv_entries: "same.keeps (recv_entries k pr p)"
proof (induction k arbitrary: p)
  case (Suc k)
  then show ?case unfolding recv_entries.simps by (intro same.keeps_intros same_io)
qed (simp add: same.keeps_sfail)

lemma same_goodbye: "same.keeps (goodbye ss)"
  by (induction ss rule: goodbye.induct) (simp_all only: goodbye.simps same.keeps_sret same.keeps_sseq same_simple_io)

subsection \<open>Steps that stay inside the transfer root\<close>

lemmas rstep_io = same_io [THEN rstep_same] same_ndx_in [THEN rstep_same] same_simple_io [THEN rstep_same]

lemma rstep_store_piece: "rstep.keeps E P (store_piece E data acc)"
  unfolding store_piece_def by (intro rstep.keeps_intros rstep_sstore)

lemma rstep_flush: "rstep.keeps E P (flush E keep acc)"
  unfolding flush_def by (intro rstep.keeps_intros rstep_io rstep_store_piece)

lemma rstep_flush_full: "rstep.keeps E P (flush_full k E acc)"
proof (induction k arbitrary: acc)
  case (Suc k)
  then show ?case unfolding flush_full.simps by (intro rstep.keeps_intros rstep_store_piece)
qed (simp add: rstep.keeps_sfail)

lemma rstep_read_literal: "rstep.keeps E P (read_literal k E keep n acc)"
proof (induction k arbitrary: n acc)
  case (Suc k)
  then show ?case unfolding read_literal.simps Let_def by (intro rstep.keeps_intros rstep_io rstep_flush)
qed (simp add: rstep.keeps_sfail)

lemma rstep_token_loop:
  assumes "\<And>token acc. rstep.keeps E P (m token acc)"
  shows "rstep.keeps E P (token_loop k E keep m acc)"
proof (induction k arbitrary: acc)
  case (Suc k)
  then show ?case unfolding token_loop.simps Let_def by (intro rstep.keeps_intros rstep_io rstep_read_literal assms)
qed (simp add: rstep.keeps_sfail)

lemma rstep_read_tokens:
  assumes "\<And>token acc. rstep.keeps E P (m token acc)"
  shows "rstep.keeps E P (read_tokens E keep m acc)"
  using rstep_token_loop [of E P m, OF assms] unfolding rstep.keeps_def read_tokens_def by blast

lemma rstep_file_end: "rstep.keeps E P (file_end E keep acc)"
  unfolding file_end_def by (intro rstep.keeps_intros rstep_io rstep_flush)

lemma rstep_legacy: "rstep.keeps E P (receiveFileLegacy E keep i)"
  unfolding receiveFileLegacy_def refuse_match_def
  by (intro rstep.keeps_intros rstep_io rstep_file_end rstep_read_tokens)

lemma rstep_match_block: "rstep.keeps E P (match_block E path sz tbl token acc)"
  unfolding match_block_def take_basis_def Let_def by (intro rstep.keeps_intros rstep_flush_full)

lemma rstep_delta: "rstep.keeps E P (receive_delta E keep seed path row i)"
  unfolding receive_delta_def
  by (intro rstep.keeps_intros rstep_io rstep_file_end rstep_read_tokens rstep_match_block)

lemma rstep_receiveFileDelta: "rstep.keeps E P (receiveFileDelta E keep neg e i pfx)"
  unfolding receiveFileDelta_def Let_def
  by (intro rstep.keeps_intros rstep_io rstep_legacy rstep_delta)

lemma in_tree_full_path: "pfx \<noteq> [] \<Longrightarrow> in_tree pfx (full_path pfx p)"
  by (auto simp: full_path_def in_tree_def HasPrefix_iff)

text \<open>The rows that a session may write or delete.\<close>

definition in_root :: "string \<Rightarrow> string \<Rightarrow> bool" where
  "in_root pfx q \<longleftrightarrow> pfx = [] \<or> in_tree pfx q"

lemma in_root_full_path: "in_root pfx (full_path pfx p)"
  using in_tree_full_path by (auto simp: in_root_def)

lemma TrimSuffix_slash: "TrimSuffix s ''/'' = (if HasSuffix s ''/'' then butlast s else s)"
  by (simp add: TrimSuffix_def butlast_conv_take)

lemma in_root_trimmed:
  assumes "\<not> HasSuffix pfx ''/''"
  shows "in_root pfx (TrimSuffix (full_path pfx p) ''/'')"
proof (cases "pfx = [] \<or> p = []")
  case True
  then show ?thesis using assms by (auto simp: in_root_def in_tree_def full_path_def TrimSuffix_def)
next
  case False
  then have "butlast (pfx @ ''/'' @ p) = pfx @ ''/'' @ butlast p" by (simp add: butlast_append)
  then show ?thesis using False in_root_full_path [of pfx p]
    by (auto simp: TrimSuffix_slash full_path_def in_root_def in_tree_def HasPrefix_iff)
qed

lemma rstep_applyStaticEntry:
  "P path \<Longrightarrow> P (TrimSuffix path ''/'') \<Longrightarrow> rstep.keeps E P (applyStaticEntry e path)"
  unfolding applyStaticEntry_def by (intro rstep.keeps_intros rstep_supsert) (simp_all add: static_row_def)

text \<open>A backup of an entry writes below the transfer root or not at all.\<close>

lemma rstep_process_file: "rstep.keeps E (in_root pfx) (process_file E quote keep neg pfx i e)"
proof -
  have "rstep.keeps E (in_root pfx) (supsert (regular_row (full_path pfx (fe_path e)) e) refs)" for refs
    by (rule rstep_supsert) (simp add: regular_row_def in_root_full_path)
  then show ?thesis
    unfolding process_file_def
    by (intro rstep.keeps_intros rstep_receiveFileDelta)
      (auto intro!: rstep.keeps_intros rstep_io split: sum.splits goerr.splits)
qed

lemma rstep_process_entry:
  assumes "\<not> HasSuffix pfx ''/''"
  shows "rstep.keeps E (in_root pfx) (process_entry E quote keep neg pfx i e)"
proof -
  have st: "rstep.keeps E (in_root pfx) (applyStaticEntry e (full_path pfx p))" for p
    by (rule rstep_applyStaticEntry) (simp_all add: in_root_full_path in_root_trimmed [OF assms])
  have "rstep.keeps E (in_root pfx) (applyStaticEntry e pfx)" if "pfx \<noteq> []"
    using st [of "[]"] that by (simp add: full_path_def)
  then show ?thesis
    unfolding process_entry_def
    by (intro rstep.keeps_intros rstep_io rstep_process_file st) simp_all
qed

lemma rstep_process_entries:
  assumes "\<not> HasSuffix pfx ''/''"
  shows "rstep.keeps E (in_root pfx) (process_entries E quote keep neg pfx i es)"
proof (induction es arbitrary: i)
  case (Cons e es)
  then show ?case
    unfolding process_entries.simps by (intro rstep.keeps_intros rstep_io rstep_process_entry assms)
qed (simp only: process_entries.simps rstep.keeps_sret)

lemma rstep_delete_rows:
  assumes "\<And>row. row \<in> set rows \<Longrightarrow> P (fr_path row)"
  shows "rstep.keeps E P (delete_rows_not_in keep C rows)"
  using assms
proof (induction rows)
  case (Cons row rows)
  then have "rstep.keeps E P (delete_rows_not_in keep C rows)" "P (fr_path row)" by simp_all
  then show ?case
    unfolding delete_rows_not_in.simps by (intro rstep.keeps_intros rstep_io rstep_sdelete)
qed (simp only: delete_rows_not_in.simps rstep.keeps_sret)

lemma rstep_delete_phase: "rstep.keeps E (in_root pfx) (delete_phase keep neg pfx ioe es)"
proof -
  have "in_root pfx (fr_path row)" if "row \<in> set (FileRows pfx db)" for row db
    using that by (auto simp: FileRows_def in_root_def in_tree_def split: if_splits)
  then have "repo_step E (in_root pfx) s (snd (delete_rows_not_in keep C (FileRows pfx (rp_db (se_repo s))) s))" for C and s :: sess
    using rstep_delete_rows [of "FileRows pfx (rp_db (se_repo s))" "in_root pfx" E keep C] unfolding rstep.keeps_def by blast
  then have "rstep.keeps E (in_root pfx) (sbind (sget (\<lambda>s. FileRows pfx (rp_db (se_repo s)))) (delete_rows_not_in keep C))" for C
    unfolding rstep.keeps_def by (simp add: sbind_def sget_def)
  then show ?thesis unfolding delete_phase_def by (intro rstep.keeps_if rstep.keeps_sret)
qed

lemma modulePrefix_no_slash: "\<not> HasSuffix (modulePrefix arg name) ''/''"
proof -
  have "\<not> HasSuffix (TrimChar CHR ''/'' p) ''/''" for p
  proof
    assume "HasSuffix (TrimChar CHR ''/'' p) ''/''"
    then obtain r where "TrimChar CHR ''/'' p = r @ ''/''" by (auto simp: HasSuffix_iff)
    then have "dropWhile (\<lambda>x. x = CHR ''/'') (rev (dropWhile (\<lambda>x. x = CHR ''/'') p)) = CHR ''/'' # rev r"
      by (simp add: TrimChar_def rev_swap)
    then show False using hd_dropWhile [of "\<lambda>x. x = CHR ''/''" "rev (dropWhile (\<lambda>x. x = CHR ''/'') p)"] by auto
  qed
  then show ?thesis by (auto simp: modulePrefix_def Let_def HasSuffix_iff)
qed

lemma rstep_processSession:
  "rstep.keeps E (in_root (modulePrefix (ngModuleArg neg) (mo_name m))) (processSession E quote keep m neg)"
  unfolding processSession_def Let_def
  by (intro rstep.keeps_intros rstep_io rstep_process_entries rstep_delete_phase modulePrefix_no_slash
      same_recvFilterList [THEN rstep_same] same_recv_entries [THEN rstep_same] same_goodbye [THEN rstep_same])

subsection \<open>Dry run\<close>

lemma same_dry_delta: "ngDryRun neg \<Longrightarrow> same.keeps (receiveFileDelta E keep neg e i pfx)"
  unfolding receiveFileDelta_def Let_def by (intro same.keeps_intros same_simple_io) simp_all

lemma same_dry_file: "ngDryRun neg \<Longrightarrow> same.keeps (process_file E quote keep neg pfx i e)"
  unfolding process_file_def
  by (intro same.keeps_sbind same.keeps_strap same_dry_delta, assumption)
    (auto intro!: same.keeps_intros same_io split: sum.splits goerr.splits)

lemma same_dry_entries: "ngDryRun neg \<Longrightarrow> same.keeps (process_entries E quote keep neg pfx i es)"
proof (induction es arbitrary: i)
  case (Cons e es)
  then have "same.keeps (process_entry E quote keep neg pfx i e)"
    unfolding process_entry_def by (intro same.keeps_intros same_io same_simple_io same_dry_file) simp_all
  then show ?case
    unfolding process_entries.simps by (intro same.keeps_sseq same_io Cons)
qed (simp only: process_entries.simps same.keeps_sret)

lemma same_dry_run:
  assumes "ngDryRun neg"
  shows "same.keeps (processSession E quote keep m neg)"
proof -
  have "delete_phase keep neg pfx ioe es = sret ()" for pfx ioe es using assms by (simp add: delete_phase_def)
  then show ?thesis
    unfolding processSession_def Let_def
    by (simp only:) (intro same.keeps_intros same_io same_recvFilterList same_recv_entries same_goodbye same_dry_entries assms)
qed

end
