(* ===== verification/ReceiverContent.thy ===== *)
theory ReceiverContent
  imports ReceiverSafe
begin

text \<open>
  A client that follows the protocol: the content the receiver puts together from its tokens is the
  content that is stored, in the full and in the delta transfer.
\<close>

subsection \<open>Sessions without faults\<close>

definition env_ok :: "repo_env \<Rightarrow> bytes set \<Rightarrow> bool" where
  "env_ok E U \<longleftrightarrow> aead_laws (re_aead E) \<and> 0 < re_chunk E \<and> inj_on (re_hash E) U"

definition sess_ok :: "repo_env \<Rightarrow> bytes set \<Rightarrow> sess \<Rightarrow> bool" where
  "sess_ok E U s \<longleftrightarrow> repo_ok E (se_repo s) \<and> ups_fresh s \<and> (\<forall>n \<ge> se_upn s. upload_ok (se_ups s n)) \<and>
     stored_plaintexts E (se_repo s) \<subseteq> U \<and> se_room s = None \<and> se_polls s = None"

text \<open>The input stands at \<open>is\<close>, the indices have not moved, and nothing stored was lost.\<close>

definition moved :: "item list \<Rightarrow> sess \<Rightarrow> sess \<Rightarrow> bool" where
  "moved is s s' \<longleftrightarrow> se_in s' = is \<and> se_end s' = se_end s \<and> se_nin s' = se_nin s \<and> se_nout s' = se_nout s \<and>
     extends (se_repo s) (se_repo s')"

lemma moved_trans: "moved is s t \<Longrightarrow> moved js t u \<Longrightarrow> moved js s u"
  unfolding moved_def using extends_trans by auto

lemma moved_read [simp]: "moved is s (s\<lparr>se_in := is\<rparr>)"
  by (simp add: moved_def)

lemma sess_ok_read [simp]: "sess_ok E U (s\<lparr>se_in := is\<rparr>) \<longleftrightarrow> sess_ok E U s"
  by (simp add: sess_ok_def ups_fresh_def)

lemma keep_alive_ok:
  assumes "sess_ok E U s"
  shows "\<exists>s'. keep_alive keep s = (Inr (), s') \<and> sess_ok E U s' \<and> moved (se_in s) s s'"
proof (cases keep)
  case True
  have "keep_alive keep s = (Inr (), s\<lparr>se_room := None, se_out := se_out s @ [(0, [])]\<rparr>)"
    using assms True by (simp add: keep_alive_def signore_def strap_def sseq_def sbind_def semit_def writeFrame_def sess_ok_def sret_def)
  then show ?thesis using assms by (simp add: sess_ok_def ups_fresh_def moved_def)
qed (use assms in \<open>simp add: keep_alive_def sret_def moved_def\<close>)

lemma sctx_ok: "sess_ok E U s \<Longrightarrow> sctx s = (Inr (), s)"
  by (simp add: sctx_def sess_ok_def)

lemma sstore_ok:
  assumes E: "env_ok E U" and s: "sess_ok E U s" and data: "data \<in> U"
  shows "\<exists>i b s'. sstore E data s = (Inr (i, b), s') \<and> sess_ok E U s' \<and> moved (se_in s) s s' \<and> holds E (se_repo s') i data"
proof -
  let ?u = "se_ups s (se_upn s)"
  have u: "length (up_nonce ?u) = 12" "up_name ?u \<notin> blob_names (se_repo s)" "upload_ok ?u"
    using s by (simp_all add: sess_ok_def ups_fresh_def)
  obtain r st where st: "StoreChunk E ?u data (se_repo s) = (r, st)" "extends (se_repo s) st"
    "stored_plaintexts E st \<subseteq> insert data (stored_plaintexts E (se_repo s))"
    "\<forall>i b. r = Inr (i, b) \<longrightarrow> (\<exists>pt. holds E st i pt \<and> re_hash E pt = re_hash E data)" "\<exists>i b. r = Inr (i, b)"
    using StoreChunk_any [OF _ _ u(1,2), of E data] s E u(3) by (auto simp: sess_ok_def env_ok_def)
  then obtain i b where r: "r = Inr (i, b)" by blast
  then obtain pt where pt: "holds E st i pt" "re_hash E pt = re_hash E data" using st(4) by blast
  have U: "stored_plaintexts E st \<subseteq> U" using st(3) s data by (auto simp: sess_ok_def)
  then have "pt \<in> U" using pt(1) by (auto simp: holds_def stored_plaintexts_def)
  then have "pt = data" using pt(2) E data by (auto simp: env_ok_def dest: inj_onD)
  define s' where "s' = s\<lparr>se_repo := st, se_upn := se_upn s + 1\<rparr>"
  have run: "sstore E data s = (Inr (i, b), s')" using st(1) r by (simp add: sstore_def s'_def)
  have "repo_step E (\<lambda>_. False) s s'" using rstep_sstore run unfolding rstep.keeps_def by (metis snd_conv)
  then have "repo_ok E st \<and> ups_fresh s'" using s E by (simp add: repo_step_def sess_ok_def env_ok_def s'_def)
  then have "sess_ok E U s'" using s U by (simp add: sess_ok_def s'_def)
  then show ?thesis using run pt(1) \<open>pt = data\<close> st(2) by (intro exI conjI) (auto simp: moved_def s'_def)
qed

subsection \<open>The chunks stored so far\<close>

definition refs_hold :: "repo_env \<Rightarrow> repo \<Rightarrow> chunk_ref list \<Rightarrow> bytes list \<Rightarrow> bool" where
  "refs_hold E st refs cs \<longleftrightarrow> (\<exists>c. refs = map (\<lambda>i. (c i, int i)) [0..<length cs] \<and> (\<forall>i < length cs. holds E st (c i) (cs ! i)))"

lemma refs_hold_Nil: "refs_hold E st [] []"
  by (simp add: refs_hold_def)

lemma refs_hold_extends: "refs_hold E st refs cs \<Longrightarrow> extends st st' \<Longrightarrow> refs_hold E st' refs cs"
  unfolding refs_hold_def using holds_extends by blast

lemma refs_hold_snoc:
  assumes "refs_hold E st refs cs" "holds E st i d"
  shows "refs_hold E st (refs @ [(i, int (length refs))]) (cs @ [d])"
proof -
  obtain c where "refs = map (\<lambda>i. (c i, int i)) [0..<length cs]" "\<forall>i < length cs. holds E st (c i) (cs ! i)"
    using assms(1) by (auto simp: refs_hold_def)
  then show ?thesis using assms(2)
    unfolding refs_hold_def by (intro exI [of _ "c(length cs := i)"]) (auto simp: nth_append less_Suc_eq)
qed

text \<open>What a step of the loop does not touch.\<close>

definition same_rest :: "file_acc \<Rightarrow> file_acc \<Rightarrow> bool" where
  "same_rest a a' \<longleftrightarrow> fa_br a' = fa_br a \<and> fa_consumed a' = fa_consumed a \<and> fs_badSum (fa_st a') = fs_badSum (fa_st a)"

lemma same_rest_trans: "same_rest a b \<Longrightarrow> same_rest b c \<Longrightarrow> same_rest a c"
  by (simp add: same_rest_def)

lemma store_piece_ok:
  assumes "env_ok E U" "sess_ok E U s" "d \<in> U" "refs_hold E (se_repo s) (fa_refs acc) cs"
  shows "\<exists>acc' s'. store_piece E d acc s = (Inr acc', s') \<and> sess_ok E U s' \<and> moved (se_in s) s s' \<and>
    refs_hold E (se_repo s') (fa_refs acc') (cs @ [d]) \<and> same_rest acc acc' \<and> fa_data acc' = fa_data acc \<and> fa_hashed acc' = fa_hashed acc"
proof -
  obtain i b s' where s': "sstore E d s = (Inr (i, b), s')" "sess_ok E U s'" "moved (se_in s) s s'" "holds E (se_repo s') i d"
    using sstore_ok [OF assms(1-3)] by blast
  have "refs_hold E (se_repo s') (fa_refs acc) cs" using refs_hold_extends [OF assms(4)] s'(3) by (simp add: moved_def)
  from refs_hold_snoc [OF this s'(4)] s' show ?thesis
    by (simp add: store_piece_def sbind_step sret_step same_rest_def)
qed

lemma flush_ok:
  assumes "env_ok E U" "sess_ok E U s" "fa_data acc = [] \<or> fa_data acc \<in> U" "refs_hold E (se_repo s) (fa_refs acc) cs"
  shows "\<exists>acc' s'. flush E keep acc s = (Inr acc', s') \<and> sess_ok E U s' \<and> moved (se_in s) s s' \<and>
    refs_hold E (se_repo s') (fa_refs acc') (cs @ (if fa_data acc = [] then [] else [fa_data acc])) \<and>
    same_rest acc acc' \<and> fa_data acc' = [] \<and> fa_hashed acc' = fa_hashed acc"
proof (cases "fa_data acc = []")
  case True
  then show ?thesis using assms by (simp add: flush_def sret_step moved_def same_rest_def)
next
  case False
  obtain s1 where s1: "keep_alive keep s = (Inr (), s1)" "sess_ok E U s1" "moved (se_in s) s s1"
    using keep_alive_ok [OF assms(2)] by blast
  have "refs_hold E (se_repo s1) (fa_refs acc) cs" using refs_hold_extends [OF assms(4)] s1(3) by (simp add: moved_def)
  from store_piece_ok [OF assms(1) s1(2) _ this, of "fa_data acc"] assms(3) False
  obtain acc' s' where a: "store_piece E (fa_data acc) acc s1 = (Inr acc', s')" "sess_ok E U s'" "moved (se_in s1) s1 s'"
    "refs_hold E (se_repo s') (fa_refs acc') (cs @ [fa_data acc])" "same_rest acc acc'" "fa_hashed acc' = fa_hashed acc" by blast
  have "flush E keep acc s = (Inr (acc'\<lparr>fa_data := []\<rparr>), s')"
    using False s1(1) a(1) by (simp add: flush_def sseq_step sbind_step sret_step)
  moreover have "moved (se_in s) s s'" using moved_trans [OF s1(3)] a(3) s1(3) by (simp add: moved_def)
  ultimately show ?thesis using a False by (simp add: same_rest_def)
qed

text \<open>The state between two rounds: full chunks are stored, less than a chunk is waiting.\<close>

definition acc_ok :: "repo_env \<Rightarrow> repo \<Rightarrow> file_acc \<Rightarrow> bytes list \<Rightarrow> bool" where
  "acc_ok E st acc cs \<longleftrightarrow> refs_hold E st (fa_refs acc) cs \<and> (\<forall>x \<in> set cs. length x = re_chunk E) \<and>
     length (fa_data acc) < re_chunk E \<and> fa_hashed acc = concat cs @ fa_data acc"

lemma piece_in_chunks:
  assumes "0 < c" "\<forall>x \<in> set cs. length x = c" "d \<noteq> []" "length d = c \<or> length d < c \<and> rst = []"
  shows "d \<in> set (chunks_of c (concat cs @ d @ rst))"
proof (cases "length d = c")
  case True
  have "chunks_of c (concat (cs @ [d]) @ rst) = (cs @ [d]) @ chunks_of c rst"
    by (rule chunks_of_append) (use assms(1,2) True in auto)
  then show ?thesis by simp
next
  case False
  then show ?thesis using assms by (simp add: chunks_of_append chunks_of_short)
qed

lemma read_literal_ok:
  assumes "env_ok E U" "sess_ok E U s" "acc_ok E (se_repo s) acc cs" "se_in s = map Data bs @ is" "length bs < k"
    and "set (chunks_of (re_chunk E) (fa_hashed acc @ bs @ rst)) \<subseteq> U"
  shows "\<exists>acc' s' cs'. read_literal k E keep (length bs) acc s = (Inr acc', s') \<and> sess_ok E U s' \<and> moved is s s' \<and>
    acc_ok E (se_repo s') acc' cs' \<and> fa_hashed acc' = fa_hashed acc @ bs \<and> same_rest acc acc'"
  using assms(2-6)
proof (induction k arbitrary: bs acc s cs)
  case (Suc k)
  let ?c = "re_chunk E"
  have c: "0 < ?c" using assms(1) by (simp add: env_ok_def)
  show ?case
  proof (cases "bs = []")
    case True
    then show ?thesis using Suc.prems by (auto simp: sret_step moved_def same_rest_def)
  next
    case False
    define t where "t = min (length bs) (?c - length (fa_data acc))"
    have t: "0 < t" "t \<le> length bs" using False Suc.prems(2) by (auto simp: t_def acc_ok_def)
    let ?p = "take t bs" and ?q = "drop t bs"
    have pq: "?p @ ?q @ rst = bs @ rst" by (simp flip: append_assoc)
    let ?acc1 = "acc\<lparr>fa_data := fa_data acc @ ?p, fa_hashed := fa_hashed acc @ ?p\<rparr>"
    let ?s1 = "s\<lparr>se_in := map Data ?q @ is\<rparr>"
    have "se_in s = map Data ?p @ map Data ?q @ is"
      using Suc.prems(3) by (metis append.assoc append_take_drop_id map_append)
    from sread_data [OF this, of "read_full t"] t have rd: "sread (read_full t) s = (Inr ?p, ?s1)"
      by (simp add: read_full_append)
    have cs: "\<forall>x \<in> set cs. length x = ?c" "fa_hashed acc = concat cs @ fa_data acc" "refs_hold E (se_repo s) (fa_refs acc) cs"
      using Suc.prems(2) by (simp_all add: acc_ok_def)
    have ok1: "sess_ok E U ?s1" using Suc.prems(1) by simp
    let ?m = "if length (fa_data ?acc1) = ?c then flush E keep ?acc1 else sret ?acc1"
    have "\<exists>acc2 s2 cs2. ?m ?s1 = (Inr acc2, s2) \<and> sess_ok E U s2 \<and> moved (se_in ?s1) ?s1 s2 \<and>
       acc_ok E (se_repo s2) acc2 cs2 \<and> fa_hashed acc2 = fa_hashed acc @ ?p \<and> same_rest acc acc2"
    proof (cases "length (fa_data ?acc1) = ?c")
      case True
      have "fa_data ?acc1 \<in> set (chunks_of ?c (concat cs @ fa_data ?acc1 @ ?q @ rst))"
        using True c t by (intro piece_in_chunks [OF c cs(1)]) auto
      then have "fa_data ?acc1 \<in> U" using Suc.prems(5) cs(2) pq by auto
      then obtain acc2 s2 where "flush E keep ?acc1 ?s1 = (Inr acc2, s2)" "sess_ok E U s2" "moved (se_in ?s1) ?s1 s2"
        "refs_hold E (se_repo s2) (fa_refs acc2) (cs @ [fa_data ?acc1])" "same_rest ?acc1 acc2" "fa_data acc2 = []"
        "fa_hashed acc2 = fa_hashed ?acc1"
        using flush_ok [OF assms(1) ok1, of ?acc1 cs keep] cs(3) t False by (auto split: if_splits)
      then show ?thesis using True cs c
        by (intro exI [of _ acc2] exI [of _ s2] exI [of _ "cs @ [fa_data ?acc1]"]) (auto simp: acc_ok_def same_rest_def)
    next
      case no: False
      then have "length (fa_data ?acc1) < ?c" using Suc.prems(2) by (auto simp: t_def acc_ok_def)
      then show ?thesis using no cs ok1
        by (intro exI [of _ ?acc1] exI [of _ ?s1] exI [of _ cs]) (auto simp: acc_ok_def same_rest_def sret_step moved_def)
    qed
    then obtain acc2 s2 cs2 where a2: "?m ?s1 = (Inr acc2, s2)" "sess_ok E U s2" "moved (se_in ?s1) ?s1 s2"
       "acc_ok E (se_repo s2) acc2 cs2" "fa_hashed acc2 = fa_hashed acc @ ?p" "same_rest acc acc2" by blast
    have in2: "se_in s2 = map Data ?q @ is" using a2(3) by (simp add: moved_def)
    have "\<exists>acc' s' cs'. read_literal k E keep (length ?q) acc2 s2 = (Inr acc', s') \<and> sess_ok E U s' \<and> moved is s2 s' \<and>
      acc_ok E (se_repo s') acc' cs' \<and> fa_hashed acc' = fa_hashed acc2 @ ?q \<and> same_rest acc2 acc'"
    proof (rule Suc.IH [OF a2(2,4) in2])
      show "set (chunks_of (re_chunk E) (fa_hashed acc2 @ ?q @ rst)) \<subseteq> U"
        using Suc.prems(5) unfolding a2(5) append_assoc pq .
    qed (use Suc.prems(4) t in simp)
    then obtain acc' s' cs' where a': "read_literal k E keep (length ?q) acc2 s2 = (Inr acc', s')" "sess_ok E U s'"
      "moved is s2 s'" "acc_ok E (se_repo s') acc' cs'" "fa_hashed acc' = fa_hashed acc2 @ ?q" "same_rest acc2 acc'" by blast
    have "sbind ?m (read_literal k E keep (length bs - t)) ?s1 = (Inr acc', s')"
      unfolding sbind_def a2(1) using a'(1) by simp
    then have "read_literal (Suc k) E keep (length bs) acc s = (Inr acc', s')"
      unfolding read_literal.simps Let_def t_def [symmetric]
      using False by (simp only: length_0_conv if_False sbind_step(1) [of "sread (read_full t)" s, OF rd])
    moreover have "moved is s s'"
      by (rule moved_trans [OF moved_trans [OF moved_read a2(3)] a'(3)])
    moreover have "fa_hashed acc' = fa_hashed acc @ bs" using a'(5) a2(5) by simp
    ultimately show ?thesis using a' same_rest_trans [OF a2(6) a'(6)] by blast
  qed
qed simp

lemma flush_full_ok:
  assumes "env_ok E U" "sess_ok E U s" "refs_hold E (se_repo s) (fa_refs acc) cs" "\<forall>x \<in> set cs. length x = re_chunk E"
    and "fa_hashed acc = concat cs @ fa_data acc" "length (fa_data acc) < k"
    and "set (chunks_of (re_chunk E) (fa_hashed acc @ rst)) \<subseteq> U"
  shows "\<exists>acc' s' cs'. flush_full k E acc s = (Inr acc', s') \<and> sess_ok E U s' \<and> moved (se_in s) s s' \<and>
    acc_ok E (se_repo s') acc' cs' \<and> fa_hashed acc' = fa_hashed acc \<and> same_rest acc acc'"
  using assms(2-7)
proof (induction k arbitrary: acc s cs)
  case (Suc k)
  let ?c = "re_chunk E"
  have c: "0 < ?c" using assms(1) by (simp add: env_ok_def)
  show ?case
  proof (cases "length (fa_data acc) < ?c")
    case True
    then show ?thesis using Suc.prems
      by (intro exI [of _ acc] exI [of _ s] exI [of _ cs]) (simp add: sret_step moved_def same_rest_def acc_ok_def)
  next
    case False
    let ?d = "take ?c (fa_data acc)" and ?r = "drop ?c (fa_data acc)"
    have d: "length ?d = ?c" using False by simp
    have "?d \<in> set (chunks_of ?c (concat cs @ ?d @ ?r @ rst))"
      using d c by (intro piece_in_chunks [OF c Suc.prems(3)]) auto
    moreover have dr: "?d @ ?r @ rst = fa_data acc @ rst" by (simp flip: append_assoc)
    ultimately have "?d \<in> U" using Suc.prems(4,6) by auto
    from store_piece_ok [OF assms(1) Suc.prems(1) this Suc.prems(2)]
    obtain acc1 s1 where a1: "store_piece E ?d acc s = (Inr acc1, s1)" "sess_ok E U s1" "moved (se_in s) s s1"
      "refs_hold E (se_repo s1) (fa_refs acc1) (cs @ [?d])" "same_rest acc acc1" "fa_hashed acc1 = fa_hashed acc" by blast
    let ?acc2 = "acc1\<lparr>fa_data := ?r\<rparr>"
    have "\<exists>acc' s' cs'. flush_full k E ?acc2 s1 = (Inr acc', s') \<and> sess_ok E U s' \<and> moved (se_in s1) s1 s' \<and>
      acc_ok E (se_repo s') acc' cs' \<and> fa_hashed acc' = fa_hashed ?acc2 \<and> same_rest ?acc2 acc'"
      by (rule Suc.IH [of s1 ?acc2 "cs @ [?d]"]) (use Suc.prems False c a1 d in auto)
    then obtain acc' s' cs' where a': "flush_full k E ?acc2 s1 = (Inr acc', s')" "sess_ok E U s'" "moved (se_in s1) s1 s'"
      "acc_ok E (se_repo s') acc' cs'" "fa_hashed acc' = fa_hashed acc" "same_rest ?acc2 acc'" using a1(6) by auto
    have "flush_full (Suc k) E acc s = (Inr acc', s')" using False a1(1) a'(1) by (simp add: sbind_step)
    moreover have "moved (se_in s) s s'" using moved_trans [OF a1(3) a'(3)] a1(3) by (simp add: moved_def)
    moreover have "same_rest acc acc'" using a1(5) a'(6) by (simp add: same_rest_def)
    ultimately show ?thesis using a' by blast
  qed
qed simp

subsection \<open>Tokens\<close>

datatype token = Lit bytes | Match nat

definition match_token :: "nat \<Rightarrow> int32" where
  "match_token b = word_of_int (- int b - 1)"

fun token_bytes :: "token \<Rightarrow> bytes" where
  "token_bytes (Lit bs) = WriteInt32 (word_of_nat (length bs)) @ bs"
| "token_bytes (Match b) = WriteInt32 (match_token b)"

fun token_data :: "(nat \<Rightarrow> bytes) \<Rightarrow> token \<Rightarrow> bytes" where
  "token_data blk (Lit bs) = bs"
| "token_data blk (Match b) = blk b"

text \<open>The tokens a sender may send: literals of at most 32 MiB, and matches of growing blocks.\<close>

fun tokens_ok :: "nat \<Rightarrow> nat \<Rightarrow> token list \<Rightarrow> bool" where
  "tokens_ok cnt n [] = True"
| "tokens_ok cnt n (Lit bs # ts) = (bs \<noteq> [] \<and> length bs \<le> 32 * 2 ^ 20 \<and> tokens_ok cnt n ts)"
| "tokens_ok cnt n (Match b # ts) = (n \<le> b \<and> b < cnt \<and> tokens_ok cnt (Suc b) ts)"

definition tokens_bytes :: "token list \<Rightarrow> bytes" where
  "tokens_bytes ts = concat (map token_bytes ts) @ WriteInt32 0"

definition tokens_data :: "(nat \<Rightarrow> bytes) \<Rightarrow> token list \<Rightarrow> bytes" where
  "tokens_data blk ts = concat (map (token_data blk) ts)"

lemma sint_of_int32: "- (2 ^ 31) \<le> x \<Longrightarrow> x < 2 ^ 31 \<Longrightarrow> sint (word_of_int x :: int32) = x"
  by (simp add: signed_of_int signed_take_bit_int_eq_self)

lemma sint_small: "n < 2 ^ 31 \<Longrightarrow> sint (word_of_nat n :: int32) = int n"
  using sint_of_int32 [of "int n"] by simp

lemma sint_match_token: "b < 2 ^ 31 \<Longrightarrow> sint (match_token b) = - int b - 1"
  unfolding match_token_def by (rule sint_of_int32) simp_all

lemma sint_neg_match_token:
  assumes "b < 2 ^ 31 - 1"
  shows "sint (- match_token b) = int b + 1"
proof -
  have "- match_token b = word_of_int (int b + 1)" by (simp add: match_token_def)
  with sint_of_int32 [of "int b + 1"] assms show ?thesis by simp
qed

lemma sread_int32: "se_in s = map Data (WriteInt32 v @ bs) @ is \<Longrightarrow> sread ReadInt32 s = (Inr v, s\<lparr>se_in := map Data bs @ is\<rparr>)"
  by (rule sread_data [of s "WriteInt32 v" "map Data bs @ is"]) (simp_all add: ReadInt32_WriteInt32)

lemma length_tokens: "length ts \<le> length (concat (map token_bytes ts))"
proof (induction ts)
  case (Cons t ts)
  then show ?case by (cases t) (simp_all add: WriteInt32_def)
qed simp

text \<open>
  What a match token has to do: append the block.  \<open>J\<close> says where the reader of the old file may stand
  before block \<open>n\<close>, \<open>K\<close> what the repository has to hold for it.
\<close>

definition match_ok :: "repo_env \<Rightarrow> bytes set \<Rightarrow> (nat \<Rightarrow> basis_reader \<Rightarrow> int \<Rightarrow> bool) \<Rightarrow> (repo \<Rightarrow> bool) \<Rightarrow> nat \<Rightarrow> (nat \<Rightarrow> bytes) \<Rightarrow>
    (int32 \<Rightarrow> file_acc \<Rightarrow> file_acc step) \<Rightarrow> bool" where
  "match_ok E U J K cnt blk m \<longleftrightarrow> (\<forall>b n acc s cs rst. n \<le> b \<and> b < cnt \<and> J n (fa_br acc) (fa_consumed acc) \<and> K (se_repo s) \<and>
     sess_ok E U s \<and> acc_ok E (se_repo s) acc cs \<and> set (chunks_of (re_chunk E) (fa_hashed acc @ blk b @ rst)) \<subseteq> U \<longrightarrow>
     (\<exists>acc' s' cs'. m (match_token b) acc s = (Inr acc', s') \<and> sess_ok E U s' \<and> moved (se_in s) s s' \<and>
        acc_ok E (se_repo s') acc' cs' \<and> fa_hashed acc' = fa_hashed acc @ blk b \<and>
        J (Suc b) (fa_br acc') (fa_consumed acc') \<and> fs_badSum (fa_st acc') = fs_badSum (fa_st acc)))"

lemma token_loop_ok:
  assumes E: "env_ok E U" and m: "match_ok E U J K cnt blk m" and cnt: "cnt \<le> 2 ^ 24"
    and J: "\<And>n n' b c. J n b c \<Longrightarrow> n \<le> n' \<Longrightarrow> J n' b c" and K: "\<And>st st'. K st \<Longrightarrow> extends st st' \<Longrightarrow> repo_ok E st \<Longrightarrow> repo_ok E st' \<Longrightarrow> K st'"
    and "sess_ok E U s" "acc_ok E (se_repo s) acc cs" "K (se_repo s)" "J n (fa_br acc) (fa_consumed acc)" "tokens_ok cnt n ts"
    and "se_in s = map Data (tokens_bytes ts) @ is" "length ts < k"
    and "set (chunks_of (re_chunk E) (fa_hashed acc @ tokens_data blk ts)) \<subseteq> U"
  shows "\<exists>acc' s' cs'. token_loop k E keep m acc s = (Inr acc', s') \<and> sess_ok E U s' \<and> moved is s s' \<and>
    acc_ok E (se_repo s') acc' cs' \<and> fa_hashed acc' = fa_hashed acc @ tokens_data blk ts \<and> fs_badSum (fa_st acc') = fs_badSum (fa_st acc)"
  using assms(6-)
proof (induction ts arbitrary: k acc s cs n)
  case Nil
  then obtain k' where k: "k = Suc k'" by (cases k) auto
  have "se_in s = map Data (WriteInt32 0 @ []) @ is" using Nil.prems(6) by (simp add: tokens_bytes_def)
  from sread_int32 [OF this] have rd: "sread ReadInt32 s = (Inr 0, s\<lparr>se_in := is\<rparr>)" by simp
  have "token_loop k E keep m acc s = (Inr acc, s\<lparr>se_in := is\<rparr>)"
    unfolding k token_loop.simps by (simp add: sseq_def sbind_def sctx_ok [OF Nil.prems(1)] rd sret_def)
  then show ?case using Nil.prems(1,2) by (auto simp: tokens_data_def)
next
  case (Cons t ts)
  then obtain k' where k: "k = Suc k'" by (cases k) auto
  note sctx = sctx_ok [OF Cons.prems(1)]
  show ?case
  proof (cases t)
    case (Lit bs)
    have bs: "bs \<noteq> []" "length bs \<le> 32 * 2 ^ 20" "tokens_ok cnt n ts" using Cons.prems(5) Lit by simp_all
    let ?tok = "word_of_nat (length bs) :: int32" and ?s1 = "s\<lparr>se_in := map Data bs @ map Data (tokens_bytes ts) @ is\<rparr>"
    have si: "sint ?tok = int (length bs)" using bs(2) by (intro sint_small) simp
    then have nz: "?tok \<noteq> 0" using bs(1) by (metis length_0_conv of_nat_eq_0_iff signed_0)
    have "se_in s = map Data (WriteInt32 ?tok @ bs) @ map Data (tokens_bytes ts) @ is"
      using Cons.prems(6) Lit by (simp add: tokens_bytes_def)
    from sread_int32 [OF this] have rd: "sread ReadInt32 s = (Inr ?tok, ?s1)" by simp
    let ?acc1 = "add_literal (int (length bs)) acc"
    have td: "tokens_data blk (t # ts) = bs @ tokens_data blk ts" using Lit by (simp add: tokens_data_def)
    have "\<exists>acc' s' cs'. read_literal (Suc (length bs)) E keep (length bs) ?acc1 ?s1 = (Inr acc', s') \<and> sess_ok E U s' \<and>
      moved (map Data (tokens_bytes ts) @ is) ?s1 s' \<and> acc_ok E (se_repo s') acc' cs' \<and> fa_hashed acc' = fa_hashed ?acc1 @ bs \<and> same_rest ?acc1 acc'"
      by (rule read_literal_ok [OF E, of ?s1 ?acc1 cs bs _ _ "tokens_data blk ts"])
        (use Cons.prems(1,2,8) td in \<open>simp_all add: add_literal_def acc_ok_def\<close>)
    then obtain acc2 s2 cs2 where a2: "read_literal (Suc (length bs)) E keep (length bs) ?acc1 ?s1 = (Inr acc2, s2)" "sess_ok E U s2"
      "moved (map Data (tokens_bytes ts) @ is) ?s1 s2" "acc_ok E (se_repo s2) acc2 cs2" "fa_hashed acc2 = fa_hashed acc @ bs" "same_rest acc acc2"
      by (auto simp: add_literal_def same_rest_def)
    have K2: "K (se_repo s2)" by (rule K [OF Cons.prems(3)]) (use a2 Cons.prems(1) in \<open>auto simp: moved_def sess_ok_def\<close>)
    have "\<exists>acc' s' cs'. token_loop k' E keep m acc2 s2 = (Inr acc', s') \<and> sess_ok E U s' \<and> moved is s2 s' \<and>
      acc_ok E (se_repo s') acc' cs' \<and> fa_hashed acc' = fa_hashed acc2 @ tokens_data blk ts \<and> fs_badSum (fa_st acc') = fs_badSum (fa_st acc2)"
      by (rule Cons.IH [OF a2(2,4) K2 _ bs(3)]) (use a2 Cons.prems td k in \<open>simp_all add: moved_def same_rest_def\<close>)
    then obtain acc' s' cs' where a': "token_loop k' E keep m acc2 s2 = (Inr acc', s')" "sess_ok E U s'" "moved is s2 s'"
      "acc_ok E (se_repo s') acc' cs'" "fa_hashed acc' = fa_hashed acc2 @ tokens_data blk ts" "fs_badSum (fa_st acc') = fs_badSum (fa_st acc2)" by blast
    have "token_loop k E keep m acc s = (Inr acc', s')"
      unfolding k token_loop.simps
      by (simp add: sseq_def sbind_def sctx rd nz si a2(1) a'(1) bs(2) Let_def del: read_literal.simps) (use bs(2) in simp)
    moreover have "moved is s s'" by (rule moved_trans [OF moved_trans [OF moved_read a2(3)] a'(3)])
    ultimately show ?thesis using a' a2 td by (auto simp: same_rest_def)
  next
    case (Match b)
    have b: "n \<le> b" "b < cnt" "tokens_ok cnt (Suc b) ts" using Cons.prems(5) Match by simp_all
    let ?s1 = "s\<lparr>se_in := map Data (tokens_bytes ts) @ is\<rparr>"
    have si: "sint (match_token b) = - int b - 1" using b cnt by (intro sint_match_token) simp
    then have nz: "match_token b \<noteq> 0" by auto
    have "se_in s = map Data (WriteInt32 (match_token b) @ tokens_bytes ts) @ is"
      using Cons.prems(6) Match by (simp add: tokens_bytes_def)
    from sread_int32 [OF this] have rd: "sread ReadInt32 s = (Inr (match_token b), ?s1)" by simp
    have td: "tokens_data blk (t # ts) = blk b @ tokens_data blk ts" using Match by (simp add: tokens_data_def)
    have "set (chunks_of (re_chunk E) (fa_hashed acc @ blk b @ tokens_data blk ts)) \<subseteq> U" using Cons.prems(8) td by simp
    then obtain acc2 s2 cs2 where a2: "m (match_token b) acc ?s1 = (Inr acc2, s2)" "sess_ok E U s2" "moved (se_in ?s1) ?s1 s2"
      "acc_ok E (se_repo s2) acc2 cs2" "fa_hashed acc2 = fa_hashed acc @ blk b" "J (Suc b) (fa_br acc2) (fa_consumed acc2)"
      "fs_badSum (fa_st acc2) = fs_badSum (fa_st acc)"
      using m [unfolded match_ok_def, rule_format, of n b acc ?s1 cs "tokens_data blk ts"] b(1,2) Cons.prems(1-4) by auto
    have K2: "K (se_repo s2)" by (rule K [OF Cons.prems(3)]) (use a2 Cons.prems(1) in \<open>auto simp: moved_def sess_ok_def\<close>)
    have "\<exists>acc' s' cs'. token_loop k' E keep m acc2 s2 = (Inr acc', s') \<and> sess_ok E U s' \<and> moved is s2 s' \<and>
      acc_ok E (se_repo s') acc' cs' \<and> fa_hashed acc' = fa_hashed acc2 @ tokens_data blk ts \<and> fs_badSum (fa_st acc') = fs_badSum (fa_st acc2)"
      by (rule Cons.IH [OF a2(2,4) K2 a2(6) b(3)]) (use a2 Cons.prems td k in \<open>simp_all add: moved_def\<close>)
    then obtain acc' s' cs' where a': "token_loop k' E keep m acc2 s2 = (Inr acc', s')" "sess_ok E U s'" "moved is s2 s'"
      "acc_ok E (se_repo s') acc' cs'" "fa_hashed acc' = fa_hashed acc2 @ tokens_data blk ts" "fs_badSum (fa_st acc') = fs_badSum (fa_st acc2)" by blast
    have "token_loop k E keep m acc s = (Inr acc', s')"
      unfolding k token_loop.simps by (simp add: sseq_def sbind_def sctx rd nz si a2(1) a'(1))
    moreover have "moved is s s'" by (rule moved_trans [OF moved_trans [OF moved_read a2(3)] a'(3)])
    ultimately show ?thesis using a' a2 td by auto
  qed
qed

lemma read_tokens_ok:
  assumes "env_ok E U" "match_ok E U J K cnt blk m" "cnt \<le> 2 ^ 24"
    "\<And>n n' b c. J n b c \<Longrightarrow> n \<le> n' \<Longrightarrow> J n' b c" "\<And>st st'. K st \<Longrightarrow> extends st st' \<Longrightarrow> repo_ok E st \<Longrightarrow> repo_ok E st' \<Longrightarrow> K st'"
    and "sess_ok E U s" "acc_ok E (se_repo s) acc cs" "K (se_repo s)" "J n (fa_br acc) (fa_consumed acc)" "tokens_ok cnt n ts"
    and in_s: "se_in s = map Data (tokens_bytes ts) @ is"
    and "set (chunks_of (re_chunk E) (fa_hashed acc @ tokens_data blk ts)) \<subseteq> U"
  shows "\<exists>acc' s' cs'. read_tokens E keep m acc s = (Inr acc', s') \<and> sess_ok E U s' \<and> moved is s s' \<and>
    acc_ok E (se_repo s') acc' cs' \<and> fa_hashed acc' = fa_hashed acc @ tokens_data blk ts \<and> fs_badSum (fa_st acc') = fs_badSum (fa_st acc)"
proof -
  have fuel: "length ts < Suc (length (se_in s))" using length_tokens [of ts] by (simp add: in_s tokens_bytes_def)
  show ?thesis
    unfolding read_tokens_def by (rule token_loop_ok [OF assms(1-3) _ _ assms(6-11) fuel assms(12)]) (fact assms(4), fact assms(5))
qed

lemma file_end_any:
  assumes E: "env_ok E U" and s: "sess_ok E U s" and acc: "acc_ok E (se_repo s) acc cs" "fs_badSum (fa_st acc) = False"
    and U: "set (chunks_of (re_chunk E) (fa_hashed acc)) \<subseteq> U" and in_s: "se_in s = map Data md @ is" "length md = 16"
  shows "\<exists>refs st s'. file_end E keep acc s = (Inr (refs, st), s') \<and> sess_ok E U s' \<and> moved is s s' \<and>
    fs_badSum st = (re_md5 E (fa_hashed acc) \<noteq> md) \<and>
    (re_md5 E (fa_hashed acc) = md \<longrightarrow> refs_hold E (se_repo s') refs (chunks_of (re_chunk E) (fa_hashed acc)))"
proof -
  let ?last = "if fa_data acc = [] then [] else [fa_data acc]"
  have c: "0 < re_chunk E" using E by (simp add: env_ok_def)
  have a: "\<forall>x \<in> set cs. length x = re_chunk E" "length (fa_data acc) < re_chunk E" "fa_hashed acc = concat cs @ fa_data acc"
    "refs_hold E (se_repo s) (fa_refs acc) cs" using acc(1) by (simp_all add: acc_ok_def)
  have ch: "chunks_of (re_chunk E) (fa_hashed acc) = cs @ ?last"
    using a(2) by (simp add: a(3) chunks_of_append [OF c a(1)] chunks_of_short [OF c])
  have "fa_data acc = [] \<or> fa_data acc \<in> U" using U unfolding ch by (auto split: if_splits)
  from flush_ok [OF E s this a(4)] obtain acc' s' where f: "flush E keep acc s = (Inr acc', s')" "sess_ok E U s'" "moved (se_in s) s s'"
    "refs_hold E (se_repo s') (fa_refs acc') (cs @ ?last)" "same_rest acc acc'" "fa_hashed acc' = fa_hashed acc" by blast
  let ?s2 = "s'\<lparr>se_in := is\<rparr>"
  have "se_in s' = map Data md @ is" using f(3) in_s by (simp add: moved_def)
  from sread_data [OF this, of "read_full xferSumLen"] in_s(2) have rd: "sread (read_full xferSumLen) s' = (Inr md, ?s2)"
    by (simp add: read_full_append xferSumLen_def)
  have m: "moved is s ?s2" by (rule moved_trans [OF f(3) moved_read])
  have run: "file_end E keep acc s = ((if re_md5 E (fa_hashed acc) \<noteq> md then sret ([], (fa_st acc')\<lparr>fs_badSum := True\<rparr>)
     else sret (fa_refs acc', (fa_st acc')\<lparr>fs_chunks := length (fa_refs acc')\<rparr>)) ?s2)"
    by (simp add: file_end_def sbind_def f(1) rd f(6))
  show ?thesis
    using f m ch acc(2) unfolding run by (auto simp: sret_def same_rest_def)
qed

text \<open>A client's echo of an index, in step with the index codec of the session, and its flags.\<close>

definition echoes :: "sess \<Rightarrow> bytes \<Rightarrow> ndx_codec \<Rightarrow> bool" where
  "echoes s eb c \<longleftrightarrow> (\<exists>j ib fb. eb = ib @ fb \<and> (\<forall>rest. ndx_read (se_nin s) (ib @ rest) = Inr ((j, c), rest)) \<and> length fb = 2)"

lemma ReadShortint_any: "length fb = 2 \<Longrightarrow> \<exists>v. \<forall>rest. ReadShortint (fb @ rest) = Inr (v, rest)"
  by (auto simp: ReadShortint_def rbind_read_full rret_def)

lemma recvNdxEcho_ok:
  assumes "echoes s eb c" "se_in s = map Data (eb @ bs) @ is"
  shows "recvNdxEcho s = (Inr (), s\<lparr>se_in := map Data bs @ is, se_nin := c\<rparr>)"
proof -
  obtain j ib fb where e: "eb = ib @ fb" "\<And>rest. ndx_read (se_nin s) (ib @ rest) = Inr ((j, c), rest)" "length fb = 2"
    using assms(1) by (auto simp: echoes_def)
  obtain v where v: "\<And>rest. ReadShortint (fb @ rest) = Inr (v, rest)" using ReadShortint_any [OF e(3)] by blast
  let ?s1 = "s\<lparr>se_in := map Data (fb @ bs) @ is\<rparr>"
  have "se_in s = map Data ib @ map Data (fb @ bs) @ is" using assms(2) e(1) by simp
  from sread_data [OF this, of "ndx_read (se_nin s)"] e(2) have r1: "sread (ndx_read (se_nin s)) s = (Inr (j, c), ?s1)" by simp
  let ?s2 = "s\<lparr>se_in := map Data fb @ map Data bs @ is, se_nin := c\<rparr>"
  have "se_in ?s2 = map Data fb @ map Data bs @ is" by simp
  from sread_data [OF this, of ReadShortint] v
  have r2: "sread ReadShortint ?s2 = (Inr v, s\<lparr>se_in := map Data bs @ is, se_nin := c\<rparr>)" by simp
  show ?thesis
    unfolding recvNdxEcho_def ndx_in_def sseq_def
    by (simp add: sbind_def sget_def r1 r2 sret_def)
qed

lemma read_int32s_append: "read_int32s (length vs) (concat (map WriteInt32 vs) @ rest) = Inr (vs, rest)"
  by (induction vs) (simp_all add: rret_def ReadInt32_WriteInt32 rbind_def)

lemma sread_int32s:
  assumes "se_in s = map Data (concat (map WriteInt32 vs) @ bs) @ is" "n = length vs"
  shows "sread (read_int32s n) s = (Inr vs, s\<lparr>se_in := map Data bs @ is\<rparr>)"
  using assms by (intro sread_data [of s "concat (map WriteInt32 vs)"]) (simp_all add: read_int32s_append)

subsection \<open>The full transfer\<close>

lemma no_match: "match_ok E U J K 0 blk m"
  by (simp add: match_ok_def)

lemma new_acc_ok: "env_ok E U \<Longrightarrow> acc_ok E st ((new_acc mth)\<lparr>fa_st := st'\<rparr>) []" "env_ok E U \<Longrightarrow> acc_ok E st (new_acc mth) []"
  by (simp_all add: acc_ok_def new_acc_def refs_hold_Nil env_ok_def)

lemma ndx_out_ok: "ndx_out i s = (Inr (snd (ndx_write (se_nout s) i)), s\<lparr>se_nout := fst (ndx_write (se_nout s) i)\<rparr>)"
  by (simp add: ndx_out_def case_prod_beta)

lemma semit_ok: "se_room s = None \<Longrightarrow> length d \<le> 0xFFFFFF \<Longrightarrow> semit ty d s = (Inr (), s\<lparr>se_room := None, se_out := se_out s @ [(ty, d)]\<rparr>)"
  by (simp add: semit_def writeFrame_def)

lemma length_null_sum_head: "length null_sum_head = 16"
  by (simp add: null_sum_head_def WriteInt32_def eval_nat_numeral)

lemma length_ndx_write: "length (snd (ndx_write c i)) \<le> 6"
  by (simp add: ndx_write_def ndx_diff_bytes_def Let_def)

lemma sess_ok_io [simp]:
  "sess_ok E U (s\<lparr>se_nout := c\<rparr>) \<longleftrightarrow> sess_ok E U s" "sess_ok E U (s\<lparr>se_nin := c\<rparr>) \<longleftrightarrow> sess_ok E U s"
  "sess_ok E U (s\<lparr>se_out := out\<rparr>) \<longleftrightarrow> sess_ok E U s"
  by (simp_all add: sess_ok_def ups_fresh_def)

text \<open>What the transfer of a file promises: it stores the content, when the client's checksum is the content's.\<close>

definition transferred :: "repo_env \<Rightarrow> bytes set \<Rightarrow> item list \<Rightarrow> bytes \<Rightarrow> bytes \<Rightarrow> sess \<Rightarrow> (chunk_ref list \<times> file_stats) result \<times> sess \<Rightarrow> bool" where
  "transferred E U is content md s res \<longleftrightarrow> (\<exists>refs st s'. res = (Inr (refs, st), s') \<and> sess_ok E U s' \<and> se_in s' = is \<and>
     extends (se_repo s) (se_repo s') \<and> fs_badSum st = (re_md5 E content \<noteq> md) \<and>
     (re_md5 E content = md \<longrightarrow> refs_hold E (se_repo s') refs (chunks_of (re_chunk E) content)))"

lemma transferred_end:
  assumes E: "env_ok E U" and s: "sess_ok E U s1" and m: "match_ok E U J K cnt blk mt" "cnt \<le> 2 ^ 24"
    and J: "\<And>n n' b c. J n b c \<Longrightarrow> n \<le> n' \<Longrightarrow> J n' b c" and K: "\<And>st st'. K st \<Longrightarrow> extends st st' \<Longrightarrow> repo_ok E st \<Longrightarrow> repo_ok E st' \<Longrightarrow> K st'"
    and acc: "acc_ok E (se_repo s1) acc []" "fs_badSum (fa_st acc) = False" "fa_hashed acc = []"
    and "K (se_repo s1)" "J n (fa_br acc) (fa_consumed acc)" "tokens_ok cnt n ts"
    and in_s: "se_in s1 = map Data (tokens_bytes ts @ md) @ is" "length md = 16"
    and U: "set (chunks_of (re_chunk E) (tokens_data blk ts)) \<subseteq> U" and ext: "extends (se_repo s) (se_repo s1)"
  shows "transferred E U is (tokens_data blk ts) md s (sbind (read_tokens E keep mt acc) (file_end E keep) s1)"
proof -
  have i1: "se_in s1 = map Data (tokens_bytes ts) @ map Data md @ is" using in_s by simp
  have "\<exists>acc' s' cs'. read_tokens E keep mt acc s1 = (Inr acc', s') \<and> sess_ok E U s' \<and> moved (map Data md @ is) s1 s' \<and>
    acc_ok E (se_repo s') acc' cs' \<and> fa_hashed acc' = fa_hashed acc @ tokens_data blk ts \<and> fs_badSum (fa_st acc') = fs_badSum (fa_st acc)"
    by (rule read_tokens_ok [OF E m _ _ s acc(1) assms(10-12) i1]) (fact J, fact K, use U acc(3) in simp)
  then obtain acc' s' cs' where a: "read_tokens E keep mt acc s1 = (Inr acc', s')" "sess_ok E U s'" "moved (map Data md @ is) s1 s'"
    "acc_ok E (se_repo s') acc' cs'" "fa_hashed acc' = tokens_data blk ts" "fs_badSum (fa_st acc') = False" using acc by auto
  have "se_in s' = map Data md @ is" using a(3) by (simp add: moved_def)
  moreover have "set (chunks_of (re_chunk E) (fa_hashed acc')) \<subseteq> U" using U a(5) by simp
  ultimately have "\<exists>refs st s2. file_end E keep acc' s' = (Inr (refs, st), s2) \<and> sess_ok E U s2 \<and> moved is s' s2 \<and>
    fs_badSum st = (re_md5 E (fa_hashed acc') \<noteq> md) \<and>
    (re_md5 E (fa_hashed acc') = md \<longrightarrow> refs_hold E (se_repo s2) refs (chunks_of (re_chunk E) (fa_hashed acc')))"
    by (intro file_end_any [OF E a(2,4,6) _ _ in_s(2)])
  then obtain refs st s2 where f: "file_end E keep acc' s' = (Inr (refs, st), s2)" "sess_ok E U s2" "moved is s' s2"
    "fs_badSum st = (re_md5 E (tokens_data blk ts) \<noteq> md)"
    "re_md5 E (tokens_data blk ts) = md \<longrightarrow> refs_hold E (se_repo s2) refs (chunks_of (re_chunk E) (tokens_data blk ts))" unfolding a(5) by blast
  have "extends (se_repo s) (se_repo s2)" using ext extends_trans a(3) f(3) unfolding moved_def by blast
  then show ?thesis using a(1) f unfolding transferred_def by (auto simp: sbind_def moved_def)
qed

lemma legacy_transferred:
  assumes E: "env_ok E U" and s: "sess_ok E U s" and e: "echoes s eb c" and hd: "length vs = 4" and ts: "tokens_ok 0 0 ts"
    and in_s: "se_in s = map Data (eb @ concat (map WriteInt32 vs) @ tokens_bytes ts @ md) @ is" "length md = 16"
    and U: "set (chunks_of (re_chunk E) (tokens_data blk ts)) \<subseteq> U"
  shows "transferred E U is (tokens_data blk ts) md s (receiveFileLegacy E keep i s)"
proof -
  let ?b = "snd (ndx_write (se_nout s) (word_of_nat i))"
  let ?d = "?b @ WriteShortint (itemTransfer OR itemIsNew) @ null_sum_head"
  define s1 where "s1 = s\<lparr>se_nout := fst (ndx_write (se_nout s) (word_of_nat i)), se_room := None, se_out := se_out s @ [(0, ?d)]\<rparr>"
  let ?s2 = "s1\<lparr>se_in := map Data (concat (map WriteInt32 vs) @ tokens_bytes ts @ md) @ is, se_nin := c\<rparr>"
  let ?s3 = "s1\<lparr>se_in := map Data (tokens_bytes ts @ md) @ is, se_nin := c\<rparr>"
  have len: "length ?d \<le> 0xFFFFFF"
    using length_ndx_write [of "se_nout s" "word_of_nat i"] by (simp add: length_null_sum_head WriteShortint_def)
  have 1: "semit 0 ?d (s\<lparr>se_nout := fst (ndx_write (se_nout s) (word_of_nat i))\<rparr>) = (Inr (), s1)"
    using semit_ok [OF _ len, of "s\<lparr>se_nout := fst (ndx_write (se_nout s) (word_of_nat i))\<rparr>" 0] s by (simp add: sess_ok_def s1_def)
  have "echoes s1 eb c" "se_in s1 = map Data (eb @ concat (map WriteInt32 vs) @ tokens_bytes ts @ md) @ is"
    using e in_s by (simp_all add: echoes_def s1_def)
  from recvNdxEcho_ok [OF this] have 2: "recvNdxEcho s1 = (Inr (), ?s2)" .
  have 3: "sread (read_int32s 4) ?s2 = (Inr vs, ?s3)" using sread_int32s [of ?s2 vs "tokens_bytes ts @ md" "is" 4] hd by simp
  have run: "receiveFileLegacy E keep i s = sbind (read_tokens E keep refuse_match (new_acc ''full'')) (file_end E keep) ?s3"
    unfolding receiveFileLegacy_def sseq_def by (subst sbind_def) (simp add: ndx_out_ok sbind_def [of "semit 0 ?d"] 1
      sbind_def [of recvNdxEcho] 2 sbind_def [of "sread (read_int32s 4)"] 3 del: map_append)
  have ok3: "sess_ok E U ?s3" using s by (simp add: s1_def sess_ok_def ups_fresh_def)
  show ?thesis
    unfolding run
    by (rule transferred_end [OF E ok3 no_match, where J = "\<lambda>_ _ _. True" and K = "\<lambda>_. True" and n = 0])
      (use ts in_s(2) U new_acc_ok(2) [OF E] in \<open>simp_all add: new_acc_def new_stats_def s1_def\<close>)
qed

subsection \<open>The old file\<close>

text \<open>The file is stored in chunks of the configured size.\<close>

definition chunked :: "repo_env \<Rightarrow> string \<Rightarrow> bytes \<Rightarrow> repo \<Rightarrow> bool" where
  "chunked E path old st \<longleftrightarrow> (\<forall>i < length (chunks_of (re_chunk E) old).
     ReadChunkAt E path (int i) st = Inr (chunks_of (re_chunk E) old ! i))"

lemma ReadChunkAt_same:
  assumes "same_content E path st st'" "ReadChunkAt E path i st = Inr d"
  shows "ReadChunkAt E path i st' = Inr d"
proof -
  note S = assms(1) [unfolded same_content_def]
  let ?rs = "filter (\<lambda>r. snd r = i) (GetFileChunks path (rp_db st))"
  obtain r rs c where r: "?rs = r # rs" "chunk_by_id (fst r) (rp_db st) = Some c" "read_blob E (ck_blob c) st = Inr d"
    using assms(2) by (auto simp: ReadChunkAt_def split: list.splits option.splits)
  have "r \<in> set ?rs" by (simp add: r(1))
  then have "r \<in> set (GetFileChunks path (rp_db st))" by simp
  then have "chunk_info (fst r) (rp_db st') = chunk_info (fst r) (rp_db st)"
    "\<And>h s b. chunk_info (fst r) (rp_db st) = Some (h, s, b) \<Longrightarrow> read_blob E b st' = read_blob E b st" using S by blast+
  then obtain c' where "chunk_by_id (fst r) (rp_db st') = Some c'" "ck_blob c' = ck_blob c" "read_blob E (ck_blob c) st' = Inr d"
    using r(2,3) by (auto simp: chunk_info_def)
  then show ?thesis using S r(1) by (simp add: ReadChunkAt_def)
qed

lemma chunked_extends: "chunked E path old st \<Longrightarrow> extends st st' \<Longrightarrow> repo_ok E st \<Longrightarrow> repo_ok E st' \<Longrightarrow> chunked E path old st'"
  unfolding chunked_def using ReadChunkAt_same [OF extends_same_content] by blast

lemma nth_chunks_of:
  "0 < c \<Longrightarrow> i * c < length xs \<Longrightarrow> i < length (chunks_of c xs) \<and> chunks_of c xs ! i = take c (drop (i * c) xs)"
proof (induction c xs arbitrary: i rule: chunks_of.induct)
  case (1 c xs)
  then have eq: "chunks_of c xs = take c xs # chunks_of c (drop c xs)" by (auto simp: chunks_of.simps [of c xs])
  show ?case
  proof (cases i)
    case (Suc j)
    then have "j * c < length (drop c xs)" using "1.prems" by simp
    have "\<not> (xs = [] \<or> c = 0)" using "1.prems" by auto
    from "1.IH" [OF this "1.prems"(1) \<open>j * c < length (drop c xs)\<close>] show ?thesis by (auto simp: eq Suc add.commute)
  qed (simp add: eq)
qed

text \<open>
  The reader stands at \<open>pos\<close> with the rest of the chunk that ends at \<open>k\<close> (or at the end of the file).
\<close>

definition basis_at :: "nat \<Rightarrow> bytes \<Rightarrow> basis_reader \<Rightarrow> nat \<Rightarrow> bool" where
  "basis_at c old br pos \<longleftrightarrow> br_pos br = int pos \<and> pos \<le> length old \<and>
     (\<exists>k \<ge> pos. br_cur br = drop pos (take k old) \<and> (k mod c = 0 \<or> length old \<le> k))"

lemma basis_read_ok:
  assumes c: "0 < re_chunk E" and st: "chunked E path old st" and "basis_at (re_chunk E) old br pos" "pos + n \<le> length old"
  shows "\<exists>br'. basis_read E path (int (length old)) st n br = Inr (take n (drop pos old), br') \<and>
    basis_at (re_chunk E) old br' (pos + n)"
  using assms(3,4)
proof (induction "2 * n + (if br_cur br = [] then 1 else 0)" arbitrary: n br pos rule: less_induct)
  case less
  let ?c = "re_chunk E" and ?sz = "int (length old)"
  obtain k where k: "br_pos br = int pos" "pos \<le> k" "br_cur br = drop pos (take k old)" "k mod ?c = 0 \<or> length old \<le> k"
    using less.prems(1) by (auto simp: basis_at_def)
  show ?case
  proof (cases "n = 0")
    case True
    then show ?thesis using less.prems by (simp add: basis_read.simps)
  next
    case n: False
    then have pos: "pos < length old" using less.prems(2) by simp
    show ?thesis
    proof (cases "br_cur br = []")
      case True
      then have "k = pos" using k pos by auto
      then have dvd: "pos div ?c * ?c = pos" using k(4) pos by auto
      let ?blob = "take ?c (drop pos old)"
      from nth_chunks_of [OF c, of "pos div ?c" old] dvd pos
      have ch: "pos div ?c < length (chunks_of ?c old)" "chunks_of ?c old ! (pos div ?c) = ?blob" by auto
      then have "ReadChunkAt E path (br_pos br div int ?c) st = Inr ?blob"
        using st k(1) unfolding chunked_def by (simp flip: zdiv_int)
      moreover have "?blob \<noteq> []" using pos c by simp
      ultimately have rd: "basis_read E path ?sz st n br = basis_read E path ?sz st n (br\<lparr>br_cur := ?blob\<rparr>)"
        using n True k(1) pos by (subst basis_read.simps) simp
      have "(?c + pos) mod ?c = 0" using dvd by (metis mod_add_self1 mod_mult_self2_is_0 mult.commute)
      then have at: "basis_at ?c old (br\<lparr>br_cur := ?blob\<rparr>) pos"
        using k(1) pos by (auto simp: basis_at_def take_drop intro!: exI [of _ "?c + pos"])
      show ?thesis unfolding rd
        by (rule less.hyps [OF _ at less.prems(2)]) (use True \<open>?blob \<noteq> []\<close> in simp)
    next
      case False
      let ?p = "take n (br_cur br)"
      let ?br = "\<lparr>br_cur = drop n (br_cur br), br_pos = br_pos br + int (length ?p)\<rparr>"
      have p: "length ?p = min n (min k (length old) - pos)" using k(3) by simp
      have lp: "0 < length ?p" "length ?p \<le> n" using False n by simp_all
      have le: "pos + length ?p \<le> length old" using less.prems(2) lp by simp
      have at: "basis_at ?c old ?br (pos + length ?p)"
      proof -
        have "drop n (br_cur br) = drop (pos + length ?p) (take k old)"
        proof (cases "n \<le> length (br_cur br)")
          case True
          then show ?thesis by (simp add: k(3) add.commute)
        next
          case False
          then show ?thesis using p k(3) by auto
        qed
        moreover have "pos + length ?p \<le> k" using p k(2) by auto
        ultimately show ?thesis using k(1,4) le by (auto simp: basis_at_def)
      qed
      have rd: "basis_read E path ?sz st n br = bind_res (basis_read E path ?sz st (n - length ?p) ?br) (\<lambda>(q, b'). Inr (?p @ q, b'))"
        using n False by (subst basis_read.simps) (simp add: Let_def)
      have "\<exists>br'. basis_read E path ?sz st (n - length ?p) ?br = Inr (take (n - length ?p) (drop (pos + length ?p) old), br') \<and>
        basis_at ?c old br' (pos + length ?p + (n - length ?p))"
      proof (rule less.hyps [OF _ at])
        have "0 < length (br_cur br)" using False by simp
        then show "2 * (n - length ?p) + (if br_cur ?br = [] then 1 else 0) < 2 * n + (if br_cur br = [] then 1 else 0)"
          using n False by (simp add: min_def del: length_greater_0_conv) linarith
      qed (use lp less.prems(2) in simp)
      then obtain br' where br': "basis_read E path ?sz st (n - length ?p) ?br = Inr (take (n - length ?p) (drop (pos + length ?p) old), br')"
        "basis_at ?c old br' (pos + n)" using lp by auto
      have "?p = take (length ?p) (drop pos old)" unfolding k(3) by (simp add: drop_take min_def)
      then have "?p @ take (n - length ?p) (drop (pos + length ?p) old) = take n (drop pos old)"
        using lp by (metis add.commute drop_drop le_add_diff_inverse take_add)
      then show ?thesis unfolding rd br' by (simp add: br'(2))
    qed
  qed
qed

end
