(* ===== verification/DeltaTransfer.thy ===== *)
theory DeltaTransfer
  imports ReceiverContent
begin

text \<open>
  The delta transfer: match tokens copy blocks of the old file, and what is stored is the content the
  tokens describe.  The old file has to be stored in chunks of the configured size.
\<close>

subsection \<open>Match tokens\<close>

text \<open>Block \<open>b\<close> of the old file, the last one of the length of the remainder when that is not zero.\<close>

definition old_block :: "sum_table \<Rightarrow> bytes \<Rightarrow> nat \<Rightarrow> bytes" where
  "old_block t old b = take (nat (if int b = tb_count t - 1 \<and> tb_remainder t \<noteq> 0 then tb_remainder t else tb_blength t))
     (drop (b * nat (tb_blength t)) old)"

text \<open>The geometry of the table is that of the old file.\<close>

definition table_of :: "sum_table \<Rightarrow> bytes \<Rightarrow> bool" where
  "table_of t old \<longleftrightarrow> 0 < tb_blength t \<and> 0 \<le> tb_remainder t \<and> tb_remainder t < tb_blength t \<and> tb_count t \<le> 2 ^ 24 \<and> 0 \<le> tb_count t \<and>
     int (length old) = (if tb_remainder t = 0 then tb_count t * tb_blength t else (tb_count t - 1) * tb_blength t + tb_remainder t)"

definition before_block :: "nat \<Rightarrow> bytes \<Rightarrow> sum_table \<Rightarrow> nat \<Rightarrow> basis_reader \<Rightarrow> int \<Rightarrow> bool" where
  "before_block c old t n br pos \<longleftrightarrow> 0 \<le> pos \<and> pos \<le> int n * tb_blength t \<and> basis_at c old br (nat pos)"

lemma take_basis_ok:
  assumes "0 < re_chunk E" "chunked E path old (se_repo s)" "basis_at (re_chunk E) old (fa_br acc) (nat (fa_consumed acc))"
    "0 \<le> fa_consumed acc" "0 \<le> n" "fa_consumed acc + n \<le> int (length old)"
  shows "\<exists>br. take_basis E path (int (length old)) n acc s =
      (Inr (take (nat n) (drop (nat (fa_consumed acc)) old), acc\<lparr>fa_br := br, fa_consumed := fa_consumed acc + n\<rparr>), s) \<and>
    basis_at (re_chunk E) old br (nat (fa_consumed acc + n))"
proof -
  have "nat (fa_consumed acc) + nat n \<le> length old" using assms(4-6) by linarith
  from basis_read_ok [OF assms(1-3) this] assms(4,5) show ?thesis
    by (auto simp: take_basis_def sbind_def sget_def slift_def sret_def nat_add_distrib)
qed

lemma block_fits:
  assumes "table_of t old" "int b < tb_count t"
  shows "int b * tb_blength t + (if int b = tb_count t - 1 \<and> tb_remainder t \<noteq> 0 then tb_remainder t else tb_blength t) \<le> int (length old)"
proof -
  have l: "int (length old) = (if tb_remainder t = 0 then tb_count t * tb_blength t else (tb_count t - 1) * tb_blength t + tb_remainder t)"
    "0 < tb_blength t" "0 \<le> tb_remainder t" using assms(1) by (simp_all add: table_of_def)
  show ?thesis
  proof (cases "int b = tb_count t - 1")
    case True
    then have "tb_count t = int b + 1" by simp
    then show ?thesis using l by (simp add: algebra_simps)
  next
    case False
    then have "int b + 1 \<le> tb_count t - 1" using assms(2) by linarith
    then have "(int b + 1) * tb_blength t \<le> (tb_count t - 1) * tb_blength t" using l(2) by (intro mult_right_mono) auto
    moreover have "(tb_count t - 1) * tb_blength t \<le> int (length old)" using l by (auto simp: algebra_simps)
    ultimately show ?thesis using False by (simp add: algebra_simps)
  qed
qed

lemma match_block_ok:
  assumes E: "env_ok E U" and t: "table_of t old"
  shows "match_ok E U (before_block (re_chunk E) old t) (chunked E path old) (nat (tb_count t)) (old_block t old)
    (match_block E path (int (length old)) t)"
  unfolding match_ok_def
proof (intro allI impI, elim conjE)
  fix b n acc cs rst and s :: sess
  let ?c = "re_chunk E" and ?off = "int b * tb_blength t"
  define blen where "blen = (if int b = tb_count t - 1 \<and> tb_remainder t \<noteq> 0 then tb_remainder t else tb_blength t)"
  assume b: "n \<le> b" "b < nat (tb_count t)" and J: "before_block ?c old t n (fa_br acc) (fa_consumed acc)" and K: "chunked E path old (se_repo s)"
    and s: "sess_ok E U s" and acc: "acc_ok E (se_repo s) acc cs" and U: "set (chunks_of ?c (fa_hashed acc @ old_block t old b @ rst)) \<subseteq> U"
  have c: "0 < ?c" using E by (simp add: env_ok_def)
  have T: "0 < tb_blength t" "0 \<le> tb_remainder t" "tb_count t \<le> 2 ^ 24" using t by (simp_all add: table_of_def)
  have bi: "int b < tb_count t" using b(2) by linarith
  note fits = block_fits [OF t bi, folded blen_def]
  have blen: "0 \<le> blen" using T by (simp add: blen_def)
  have b31: "b < 2 ^ 31 - 1" using bi T(3) by simp
  have tok: "sint (- match_token b) - 1 = int b" using sint_neg_match_token [OF b31] by simp
  have nb: "int n * tb_blength t \<le> ?off" using b(1) T(1) by (intro mult_right_mono) auto
  have pos: "0 \<le> fa_consumed acc" "fa_consumed acc \<le> ?off" "basis_at ?c old (fa_br acc) (nat (fa_consumed acc))"
    using J nb by (auto simp: before_block_def)
  obtain br1 where skip: "take_basis E path (int (length old)) (?off - fa_consumed acc) acc s =
      (Inr (take (nat (?off - fa_consumed acc)) (drop (nat (fa_consumed acc)) old), acc\<lparr>fa_br := br1, fa_consumed := ?off\<rparr>), s)"
      "basis_at ?c old br1 (nat ?off)"
    using take_basis_ok [OF c K pos(3,1), of "?off - fa_consumed acc"] pos(2) fits blen by auto
  let ?acc1 = "acc\<lparr>fa_br := br1, fa_consumed := ?off\<rparr>"
  have off: "0 \<le> ?off" using T(1) by simp
  obtain br2 where rd: "take_basis E path (int (length old)) blen ?acc1 s =
      (Inr (take (nat blen) (drop (nat ?off) old), ?acc1\<lparr>fa_br := br2, fa_consumed := ?off + blen\<rparr>), s)"
      "basis_at ?c old br2 (nat (?off + blen))"
    using take_basis_ok [OF c K, of ?acc1 blen] skip(2) off blen fits by auto
  have "nat ?off = b * nat (tb_blength t)" using T(1) by (simp add: nat_mult_distrib)
  then have blk: "take (nat blen) (drop (nat ?off) old) = old_block t old b" by (simp add: old_block_def blen_def)
  let ?acc2 = "?acc1\<lparr>fa_br := br2, fa_consumed := ?off + blen\<rparr>"
  let ?acc3 = "?acc2\<lparr>fa_data := fa_data acc @ old_block t old b, fa_hashed := fa_hashed acc @ old_block t old b,
     fa_st := (fa_st acc)\<lparr>fs_matched := fs_matched (fa_st acc) + blen\<rparr>\<rparr>"
  have run: "match_block E path (int (length old)) t (match_token b) acc s =
      flush_full (Suc (length (fa_data acc @ old_block t old b))) E ?acc3 s"
    using bi pos(2) fits rd(1) unfolding blk
    by (simp add: match_block_def tok Let_def sbind_def skip(1) blen_def [symmetric] del: flush_full.simps)
  have "\<exists>acc' s' cs'. flush_full (Suc (length (fa_data acc @ old_block t old b))) E ?acc3 s = (Inr acc', s') \<and> sess_ok E U s' \<and> moved (se_in s) s s' \<and>
    acc_ok E (se_repo s') acc' cs' \<and> fa_hashed acc' = fa_hashed ?acc3 \<and> same_rest ?acc3 acc'"
    by (rule flush_full_ok [OF E s, where cs = cs and rst = rst]) (use acc U in \<open>simp_all add: acc_ok_def\<close>)
  then obtain acc' s' cs' where a: "match_block E path (int (length old)) t (match_token b) acc s = (Inr acc', s')" "sess_ok E U s'"
    "moved (se_in s) s s'" "acc_ok E (se_repo s') acc' cs'" "fa_hashed acc' = fa_hashed acc @ old_block t old b" "same_rest ?acc3 acc'"
    unfolding run by auto
  have "blen \<le> tb_blength t" using t by (auto simp: table_of_def blen_def)
  then have "before_block ?c old t (Suc b) (fa_br acc') (fa_consumed acc')"
    using a(6) rd(2) off blen by (simp add: same_rest_def before_block_def algebra_simps)
  then show "\<exists>acc' s' cs'. match_block E path (int (length old)) t (match_token b) acc s = (Inr acc', s') \<and> sess_ok E U s' \<and>
      moved (se_in s) s s' \<and> acc_ok E (se_repo s') acc' cs' \<and> fa_hashed acc' = fa_hashed acc @ old_block t old b \<and>
      before_block ?c old t (Suc b) (fa_br acc') (fa_consumed acc') \<and> fs_badSum (fa_st acc') = fs_badSum (fa_st acc)"
    using a by (auto simp: same_rest_def)
qed

lemma before_block_mono: "before_block c old t n br pos \<Longrightarrow> n \<le> n' \<Longrightarrow> 0 < tb_blength t \<Longrightarrow> before_block c old t n' br pos"
  unfolding before_block_def by (auto intro: order_trans mult_right_mono)

subsection \<open>The transfer\<close>

definition sum_head :: "sum_table \<Rightarrow> int32 list" where
  "sum_head t = [word_of_int (tb_count t), word_of_int (tb_blength t), word_of_int (tb_s2length t), word_of_int (tb_remainder t)]"

lemma sum_head_bytes_words: "sum_head_bytes t = concat (map WriteInt32 (sum_head t))"
  by (simp add: sum_head_bytes_def sum_head_def)

lemma delta_transferred:
  assumes E: "env_ok E U" and s: "sess_ok E U s" and e: "echoes s eb c"
    and tbl: "calcBlockSumsFromRepo E path (int (length old)) seed (se_repo s) = Inr t" "table_of t old" "chunked E path old (se_repo s)"
    and fits: "length (sums_bytes t) \<le> 0xFFFF00" and row: "fr_size row = int (length old)"
    and ts: "tokens_ok (nat (tb_count t)) 0 ts"
    and in_s: "se_in s = map Data (eb @ sum_head_bytes t @ tokens_bytes ts @ md) @ is" "length md = 16"
    and U: "set (chunks_of (re_chunk E) (tokens_data (old_block t old) ts)) \<subseteq> U"
  shows "transferred E U is (tokens_data (old_block t old) ts) md s (receive_delta E keep seed path row i s)"
proof -
  let ?b = "snd (ndx_write (se_nout s) (word_of_nat i))"
  let ?d = "?b @ WriteShortint (itemTransfer OR itemIsNew) @ sum_head_bytes t @ sums_bytes t"
  let ?s0 = "s\<lparr>se_nout := fst (ndx_write (se_nout s) (word_of_nat i))\<rparr>"
  define s1 where "s1 = s\<lparr>se_nout := fst (ndx_write (se_nout s) (word_of_nat i)), se_room := None, se_out := se_out s @ [(0, ?d)]\<rparr>"
  let ?s2 = "s1\<lparr>se_in := map Data (concat (map WriteInt32 (sum_head t)) @ tokens_bytes ts @ md) @ is, se_nin := c\<rparr>"
  let ?s3 = "s1\<lparr>se_in := map Data (tokens_bytes ts @ md) @ is, se_nin := c\<rparr>"
  let ?acc = "(new_acc ''delta'')\<lparr>fa_st := (new_stats ''delta'')\<lparr>fs_blength := tb_blength t\<rparr>\<rparr>"
  have len: "length ?d \<le> 0xFFFFFF"
    using fits length_ndx_write [of "se_nout s" "word_of_nat i"]
    by (simp add: sum_head_bytes_def WriteInt32_def WriteShortint_def)
  have 1: "semit 0 ?d ?s0 = (Inr (), s1)"
    using semit_ok [OF _ len, of ?s0 0] s by (simp add: sess_ok_def s1_def)
  have "echoes s1 eb c" "se_in s1 = map Data (eb @ concat (map WriteInt32 (sum_head t)) @ tokens_bytes ts @ md) @ is"
    using e in_s by (simp_all add: echoes_def s1_def sum_head_bytes_words)
  from recvNdxEcho_ok [OF this] have 2: "recvNdxEcho s1 = (Inr (), ?s2)" .
  have 3: "sread (read_int32s 4) ?s2 = (Inr (sum_head t), ?s3)"
    using sread_int32s [of ?s2 "sum_head t" "tokens_bytes ts @ md" "is" 4] by (simp add: sum_head_def)
  have run: "receive_delta E keep seed path row i s =
      sbind (read_tokens E keep (match_block E path (int (length old)) t) ?acc) (file_end E keep) ?s3"
    unfolding receive_delta_def sseq_def sum_head_def [symmetric]
    by (simp add: sbind_sget row tbl(1) sbind_slift sbind_def [of "ndx_out (word_of_nat i)"] ndx_out_ok
      sbind_def [of "semit 0 ?d"] 1 sbind_def [of recvNdxEcho] 2 sbind_def [of "sread (read_int32s 4)"] 3 del: map_append)
  have ok3: "sess_ok E U ?s3" using s by (simp add: s1_def sess_ok_def ups_fresh_def)
  have "basis_at (re_chunk E) old (fa_br ?acc) 0" by (auto simp: basis_at_def new_acc_def intro!: exI [of _ 0])
  then have J: "before_block (re_chunk E) old t 0 (fa_br ?acc) (fa_consumed ?acc)"
    by (simp add: before_block_def new_acc_def)
  have t: "0 < tb_blength t" "nat (tb_count t) \<le> 2 ^ 24" using tbl(2) by (auto simp: table_of_def)
  show ?thesis
    unfolding run
    by (rule transferred_end [OF E ok3 match_block_ok [OF E tbl(2)] t(2) before_block_mono chunked_extends _ _ _ _ J ts])
      (use in_s(2) U tbl t new_acc_ok(1) [OF E] in \<open>simp_all add: new_acc_def new_stats_def s1_def\<close>)
qed

lemma table_of_CalcSizes:
  assumes "CalcSizes (int (length old)) = Inr (cnt, b, r)"
  shows "table_of \<lparr>tb_count = cnt, tb_blength = b, tb_s2length = 16, tb_remainder = r, tb_sums = ss\<rparr> old"
  using CalcSizes_Inr(1-8) [OF assms] by (auto simp: table_of_def)

text \<open>The table of an old file that streams back.\<close>

lemma repo_sums_of_stream:
  assumes "CalcSizes (int (length old)) = Inr (cnt, b, r)" "StreamFile E path st = (old, Inr x)"
  shows "calcBlockSumsFromRepo E path (int (length old)) seed st = Inr \<lparr>tb_count = cnt, tb_blength = b, tb_s2length = 16,
    tb_remainder = r, tb_sums = map (block_sum (re_md5 E) seed) (chunks_of (nat b) old)\<rparr>"
  using sum_writer_result [OF assms(1), of "[old]" "re_md5 E" seed] assms
  by (simp add: calcBlockSumsFromRepo_def)

subsection \<open>A file of the session\<close>

definition stored_as :: "repo_env \<Rightarrow> string \<Rightarrow> file_entry \<Rightarrow> bytes \<Rightarrow> repo \<Rightarrow> repo \<Rightarrow> bool" where
  "stored_as E path e content st st' \<longleftrightarrow> GetFileRow path (rp_db st') = Some (regular_row path e) \<and>
     StreamFile E path st' = (if int (length content) = sint (fe_size e) then (content, Inr (int (length content), re_md5 E content))
       else (content, Inl (Err ''file content incomplete''))) \<and>
     (\<forall>q. q \<noteq> path \<longrightarrow> GetFileRow q (rp_db st') = GetFileRow q (rp_db st) \<and> StreamFile E q st' = StreamFile E q st)"

lemma entry_path_full: "fe_path e \<noteq> [] \<Longrightarrow> full_path pfx (fe_path e) = entry_path pfx e"
  by (simp add: full_path_def entry_path_def)

lemma process_file_stores:
  assumes E: "env_ok E U" and s: "sess_ok E U s" and e: "fe_path e \<noteq> []" and dry: "\<not> ngDryRun neg"
    and run: "receiveFileDelta E keep neg e i pfx s = (Inr (refs, True, st), s1)" "\<not> fs_badSum st"
    and s1: "sess_ok E U s1" "extends (se_repo s) (se_repo s1)" "refs_hold E (se_repo s1) refs (chunks_of (re_chunk E) content)"
  shows "\<exists>s'. process_file E quote keep neg pfx i e s = (Inr (), s') \<and> se_in s' = se_in s1 \<and> sess_ok E U s' \<and>
    stored_as E (entry_path pfx e) e content (se_repo s) (se_repo s')"
proof -
  let ?path = "entry_path pfx e" and ?cs = "chunks_of (re_chunk E) content"
  let ?row = "regular_row ?path e" and ?st = "se_repo s1"
  let ?s' = "s1\<lparr>se_repo := ?st\<lparr>rp_db := upserted ?row refs (rp_db ?st)\<rparr>\<rparr>"
  have cc: "concat ?cs = content" using E by (simp add: env_ok_def)
  have ok: "repo_ok E (se_repo s)" "repo_ok E ?st" using s s1(1) by (simp_all add: sess_ok_def)
  have row: "fr_path ?row = ?path" "fr_size ?row = sint (fe_size e)" by (simp_all add: regular_row_def)
  obtain c where c: "refs = map (\<lambda>i. (c i, int i)) [0..<length ?cs]" "\<forall>i < length ?cs. holds E ?st (c i) (?cs ! i)"
    using s1(3) by (auto simp: refs_hold_def)
  note U = upsert_content [OF ok(2) row(1) c, unfolded cc row(2)]
  have up: "supsert ?row refs s1 = (Inr (), ?s')" using U(1) by (auto simp: supsert_def)
  have r: "process_file E quote keep neg pfx i e s = (Inr (), ?s')"
    using run dry e up by (simp add: process_file_def sbind_def strap_def entry_path_full)
  have "same_content E q (se_repo s) (se_repo ?s')" if "q \<noteq> ?path" for q
    using same_content_trans [OF extends_same_content [OF ok s1(2)]] upserted_same_content [of ?st q ?row] ok(2) that row(1)
    by (simp add: repo_ok_def)
  then have other: "\<forall>q. q \<noteq> ?path \<longrightarrow> GetFileRow q (rp_db (se_repo ?s')) = GetFileRow q (rp_db (se_repo s)) \<and>
      StreamFile E q (se_repo ?s') = StreamFile E q (se_repo s)"
    using StreamFile_same by (simp add: same_content_def)
  have "sess_ok E U ?s'"
  proof -
    have "rstep.keeps E (\<lambda>_. True) (supsert ?row refs)" by (rule rstep_supsert) simp
    then have "repo_step E (\<lambda>_. True) s1 ?s'" using up unfolding rstep.keeps_def by (metis snd_conv)
    then have "repo_ok E (se_repo ?s')" "ups_fresh ?s'" using s1(1) E unfolding repo_step_def sess_ok_def env_ok_def by blast+
    moreover have "stored_plaintexts E (se_repo ?s') \<subseteq> stored_plaintexts E ?st"
      using stored_pruned [OF pruned_upserted] by simp
    ultimately show ?thesis using s1(1) by (auto simp: sess_ok_def)
  qed
  then show ?thesis
    using r U(3,4) other by (intro exI [of _ ?s']) (simp add: stored_as_def)
qed


lemma receive_new_file:
  "\<not> ngDryRun neg \<Longrightarrow> GetFileRow (entry_path pfx e) (rp_db (se_repo s)) = None \<Longrightarrow>
    receiveFileDelta E keep neg e i pfx s = sbind (receiveFileLegacy E keep i) (\<lambda>(refs, st). sret (refs, True, st)) s"
  by (simp add: receiveFileDelta_def Let_def sbind_sget)

lemma receive_changed_file:
  "\<not> ngDryRun neg \<Longrightarrow> GetFileRow (entry_path pfx e) (rp_db (se_repo s)) = Some row \<Longrightarrow> \<not> unchanged row e \<Longrightarrow>
    fe_size e \<noteq> 0 \<Longrightarrow> fr_size row \<noteq> 0 \<Longrightarrow> \<not> fr_isdir row \<Longrightarrow> \<not> fr_issymlink row \<Longrightarrow>
    receiveFileDelta E keep neg e i pfx s =
      sbind (receive_delta E keep (ngSeed neg) (entry_path pfx e) row i) (\<lambda>(refs, st). sret (refs, True, st)) s"
  by (simp add: receiveFileDelta_def Let_def sbind_sget)

lemma transferred_run:
  assumes "transferred E U is content md s (m s)"
  shows "\<exists>refs st s1. sbind m (\<lambda>(refs, st). sret (refs, True, st)) s = (Inr (refs, True, st), s1) \<and> sess_ok E U s1 \<and> se_in s1 = is \<and>
    extends (se_repo s) (se_repo s1) \<and> fs_badSum st = (re_md5 E content \<noteq> md) \<and>
    (re_md5 E content = md \<longrightarrow> refs_hold E (se_repo s1) refs (chunks_of (re_chunk E) content))"
  using assms by (auto simp: transferred_def sbind_def sret_def)

text \<open>The full transfer of a new file; \<open>full_transfer_stores_content\<close> below.\<close>

lemma full_transfer:
  assumes "env_ok E U" "sess_ok E U s" "fe_path e \<noteq> []" "\<not> ngDryRun neg"
    and "GetFileRow (entry_path pfx e) (rp_db (se_repo s)) = None"
    and "echoes s eb c" "length vs = 4" "tokens_ok 0 0 ts" "length (re_md5 E (tokens_data (\<lambda>_. []) ts)) = 16"
    and "se_in s = map Data (eb @ concat (map WriteInt32 vs) @ tokens_bytes ts @ re_md5 E (tokens_data (\<lambda>_. []) ts)) @ is"
    and "set (chunks_of (re_chunk E) (tokens_data (\<lambda>_. []) ts)) \<subseteq> U"
  shows "\<exists>s'. process_file E quote keep neg pfx i e s = (Inr (), s') \<and> se_in s' = is \<and> sess_ok E U s' \<and>
    stored_as E (entry_path pfx e) e (tokens_data (\<lambda>_. []) ts) (se_repo s) (se_repo s')"
proof -
  let ?content = "tokens_data (\<lambda>_. []) ts"
  have "transferred E U is ?content (re_md5 E ?content) s (receiveFileLegacy E keep i s)"
    by (rule legacy_transferred [OF assms(1,2,6-8,10,9,11)])
  from transferred_run [where m = "receiveFileLegacy E keep i", OF this] obtain refs st s1 where r:
    "receiveFileDelta E keep neg e i pfx s = (Inr (refs, True, st), s1)" "sess_ok E U s1" "se_in s1 = is" "extends (se_repo s) (se_repo s1)"
    "\<not> fs_badSum st" "refs_hold E (se_repo s1) refs (chunks_of (re_chunk E) ?content)"
    unfolding receive_new_file [OF assms(4,5)] by auto
  from process_file_stores [OF assms(1-4) r(1,5,2,4,6)] r(3) show ?thesis by simp
qed

subsection \<open>A sample session\<close>

definition sample_env :: repo_env where
  "sample_env = identity_env\<lparr>re_md5 := (\<lambda>_. replicate 16 0)\<rparr>"

definition sample_sess :: "bytes \<Rightarrow> sess" where
  "sample_sess bs = \<lparr>se_in = map Data bs, se_end = EOF, se_out = [], se_room = None, se_polls = None, se_nout = newNdxCodec,
     se_nin = newNdxCodec, se_repo = two_file_repo, se_ups = (\<lambda>n. upload_named (replicate (n + 3) CHR ''u'')), se_upn = 0\<rparr>"

definition sample_entry :: "string \<Rightarrow> int64 \<Rightarrow> file_entry" where
  "sample_entry p n = \<lparr>fe_path = p, fe_isdir = False, fe_issymlink = False, fe_mode = 0x81A4, fe_uid = 0, fe_gid = 0,
     fe_size = n, fe_mtime = 9, fe_link = []\<rparr>"

definition sample_echo :: bytes where
  "sample_echo = snd (ndx_write newNdxCodec 0) @ WriteShortint 0xA000"

lemma sample_env_ok: "env_ok sample_env UNIV"
  by (simp add: env_ok_def sample_env_def identity_env_def plain_aead_laws inj_on_def)

lemma sample_repo_ok: "repo_ok sample_env two_file_repo"
  using two_file_repo_ok by (simp add: repo_ok_def row_holds_def read_blob_def sample_env_def)

lemma sample_sess_ok: "sess_ok sample_env UNIV (sample_sess bs)"
proof -
  have names: "blob_names two_file_repo = {''b1'', ''b2''}" by code_simp
  have "replicate (n + 3) CHR ''u'' \<noteq> [CHR ''b'', x]" for n x
    by (rule notI, drule arg_cong [where f = length]) simp
  then have "ups_fresh (sample_sess bs)"
    by (auto simp: ups_fresh_def sample_sess_def upload_named_def names inj_on_def)
  then show ?thesis
    using sample_repo_ok by (simp add: sess_ok_def) (simp add: sample_sess_def upload_ok_def upload_named_def)
qed

lemma sample_echoes: "echoes (sample_sess bs) sample_echo (fst (ndx_write newNdxCodec 0))"
  using ndx_read_write [of 0 newNdxCodec]
  unfolding echoes_def sample_echo_def
  by (intro exI [of _ 0] exI [of _ "snd (ndx_write newNdxCodec 0)"] exI [of _ "WriteShortint 0xA000"])
    (simp add: sample_sess_def ndx_sendable_def WriteShortint_def)

subsection \<open>Properties\<close>

text \<open>
  C6: a file that is not in the repository and that a client sends as literals, however it cuts them, with
  the checksum of the content, is stored under its path and streams back, provided its length is the
  one the file list announced; when the file changed its length in between, the row that is stored
  does not stream.  All other files keep their rows and content.
\<close>

theorem full_transfer_stores_content:
  assumes "env_ok E U" "sess_ok E U s" "fe_path e \<noteq> []" "\<not> ngDryRun neg"
    and "GetFileRow (entry_path pfx e) (rp_db (se_repo s)) = None"
    and "echoes s eb c" "length vs = 4" "tokens_ok 0 0 ts" "length (re_md5 E (tokens_data (\<lambda>_. []) ts)) = 16"
    and "se_in s = map Data (eb @ concat (map WriteInt32 vs) @ tokens_bytes ts @ re_md5 E (tokens_data (\<lambda>_. []) ts)) @ is"
    and "set (chunks_of (re_chunk E) (tokens_data (\<lambda>_. []) ts)) \<subseteq> U"
  shows "\<exists>s'. process_file E quote keep neg pfx i e s = (Inr (), s') \<and> se_in s' = is \<and> sess_ok E U s' \<and>
    stored_as E (entry_path pfx e) e (tokens_data (\<lambda>_. []) ts) (se_repo s) (se_repo s')"
  using assms by (rule full_transfer)

theorem full_transfer_stores_content_witness:
  "\<exists>s'. process_file sample_env (\<lambda>x. x) True empty_neg [] 0 (sample_entry ''d/z'' 2)
      (sample_sess (sample_echo @ concat (map WriteInt32 [0, 0, 0, 0]) @ tokens_bytes [Lit [7], Lit [8]] @ replicate 16 0)) = (Inr (), s') \<and>
    StreamFile sample_env ''d/z'' (se_repo s') = ([7, 8], Inr (2, replicate 16 0))"
proof -
  let ?s = "sample_sess (sample_echo @ concat (map WriteInt32 [0, 0, 0, 0]) @ tokens_bytes [Lit [7], Lit [8]] @ replicate 16 0)"
  let ?e = "sample_entry ''d/z'' 2"
  have p: "entry_path [] ?e = ''d/z''" "fe_path ?e = ''d/z''" "fe_size ?e = 2" by (simp_all add: entry_path_def sample_entry_def)
  have none: "GetFileRow ''d/z'' (rp_db (se_repo ?s)) = None"
    unfolding sample_sess_def sess.simps by code_simp
  have data: "tokens_data (\<lambda>_. []) [Lit [7], Lit [8]] = [7, 8]" "re_md5 sample_env [7, 8] = replicate 16 0"
    by (simp_all add: tokens_data_def sample_env_def)
  have "\<exists>s'. process_file sample_env (\<lambda>x. x) True empty_neg [] 0 ?e ?s = (Inr (), s') \<and> se_in s' = [] \<and> sess_ok sample_env UNIV s' \<and>
    stored_as sample_env (entry_path [] ?e) ?e (tokens_data (\<lambda>_. []) [Lit [7], Lit [8]]) (se_repo ?s) (se_repo s')"
    by (rule full_transfer_stores_content [OF sample_env_ok sample_sess_ok _ _ _ sample_echoes, where vs = "[0, 0, 0, 0]"])
      (use none p data in \<open>simp_all add: empty_neg_def\<close>, simp add: sample_sess_def)
  then show ?thesis unfolding p data by (auto simp: stored_as_def p data)
qed

text \<open>
  C5: a changed file, of which the client sends some blocks as matches and the rest as literals, is stored
  as the content the tokens describe over the old file, provided the old file is stored in chunks of
  the configured size.
\<close>

theorem delta_transfer_stores_content:
  assumes "env_ok E U" "sess_ok E U s" "fe_path e \<noteq> []" "\<not> ngDryRun neg"
    and "GetFileRow (entry_path pfx e) (rp_db (se_repo s)) = Some row" "\<not> unchanged row e" "fe_size e \<noteq> 0" "fr_size row \<noteq> 0"
      "\<not> fr_isdir row" "\<not> fr_issymlink row"
    and "StreamFile E (entry_path pfx e) (se_repo s) = (old, Inr x)" "chunked E (entry_path pfx e) old (se_repo s)"
    and "calcBlockSumsFromRepo E (entry_path pfx e) (fr_size row) (ngSeed neg) (se_repo s) = Inr t" "length (sums_bytes t) \<le> 0xFFFF00"
    and "echoes s eb c" "tokens_ok (nat (tb_count t)) 0 ts" "length (re_md5 E (tokens_data (old_block t old) ts)) = 16"
    and "se_in s = map Data (eb @ sum_head_bytes t @ tokens_bytes ts @ re_md5 E (tokens_data (old_block t old) ts)) @ is"
    and "set (chunks_of (re_chunk E) (tokens_data (old_block t old) ts)) \<subseteq> U"
  shows "\<exists>s'. process_file E quote keep neg pfx i e s = (Inr (), s') \<and> se_in s' = is \<and> sess_ok E U s' \<and>
    stored_as E (entry_path pfx e) e (tokens_data (old_block t old) ts) (se_repo s) (se_repo s')"
proof -
  let ?path = "entry_path pfx e" and ?content = "tokens_data (old_block t old) ts"
  have sz: "fr_size row = int (length old)" using StreamFile_size [OF assms(11,5)] .
  obtain cnt b r where cs: "CalcSizes (int (length old)) = Inr (cnt, b, r)"
    using assms(13) unfolding calcBlockSumsFromRepo_def bind_res_eq_Inr sz by fastforce
  have t: "t = \<lparr>tb_count = cnt, tb_blength = b, tb_s2length = 16, tb_remainder = r, tb_sums = map (block_sum (re_md5 E) (ngSeed neg)) (chunks_of (nat b) old)\<rparr>"
    using repo_sums_of_stream [OF cs assms(11), of "ngSeed neg"] assms(13) sz by simp
  have tbl: "calcBlockSumsFromRepo E ?path (int (length old)) (ngSeed neg) (se_repo s) = Inr t" using assms(13) sz by simp
  have tof: "table_of t old" unfolding t by (rule table_of_CalcSizes [OF cs])
  have "transferred E U is ?content (re_md5 E ?content) s (receive_delta E keep (ngSeed neg) ?path row i s)"
    by (rule delta_transferred [OF assms(1,2,15) tbl tof assms(12,14) sz assms(16,18,17,19)])
  from transferred_run [where m = "receive_delta E keep (ngSeed neg) ?path row i", OF this] obtain refs st s1 where r:
    "receiveFileDelta E keep neg e i pfx s = (Inr (refs, True, st), s1)" "sess_ok E U s1" "se_in s1 = is" "extends (se_repo s) (se_repo s1)"
    "\<not> fs_badSum st" "refs_hold E (se_repo s1) refs (chunks_of (re_chunk E) ?content)"
    unfolding receive_changed_file [OF assms(4-10)] by auto
  from process_file_stores [OF assms(1-4) r(1,5,2,4,6)] r(3) show ?thesis by simp
qed

theorem delta_transfer_stores_content_witness:
  "\<exists>t s'. process_file sample_env (\<lambda>x. x) False empty_neg [] 0 (sample_entry ''d/x'' 2)
      (sample_sess (sample_echo @ sum_head_bytes t @ tokens_bytes [Lit [9], Match 0] @ replicate 16 0)) = (Inr (), s') \<and>
    StreamFile sample_env ''d/x'' (se_repo s') = ([9, 1], Inr (2, replicate 16 0))"
proof -
  define t where "t = \<lparr>tb_count = 1, tb_blength = 700, tb_s2length = 16, tb_remainder = 1,
    tb_sums = map (block_sum (re_md5 sample_env) 0) (chunks_of (nat 700) [1])\<rparr>"
  let ?s = "sample_sess (sample_echo @ sum_head_bytes t @ tokens_bytes [Lit [9], Match 0] @ replicate 16 0)"
  let ?e = "sample_entry ''d/x'' 2" and ?row = "row_named ''d/x'' 1"
  have p: "entry_path [] ?e = ''d/x''" "fe_path ?e = ''d/x''" "fe_size ?e = 2" "fe_mtime ?e = 9" by (simp_all add: entry_path_def sample_entry_def)
  have repo: "se_repo ?s = two_file_repo" by (simp add: sample_sess_def)
  have row: "GetFileRow ''d/x'' (rp_db two_file_repo) = Some ?row" by code_simp
  have old: "StreamFile sample_env ''d/x'' two_file_repo = ([1], Inr (1, replicate 16 0))" by code_simp
  have "ReadChunkAt sample_env ''d/x'' 0 two_file_repo = Inr [1]" by code_simp
  then have ch: "chunked sample_env ''d/x'' [1] two_file_repo" by (simp add: chunked_def sample_env_def identity_env_def chunks_of.simps)
  have bl: "block_length 1 = 700" by (simp add: block_length_def blockSize_def)
  have "CalcSizes 1 = Inr (1, 700, 1)" unfolding CalcSizes_def bl by code_simp
  then have t: "calcBlockSumsFromRepo sample_env ''d/x'' (fr_size ?row) (ngSeed empty_neg) two_file_repo = Inr t"
    using repo_sums_of_stream [of "[1]" 1 700 1 sample_env "''d/x''" two_file_repo _ 0] old
    by (simp add: t_def row_named_def empty_neg_def)
  have data: "tokens_data (old_block t [1]) [Lit [9], Match 0] = [9, 1]" by (simp add: tokens_data_def old_block_def t_def)
  have fits: "length (sums_bytes t) \<le> 0xFFFF00"
    by (simp add: t_def sums_bytes_def chunks_of.simps block_sum_def StrongSum2_def WriteInt32_def sample_env_def)
  have "\<exists>s'. process_file sample_env (\<lambda>x. x) False empty_neg [] 0 ?e ?s = (Inr (), s') \<and> se_in s' = [] \<and> sess_ok sample_env UNIV s' \<and>
    stored_as sample_env (entry_path [] ?e) ?e (tokens_data (old_block t [1]) [Lit [9], Match 0]) (se_repo ?s) (se_repo s')"
    by (rule delta_transfer_stores_content [OF sample_env_ok sample_sess_ok _ _ _ _ _ _ _ _ _ _ _ fits sample_echoes, where row = ?row])
      (use row p data old ch t in \<open>simp_all add: repo\<close>,
       simp_all add: empty_neg_def unchanged_def row_named_def sample_env_def t_def sample_sess_def)
  then show ?thesis unfolding p data by (intro exI [of _ t]) (auto simp: stored_as_def p data sample_env_def)
qed



end
