(* ===== verification/SessionProps.thy ===== *)
theory SessionProps
  imports DeltaTransfer
begin

text \<open>
  Properties of whole backup sessions: what they cannot touch, dry runs, the deletion of what the client
  no longer has, and the block table of a very large file.
\<close>

subsection \<open>The deletion phase\<close>

lemma delete_rows_db:
  "delete_rows_not_in keep C rows s = (Inr (), s') \<Longrightarrow>
    se_repo s' = (se_repo s)\<lparr>rp_db := fold (\<lambda>row d. DeleteFile (fr_path row) d) (filter (\<lambda>row. fr_path row \<notin> C) rows) (rp_db (se_repo s))\<rparr>"
proof (induction rows arbitrary: s)
  case (Cons row rows)
  show ?case
  proof (cases "fr_path row \<in> C")
    case False
    with Cons.prems obtain x1 s1 x2 s2 x3 s3 where "sctx s = (Inr x1, s1)" "keep_alive keep s1 = (Inr x2, s2)"
      "sdelete (fr_path row) s2 = (Inr x3, s3)" and rest: "delete_rows_not_in keep C rows s3 = (Inr (), s')"
      by (auto simp: sseq_eq_Inr)
    moreover from this have "se_repo s1 = se_repo s" "se_repo s2 = se_repo s1"
      using same.keepsD [OF same_io(1)] same.keepsD [OF same_simple_io(6)] unfolding repo_same_def by metis+
    ultimately have "se_repo s3 = (se_repo s)\<lparr>rp_db := DeleteFile (fr_path row) (rp_db (se_repo s))\<rparr>"
      by (auto simp: sdelete_def)
    with Cons.IH [OF rest] False show ?thesis by simp
  qed (use Cons in simp)
qed (simp add: sret_def)

lemma FileRows_paths:
  assumes "db_inv db"
  shows "q \<in> fr_path ` set (FileRows p db) \<longleftrightarrow> in_root p q \<and> GetFileRow q db \<noteq> None"
proof -
  have mem: "f \<in> set (FileRows p db) \<longleftrightarrow> in_root p (fr_path f) \<and> GetFileRow (fr_path f) db = Some f" for f
    using set_FileRows [OF assms] GetFileRow_in [OF assms, of "fr_path f" f]
    by (cases "p = []") (auto simp: in_root_def FileRows_def GetFiles_def)
  show ?thesis
  proof
    assume "q \<in> fr_path ` set (FileRows p db)"
    then show "in_root p q \<and> GetFileRow q db \<noteq> None" using mem by auto
  next
    assume "in_root p q \<and> GetFileRow q db \<noteq> None"
    then obtain f where "in_root p q" "GetFileRow q db = Some f" by auto
    moreover from this have "fr_path f = q" using GetFileRow_in [OF assms] by blast
    ultimately show "q \<in> fr_path ` set (FileRows p db)" using mem by force
  qed
qed

lemma length_sums_bytes: "\<forall>x \<in> set (tb_sums t). length (snd x) = 16 \<Longrightarrow> length (sums_bytes t) = 20 * length (tb_sums t)"
proof -
  have "\<forall>x \<in> set xs. length (snd x) = 16 \<Longrightarrow> length (concat (map (\<lambda>(s1, s2). WriteInt32 s1 @ s2) xs)) = 20 * length xs"
    for xs :: "block_sum list" by (induction xs) (auto simp: WriteInt32_def)
  then show "\<forall>x \<in> set (tb_sums t). length (snd x) = 16 \<Longrightarrow> ?thesis" by (simp add: sums_bytes_def)
qed

text \<open>
  The block table is sent as one frame, whose length has 24 bits: for more than 838859 blocks, a file of
  about 110 GB, the transfer of a changed file fails, and the session with it.
\<close>

lemma big_table_aborts:
  assumes "calcBlockSumsFromRepo E path (fr_size row) seed (se_repo s) = Inr t"
    and "\<forall>x \<in> set (tb_sums t). length (snd x) = 16" "838859 < length (tb_sums t)"
  shows "\<exists>s'. receive_delta E keep seed path row i s = (Inl (Err ''frame payload too large''), s')"
proof -
  have "0xFFFFFF < length (b @ WriteShortint (itemTransfer OR itemIsNew) @ sum_head_bytes t @ sums_bytes t)" for b
    using length_sums_bytes [OF assms(2)] assms(3) by (simp add: sum_head_bytes_def WriteInt32_def)
  then have "semit 0 (b @ WriteShortint (itemTransfer OR itemIsNew) @ sum_head_bytes t @ sums_bytes t) s1 = (Inl (Err ''frame payload too large''), s1)"
    for b s1 by (simp add: semit_def writeFrame_def)
  then show ?thesis
    by (simp add: receive_delta_def sbind_sget assms(1) sbind_slift sbind_def [of "ndx_out (word_of_nat i)"] ndx_out_ok sseq_step(2))
qed

definition sample_module :: module_config where
  "sample_module = \<lparr>mo_name = ''mod'', mo_path = ''/x'', mo_readonly = False, mo_maxconn = 0\<rparr>"

subsection \<open>Properties\<close>

text \<open>
  C21: whatever the client sends, and whatever fails, a backup session leaves the repository consistent and
  every file outside the transfer root, its row and its content, as it was.
\<close>

theorem session_stays_in_root:
  assumes "aead_laws (re_aead E)" "repo_ok E (se_repo s)" "ups_fresh s"
    and "processSession E quote keep m neg s = (r, s')"
  shows "repo_ok E (se_repo s') \<and>
    (\<forall>q. \<not> in_root (modulePrefix (ngModuleArg neg) (mo_name m)) q \<longrightarrow>
      GetFileRow q (rp_db (se_repo s')) = GetFileRow q (rp_db (se_repo s)) \<and> StreamFile E q (se_repo s') = StreamFile E q (se_repo s))"
proof -
  have "repo_step E (in_root (modulePrefix (ngModuleArg neg) (mo_name m))) s s'"
    using rstep_processSession assms(4) unfolding rstep.keeps_def by (metis snd_conv)
  then have *: "repo_ok E (se_repo s')"
    "\<And>q. \<not> in_root (modulePrefix (ngModuleArg neg) (mo_name m)) q \<Longrightarrow> same_content E q (se_repo s) (se_repo s')"
    using assms(1-3) unfolding repo_step_def by blast+
  then show ?thesis using StreamFile_same by (auto simp: same_content_def)
qed

theorem session_stays_in_root_witness:
  "let r = processSession sample_env (\<lambda>x. x) False sample_module (empty_neg\<lparr>ngModuleArg := ''mod/d'', ngDelete := True\<rparr>)
       (sample_sess [0, 0, 0, 0, 0, 0, 0, 0]) in
   StreamFile sample_env ''e'' (se_repo (snd r)) = ([2], Inr (1, replicate 16 0))"
proof -
  let ?neg = "empty_neg\<lparr>ngModuleArg := ''mod/d'', ngDelete := True\<rparr>" and ?s = "sample_sess [0, 0, 0, 0, 0, 0, 0, 0]"
  have s: "repo_ok sample_env (se_repo ?s)" "ups_fresh ?s" "aead_laws (re_aead sample_env)"
    using sample_sess_ok [of "[0, 0, 0, 0, 0, 0, 0, 0]"] sample_env_ok by (simp_all add: sess_ok_def env_ok_def)
  have "\<not> in_root (modulePrefix (ngModuleArg ?neg) (mo_name sample_module)) ''e''" by code_simp
  moreover have "StreamFile sample_env ''e'' (se_repo ?s) = ([2], Inr (1, replicate 16 0))"
    unfolding sample_sess_def sess.simps by code_simp
  ultimately show ?thesis
    using session_stays_in_root [OF s(3,1,2) prod.collapse [symmetric], of "\<lambda>x. x" False sample_module ?neg] by (simp add: Let_def)
qed

text \<open>
  A dry run changes nothing, whatever the client sends.
\<close>

lemma dry_run_changes_nothing:
  assumes "ngDryRun neg" "processSession E quote keep m neg s = (r, s')"
  shows "se_repo s' = se_repo s"
  using same.keepsD [OF same_dry_run [OF assms(1)] assms(2)] by (simp add: repo_same_def)

text \<open>
  C22: when the deletion phase of a session with \<open>--delete\<close> has run, exactly the rows below the transfer root
  that the file list does not cover are gone; the others keep their content.
\<close>

theorem delete_phase_converges:
  assumes "repo_ok E (se_repo s)" "ngDelete neg" "\<not> ngDryRun neg" "delete_phase keep neg pfx 0 es s = (Inr (), s')"
  shows "(\<forall>q. in_root pfx q \<and> q \<notin> covered pfx es \<longrightarrow> GetFileRow q (rp_db (se_repo s')) = None) \<and>
    (\<forall>q. \<not> in_root pfx q \<or> q \<in> covered pfx es \<longrightarrow> GetFileRow q (rp_db (se_repo s')) = GetFileRow q (rp_db (se_repo s)) \<and>
      StreamFile E q (se_repo s') = StreamFile E q (se_repo s))"
proof -
  let ?db = "rp_db (se_repo s)" and ?gone = "filter (\<lambda>row. fr_path row \<notin> covered pfx es) (FileRows pfx (rp_db (se_repo s)))"
  have inv: "db_inv ?db" using assms(1) by (simp add: repo_ok_def)
  have "delete_rows_not_in keep (covered pfx es) (FileRows pfx ?db) s = (Inr (), s')"
    using assms(2-4) by (simp add: delete_phase_def sbind_sget)
  note repo = delete_rows_db [OF this]
  note F = fold_DeleteFile [OF inv, of ?gone]
  have gone: "q \<in> fr_path ` set ?gone \<longleftrightarrow> in_root pfx q \<and> GetFileRow q ?db \<noteq> None \<and> q \<notin> covered pfx es" for q
    using FileRows_paths [OF inv, of q pfx] by (auto simp: image_iff)
  have "StreamFile E q (se_repo s') = StreamFile E q (se_repo s)" if "q \<notin> fr_path ` set ?gone" for q
    unfolding repo by (rule StreamFile_kept) (use F that in \<open>simp_all add: if_not_P\<close>)
  then show ?thesis using F gone by (auto simp: repo)
qed

theorem delete_phase_converges_witness:
  "GetFileRow ''d/x'' (rp_db (se_repo (snd (delete_phase False (empty_neg\<lparr>ngDelete := True\<rparr>) ''d'' 0 [] (sample_sess []))))) = None \<and>
   GetFileRow ''e'' (rp_db (se_repo (snd (delete_phase False (empty_neg\<lparr>ngDelete := True\<rparr>) ''d'' 0 [] (sample_sess []))))) = Some (row_named ''e'' 1)"
proof -
  let ?r = "delete_phase False (empty_neg\<lparr>ngDelete := True\<rparr>) ''d'' 0 [] (sample_sess [])"
  have "fst ?r = Inr ()" by code_simp
  then have r: "?r = (Inr (), snd ?r)" by (metis prod.collapse)
  have "in_root ''d'' ''d/x''" "\<not> in_root ''d'' ''e''" "GetFileRow ''e'' two_file_db = Some (row_named ''e'' 1)" by code_simp+
  then show ?thesis
    using delete_phase_converges [of sample_env, OF _ _ _ r] sample_repo_ok
    by (simp add: empty_neg_def covered_def sample_sess_def two_file_repo_def)
qed

end
