(* ===== verification/Sender.thy ===== *)
theory Sender
  imports Receiver
begin

text \<open>
  The restore direction: \<open>processSendSession\<close> and what it calls in
  \<open>internal/front/rsync/protocol/sender.go\<close>, as steps on the session state of \<open>Session\<close>.  The client's
  generator is the input; nothing is assumed of it.  Log lines and timers are left out.
\<close>

subsection \<open>Constants, sums and attributes\<close>

definition itemBasisTypeFollows :: "16 word" where "itemBasisTypeFollows = 0x800"
definition itemXnameFollows :: "16 word" where "itemXnameFollows = 0x1000"
definition ndxDelStats :: int32 where "ndxDelStats = - 3"
definition ndxFlistEOF :: int32 where "ndxFlistEOF = - 2"
definition literalChunkSize :: nat where "literalChunkSize = 32768"

definition readDelStats :: "int32 list reader" where
  "readDelStats = rbind ReadVarint (\<lambda>a. rbind ReadVarint (\<lambda>b. rbind ReadVarint (\<lambda>c. rbind ReadVarint (\<lambda>d.
     rbind ReadVarint (\<lambda>e. rret [a, b, c, d, e])))))"

definition handleDelStats :: "unit step" where
  "handleDelStats = sbind (sread readDelStats) (\<lambda>stats. sbind (ndx_out ndxDelStats) (\<lambda>b.
     semit 0 (b @ concat (map WriteVarint stats))))"

record sumHead =
  sh_count :: int32
  sh_blength :: int32
  sh_s2length :: int32
  sh_remainder :: int32

definition readSumHead :: "sumHead reader" where
  "readSumHead = rbind ReadInt32 (\<lambda>a. rbind ReadInt32 (\<lambda>b. rbind ReadInt32 (\<lambda>c. rbind ReadInt32 (\<lambda>d.
     rret \<lparr>sh_count = a, sh_blength = b, sh_s2length = c, sh_remainder = d\<rparr>))))"

definition writeSumHead :: "sumHead \<Rightarrow> bytes" where
  "writeSumHead h = concat (map WriteInt32 [sh_count h, sh_blength h, sh_s2length h, sh_remainder h])"

fun discard_blocks :: "nat \<Rightarrow> nat \<Rightarrow> unit step" where
  "discard_blocks 0 l = sret ()"
| "discard_blocks (Suc n) l = sseq (sread (read_full 4))
     (sseq (if 0 < l then sread (discard_n l) else sret ()) (discard_blocks n l))"

definition discardSums :: "sumHead \<Rightarrow> unit step" where
  "discardSums h =
     (if sint (sh_count h) \<le> 0 \<or> 2 ^ 20 < sint (sh_count h) then sret ()
      else if sint (sh_s2length h) < 0 \<or> 2 ^ 16 < sint (sh_s2length h) then sfail (Err ''s2length'')
      else discard_blocks (nat (sint (sh_count h))) (nat (sint (sh_s2length h))))"

text \<open>A vstring with its length prefix, as it is echoed.\<close>

definition readVstring :: "bytes reader" where
  "readVstring = rbind read_byte (\<lambda>first.
     if first AND 0x80 \<noteq> 0 then rbind read_byte (\<lambda>second.
       rbind (read_full (unat (first AND 0x7F) * 256 + unat second)) (\<lambda>data. rret (first # second # data)))
     else rbind (read_full (unat first)) (\<lambda>data. rret (first # data)))"

record attrs =
  at_iflags :: "16 word"
  at_basis :: byte
  at_xname :: bytes

definition read_attrs :: "attrs step" where
  "read_attrs = sbind (sread ReadShortint) (\<lambda>iflags.
     sbind (if iflags AND itemBasisTypeFollows \<noteq> 0 then sread read_byte else sret 0) (\<lambda>basis.
     sbind (if iflags AND itemXnameFollows \<noteq> 0 then sread readVstring else sret []) (\<lambda>xname.
     sret \<lparr>at_iflags = iflags, at_basis = basis, at_xname = xname\<rparr>)))"

definition writeNdxAttrs :: "int32 \<Rightarrow> attrs \<Rightarrow> unit step" where
  "writeNdxAttrs i a = sbind (ndx_out i) (\<lambda>b. semit 0 (b @ WriteShortint (at_iflags a) @
     (if at_iflags a AND itemBasisTypeFollows \<noteq> 0 then [at_basis a] else []) @
     (if at_iflags a AND itemXnameFollows \<noteq> 0 then at_xname a else [])))"

subsection \<open>The content of a file\<close>

definition writeLiteralBlock :: "bytes \<Rightarrow> unit step" where
  "writeLiteralBlock data = semit 0 (WriteInt32 (word_of_nat (length data)) @ data)"

fun write_blocks :: "bytes list \<Rightarrow> unit step" where
  "write_blocks [] = sret ()"
| "write_blocks (p # ps) = sseq (writeLiteralBlock p) (write_blocks ps)"

definition lw_Write :: "bytes \<Rightarrow> unit step" where
  "lw_Write p = write_blocks (chunks_of literalChunkSize p)"

text \<open>
  \<open>StreamFile\<close> with the literal writer: every chunk is written when it has been read, so that a chunk
  that cannot be read ends the session after the literals of those before it.
\<close>

fun send_blobs :: "repo_env \<Rightarrow> (string \<times> int) list \<Rightarrow> bytes \<Rightarrow> bytes step" where
  "send_blobs E [] w = sret w"
| "send_blobs E ((name, sz) # bs) w = sbind (sget (\<lambda>s. read_blob E name (se_repo s))) (\<lambda>r. sbind (slift r) (\<lambda>pt.
     sseq (lw_Write pt) (send_blobs E bs (w @ pt))))"

definition send_stream :: "repo_env \<Rightarrow> string \<Rightarrow> (int \<times> bytes) step" where
  "send_stream E path = sbind (sget (\<lambda>s. GetFileRow path (rp_db (se_repo s)))) (\<lambda>row. case row of
       None \<Rightarrow> sfail (Err ''no such file in the repository'')
     | Some f \<Rightarrow> sbind (sget (\<lambda>s. file_blobs path (rp_db (se_repo s)))) (\<lambda>bs.
         sbind (send_blobs E bs []) (\<lambda>w.
           if int (length w) \<noteq> fr_size f then sfail (Err ''file content incomplete'')
           else sret (int (length w), re_md5 E w))))"

definition send_content :: "repo_env \<Rightarrow> string \<Rightarrow> int step" where
  "send_content E path = sbind (send_stream E path) (\<lambda>(n, md).
     sseq (semit 0 [0, 0, 0, 0]) (sseq (semit 0 md) (sret n)))"

subsection \<open>The file list\<close>

record flist_item =
  it_entry :: file_entry
  it_snap :: string

definition item_name :: "string \<Rightarrow> file_row \<Rightarrow> string" where
  "item_name pfx f =
     (if pfx = [] then fr_path f
      else if fr_path f = pfx \<and> fr_isdir f then ''.''
      else if fr_path f = pfx then pathBase (fr_path f)
      else TrimPrefix (fr_path f) (pfx @ ''/''))"

definition row_item :: "string \<Rightarrow> file_row \<Rightarrow> flist_item" where
  "row_item pfx f = \<lparr>it_entry = \<lparr>fe_path = item_name pfx f, fe_isdir = fr_isdir f, fe_issymlink = fr_issymlink f,
       fe_mode = fr_mode f, fe_uid = fr_uid f, fe_gid = fr_gid f, fe_size = word_of_int (fr_size f),
       fe_mtime = word_of_int (fr_mtime f), fe_link = fr_link f\<rparr>, it_snap = fr_path f\<rparr>"

definition is_listed :: "negotiation \<Rightarrow> string \<Rightarrow> file_row \<Rightarrow> bool" where
  "is_listed neg pfx f \<longleftrightarrow> ngRecurse neg \<or> item_name pfx f = ''.'' \<or> \<not> has_char CHR ''/'' (item_name pfx f)"

definition flist_items :: "negotiation \<Rightarrow> string \<Rightarrow> file_row list \<Rightarrow> flist_item list" where
  "flist_items neg pfx rows = stable_sort (\<lambda>a b. fNameCmp (it_entry a) (it_entry b) < 0)
     (map (row_item pfx) (filter (is_listed neg pfx) rows))"

text \<open>The message for a path that is not in the repository, in the words of \<open>rsync\<close>.\<close>

definition missing_error :: "negotiation \<Rightarrow> string \<Rightarrow> meta_db \<Rightarrow> string \<times> string \<times> string" where
  "missing_error neg pfx db =
     (let enoent = ''No such file or directory (2)'' in
      if HasSuffix (ngModuleArg neg) ''/'' then (''change_dir'', pfx, enoent)
      else case last_index CHR ''/'' pfx of
        None \<Rightarrow> (''link_stat'', pfx, enoent)
      | Some i \<Rightarrow> let dir = take i pfx in
          (case GetFileRow dir db of
             None \<Rightarrow> (''change_dir'', dir, enoent)
           | Some row \<Rightarrow> if \<not> fr_isdir row then (''change_dir'', dir, ''Not a directory (20)'') else (''link_stat'', pfx, enoent)))"

definition missing_line :: "string \<Rightarrow> string \<times> string \<times> string \<Rightarrow> bytes" where
  "missing_line name x = (case x of (op, arg, serr) \<Rightarrow>
     to_bytes (''rsync: [sender] '' @ op @ '' '') @ [34] @ to_bytes arg @ [34] @
     to_bytes ('' (in '' @ name @ '') failed: '' @ serr) @ [10])"

definition wants_csum :: "negotiation \<Rightarrow> file_entry \<Rightarrow> bool" where
  "wants_csum neg e \<longleftrightarrow> ngChecksum neg \<and> \<not> fe_isdir e \<and> \<not> fe_issymlink e \<and> isRegularMode (fe_mode e)"

definition send_item :: "repo_env \<Rightarrow> negotiation \<Rightarrow> flist_item \<Rightarrow> unit step" where
  "send_item E neg it = sbind (slift (WriteEntry (neg_preserve neg) (it_entry it))) (\<lambda>b.
     if wants_csum neg (it_entry it) then
       sbind (sget (\<lambda>s. snd (StreamFile E (it_snap it) (se_repo s)))) (\<lambda>r. sbind (slift r) (\<lambda>(n, md). semit 0 (b @ md)))
     else semit 0 b)"

fun send_items :: "repo_env \<Rightarrow> negotiation \<Rightarrow> flist_item list \<Rightarrow> unit step" where
  "send_items E neg [] = sret ()"
| "send_items E neg (it # its) = sseq sctx (sseq (send_item E neg it) (send_items E neg its))"

definition list_end :: "negotiation \<Rightarrow> bytes" where
  "list_end neg = WriteEndOfFlist @ (if ngNumericIDs neg then []
     else (if ngUID neg then WriteIdList else []) @ (if ngGID neg then WriteIdList else []))"

subsection \<open>The session\<close>

definition send_file :: "repo_env \<Rightarrow> negotiation \<Rightarrow> flist_item \<Rightarrow> int32 \<Rightarrow> int step" where
  "send_file E neg it i = sbind read_attrs (\<lambda>a.
     let e = it_entry it in
     if at_iflags a AND itemTransfer = 0 then sseq (writeNdxAttrs i a) (sret 0)
     else if \<not> fe_issymlink e \<and> \<not> fe_isdir e \<and> \<not> isRegularMode (fe_mode e) then sfail (Err ''not a regular file'')
     else if fe_isdir e then sfail (Err ''transfer of a directory'')
     else if ngDryRun neg then sseq (writeNdxAttrs i a) (sret 0)
     else sbind (sread readSumHead) (\<lambda>h. sseq (discardSums h) (sseq (writeNdxAttrs i a)
       (sseq (semit 0 (writeSumHead h)) (send_content E (it_snap it))))))"

text \<open>The loop over the client's requests; the result is the number of bytes sent.\<close>

fun send_loop :: "nat \<Rightarrow> repo_env \<Rightarrow> negotiation \<Rightarrow> flist_item list \<Rightarrow> nat \<Rightarrow> int \<Rightarrow> int step" where
  "send_loop 0 E neg its phase sent = sfail (Err ''out of fuel'')"
| "send_loop (Suc k) E neg its phase sent = sseq sctx (sbind ndx_in (\<lambda>i.
     if i = ndxDone then
       (if 2 < phase + 1 then sret sent else sseq writeNdxDone (send_loop k E neg its (phase + 1) sent))
     else if i = ndxDelStats then sseq handleDelStats (send_loop k E neg its phase sent)
     else if i = ndxFlistEOF then sfail (Err ''NDX_FLIST_EOF'')
     else if sint i < 0 then sfail (Err ''bad index'')
     else if int (length its) \<le> sint i then sfail (Err ''index beyond the list'')
     else sbind (send_file E neg (its ! nat (sint i)) i) (\<lambda>n. send_loop k E neg its phase (sent + n))))"

definition stats_bytes :: "int \<Rightarrow> bytes" where
  "stats_bytes sent = concat (map (\<lambda>v. WriteVarlong v 3) [0, 0, word_of_int sent, 1, 0])"

fun final_done :: "nat \<Rightarrow> unit step" where
  "final_done 0 = sfail (Err ''out of fuel'')"
| "final_done (Suc k) = sbind ndx_in (\<lambda>v.
     if v = ndxDelStats then sseq handleDelStats (final_done k)
     else if v \<noteq> ndxDone then sfail (Err ''goodbye'')
     else sret ())"

definition read_final_goodbye :: "unit step" where
  "read_final_goodbye = sbind (sget (\<lambda>s. Suc (length (se_in s)))) (\<lambda>k.
     sseq (final_done k) (sseq writeNdxDone (final_done k)))"

definition send_missing :: "module_config \<Rightarrow> negotiation \<Rightarrow> string \<Rightarrow> unit step" where
  "send_missing m neg pfx = sbind (sget (\<lambda>s. missing_error neg pfx (rp_db (se_repo s))))
     (\<lambda>x. semit 1 (missing_line (mo_name m) x))"

text \<open>Every request takes at least a byte of the input, so its length is fuel enough.\<close>

definition processSendSession :: "repo_env \<Rightarrow> module_config \<Rightarrow> negotiation \<Rightarrow> int step" where
  "processSendSession E m neg =
     (let pfx = modulePrefix (ngModuleArg neg) (mo_name m) in
      sseq recvFilterList
      (sbind (sget (\<lambda>s. flist_items neg pfx (FileRows pfx (rp_db (se_repo s))))) (\<lambda>its.
       let missing = pfx \<noteq> [] \<and> its = [] in
       sseq (if missing then send_missing m neg pfx else sret ())
       (sseq (send_items E neg its)
       (sseq (semit 0 (list_end neg))
         (if missing then sfail (Err ''no such path in the repository'')
          else sbind (sget (\<lambda>s. Suc (length (se_in s)))) (\<lambda>k.
            sbind (send_loop k E neg its 0 0) (\<lambda>sent.
            sseq writeNdxDone (sseq (semit 0 (stats_bytes sent)) (sseq read_final_goodbye (sret sent)))))))))))"

end
