(* ===== verification/SenderView.thy ===== *)
theory SenderView
  imports Sender ReceiverSafe
begin

text \<open>
  What a restore session can see and change.  It reads the repository only through the rows at and
  below the requested root, the blobs of these rows, and the kind of the root's parent; it writes
  nothing.
\<close>

subsection \<open>Steps that read the repository through a view\<close>

text \<open>Runs on two repositories that \<open>Q\<close> relates return the same and leave everything but the repository the same.\<close>

locale repo_view =
  fixes Q :: "repo \<Rightarrow> repo \<Rightarrow> bool"
  assumes Q_refl: "Q st st"
begin

definition views :: "'a step \<Rightarrow> bool" where
  "views m \<longleftrightarrow> (\<forall>s r. Q (se_repo s) r \<longrightarrow>
     m (s\<lparr>se_repo := r\<rparr>) = (fst (m s), (snd (m s))\<lparr>se_repo := r\<rparr>) \<and> repo_same s (snd (m s)))"

lemma viewsD:
  assumes "views m" "Q (se_repo s) r" "m s = (x, s')"
  shows "m (s\<lparr>se_repo := r\<rparr>) = (x, s'\<lparr>se_repo := r\<rparr>)" "repo_same s s'"
  using assms unfolding views_def by (metis fst_conv snd_conv)+

lemma views_basic: "views (sret x)" "views (sfail e)" "views (slift r)"
  by (simp_all add: views_def step_simps repo_same_def)

lemma views_sget: "(\<And>s r. Q (se_repo s) r \<Longrightarrow> f (s\<lparr>se_repo := r\<rparr>) = f s) \<Longrightarrow> views (sget f)"
  by (simp add: views_def step_simps repo_same_def)

lemma views_sbind_in:
  assumes "views m" "\<And>s x s'. m s = (Inr x, s') \<Longrightarrow> views (f x)"
  shows "views (sbind m f)"
  unfolding views_def
proof (intro allI impI)
  fix s :: sess and r
  assume Q: "Q (se_repo s) r"
  obtain x s1 where m: "m s = (x, s1)" by fastforce
  note D = viewsD [OF assms(1) Q m]
  show "sbind m f (s\<lparr>se_repo := r\<rparr>) = (fst (sbind m f s), (snd (sbind m f s))\<lparr>se_repo := r\<rparr>) \<and>
    repo_same s (snd (sbind m f s))"
  proof (cases x)
    case (Inr y)
    have "views (f y)" using assms(2) m Inr by blast
    moreover have "Q (se_repo s1) r" using Q D(2) by (simp add: repo_same_def)
    ultimately show ?thesis using m D Inr unfolding views_def repo_same_def by (simp add: sbind_def)
  qed (use m D in \<open>simp add: sbind_def\<close>)
qed

lemma views_sbind: "views m \<Longrightarrow> (\<And>x. views (f x)) \<Longrightarrow> views (sbind m f)"
  by (rule views_sbind_in)

lemma views_sseq: "views m \<Longrightarrow> views k \<Longrightarrow> views (sseq m k)"
  unfolding sseq_def by (rule views_sbind)

lemma views_split:
  "(b \<Longrightarrow> views m) \<Longrightarrow> (\<not> b \<Longrightarrow> views k) \<Longrightarrow> views (if b then m else k)"
  "(\<And>a b. views (f a b)) \<Longrightarrow> views (case p of (a, b) \<Rightarrow> f a b)"
  "views n \<Longrightarrow> (\<And>x. views (g x)) \<Longrightarrow> views (case opt of None \<Rightarrow> n | Some x \<Rightarrow> g x)"
  by (auto split: prod.splits option.splits)

text \<open>The steps on the connection do not look at the repository.\<close>

lemma views_io: "views sctx" "views (semit ty d)" "views (sread rd)" "views (ndx_out i)"
  unfolding views_def
  by (auto simp: repo_same_def sctx_def semit_def sread_def ndx_out_def Let_def split: option.splits sum.splits prod.splits list.splits item.splits)

lemma views_ndx_in: "views ndx_in"
  unfolding ndx_in_def
  by (intro views_sbind views_sget views_io) (auto simp: views_def repo_same_def)

lemmas views_intros = views_basic views_sseq views_sbind views_split views_io views_ndx_in

lemma views_writeNdxDone: "views writeNdxDone"
  unfolding writeNdxDone_def by (intro views_intros)

lemma views_handleDelStats: "views handleDelStats"
  unfolding handleDelStats_def by (intro views_intros)

lemma views_discard: "views (discardSums h)"
proof -
  have "views (discard_blocks n l)" for n l
  proof (induction n)
    case (Suc n)
    then show ?case unfolding discard_blocks.simps by (intro views_intros)
  qed (simp add: views_basic)
  then show ?thesis unfolding discardSums_def by (intro views_intros)
qed

lemma views_attrs: "views read_attrs" "views (writeNdxAttrs i a)"
  unfolding read_attrs_def writeNdxAttrs_def by (intro views_intros)+

lemma views_write_blocks: "views (write_blocks ps)"
proof (induction ps)
  case (Cons p ps)
  then show ?case unfolding write_blocks.simps writeLiteralBlock_def by (intro views_intros)
qed (simp add: views_basic)

lemma views_final_done: "views (final_done k)"
proof (induction k)
  case (Suc k)
  then show ?case unfolding final_done.simps by (intro views_intros views_handleDelStats)
qed (simp add: views_basic)

lemma views_goodbye: "views read_final_goodbye"
  unfolding read_final_goodbye_def
  by (intro views_intros views_final_done views_writeNdxDone views_sget) simp

lemma views_filter_rules: "views (filter_rules k)"
proof (induction k)
  case (Suc k)
  then show ?case unfolding filter_rules.simps by (intro views_intros)
qed (simp add: views_basic)

lemma views_recvFilterList: "views recvFilterList"
  using views_filter_rules by (simp add: views_def recvFilterList_def del: filter_rules.simps)

end

subsection \<open>The view of a transfer root\<close>

definition blob_results :: "repo_env \<Rightarrow> string \<Rightarrow> repo \<Rightarrow> bytes result list" where
  "blob_results E q st = map (\<lambda>b. read_blob E (fst b) st) (file_blobs q (rp_db st))"

definition parent_of :: "string \<Rightarrow> meta_db \<Rightarrow> bool option" where
  "parent_of pfx db = (case last_index CHR ''/'' pfx of None \<Rightarrow> None
     | Some i \<Rightarrow> map_option fr_isdir (GetFileRow (take i pfx) db))"

definition same_view :: "repo_env \<Rightarrow> string \<Rightarrow> repo \<Rightarrow> repo \<Rightarrow> bool" where
  "same_view E pfx a b \<longleftrightarrow> FileRows pfx (rp_db a) = FileRows pfx (rp_db b) \<and> parent_of pfx (rp_db a) = parent_of pfx (rp_db b) \<and>
     (\<forall>q. in_root pfx q \<longrightarrow> GetFileRow q (rp_db a) = GetFileRow q (rp_db b) \<and> blob_results E q a = blob_results E q b)"

interpretation rootv: repo_view "same_view E pfx" for E pfx
  by unfold_locales (simp add: same_view_def)

text \<open>The literals of a file as they depend on the results of reading its blobs.\<close>

fun send_pieces :: "bytes result list \<Rightarrow> bytes \<Rightarrow> bytes step" where
  "send_pieces [] w = sret w"
| "send_pieces (r # rs) w = sbind (slift r) (\<lambda>pt. sseq (lw_Write pt) (send_pieces rs (w @ pt)))"

fun stream_results :: "bytes result list \<Rightarrow> bytes \<times> unit result" where
  "stream_results [] = ([], Inr ())"
| "stream_results (Inl e # rs) = ([], Inl e)"
| "stream_results (Inr pt # rs) = (case stream_results rs of (w, r) \<Rightarrow> (pt @ w, r))"

lemma stream_blobs_results: "stream_blobs E bs st = stream_results (map (\<lambda>b. read_blob E (fst b) st) bs)"
  by (induction bs) (auto split: sum.splits)

lemma StreamFile_results:
  "StreamFile E q st = (case GetFileRow q (rp_db st) of
       None \<Rightarrow> ([], Inl (Err ''no such file in the repository''))
     | Some f \<Rightarrow> (case stream_results (blob_results E q st) of
         (w, Inl e) \<Rightarrow> (w, Inl e)
       | (w, Inr _) \<Rightarrow>
           if int (length w) \<noteq> fr_size f then (w, Inl (Err ''file content incomplete''))
           else (w, Inr (int (length w), re_md5 E w))))"
  by (simp add: StreamFile_def stream_blobs_results blob_results_def split: option.splits prod.splits sum.splits)

lemma views_lw_Write: "rootv.views E pfx (lw_Write p)"
  unfolding lw_Write_def by (rule rootv.views_write_blocks)

lemma lw_Write_repo: "lw_Write p s = (r, s') \<Longrightarrow> se_repo s' = se_repo s"
  using rootv.viewsD(2) [OF views_lw_Write] rootv.Q_refl unfolding repo_same_def by blast

lemma send_blobs_pieces:
  "send_blobs E bs w s = send_pieces (map (\<lambda>b. read_blob E (fst b) (se_repo s)) bs) w s"
proof (induction bs arbitrary: w s)
  case (Cons b bs)
  obtain name sz where b: "b = (name, sz)" by fastforce
  have "send_blobs E bs w' s' = send_pieces (map (\<lambda>b. read_blob E (fst b) (se_repo s)) bs) w' s'"
    if "lw_Write pt s = (Inr (), s')" for pt w' s'
    using Cons.IH [of w' s'] lw_Write_repo [OF that] by simp
  then show ?case
    by (auto simp: b sbind_def sget_def slift_def sseq_def split: sum.splits prod.splits)
qed simp

lemma send_stream_pieces:
  "send_stream E path = sbind (sget (\<lambda>s. (GetFileRow path (rp_db (se_repo s)), blob_results E path (se_repo s)))) (\<lambda>(row, rs). case row of
       None \<Rightarrow> sfail (Err ''no such file in the repository'')
     | Some f \<Rightarrow> sbind (send_pieces rs []) (\<lambda>w.
           if int (length w) \<noteq> fr_size f then sfail (Err ''file content incomplete'')
           else sret (int (length w), re_md5 E w)))"
  by (rule ext) (simp add: send_stream_def sbind_def sget_def blob_results_def send_blobs_pieces split: option.splits)

lemma views_send_pieces: "rootv.views E pfx (send_pieces rs w)"
proof (induction rs arbitrary: w)
  case (Cons r rs)
  then show ?case unfolding send_pieces.simps by (intro rootv.views_intros views_lw_Write)
qed (simp add: rootv.views_basic)

lemma views_send_content:
  assumes "in_root pfx path"
  shows "rootv.views E pfx (send_content E path)"
  unfolding send_content_def send_stream_pieces
  by (intro rootv.views_intros rootv.views_sget views_send_pieces) (use assms in \<open>simp add: same_view_def\<close>)

lemma StreamFile_view:
  assumes "same_view E pfx a b" "in_root pfx q"
  shows "StreamFile E q b = StreamFile E q a"
proof -
  have "GetFileRow q (rp_db b) = GetFileRow q (rp_db a)" "blob_results E q b = blob_results E q a"
    using assms by (simp_all add: same_view_def)
  then show ?thesis by (simp only: StreamFile_results)
qed

lemma views_send_item:
  assumes "in_root pfx (it_snap it)"
  shows "rootv.views E pfx (send_item E neg it)"
  unfolding send_item_def
  by (intro rootv.views_intros rootv.views_sget) (use assms StreamFile_view in simp)

lemma views_send_items:
  assumes "list_all (\<lambda>it. in_root pfx (it_snap it)) its"
  shows "rootv.views E pfx (send_items E neg its)"
  using assms
proof (induction its)
  case (Cons it its)
  then show ?case unfolding send_items.simps by (intro rootv.views_intros views_send_item) simp_all
qed (simp add: rootv.views_basic)

lemma views_send_file:
  assumes "in_root pfx (it_snap it)"
  shows "rootv.views E pfx (send_file E neg it i)"
  unfolding send_file_def Let_def
  by (intro rootv.views_intros rootv.views_attrs rootv.views_discard views_send_content assms)

lemma views_send_loop:
  assumes "list_all (\<lambda>it. in_root pfx (it_snap it)) its"
  shows "rootv.views E pfx (send_loop k E neg its phase sent)"
proof (induction k arbitrary: phase sent)
  case (Suc k)
  have "rootv.views E pfx (send_file E neg (its ! nat (sint i)) i)" if "\<not> int (length its) \<le> sint i" "\<not> sint i < 0" for i
    using that assms by (intro views_send_file) (simp add: list_all_length)
  then show ?case
    unfolding send_loop.simps
    by (intro rootv.views_intros rootv.views_writeNdxDone rootv.views_handleDelStats Suc)
qed (simp add: rootv.views_basic)

lemma set_stable_sort: "set (stable_sort lt xs) = set xs"
proof -
  have "set (ins_rev lt x ys) = insert x (set ys)" for x ys
    using arg_cong [OF ins_rev_mset [of lt x ys], of set_mset] by simp
  then have "set (foldl (\<lambda>acc x. ins_rev lt x acc) acc xs) = set acc \<union> set xs" for acc
    by (induction xs arbitrary: acc) auto
  then show ?thesis by (simp add: stable_sort_def)
qed

lemma items_in_root: "list_all (\<lambda>it. in_root pfx (it_snap it)) (flist_items neg pfx (FileRows pfx db))"
  by (auto simp: flist_items_def list_all_iff set_stable_sort row_item_def in_root_def in_tree_def FileRows_def GetFiles_def)

lemma missing_error_view:
  assumes "parent_of pfx a = parent_of pfx b"
  shows "missing_error neg pfx a = missing_error neg pfx b"
proof (cases "last_index CHR ''/'' pfx")
  case (Some i)
  then have "map_option fr_isdir (GetFileRow (take i pfx) a) = map_option fr_isdir (GetFileRow (take i pfx) b)"
    using assms by (simp add: parent_of_def)
  then show ?thesis
    using Some by (cases "GetFileRow (take i pfx) a"; cases "GetFileRow (take i pfx) b") (simp_all add: missing_error_def Let_def)
next
  case None
  show ?thesis unfolding missing_error_def None Let_def by simp
qed

lemma views_processSendSession:
  "rootv.views E (modulePrefix (ngModuleArg neg) (mo_name m)) (processSendSession E m neg)"
proof -
  let ?pfx = "modulePrefix (ngModuleArg neg) (mo_name m)"
  have missing: "rootv.views E ?pfx (send_missing m neg ?pfx)"
    unfolding send_missing_def by (intro rootv.views_intros rootv.views_sget missing_error_view) (simp add: same_view_def)
  show ?thesis
    unfolding processSendSession_def Let_def
  proof (intro rootv.views_sseq rootv.views_recvFilterList, rule rootv.views_sbind_in, rule rootv.views_sget)
    fix s :: sess and its s'
    assume "sget (\<lambda>s. flist_items neg ?pfx (FileRows ?pfx (rp_db (se_repo s)))) s = (Inr its, s')"
    then have "list_all (\<lambda>it. in_root ?pfx (it_snap it)) its" using items_in_root by (auto simp: sget_def)
    then show "rootv.views E ?pfx (sseq (if ?pfx \<noteq> [] \<and> its = [] then send_missing m neg ?pfx else sret ())
       (sseq (send_items E neg its)
       (sseq (semit 0 (list_end neg))
         (if ?pfx \<noteq> [] \<and> its = [] then sfail (Err ''no such path in the repository'')
          else sbind (sget (\<lambda>s. Suc (length (se_in s)))) (\<lambda>k.
            sbind (send_loop k E neg its 0 0) (\<lambda>sent.
            sseq writeNdxDone (sseq (semit 0 (stats_bytes sent)) (sseq read_final_goodbye (sret sent)))))))))"
      by (intro rootv.views_intros missing views_send_items views_send_loop rootv.views_writeNdxDone rootv.views_goodbye rootv.views_sget) simp_all
  qed (simp add: same_view_def)
qed

lemma same_send_session: "same.keeps (processSendSession E m neg)"
  using views_processSendSession rootv.Q_refl unfolding rootv.views_def same.keeps_def by blast

end
