(* ===== verification/SenderProps.thy ===== *)
theory SenderProps
  imports SenderView DeltaTransfer
begin

text \<open>
  What a client gets from a restore session: the content of the files, the order of the list, and the
  part of the repository it can see.
\<close>

subsection \<open>The content of a file on the wire\<close>

text \<open>The bytes of the data frames.\<close>

definition sent_data :: "(byte \<times> bytes) list \<Rightarrow> bytes" where
  "sent_data fs = concat (map snd (filter (\<lambda>f. fst f = 0) fs))"

lemma sent_data_append [simp]: "sent_data (fs @ gs) = sent_data fs @ sent_data gs"
  by (simp add: sent_data_def)

lemma sent_data_Cons [simp]: "sent_data ((ty, d) # fs) = (if ty = 0 then d else []) @ sent_data fs" "sent_data [] = []"
  by (simp_all add: sent_data_def)

definition emitted :: "(byte \<times> bytes) list \<Rightarrow> sess \<Rightarrow> sess" where
  "emitted fs s = s\<lparr>se_out := se_out s @ fs\<rparr>"

lemma emitted_simps [simp]:
  "emitted [] s = s" "emitted gs (emitted fs s) = emitted (fs @ gs) s" "se_room (emitted fs s) = se_room s"
  "se_repo (emitted fs s) = se_repo s" "se_in (emitted fs s) = se_in s" "se_out (emitted fs s) = se_out s @ fs"
  "se_polls (emitted fs s) = se_polls s" "se_nout (emitted fs s) = se_nout s" "se_nin (emitted fs s) = se_nin s"
  by (simp_all add: emitted_def)

lemma semit_emitted: "se_room s = None \<Longrightarrow> length d \<le> 0xFFFFFF \<Longrightarrow> semit ty d s = (Inr (), emitted [(ty, d)] s)"
  using semit_ok [of s d ty] by (simp add: emitted_def)

definition literal_tokens :: "bytes result list \<Rightarrow> token list" where
  "literal_tokens rs = concat (map (\<lambda>r. case r of Inl e \<Rightarrow> [] | Inr pt \<Rightarrow> map Lit (chunks_of literalChunkSize pt)) rs)"

definition token_frames :: "token list \<Rightarrow> (byte \<times> bytes) list" where
  "token_frames ts = map (\<lambda>t. (0, token_bytes t)) ts"

lemma token_frames_append [simp]: "token_frames (ts @ us) = token_frames ts @ token_frames us"
  by (simp add: token_frames_def)

lemma sent_data_token_frames: "sent_data (token_frames ts) = concat (map token_bytes ts)"
  by (simp add: sent_data_def token_frames_def comp_def)

lemma write_blocks_ok:
  assumes "se_room s = None" "\<forall>p \<in> set ps. length p \<le> literalChunkSize"
  shows "write_blocks ps s = (Inr (), emitted (token_frames (map Lit ps)) s)"
  using assms
proof (induction ps arbitrary: s)
  case (Cons p ps)
  have "semit 0 (token_bytes (Lit p)) s = (Inr (), emitted [(0, token_bytes (Lit p))] s)"
    using Cons.prems by (intro semit_emitted) (simp_all add: literalChunkSize_def WriteInt32_def)
  then show ?case
    using Cons.IH [of "emitted [(0, token_bytes (Lit p))] s"] Cons.prems
    by (simp add: sseq_def sbind_def writeLiteralBlock_def token_frames_def)
qed (simp add: sret_def token_frames_def)

lemma lw_Write_ok: "se_room s = None \<Longrightarrow> lw_Write p s = (Inr (), emitted (token_frames (map Lit (chunks_of literalChunkSize p))) s)"
  unfolding lw_Write_def using chunks_of_lengths [of literalChunkSize _ p]
  by (intro write_blocks_ok) (auto simp: literalChunkSize_def)

lemma send_pieces_ok:
  assumes "se_room s = None" "stream_results rs = (d, Inr ())"
  shows "send_pieces rs w s = (Inr (w @ d), emitted (token_frames (literal_tokens rs)) s)"
  using assms
proof (induction rs arbitrary: s w d rule: stream_results.induct)
  case (3 pt rs)
  obtain d' where d': "stream_results rs = (d', Inr ())" "d = pt @ d'"
    using 3(3) by (cases "stream_results rs") auto
  show ?case
    using 3(1) [OF _ d'(1), of "emitted (token_frames (map Lit (chunks_of literalChunkSize pt))) s" "w @ pt"] 3(2) d'(2)
    by (simp add: sbind_def slift_def sseq_def lw_Write_ok literal_tokens_def)
qed (simp_all add: sret_def literal_tokens_def token_frames_def)

lemma literal_tokens_data: "stream_results rs = (d, Inr ()) \<Longrightarrow> tokens_data blk (literal_tokens rs) = d"
proof (induction rs arbitrary: d rule: stream_results.induct)
  case (3 pt rs)
  then obtain d' where "stream_results rs = (d', Inr ())" "d = pt @ d'"
    by (cases "stream_results rs") auto
  with 3(1) have "tokens_data blk (literal_tokens rs) = d'" by blast
  then show ?case using \<open>d = pt @ d'\<close>
    by (simp add: literal_tokens_def tokens_data_def comp_def literalChunkSize_def)
qed (simp_all add: literal_tokens_def tokens_data_def)

lemma tokens_ok_Lits: "\<forall>p \<in> set ps. p \<noteq> [] \<and> length p \<le> 32 * 2 ^ 20 \<Longrightarrow> tokens_ok cnt n ts \<Longrightarrow> tokens_ok cnt n (map Lit ps @ ts)"
  by (induction ps) auto

lemma literal_tokens_ok: "tokens_ok cnt n (literal_tokens rs)"
proof (induction rs)
  case (Cons r rs)
  have "\<forall>p \<in> set (chunks_of literalChunkSize pt). p \<noteq> [] \<and> length p \<le> 32 * 2 ^ 20" for pt
    using chunks_of_lengths [of literalChunkSize _ pt] by (force simp: literalChunkSize_def)
  from tokens_ok_Lits [OF this Cons] Cons show ?case by (cases r) (simp_all add: literal_tokens_def)
qed (simp add: literal_tokens_def)

lemma StreamFile_ok:
  assumes "StreamFile E q st = (w, Inr (n, md))"
  shows "\<exists>f. GetFileRow q (rp_db st) = Some f \<and> stream_results (blob_results E q st) = (w, Inr ()) \<and>
    int (length w) = fr_size f \<and> n = int (length w) \<and> md = re_md5 E w"
proof -
  obtain w' r where rs: "stream_results (blob_results E q st) = (w', r)" by fastforce
  show ?thesis
    using assms unfolding StreamFile_results rs
    by (cases "GetFileRow q (rp_db st)"; cases r) (auto split: if_splits)
qed

lemma send_content_ok:
  assumes "se_room s = None" "StreamFile E q (se_repo s) = (w, Inr (n, md))" "length md \<le> 0xFFFFFF"
  shows "send_content E q s = (Inr n, emitted (token_frames (literal_tokens (blob_results E q (se_repo s))) @ [(0, WriteInt32 0), (0, md)]) s)"
    "tokens_data blk (literal_tokens (blob_results E q (se_repo s))) = w" "md = re_md5 E w"
proof -
  let ?rs = "blob_results E q (se_repo s)"
  obtain f where f: "GetFileRow q (rp_db (se_repo s)) = Some f" "stream_results ?rs = (w, Inr ())" "int (length w) = fr_size f"
    "n = int (length w)" "md = re_md5 E w"
    using StreamFile_ok [OF assms(2)] by blast
  have z: "WriteInt32 0 = [0, 0, 0, 0]" by (simp add: WriteInt32_def eval_nat_numeral)
  have "send_stream E q s = (Inr (n, md), emitted (token_frames (literal_tokens ?rs)) s)"
    unfolding send_stream_pieces using f(1,3,4,5) by (simp add: sbind_def sget_def send_pieces_ok [OF assms(1) f(2)] sret_def)
  then show "send_content E q s = (Inr n, emitted (token_frames (literal_tokens ?rs) @ [(0, WriteInt32 0), (0, md)]) s)"
    using assms by (simp add: send_content_def sbind_def sseq_def semit_emitted sret_def z)
  show "tokens_data blk (literal_tokens ?rs) = w" by (rule literal_tokens_data [OF f(2)])
  show "md = re_md5 E w" by (fact f(5))
qed

subsection \<open>A request for a whole file\<close>

text \<open>The bytes of a request: index, flags, and the head of the block checksums that follow.\<close>

definition file_request :: "ndx_codec \<Rightarrow> int32 \<Rightarrow> sumHead \<Rightarrow> bytes" where
  "file_request c i h = snd (ndx_write c i) @ WriteShortint (itemTransfer OR itemIsNew) @ writeSumHead h"

lemma ndx_in_ok:
  assumes "ndx_sendable i" "se_in s = map Data (snd (ndx_write (se_nin s) i) @ bs) @ is"
  shows "ndx_in s = (Inr i, s\<lparr>se_in := map Data bs @ is, se_nin := fst (ndx_write (se_nin s) i)\<rparr>)"
proof -
  have "sread (ndx_read (se_nin s)) s = (Inr (i, fst (ndx_write (se_nin s) i)), s\<lparr>se_in := map Data bs @ is\<rparr>)"
    by (rule sread_data [of s "snd (ndx_write (se_nin s) i)"]) (use assms in \<open>simp_all add: ndx_read_write\<close>)
  then show ?thesis by (simp add: ndx_in_def sbind_def sget_def)
qed

lemma request_flags: "(itemTransfer OR itemIsNew) AND itemBasisTypeFollows = 0" "(itemTransfer OR itemIsNew) AND itemXnameFollows = 0"
  "itemTransfer \<noteq> 0"
  by (simp_all add: itemTransfer_def itemIsNew_def itemBasisTypeFollows_def itemXnameFollows_def)

lemma read_attrs_ok:
  assumes "se_in s = map Data (WriteShortint (itemTransfer OR itemIsNew) @ bs) @ is"
  shows "read_attrs s = (Inr \<lparr>at_iflags = itemTransfer OR itemIsNew, at_basis = 0, at_xname = []\<rparr>, s\<lparr>se_in := map Data bs @ is\<rparr>)"
proof -
  have "sread ReadShortint s = (Inr (itemTransfer OR itemIsNew), s\<lparr>se_in := map Data bs @ is\<rparr>)"
    by (rule sread_data [of s "WriteShortint (itemTransfer OR itemIsNew)"]) (use assms in \<open>simp_all add: ReadShortint_WriteShortint\<close>)
  then show ?thesis by (simp add: read_attrs_def sbind_def sret_def request_flags)
qed



lemma readSumHead_write: "readSumHead (writeSumHead h @ rest) = Inr (h, rest)"
  by (simp add: readSumHead_def writeSumHead_def rbind_def ReadInt32_WriteInt32 rret_def)

lemma readSumHead_ok:
  assumes "se_in s = map Data (writeSumHead h @ bs) @ is"
  shows "sread readSumHead s = (Inr h, s\<lparr>se_in := map Data bs @ is\<rparr>)"
  by (rule sread_data [of s "writeSumHead h"]) (use assms readSumHead_write in simp_all)

lemma writeNdxAttrs_ok:
  assumes "se_room s = None"
  shows "writeNdxAttrs i \<lparr>at_iflags = itemTransfer OR itemIsNew, at_basis = 0, at_xname = []\<rparr> s =
    (Inr (), emitted [(0, snd (ndx_write (se_nout s) i) @ WriteShortint (itemTransfer OR itemIsNew))]
      (s\<lparr>se_nout := fst (ndx_write (se_nout s) i)\<rparr>))"
  unfolding writeNdxAttrs_def sbind_def ndx_out_ok
  using assms length_ndx_write [of "se_nout s" i]
  by (simp add: request_flags) (intro semit_emitted, auto simp: WriteShortint_def)

definition requested :: "repo_env \<Rightarrow> negotiation \<Rightarrow> flist_item list \<Rightarrow> int step" where
  "requested E neg its = sbind ndx_in (\<lambda>i. send_file E neg (its ! nat (sint i)) i)"

lemma length_writeSumHead: "length (writeSumHead h) = 16"
  by (simp add: writeSumHead_def WriteInt32_def eval_nat_numeral)

lemma requested_ok:
  assumes s: "se_room s = None" "se_in s = map Data (file_request (se_nin s) i h @ bs) @ is" and i: "ndx_sendable i" and h: "discardSums h = sret ()"
    and it: "\<not> ngDryRun neg" "\<not> fe_isdir (it_entry (its ! nat (sint i)))" "isRegularMode (fe_mode (it_entry (its ! nat (sint i))))"
    and st: "StreamFile E (it_snap (its ! nat (sint i))) (se_repo s) = (w, Inr (n, md))" "length md = 16"
  shows "\<exists>fs s'. requested E neg its s = (Inr n, s') \<and> se_out s' = se_out s @ fs \<and> se_in s' = map Data bs @ is \<and> se_repo s' = se_repo s \<and>
    se_room s' = None \<and> se_nin s' = fst (ndx_write (se_nin s) i) \<and> se_nout s' = fst (ndx_write (se_nout s) i) \<and>
    (\<exists>ts. sent_data fs = snd (ndx_write (se_nout s) i) @ WriteShortint (itemTransfer OR itemIsNew) @ writeSumHead h @ tokens_bytes ts @ md \<and>
      tokens_ok 0 0 ts \<and> (\<forall>blk. tokens_data blk ts = w) \<and> md = re_md5 E w)"
proof -
  let ?it = "its ! nat (sint i)" and ?a = "\<lparr>at_iflags = itemTransfer OR itemIsNew, at_basis = 0, at_xname = []\<rparr>"
  let ?ts = "literal_tokens (blob_results E (it_snap ?it) (se_repo s))"
  let ?echo = "snd (ndx_write (se_nout s) i) @ WriteShortint (itemTransfer OR itemIsNew)"
  let ?fs = "[(0, ?echo), (0, writeSumHead h)] @ token_frames ?ts @ [(0, WriteInt32 0), (0, md)]"
  define s1 where "s1 = s\<lparr>se_in := map Data (WriteShortint (itemTransfer OR itemIsNew) @ writeSumHead h @ bs) @ is, se_nin := fst (ndx_write (se_nin s) i)\<rparr>"
  define s2 where "s2 = s1\<lparr>se_in := map Data (writeSumHead h @ bs) @ is\<rparr>"
  define s3 where "s3 = s2\<lparr>se_in := map Data bs @ is\<rparr>"
  define s4 where "s4 = emitted [(0, ?echo)] (s3\<lparr>se_nout := fst (ndx_write (se_nout s) i)\<rparr>)"
  define s5 where "s5 = emitted [(0, writeSumHead h)] s4"
  have 1: "ndx_in s = (Inr i, s1)"
    unfolding s1_def by (rule ndx_in_ok) (use s i in \<open>simp_all add: file_request_def\<close>)
  have 2: "read_attrs s1 = (Inr ?a, s2)" unfolding s2_def by (rule read_attrs_ok) (simp add: s1_def)
  have 3: "sread readSumHead s2 = (Inr h, s3)" unfolding s3_def by (rule readSumHead_ok) (simp add: s2_def)
  have 4: "writeNdxAttrs i ?a s3 = (Inr (), s4)"
    using writeNdxAttrs_ok [of s3 i] s(1) by (simp add: s4_def s3_def s2_def s1_def)
  have 5: "semit 0 (writeSumHead h) s4 = (Inr (), s5)"
    unfolding s5_def using s(1) by (intro semit_emitted) (simp_all add: s4_def s3_def s2_def s1_def length_writeSumHead)
  have "se_room s5 = None" "se_repo s5 = se_repo s" using s(1) by (simp_all add: s5_def s4_def s3_def s2_def s1_def)
  from send_content_ok [OF this(1), of E "it_snap ?it" w n md] this(2) st
  have 6: "send_content E (it_snap ?it) s5 = (Inr n, emitted (token_frames ?ts @ [(0, WriteInt32 0), (0, md)]) s5)"
    "\<And>blk. tokens_data blk ?ts = w" "md = re_md5 E w" by simp_all
  have run: "requested E neg its s = (Inr n, emitted (token_frames ?ts @ [(0, WriteInt32 0), (0, md)]) s5)"
    using it by (simp add: requested_def send_file_def Let_def sbind_def sseq_def 1 2 3 4 5 6(1) request_flags h sret_def)
  have out: "emitted (token_frames ?ts @ [(0, WriteInt32 0), (0, md)]) s5 =
      emitted ?fs (s\<lparr>se_in := map Data bs @ is, se_nin := fst (ndx_write (se_nin s) i), se_nout := fst (ndx_write (se_nout s) i)\<rparr>)"
    by (simp add: emitted_def s5_def s4_def s3_def s2_def s1_def)
  have data: "sent_data ?fs = ?echo @ writeSumHead h @ tokens_bytes ?ts @ md"
    by (simp add: sent_data_token_frames tokens_bytes_def)
  show ?thesis
    unfolding run out
    by (rule exI [of _ ?fs], intro exI conjI, rule refl)
      (use s(1) data literal_tokens_ok 6(2,3) in \<open>simp_all del: sent_data_append\<close>, auto intro!: exI [of _ ?ts])
qed

subsection \<open>Properties\<close>






text \<open>
  Block checksums whose announced number is above \<open>2 ^ 20\<close> are not read: after the file has been
  sent they still stand in the stream, where the next file index is read.  A client with a file of
  more than 128 GiB, in the largest blocks, announces so many.
\<close>

lemma many_sums_left_unread:
  assumes "se_room s = None" "se_in s = map Data (file_request (se_nin s) (word_of_nat i) h @ sums) @ is" "i < 2 ^ 31"
    and "2 ^ 20 < sint (sh_count h)" "\<not> ngDryRun neg"
    and "\<not> fe_isdir (it_entry (its ! i))" "isRegularMode (fe_mode (it_entry (its ! i)))"
    and "StreamFile E (it_snap (its ! i)) (se_repo s) = (w, Inr (n, md))" "length md = 16"
  shows "\<exists>s'. requested E neg its s = (Inr n, s') \<and> se_in s' = map Data sums @ is"
proof -
  let ?i = "word_of_nat i :: int32"
  have si: "sint ?i = int i" using assms(3) by (rule sint_small)
  then have i: "ndx_sendable ?i" by (simp add: ndx_sendable_def)
  have h: "discardSums h = sret ()" using assms(4) by (simp add: discardSums_def)
  show ?thesis using requested_ok [OF assms(1,2) i h assms(5), of its E w n md] assms(6-9) si by (auto simp del: sent_data_append)
qed

end
