(* ===== verification/RestoreList.thy ===== *)
theory RestoreList
  imports SenderProps
begin

text \<open>
  The file list of a restore session as the other end reads it: the entries, their order, which numbers
  the requests, and the id lists.
\<close>

subsection \<open>The list on the wire\<close>

text \<open>Entries that arrive whole: a clean path, or the root itself, and a frame that is long enough.\<close>

definition listable :: "preserve \<Rightarrow> file_entry \<Rightarrow> bool" where
  "listable pr e \<longleftrightarrow> flist_entry_ok pr e \<and> name_ok e \<and> entry_name e = fe_path e \<and>
     (cleanPath (fe_path e) = fe_path e \<or> fe_path e = ''.'' \<and> fe_isdir e) \<and>
     (case WriteEntry pr e of Inl _ \<Rightarrow> False | Inr b \<Rightarrow> length b \<le> 0xFFFFFF)"

lemma send_items_ok:
  assumes "se_room s = None" "se_polls s = None" "\<not> ngChecksum neg" "list_all (\<lambda>it. listable (neg_preserve neg) (it_entry it)) its"
  shows "\<exists>fs. send_items E neg its s = (Inr (), emitted fs s) \<and>
    write_list (neg_preserve neg) (map it_entry its) = Inr (sent_data fs @ WriteEndOfFlist)"
  using assms
proof (induction its arbitrary: s)
  case Nil
  then show ?case by (intro exI [of _ "[]"]) (simp add: sret_def)
next
  case (Cons it its)
  obtain b where b: "WriteEntry (neg_preserve neg) (it_entry it) = Inr b" "length b \<le> 0xFFFFFF"
    using Cons.prems(4) by (auto simp: listable_def split: sum.splits)
  have 1: "send_item E neg it s = (Inr (), emitted [(0, b)] s)"
    using Cons.prems b by (simp add: send_item_def sbind_def slift_def wants_csum_def semit_emitted)
  obtain fs where fs: "send_items E neg its (emitted [(0, b)] s) = (Inr (), emitted fs (emitted [(0, b)] s))"
    "write_list (neg_preserve neg) (map it_entry its) = Inr (sent_data fs @ WriteEndOfFlist)"
    using Cons.IH [of "emitted [(0, b)] s"] Cons.prems by auto
  have "sctx s = (Inr (), s)" using Cons.prems(2) by (simp add: sctx_def)
  then show ?case
    using 1 fs b(1) by (intro exI [of _ "(0, b) # fs"]) (simp add: sseq_def sbind_def)
qed

definition id_lists :: "negotiation \<Rightarrow> bytes" where
  "id_lists neg = drop (length WriteEndOfFlist) (list_end neg)"

lemma list_end_split: "list_end neg = WriteEndOfFlist @ id_lists neg"
  by (simp add: id_lists_def list_end_def)

lemma id_list_zero: "readOneseg (Suc k) (WriteIdList @ rest) = Inr ((), rest)"
  using varint_codec [of 0 rest] by (simp add: WriteIdList_def rbind_def rret_def)

lemma ReadIdList_own: "\<not> ngNumericIDs neg \<Longrightarrow> ReadIdList (neg_preserve neg) (id_lists neg @ rest) = Inr ((), rest)"
  using id_list_zero
  by (auto simp: ReadIdList_def id_lists_def list_end_def neg_preserve_def rbind_def rret_def)

subsection \<open>The order\<close>

lemma received_key:
  assumes "listable pr e"
  shows "flist_key (received pr e) = flist_key e" "name_ok (received pr e)"
proof -
  have dot: "cleanPath ''.'' = ''''" by (simp add: cleanPath_def)
  have dots: "splitDirBase ''.'' = ('''', ''.'')" "splitDirBase '''' = ('''', '''')" by code_simp+
  have p: "fe_path (received pr e) = cleanPath (fe_path e)" "fe_isdir (received pr e) = fe_isdir e"
    using assms by (simp_all add: received_def listable_def)
  consider "cleanPath (fe_path e) = fe_path e" | "fe_path e = ''.''" "fe_isdir e" using assms by (auto simp: listable_def)
  then show "flist_key (received pr e) = flist_key e"
    by cases (simp_all add: flist_key_def base_key_def isDirType_def p dot dots Let_def)
  show "name_ok (received pr e)"
    using assms by (auto simp: name_ok_def p dot dots listable_def)
qed

lemma sort_items: "map it_entry (stable_sort (\<lambda>a b. fNameCmp (it_entry a) (it_entry b) < 0) its) = SortFlistEntries (map it_entry its)"
proof -
  have ins: "map it_entry (ins_rev (\<lambda>a b. fNameCmp (it_entry a) (it_entry b) < 0) x ys) =
    ins_rev (\<lambda>a b. fNameCmp a b < 0) (it_entry x) (map it_entry ys)" for x ys
    by (induction ys) auto
  have "map it_entry (foldl (\<lambda>acc x. ins_rev (\<lambda>a b. fNameCmp (it_entry a) (it_entry b) < 0) x acc) acc its) =
    foldl (\<lambda>acc x. ins_rev (\<lambda>a b. fNameCmp a b < 0) x acc) (map it_entry acc) (map it_entry its)" for acc
    by (induction its arbitrary: acc) (simp_all add: ins)
  from this [of "[]"] show ?thesis by (simp add: SortFlistEntries_def stable_sort_def rev_map [symmetric])
qed

lemma sort_key_id: "sorted (map f xs) \<Longrightarrow> sort_key f xs = (xs :: 'a list)"
  by (rule properties_for_sort_key) simp_all

lemma sorted_once:
  assumes "list_all (\<lambda>it. listable pr (it_entry it)) (flist_items neg pfx rows)"
  shows "SortFlistEntries (map (\<lambda>it. received pr (it_entry it)) (flist_items neg pfx rows)) =
    map (\<lambda>it. received pr (it_entry it)) (flist_items neg pfx rows)"
proof -
  let ?its = "flist_items neg pfx rows" and ?raw = "map (row_item pfx) (filter (is_listed neg pfx) rows)"
  have same: "set ?its = set ?raw" by (simp add: flist_items_def set_stable_sort)
  have ok: "\<forall>e \<in> set (map it_entry ?raw). name_ok e"
    using assms same by (auto simp: list_all_iff listable_def)
  have "map it_entry ?its = sort_key flist_key (map it_entry ?raw)"
    unfolding flist_items_def sort_items SortFlistEntries_def
    by (rule stable_sort_sort_key) (use ok fNameCmp_agrees in \<open>auto simp: agrees_def\<close>)
  then have "sorted (map flist_key (map it_entry ?its))" by simp
  moreover have "map flist_key (map (\<lambda>it. received pr (it_entry it)) ?its) = map flist_key (map it_entry ?its)"
    using assms received_key(1) by (auto simp: list_all_iff)
  ultimately have srt: "sorted (map flist_key (map (\<lambda>it. received pr (it_entry it)) ?its))" by (simp only:)
  have "SortFlistEntries (map (\<lambda>it. received pr (it_entry it)) ?its) = sort_key flist_key (map (\<lambda>it. received pr (it_entry it)) ?its)"
    unfolding SortFlistEntries_def
  proof (rule stable_sort_sort_key)
    fix x y
    assume "x \<in> set (map (\<lambda>it. received pr (it_entry it)) ?its)" "y \<in> set (map (\<lambda>it. received pr (it_entry it)) ?its)"
    then have "name_ok x" "name_ok y" using assms received_key(2) by (auto simp: list_all_iff)
    from fNameCmp_agrees [OF this] show "fNameCmp x y < 0 \<longleftrightarrow> flist_key x < flist_key y" by (simp add: agrees_def)
  qed
  also have "\<dots> = map (\<lambda>it. received pr (it_entry it)) ?its" by (rule sort_key_id) (fact srt)
  finally show ?thesis .
qed

subsection \<open>Reading the list in a session\<close>

lemma recv_entries_data:
  assumes "se_polls s = None" "se_in s = map Data bs" "parse_list k pr p bs = Inr ((es, p'), rest)"
  shows "recv_entries k pr p s = (Inr (es, p'), s\<lparr>se_in := map Data rest\<rparr>)"
  using assms
proof (induction k arbitrary: p bs es s)
  case (Suc k)
  obtain r p1 bs1 where r: "Parse pr p bs = Inr ((r, p1), bs1)"
    using Suc.prems(3) by (auto simp: rbind_eq_Inr)
  have pre: "data_prefix (se_in s) = bs" using Suc.prems(2) data_prefix_data [of bs "[]"] by simp
  obtain used where used: "bs = used @ bs1" using shrinks_used [OF shrinks_Parse r] by blast
  have rd: "sread (Parse pr p) s = (Inr (r, p1), s\<lparr>se_in := map Data bs1\<rparr>)"
    using r pre Suc.prems(2) used by (simp add: sread_def)
  have poll: "sctx s = (Inr (), s)" using Suc.prems(1) by (simp add: sctx_def)
  show ?case
  proof (cases r)
    case None
    then show ?thesis using r rd Suc.prems by (simp add: rbind_def rret_def sseq_def sbind_def poll sret_def)
  next
    case (Some e)
    then obtain es' where e: "parse_list k pr p1 bs1 = Inr ((es', p'), rest)" "es = e # es'"
      using Suc.prems(3) r by (auto simp: rbind_eq_Inr rret_def)
    from Suc.IH [OF _ _ e(1), of "s\<lparr>se_in := map Data bs1\<rparr>"] Some rd e(2) Suc.prems(1) show ?thesis
      by (simp add: sseq_def sbind_def poll sret_def)
  qed
qed (simp add: rfail_def)

subsection \<open>Properties\<close>

lemma list_end_short: "length (list_end neg) \<le> 0xFFFFFF"
proof -
  have "length WriteIdList = 1" by code_simp
  then show ?thesis by (simp add: list_end_def WriteEndOfFlist_def)
qed

lemma list_sent:
  assumes "se_room s = None" "se_polls s = None" "plain_opts (neg_preserve neg)"
    and "list_all (\<lambda>it. listable (neg_preserve neg) (it_entry it)) its"
  shows "\<exists>fs. sseq (send_items E neg its) (semit 0 (list_end neg)) s = (Inr (), emitted fs s) \<and>
    (\<forall>rest. \<exists>p. recv_flist (neg_preserve neg) (sent_data fs @ rest) =
      Inr ((map (\<lambda>it. received (neg_preserve neg) (it_entry it)) its, p), id_lists neg @ rest))"
proof -
  let ?pr = "neg_preserve neg"
  have csum: "\<not> ngChecksum neg" using assms(3) by (simp add: plain_opts_def neg_preserve_def)
  obtain fs where fs: "send_items E neg its s = (Inr (), emitted fs s)" "write_list ?pr (map it_entry its) = Inr (sent_data fs @ WriteEndOfFlist)"
    using send_items_ok [OF assms(1,2) csum assms(4)] by blast
  have ok: "list_all (flist_entry_ok ?pr) (map it_entry its)" using assms(4) by (auto simp: list_all_iff listable_def)
  have "length (list_end neg) \<le> 0xFFFFFF" by (rule list_end_short)
  then have run: "sseq (send_items E neg its) (semit 0 (list_end neg)) s = (Inr (), emitted (fs @ [(0, list_end neg)]) s)"
    using fs(1) assms(1) by (simp add: sseq_def sbind_def semit_emitted)
  have "\<exists>p. recv_flist ?pr (sent_data (fs @ [(0, list_end neg)]) @ rest) =
      Inr ((map (\<lambda>it. received ?pr (it_entry it)) its, p), id_lists neg @ rest)" for rest
    using flist_roundtrip_aux [OF ok assms(3) fs(2), of "id_lists neg @ rest"] by (auto simp: list_end_split comp_def)
  with run show ?thesis by blast
qed

text \<open>
  C28: the file list of a restore arrives as the sender holds it: the receiver's parser reads the
  entries in the sender's order, with the root itself as the empty path, the id lists end where the
  list ends, and sorting the entries again, as the other end does before it numbers its requests,
  leaves them where they are, so that an index means the same file at both ends.
\<close>

theorem restore_list_arrives:
  assumes "se_room s = None" "se_polls s = None" "plain_opts (neg_preserve neg)" "\<not> ngNumericIDs neg"
    and "its = flist_items neg pfx rows" "list_all (\<lambda>it. listable (neg_preserve neg) (it_entry it)) its"
  shows "\<exists>fs p ids. sseq (send_items E neg its) (semit 0 (list_end neg)) s = (Inr (), emitted fs s) \<and>
    recv_flist (neg_preserve neg) (sent_data fs @ rest) =
      Inr ((map (\<lambda>it. received (neg_preserve neg) (it_entry it)) its, p), ids) \<and>
    ReadIdList (neg_preserve neg) ids = Inr ((), rest) \<and>
    SortFlistEntries (map (\<lambda>it. received (neg_preserve neg) (it_entry it)) its) = map (\<lambda>it. received (neg_preserve neg) (it_entry it)) its"
proof -
  let ?pr = "neg_preserve neg" and ?es = "map (\<lambda>it. received (neg_preserve neg) (it_entry it)) its"
  obtain fs p where "sseq (send_items E neg its) (semit 0 (list_end neg)) s = (Inr (), emitted fs s)"
    "recv_flist ?pr (sent_data fs @ rest) = Inr ((?es, p), id_lists neg @ rest)"
    using list_sent [OF assms(1-3,6), of E] by blast
  moreover have "SortFlistEntries ?es = ?es" using sorted_once assms(5,6) by simp
  ultimately show ?thesis using ReadIdList_own [OF assms(4), of rest] by blast
qed

definition sample_rows :: "file_row list" where
  "sample_rows = [(dir_row ''d'' 0)\<lparr>fr_mode := 0x41ED\<rparr>, (row_named ''d/x'' 1)\<lparr>fr_mode := 0x81A4\<rparr>, (row_named ''d/y'' 1)\<lparr>fr_mode := 0x81A4\<rparr>]"

definition uid_neg :: negotiation where
  "uid_neg = empty_neg\<lparr>ngUID := True, ngRecurse := True\<rparr>"

definition sent_entry :: "string \<Rightarrow> bool \<Rightarrow> 32 word \<Rightarrow> int64 \<Rightarrow> file_entry" where
  "sent_entry p d m n = \<lparr>fe_path = p, fe_isdir = d, fe_issymlink = False, fe_mode = m, fe_uid = 0, fe_gid = 0, fe_size = n,
     fe_mtime = 0, fe_link = []\<rparr>"

lemma sample_listable: "list_all (\<lambda>it. listable (neg_preserve uid_neg) (it_entry it)) (flist_items uid_neg ''d'' sample_rows)"
proof -
  let ?es = "[sent_entry ''.'' True 0x41ED 0, sent_entry ''x'' False 0x81A4 1, sent_entry ''y'' False 0x81A4 1]"
  have it: "map it_entry (flist_items uid_neg ''d'' sample_rows) = ?es" by code_simp
  let ?pr = "neg_preserve uid_neg"
  have names: "list_all (\<lambda>e. name_ok e \<and> entry_name e = fe_path e \<and> (cleanPath (fe_path e) = fe_path e \<or> fe_path e = ''.'' \<and> fe_isdir e)) ?es"
    by code_simp
  have ok: "list_all (flist_entry_ok ?pr) ?es"
    by (simp add: flist_entry_ok_def sent_entry_def entry_name_def mode_ok_def is_device_def mode_defs varlong_ok_def entry_size_def id32_def)
  have len: "length (WriteVarlong 0 3) = 3" "length (WriteVarlong 1 3) = 3" "length (WriteVarlong 0 4) = 4" "length (WriteVarint 0) = 1"
    "go_div_1e9 0 = 0" by code_simp+
  have "\<exists>b. WriteEntry ?pr (sent_entry p d m n) = Inr b \<and> length b \<le> 0xFFFFFF" if "length p = 1" "entry_name (sent_entry p d m n) = p" "n = 0 \<or> n = 1" for p d m n
  proof -
    let ?e = "sent_entry p d m n"
    have "entry_xflags ?pr ?e = 16"
      by (simp add: entry_xflags_def entry_nsec_def sent_entry_def neg_preserve_def uid_neg_def empty_neg_def xmit_defs)
    then have x: "write_xflags (entry_xflags ?pr ?e) (fe_isdir ?e) = [16]" by (simp add: write_xflags_def)
    have rest: "length (WriteVarlong (entry_size ?e) 3) = 3" "length (WriteVarlong (go_div_1e9 (fe_mtime ?e)) 4) = 4" "write_nsec ?e = []"
      "length (WriteInt32 (fe_mode ?e)) = 4" "length (write_ids ?pr ?e) \<le> 2" "write_link ?pr ?e = []"
      using len that(3) by (auto simp: sent_entry_def entry_size_def write_nsec_def entry_nsec_def WriteInt32_def write_ids_def write_link_def)
    have "p \<noteq> []" using that(1) by auto
    then show ?thesis unfolding WriteEntry_def Let_def that(2) x using rest that(1) by simp
  qed
  then have "list_all (\<lambda>e. case WriteEntry ?pr e of Inl _ \<Rightarrow> False | Inr b \<Rightarrow> length b \<le> 0xFFFFFF) ?es"
    using names by (force simp: sent_entry_def split: sum.splits)
  with names ok have "list_all (listable ?pr) ?es" by (simp add: listable_def)
  then show ?thesis unfolding it [symmetric] by (simp add: list.pred_map comp_def)
qed

lemma sample_numeric: "flist_items (uid_neg\<lparr>ngNumericIDs := True\<rparr>) pfx rows = flist_items uid_neg pfx rows"
    "neg_preserve (uid_neg\<lparr>ngNumericIDs := True\<rparr>) = neg_preserve uid_neg"
proof -
  have "is_listed (uid_neg\<lparr>ngNumericIDs := True\<rparr>) pfx = is_listed uid_neg pfx" by (rule ext) (simp add: is_listed_def)
  then show "flist_items (uid_neg\<lparr>ngNumericIDs := True\<rparr>) pfx rows = flist_items uid_neg pfx rows" by (simp add: flist_items_def)
qed (simp add: neg_preserve_def)

theorem restore_list_arrives_witness:
  "\<exists>fs p ids es. sseq (send_items sample_env uid_neg (flist_items uid_neg ''d'' sample_rows)) (semit 0 (list_end uid_neg)) (sample_sess []) =
      (Inr (), emitted fs (sample_sess [])) \<and>
    recv_flist (neg_preserve uid_neg) (sent_data fs @ [7]) = Inr ((es, p), ids) \<and> ReadIdList (neg_preserve uid_neg) ids = Inr ((), [7]) \<and>
    map fe_path es = ['''', ''x'', ''y'']"
proof -
  have "plain_opts (neg_preserve uid_neg)" "\<not> ngNumericIDs uid_neg" by code_simp+
  moreover have "map (\<lambda>it. fe_path (received (neg_preserve uid_neg) (it_entry it))) (flist_items uid_neg ''d'' sample_rows) = ['''', ''x'', ''y'']"
    by code_simp
  ultimately show ?thesis
    using restore_list_arrives [OF _ _ _ _ refl sample_listable, of "sample_sess []" sample_env "[7]"]
    by (auto simp: sample_sess_def comp_def)
qed

text \<open>
  A backup with \<open>--numeric-ids\<close> stalls.  With that option no id lists are sent, by the program's own
  sender as by every client, but the receiver reads them all the same: given what the sender sends
  for a list, it takes the whole list and then waits for more, without having sent a single request,
  until the connection ends.
\<close>

lemma numeric_ids_backup_stalls:
  assumes "se_room s = None" "se_polls s = None" "plain_opts (neg_preserve neg)" "ngNumericIDs neg" "ngUID neg"
    and "list_all (\<lambda>it. listable (neg_preserve neg) (it_entry it)) its"
    and "se_polls r = None" "se_end r = EOF" "\<not> ngDelete neg" "\<not> ngPrune neg"
  shows "\<exists>fs. sseq (send_items E neg its) (semit 0 (list_end neg)) s = (Inr (), emitted fs s) \<and>
    (se_in r = map Data (sent_data fs) \<longrightarrow>
      (\<exists>r'. processSession E quote keep m neg r = (Inl EOF, r') \<and> se_out r' = se_out r \<and> se_repo r' = se_repo r))"
proof -
  let ?pr = "neg_preserve neg"
  obtain fs where fs: "sseq (send_items E neg its) (semit 0 (list_end neg)) s = (Inr (), emitted fs s)"
    "\<And>rest. \<exists>p. recv_flist ?pr (sent_data fs @ rest) = Inr ((map (\<lambda>it. received ?pr (it_entry it)) its, p), id_lists neg @ rest)"
    using list_sent [OF assms(1-3,6), of E] by blast
  have none: "id_lists neg = []" using assms(4) by (simp add: id_lists_def list_end_def WriteEndOfFlist_def)
  obtain es p where e: "recv_flist ?pr (sent_data fs) = Inr ((es, p), [])" using fs(2) [of "[]"] none by auto
  have "\<exists>r'. processSession E quote keep m neg r = (Inl EOF, r') \<and> se_out r' = se_out r \<and> se_repo r' = se_repo r"
    if in_r: "se_in r = map Data (sent_data fs)"
  proof -
    have 1: "recv_entries (Suc (length (sent_data fs))) ?pr NewFlistParser r = (Inr (es, p), r\<lparr>se_in := []\<rparr>)"
      using recv_entries_data [OF assms(7) in_r e [unfolded recv_flist_def]] by simp
    have "ReadIdList ?pr [] = Inl EOF"
      using assms(5) by (simp add: ReadIdList_def neg_preserve_def rbind_def ReadVarint_def readVarintLen_def read_byte_def)
    then have 2: "sread (ReadIdList ?pr) (r\<lparr>se_in := []\<rparr>) = (Inl EOF, r\<lparr>se_in := []\<rparr>)"
      using assms(8) by (simp add: sread_def)
    have len: "length (se_in r) = length (sent_data fs)" using in_r by simp
    show ?thesis
      using assms(9,10) 1 2
      by (simp add: processSession_def sseq_def sbind_def sret_def sget_def Let_def len del: recv_entries.simps)
  qed
  with fs(1) show ?thesis by blast
qed

end
