(* ===== verification/Connection.thy ===== *)
theory Connection
  imports SenderView SessionProps
begin

text \<open>
  A connection from its first byte to its end: \<open>handleConn\<close> of \<open>internal/front/rsync/server.go\<close>,
  \<open>RunSession\<close> of \<open>protocol/sender.go\<close> and the timeout frames of \<open>protocol/timeout.go\<close>, over the
  handshake and the two sessions.  Opening a module is the argument \<open>opener\<close>; which modules the
  limiter admits is \<open>allow\<close>.
\<close>

subsection \<open>A session\<close>

text \<open>
  What a client does: the bytes it sends, the error its connection ends in when it does not close it,
  how many frames it accepts, and when the server is stopped.
\<close>

record client =
  cl_bytes :: bytes
  cl_fault :: "goerr option"
  cl_room :: "nat option"
  cl_polls :: "nat option"

definition ErrTimeout :: goerr where "ErrTimeout = Err ''i/o timeout''"
definition msgIoTimeout :: byte where "msgIoTimeout = 33"
definition msgError :: byte where "msgError = 3"

definition applyIoTimeout :: "negotiation \<Rightarrow> unit step" where
  "applyIoTimeout neg = (if ngIoTimeout neg \<le> 0 then sret ()
     else signore (semit msgIoTimeout (le_bytes 4 (word_of_int (ngIoTimeout neg) :: 32 word))))"

definition timeout_text :: "negotiation \<Rightarrow> bytes" where
  "timeout_text neg = line_bytes (''[server] io timeout after '' @ show_int (ngIoTimeout neg) @ '' seconds -- exiting'')"

definition wrapIoTimeout :: "negotiation \<Rightarrow> unit step \<Rightarrow> unit step" where
  "wrapIoTimeout neg m = sbind (strap m) (\<lambda>r. case r of
       Inr _ \<Rightarrow> sret ()
     | Inl e \<Rightarrow> if ngIoTimeout neg \<le> 0 \<or> e \<noteq> ErrTimeout then sfail e
         else sseq (signore (semit msgError (timeout_text neg))) (sfail e))"

definition run_session :: "repo_env \<Rightarrow> (string \<Rightarrow> string) \<Rightarrow> module_config \<Rightarrow> negotiation \<Rightarrow> unit step" where
  "run_session E quote m neg = sseq (applyIoTimeout neg) (wrapIoTimeout neg
     (if ngSender neg then sseq (processSendSession E m neg) (sret ())
      else processSession E quote (0 < ngIoTimeout neg) m neg))"

definition session_start :: "client \<Rightarrow> bytes \<Rightarrow> (nat \<Rightarrow> upload) \<Rightarrow> repo \<Rightarrow> sess" where
  "session_start c bs ups st = \<lparr>se_in = fst (mux_items bs), se_end = (case cl_fault c of None \<Rightarrow> snd (mux_items bs) | Some e \<Rightarrow> e),
     se_out = [], se_room = cl_room c, se_polls = cl_polls c, se_nout = newNdxCodec, se_nin = newNdxCodec,
     se_repo = st, se_ups = ups, se_upn = 0\<rparr>"

text \<open>The result, the bytes of the negotiation, the frames and the repository afterwards.\<close>

definition RunSession :: "repo_env \<Rightarrow> (string \<Rightarrow> string) \<Rightarrow> int \<Rightarrow> module_config \<Rightarrow> client \<Rightarrow> bytes \<Rightarrow> (nat \<Rightarrow> upload) \<Rightarrow> repo \<Rightarrow>
    unit result \<times> bytes \<times> (byte \<times> bytes) list \<times> repo" where
  "RunSession E quote now m c bs ups st = (case NegotiateBinary now bs of
       Inl e \<Rightarrow> (Inl e, [], [], st)
     | Inr (neg, reply, rest) \<Rightarrow> (case session_checks m neg of
         (fs, Inl e) \<Rightarrow> (Inl e, reply, fs, st)
       | (_, Inr _) \<Rightarrow> (case run_session E quote m neg (session_start c rest ups st) of
           (r, s) \<Rightarrow> (r, reply, se_out s, se_repo s))))"

subsection \<open>A connection\<close>

text \<open>
  The modules' repositories by name.  The result is the error, the lines printed, the bytes of the
  negotiation, the frames, and the repositories afterwards.
\<close>

definition handleConn :: "repo_env \<Rightarrow> (string \<Rightarrow> string) \<Rightarrow> rsync_config \<Rightarrow> (module_config \<Rightarrow> bool) \<Rightarrow> (module_config \<Rightarrow> (goerr \<times> string) option) \<Rightarrow>
    string \<Rightarrow> int \<Rightarrow> client \<Rightarrow> (nat \<Rightarrow> upload) \<Rightarrow> (string \<Rightarrow> repo) \<Rightarrow>
    unit result \<times> string list \<times> bytes \<times> (byte \<times> bytes) list \<times> (string \<Rightarrow> repo)" where
  "handleConn E quote cfg allow opener seed now c ups repos =
     (case HandleModuleRequest (re_md5 E) cfg allow seed (cl_bytes c) of
        (Inl e, out, _) \<Rightarrow> (Inl e, out, [], [], repos)
      | (Inr m, out, bs) \<Rightarrow> (case opener m of
          Some (e, text) \<Rightarrow> (Inl e, out @ [''@ERROR: '' @ text], [], [], repos)
        | None \<Rightarrow> (case RunSession E quote now m c bs ups (repos (mo_name m)) of
            (r, reply, fs, st) \<Rightarrow> (r, out, reply, fs, repos(mo_name m := st)))))"

subsection \<open>What a session keeps\<close>

definition fresh_uploads :: "(nat \<Rightarrow> upload) \<Rightarrow> repo \<Rightarrow> bool" where
  "fresh_uploads ups st \<longleftrightarrow> (\<forall>k. length (up_nonce (ups k)) = 12 \<and> up_name (ups k) \<notin> blob_names st) \<and> inj (\<lambda>k. up_name (ups k))"

lemma fresh_start: "fresh_uploads ups st \<Longrightarrow> ups_fresh (session_start c bs ups st)"
  by (auto simp: fresh_uploads_def ups_fresh_def session_start_def inj_on_def)

lemma same_apply: "same.keeps (applyIoTimeout neg)"
  unfolding applyIoTimeout_def by (intro same.keeps_intros same_io)

lemma same_wrap: "same.keeps m \<Longrightarrow> same.keeps (wrapIoTimeout neg m)"
  unfolding wrapIoTimeout_def by (intro same.keeps_intros same_io)

lemma rstep_wrap: "rstep.keeps E P m \<Longrightarrow> rstep.keeps E P (wrapIoTimeout neg m)"
  unfolding wrapIoTimeout_def by (intro rstep.keeps_intros rstep_io)

lemma same_sender: "ngSender neg \<Longrightarrow> same.keeps (run_session E quote m neg)"
  unfolding run_session_def by (intro same.keeps_intros same_apply same_wrap) (simp_all add: same_send_session same.keeps_intros)

lemma rstep_session:
  "rstep.keeps E (in_root (modulePrefix (ngModuleArg neg) (mo_name m))) (run_session E quote m neg)"
  unfolding run_session_def
  by (intro rstep.keeps_intros rstep_same [OF same_apply] rstep_wrap rstep_same [OF same_send_session] rstep_processSession)

lemma session_checks_readonly:
  assumes "session_checks m neg = (fs, Inr u)" "mo_readonly m"
  shows "ngSender neg"
  using assms by (auto simp: session_checks_def reject_readonly_def rejectCompression_def split: if_splits)

lemma RunSession_any:
  assumes "aead_laws (re_aead E)" "repo_ok E st" "fresh_uploads ups st"
    and "RunSession E quote now m c bs ups st = (r, reply, fs, st')"
  shows "repo_ok E st'" "mo_readonly m \<Longrightarrow> st' = st"
proof -
  have "repo_ok E st' \<and> (mo_readonly m \<longrightarrow> st' = st)"
  proof (cases "st' = st")
    case False
    then obtain neg rep rest gs u r' s where r: "NegotiateBinary now bs = Inr (neg, rep, rest)" "session_checks m neg = (gs, Inr u)"
      "run_session E quote m neg (session_start c rest ups st) = (r', s)" "st' = se_repo s"
      using assms(4) by (auto simp: RunSession_def split: sum.splits prod.splits)
    have "repo_step E (in_root (modulePrefix (ngModuleArg neg) (mo_name m))) (session_start c rest ups st) s"
      using rstep_session r(3) unfolding rstep.keeps_def by (metis snd_conv)
    then have "repo_ok E st'"
      using assms(1-3) fresh_start r(4) by (simp add: repo_step_def session_start_def)
    moreover have "\<not> mo_readonly m"
    proof
      assume "mo_readonly m"
      then have "ngSender neg" using session_checks_readonly r(2) by blast
      then have "se_repo s = st" using same.keepsD [OF same_sender r(3)] by (simp add: repo_same_def session_start_def)
      then show False using False r(4) by simp
    qed
    ultimately show ?thesis by simp
  qed (use assms(2) in simp)
  then show "repo_ok E st'" "mo_readonly m \<Longrightarrow> st' = st" by simp_all
qed

subsection \<open>Properties\<close>

text \<open>
  C8: what a connection can do, whatever bytes arrive on it and whatever fails.  The repositories stay
  consistent, and when one of them is changed at all it is that of one configured module that is not
  read-only, that the limiter admitted, and for which, when users are configured, the bytes contain a
  user's name with the digest of that user's password and the challenge.
\<close>

theorem connection_effects:
  assumes "aead_laws (re_aead E)" "\<forall>n. repo_ok E (repos n)" "\<forall>n. fresh_uploads ups (repos n)"
    and "handleConn E quote cfg allow opener seed now c ups repos = (r, lines, reply, fs, repos')"
  shows "(\<forall>n. repo_ok E (repos' n)) \<and>
    (repos' = repos \<or> (\<exists>m \<in> set (rc_modules cfg). \<not> mo_readonly m \<and> allow m \<and> opener m = None \<and>
       (\<forall>n. n \<noteq> mo_name m \<longrightarrow> repos' n = repos n) \<and>
       (rc_users cfg = [] \<or> (\<exists>pre line user pass rest. cl_bytes c = pre @ to_bytes line @ 10 # rest \<and>
          map_of (rc_users cfg) user = Some pass \<and> Fields line = [user, authDigest (re_md5 E) pass seed]))))"
proof (cases "repos' = repos")
  case False
  then obtain m out bs st where h: "HandleModuleRequest (re_md5 E) cfg allow seed (cl_bytes c) = (Inr m, out, bs)" "opener m = None"
    "RunSession E quote now m c bs ups (repos (mo_name m)) = (r, reply, fs, st)" "repos' = repos(mo_name m := st)"
    using assms(4) by (auto simp: handleConn_def split: prod.splits sum.splits option.splits)
  note R = RunSession_any [OF assms(1) spec [OF assms(2)] spec [OF assms(3)] h(3)]
  have "\<not> mo_readonly m" using R(2) h(4) False by auto
  moreover have "\<forall>n. repo_ok E (repos' n)" using h(4) R(1) assms(2) by simp
  moreover note mr = module_request [OF h(1)]
  moreover have "\<forall>n. n \<noteq> mo_name m \<longrightarrow> repos' n = repos n" using h(4) by simp
  ultimately show ?thesis using h(2) by blast
qed (use assms(2) in simp)

theorem connection_effects_witness:
  "let (r, lines, reply, fs, repos') = handleConn sample_env (\<lambda>x. x) sample_rsync (\<lambda>m. True) (\<lambda>m. None) ''7'' 1
       \<lparr>cl_bytes = sample_request, cl_fault = None, cl_room = None, cl_polls = None\<rparr>
       (\<lambda>n. upload_named (replicate (n + 3) CHR ''u'')) (\<lambda>n. two_file_repo)
   in \<forall>n. repo_ok sample_env (repos' n)"
proof -
  let ?c = "\<lparr>cl_bytes = sample_request, cl_fault = None, cl_room = None, cl_polls = None\<rparr>" and ?ups = "\<lambda>n. upload_named (replicate (n + 3) CHR ''u'')"
  obtain r lines reply fs repos' where h: "handleConn sample_env (\<lambda>x. x) sample_rsync (\<lambda>m. True) (\<lambda>m. None) ''7'' 1 ?c ?ups (\<lambda>n. two_file_repo) =
    (r, lines, reply, fs, repos')" by (metis prod_cases5)
  have names: "blob_names two_file_repo = {''b1'', ''b2''}" by code_simp
  have "replicate (n + 3) CHR ''u'' \<noteq> [CHR ''b'', x]" for n x
    by (rule notI, drule arg_cong [where f = length]) simp
  then have f: "\<forall>n :: string. fresh_uploads ?ups two_file_repo" by (auto simp: fresh_uploads_def upload_named_def names inj_on_def)
  show ?thesis
    using connection_effects [OF _ _ f h] sample_env_ok sample_repo_ok h by (simp add: env_ok_def)
qed

end
