(* ===== verification/MetaBackup.thy ===== *)
theory MetaBackup
  imports Gc
begin

text \<open>
  Backups of the metadata database (\<open>internal/core/repo/meta_backup.go\<close>): making one, pruning old ones,
  restoring the newest that is intact, and the set of blobs that a garbage collection has to spare.
  SQLite is a parameter: \<open>br_snapshot\<close> gives the file that its online backup writes and \<open>opener\<close> the
  tables of a file, or None where opening, the schema check or \<open>integrity_check\<close> fails.  What the file
  system, the backend and the network do to one call is a record of the run.
\<close>

subsection \<open>Names\<close>

fun digits :: "nat \<Rightarrow> nat \<Rightarrow> string" where
  "digits 0 n = []"
| "digits (Suc k) n = digits k (n div 10) @ [char_of (48 + n mod 10)]"

record utc =
  ut_year :: nat
  ut_month :: nat
  ut_day :: nat
  ut_hour :: nat
  ut_minute :: nat
  ut_second :: nat
  ut_nano :: nat

definition metaBackupName :: "utc \<Rightarrow> bytes \<Rightarrow> string" where
  "metaBackupName t sfx = digits 4 (ut_year t) @ digits 2 (ut_month t) @ digits 2 (ut_day t) @ ''T'' @
     digits 2 (ut_hour t) @ digits 2 (ut_minute t) @ digits 2 (ut_second t) @ ''.'' @ digits 9 (ut_nano t) @ ''Z'' @
     ''-'' @ hex_encode sfx @ ''.cmeta''"

definition validMetaNames :: "string list \<Rightarrow> string list" where
  "validMetaNames names = sort (filter (\<lambda>n. HasSuffix n ''.cmeta'') names)"

subsection \<open>Making a backup\<close>

type_synonym opener = "bytes \<Rightarrow> meta_db option"

definition check_snapshot :: "opener \<Rightarrow> string \<Rightarrow> bytes \<Rightarrow> (bytes \<times> string \<times> int) list result" where
  "check_snapshot opn expected file = (case opn file of
       None \<Rightarrow> Inl (Err ''open snapshot'')
     | Some db \<Rightarrow> ValidateSnapshot expected db)"

definition equalBytes :: "bytes \<Rightarrow> bytes \<Rightarrow> bool" where
  "equalBytes a b \<longleftrightarrow> length a = length b \<and> fold (\<lambda>(x, y) diff. or diff (xor x y)) (zip a b) 0 = 0"

text \<open>
  \<open>br_put\<close> tells for an upload the error it returns and the bytes the backend has afterwards, if any;
  \<open>br_echo\<close> what is read back when those bytes are downloaded.
\<close>

record backup_run =
  br_time :: utc
  br_suffix :: bytes
  br_id :: string
  br_snapshot :: "meta_db \<Rightarrow> bytes result"
  br_source_end :: goerr
  br_nonces :: "64 word \<Rightarrow> bytes"
  br_local :: "goerr option"
  br_put :: "bytes \<Rightarrow> goerr option \<times> bytes option"
  br_echo :: "bytes \<Rightarrow> bytes result"
  br_list :: "goerr option"
  br_delete :: "string \<Rightarrow> goerr option"

definition put_meta :: "backup_run \<Rightarrow> string \<Rightarrow> bytes \<Rightarrow> mem_backend \<Rightarrow> unit result \<times> mem_backend" where
  "put_meta run name d be = (case validateBlobName name of Inl e \<Rightarrow> (Inl e, be) | Inr _ \<Rightarrow>
     (case br_put run d of (e, stored) \<Rightarrow>
       ((case e of None \<Rightarrow> Inr () | Some e \<Rightarrow> Inl e),
        (case stored of None \<Rightarrow> be | Some d' \<Rightarrow> snd (mem_PutMeta name d' (length d') be)))))"

definition delete_meta :: "backup_run \<Rightarrow> string \<Rightarrow> mem_backend \<Rightarrow> unit result \<times> mem_backend" where
  "delete_meta run name be = (case br_delete run name of Some e \<Rightarrow> (Inl e, be) | None \<Rightarrow> mem_DeleteMeta name be)"

definition uploadAndVerifyMeta :: "repo_env \<Rightarrow> backup_run \<Rightarrow> string \<Rightarrow> bytes \<Rightarrow> mem_backend \<Rightarrow> unit result \<times> mem_backend" where
  "uploadAndVerifyMeta E run name file be = (case put_meta run name file be of
       (Inl e, be') \<Rightarrow> (Inl e, be')
     | (Inr _, be') \<Rightarrow> (case bind_res (mem_GetMeta name be') (br_echo run) of
         Inl e \<Rightarrow> (Inl e, be')
       | Inr remote \<Rightarrow>
           if \<not> equalBytes (re_hash E file) (re_hash E remote) then (Inl (Err ''remote digest differs''), be')
           else (Inr (), be')))"

fun delete_all :: "backup_run \<Rightarrow> string list \<Rightarrow> mem_backend \<Rightarrow> unit result \<times> mem_backend" where
  "delete_all run [] be = (Inr (), be)"
| "delete_all run (n # ns) be = (case delete_meta run n be of
       (Inl e, be') \<Rightarrow> (Inl e, be')
     | (Inr _, be') \<Rightarrow> delete_all run ns be')"

definition pruneMetaBackups :: "backup_run \<Rightarrow> int \<Rightarrow> mem_backend \<Rightarrow> unit result \<times> mem_backend" where
  "pruneMetaBackups run retain be = (case br_list run of Some e \<Rightarrow> (Inl e, be) | None \<Rightarrow>
     let names = validMetaNames (mem_ListMeta be) in
     if int (length names) \<le> retain then (Inr (), be)
     else delete_all run (take (length names - nat retain) names) be)"

text \<open>The steps before the upload: the encrypted snapshot.\<close>

definition snapshot_file :: "repo_env \<Rightarrow> opener \<Rightarrow> backup_run \<Rightarrow> string \<Rightarrow> string \<Rightarrow> meta_db \<Rightarrow> bytes result" where
  "snapshot_file E opn run name rid db =
     bind_res (br_snapshot run db) (\<lambda>snap. bind_res (check_snapshot opn rid snap) (\<lambda>_.
       bind_res (EncryptMeta (re_aead E) (br_nonces run) (snap, br_source_end run) name rid) (\<lambda>file.
         case br_local run of Some e \<Rightarrow> Inl e | None \<Rightarrow> Inr file)))"

text \<open>The result is Go's pair of a name and an error; a failure to prune comes with the name.\<close>

definition CreateMetaBackup :: "repo_env \<Rightarrow> opener \<Rightarrow> backup_run \<Rightarrow> int \<Rightarrow> meta_db \<Rightarrow> mem_backend \<Rightarrow>
    (string \<times> goerr option) \<times> meta_db \<times> mem_backend" where
  "CreateMetaBackup E opn run retain db be =
     (if retain < 1 then (([], Some (Err ''retain must be positive'')), db, be)
      else case EnsureRepositoryID (br_id run) db of
        (Inl e, db') \<Rightarrow> (([], Some e), db', be)
      | (Inr rid, db') \<Rightarrow>
          let name = metaBackupName (br_time run) (br_suffix run) in
          (case snapshot_file E opn run name rid db' of
             Inl e \<Rightarrow> (([], Some e), db', be)
           | Inr file \<Rightarrow> (case uploadAndVerifyMeta E run name file be of
               (Inl e, be') \<Rightarrow> (([], Some e), db', snd (delete_meta run name be'))
             | (Inr _, be') \<Rightarrow> (case pruneMetaBackups run retain be' of
                 (Inl e, be'') \<Rightarrow> ((name, Some e), db', be'')
               | (Inr _, be'') \<Rightarrow> ((name, None), db', be'')))))"

subsection \<open>Restoring\<close>

record restore_run =
  rr_list :: "goerr option"
  rr_temp :: "string \<Rightarrow> goerr option"
  rr_down :: "string \<Rightarrow> bytes \<Rightarrow> bytes result"
  rr_get :: "string \<Rightarrow> goerr option"
  rr_rename :: "string \<Rightarrow> goerr option"
  rr_sync :: "string \<Rightarrow> goerr option"

definition faultless :: "restore_run \<Rightarrow> bool" where
  "faultless run \<longleftrightarrow> rr_list run = None \<and> (\<forall>n. rr_temp run n = None \<and> rr_get run n = None \<and> rr_rename run n = None \<and>
     rr_sync run n = None \<and> (\<forall>d. rr_down run n d = Inr d))"

fun verifyBackupChunks :: "repo_env \<Rightarrow> restore_run \<Rightarrow> mem_backend \<Rightarrow> (bytes \<times> string \<times> int) list \<Rightarrow> unit result" where
  "verifyBackupChunks E run be [] = Inr ()"
| "verifyBackupChunks E run be ((h, b, s) # cs) = (case rr_get run b of Some e \<Rightarrow> Inl e | None \<Rightarrow>
     bind_res (mem_Get b be) (\<lambda>raw. bind_res (Decrypt (re_aead E) raw b) (\<lambda>pt.
       if re_hash E pt \<noteq> h \<or> int (length pt) \<noteq> s then Inl (Err ''blob does not match'')
       else verifyBackupChunks E run be cs)))"

text \<open>The snapshot of a backup, after every check.\<close>

definition candidate :: "repo_env \<Rightarrow> opener \<Rightarrow> restore_run \<Rightarrow> bool \<Rightarrow> mem_backend \<Rightarrow> string \<Rightarrow> bytes result" where
  "candidate E opn run verifyData be name = (case rr_temp run name of Some e \<Rightarrow> Inl e | None \<Rightarrow>
     bind_res (bind_res (mem_GetMeta name be) (rr_down run name)) (\<lambda>enc.
     bind_res (DecryptMeta (re_aead E) enc name) (\<lambda>(rid, snap).
     bind_res (check_snapshot opn rid snap) (\<lambda>chunks.
     bind_res (if verifyData then verifyBackupChunks E run be chunks else Inr ()) (\<lambda>_. Inr snap)))))"

text \<open>The target file takes the snapshot's place by a rename.\<close>

definition restoreCandidate :: "repo_env \<Rightarrow> opener \<Rightarrow> restore_run \<Rightarrow> bool \<Rightarrow> mem_backend \<Rightarrow> string \<Rightarrow> bytes option \<Rightarrow>
    unit result \<times> bytes option" where
  "restoreCandidate E opn run verifyData be name target = (case candidate E opn run verifyData be name of
       Inl e \<Rightarrow> (Inl e, target)
     | Inr snap \<Rightarrow> (case rr_rename run name of Some e \<Rightarrow> (Inl e, target) | None \<Rightarrow>
         (case rr_sync run name of Some e \<Rightarrow> (Inl e, Some snap) | None \<Rightarrow> (Inr (), Some snap))))"

fun try_candidates :: "repo_env \<Rightarrow> opener \<Rightarrow> restore_run \<Rightarrow> mem_backend \<Rightarrow> string list \<Rightarrow> bytes option \<Rightarrow> string result \<times> bytes option" where
  "try_candidates E opn run be [] target = (Inl (Err ''no restorable meta backup''), target)"
| "try_candidates E opn run be (n # ns) target = (case restoreCandidate E opn run True be n target of
       (Inr _, target') \<Rightarrow> (Inr n, target')
     | (Inl _, target') \<Rightarrow> try_candidates E opn run be ns target')"

definition RestoreMeta :: "repo_env \<Rightarrow> opener \<Rightarrow> restore_run \<Rightarrow> mem_backend \<Rightarrow> bytes option \<Rightarrow> string result \<times> bytes option" where
  "RestoreMeta E opn run be target = (case rr_list run of Some e \<Rightarrow> (Inl e, target) | None \<Rightarrow>
     let names = validMetaNames (mem_ListMeta be) in
     if names = [] then (Inl (Err ''no meta backup''), target)
     else try_candidates E opn run be (rev names) target)"

fun protect_names :: "repo_env \<Rightarrow> opener \<Rightarrow> restore_run \<Rightarrow> mem_backend \<Rightarrow> string list \<Rightarrow> string list result" where
  "protect_names E opn run be [] = Inr []"
| "protect_names E opn run be (n # ns) = (case restoreCandidate E opn run False be n None of
       (Inr _, Some snap) \<Rightarrow> bind_res (check_snapshot opn [] snap) (\<lambda>chunks.
          bind_res (protect_names E opn run be ns) (\<lambda>ps. Inr (map (\<lambda>(h, b, s). b) chunks @ ps)))
     | (Inr _, None) \<Rightarrow> Inl ErrNotExist
     | (Inl e, _) \<Rightarrow> Inl e)"

definition ProtectedMetaBlobs :: "repo_env \<Rightarrow> opener \<Rightarrow> restore_run \<Rightarrow> mem_backend \<Rightarrow> string list result" where
  "ProtectedMetaBlobs E opn run be = (case rr_list run of Some e \<Rightarrow> Inl e
     | None \<Rightarrow> protect_names E opn run be (validMetaNames (mem_ListMeta be)))"

subsection \<open>Names sort by time\<close>

lemma equalBytes_iff: "equalBytes a b \<longleftrightarrow> a = b"
proof -
  have x: "or (xor x y) d = 0 \<longleftrightarrow> x = y \<and> d = 0" for x y d :: byte
    by (auto simp: bit_eq_iff bit_or_iff bit_xor_iff)
  have "length a = length b \<Longrightarrow> fold (\<lambda>(x, y) diff. or diff (xor x y)) (zip a b) d = 0 \<longleftrightarrow> d = 0 \<and> a = b" for d
    by (induction a b arbitrary: d rule: list_induct2) (auto simp: x or.commute [of _ "xor _ _"])
  then show ?thesis by (auto simp: equalBytes_def)
qed

lemma length_digits [simp]: "length (digits k n) = k"
  by (induction k arbitrary: n) auto

lemma append_less_append:
  "length xs = length ys \<Longrightarrow> xs @ us < ys @ vs \<longleftrightarrow> xs < ys \<or> xs = ys \<and> us < (vs :: 'a :: linorder list)"
  by (induction xs ys rule: list_induct2) auto

lemma digits_mono: "m < n \<Longrightarrow> n < 10 ^ k \<Longrightarrow> digits k m < digits k n"
proof (induction k arbitrary: m n)
  case (Suc k)
  show ?case
  proof (cases "m div 10 < n div 10")
    case True
    then show ?thesis using Suc by (simp add: append_less_append less_mult_imp_div_less mult.commute)
  next
    case False
    then have "m div 10 = n div 10" using Suc.prems(1) by (simp add: div_le_mono le_antisym less_imp_le_nat linorder_not_less)
    then show ?thesis using Suc.prems(1)
      by (simp add: append_less_append less_char_def) (metis mod_div_mult_eq add_less_cancel_right)
  qed
qed simp

definition utc_key :: "utc \<Rightarrow> nat list" where
  "utc_key t = [ut_year t, ut_month t, ut_day t, ut_hour t, ut_minute t, ut_second t, ut_nano t]"

definition utc_ok :: "utc \<Rightarrow> bool" where
  "utc_ok t \<longleftrightarrow> ut_year t < 10 ^ 4 \<and> ut_month t < 10 ^ 2 \<and> ut_day t < 10 ^ 2 \<and> ut_hour t < 10 ^ 2 \<and>
     ut_minute t < 10 ^ 2 \<and> ut_second t < 10 ^ 2 \<and> ut_nano t < 10 ^ 9"

lemma digits_append_less:
  assumes "m < 10 ^ k" "n < 10 ^ k"
  shows "digits k m @ us < digits k n @ (vs :: string) \<longleftrightarrow> m < n \<or> m = n \<and> us < vs"
  using digits_mono [OF _ assms(1), of n] digits_mono [OF _ assms(2), of m]
  by (cases m n rule: linorder_cases) (auto simp: append_less_append)

lemma metaBackupName_mono:
  assumes "utc_ok a" "utc_ok b" "utc_key a < utc_key b"
  shows "metaBackupName a s < metaBackupName b s'"
  using assms by (auto simp: metaBackupName_def utc_ok_def utc_key_def digits_append_less)

subsection \<open>Uploading and pruning\<close>

abbreviation meta_obj :: "mem_backend \<Rightarrow> string \<Rightarrow> bytes option" where
  "meta_obj be \<equiv> map_of (mem_mm be)"

lemma mem_PutMeta_effect:
  "validateBlobName n = Inr u \<Longrightarrow> snd (mem_PutMeta n d (length d) be) = be\<lparr>mem_mm := assoc_put n d (mem_mm be)\<rparr>"
  by (simp add: mem_PutMeta_def)

lemma put_meta_effect:
  assumes "put_meta run n d be = (r, be')"
  shows "mem_m be' = mem_m be" "m \<noteq> n \<Longrightarrow> meta_obj be' m = meta_obj be m"
    "be' = be \<or> (\<exists>d'. be' = be\<lparr>mem_mm := assoc_put n d' (mem_mm be)\<rparr>)"
  using assms by (auto simp: put_meta_def mem_PutMeta_effect map_of_assoc_put split: sum.splits prod.splits option.splits)

lemma upload_effect:
  assumes "uploadAndVerifyMeta E run n file be = (r, be')"
  shows "mem_m be' = mem_m be" "m \<noteq> n \<Longrightarrow> meta_obj be' m = meta_obj be m"
    "be' = be \<or> (\<exists>d'. be' = be\<lparr>mem_mm := assoc_put n d' (mem_mm be)\<rparr>)"
proof -
  obtain r' where "put_meta run n file be = (r', be')"
    using assms by (auto simp: uploadAndVerifyMeta_def split: prod.splits sum.splits if_splits)
  note put_meta_effect [OF this]
  then show "mem_m be' = mem_m be" "m \<noteq> n \<Longrightarrow> meta_obj be' m = meta_obj be m"
    "be' = be \<or> (\<exists>d'. be' = be\<lparr>mem_mm := assoc_put n d' (mem_mm be)\<rparr>)" by blast+
qed

lemma delete_meta_effect:
  assumes "delete_meta run n be = (r, be')"
  shows "mem_m be' = mem_m be" "m \<noteq> n \<Longrightarrow> meta_obj be' m = meta_obj be m" "r = Inr () \<Longrightarrow> meta_obj be' n = None"
    "set (mem_ListMeta be') \<subseteq> set (mem_ListMeta be)"
  using assms
  by (auto simp: delete_meta_def mem_DeleteMeta_def map_of_assoc_del split: option.splits)
    (auto simp: mem_ListMeta_def assoc_del_def)

lemma delete_all_effect:
  assumes "delete_all run ns be = (r, be')"
  shows "mem_m be' = mem_m be \<and> set (mem_ListMeta be') \<subseteq> set (mem_ListMeta be) \<and> (\<forall>m. m \<notin> set ns \<longrightarrow> meta_obj be' m = meta_obj be m) \<and>
    (r = Inr () \<longrightarrow> (\<forall>m \<in> set ns. meta_obj be' m = None))"
  using assms
proof (induction ns arbitrary: be)
  case (Cons n ns)
  obtain r1 b where d: "delete_meta run n be = (r1, b)" by fastforce
  note e = delete_meta_effect [OF d]
  show ?case
  proof (cases r1)
    case (Inl x)
    then show ?thesis using Cons.prems d e by auto
  next
    case (Inr u)
    then have "delete_all run ns b = (r, be')" using Cons.prems d by simp
    from Cons.IH [OF this] show ?thesis using e Inr by (auto split: if_splits)
  qed
qed simp

lemma ListMeta_obj: "n \<in> set (mem_ListMeta be) \<longleftrightarrow> meta_obj be n \<noteq> None"
  using map_of_eq_None_iff [of "mem_mm be" n] by (simp add: mem_ListMeta_def)

lemma set_validMetaNames: "n \<in> set (validMetaNames ns) \<longleftrightarrow> n \<in> set ns \<and> HasSuffix n ''.cmeta''"
  by (auto simp: validMetaNames_def)

text \<open>The greatest name is the last, so it is the first to be tried and is never pruned.\<close>

lemma validMetaNames_last:
  assumes "n \<in> set ns" "HasSuffix n ''.cmeta''" "\<forall>m \<in> set ns. m \<le> n"
  shows "\<exists>zs. validMetaNames ns = zs @ [n] \<and> set zs \<subseteq> set ns"
proof -
  let ?v = "validMetaNames ns"
  have s: "sorted ?v" by (simp add: validMetaNames_def)
  have n: "n \<in> set ?v" "\<forall>m \<in> set ?v. m \<le> n" using assms by (simp_all add: set_validMetaNames)
  then obtain zs l where v: "?v = zs @ [l]" by (metis append_butlast_last_id empty_iff empty_set)
  have "n \<le> l" using s n(1) v by (auto simp: sorted_append)
  then have "l = n" using n(2) v by (metis in_set_conv_decomp order_antisym)
  moreover have "set ?v \<subseteq> set ns" by (auto simp: validMetaNames_def)
  ultimately show ?thesis using v by auto
qed

lemma distinct_validMetaNames: "distinct ns \<Longrightarrow> distinct (validMetaNames ns)"
  by (simp add: validMetaNames_def)

lemma prune_effect:
  assumes "pruneMetaBackups run retain be = (r, be')"
  shows "mem_m be' = mem_m be" "set (mem_ListMeta be') \<subseteq> set (mem_ListMeta be)"
    "m \<notin> set (take (length (validMetaNames (mem_ListMeta be)) - nat retain) (validMetaNames (mem_ListMeta be))) \<Longrightarrow>
       meta_obj be' m = meta_obj be m"
proof -
  let ?v = "validMetaNames (mem_ListMeta be)"
  have "be' = be \<or> delete_all run (take (length ?v - nat retain) ?v) be = (r, be')"
    using assms by (auto simp: pruneMetaBackups_def Let_def split: option.splits if_splits)
  note disj = this
  show "mem_m be' = mem_m be" "set (mem_ListMeta be') \<subseteq> set (mem_ListMeta be)"
    "m \<notin> set (take (length ?v - nat retain) ?v) \<Longrightarrow> meta_obj be' m = meta_obj be m"
    using disj delete_all_effect by blast+
qed

lemma prune_spares_last:
  assumes "pruneMetaBackups run retain be = (r, be')" "0 < retain" "distinct (mem_ListMeta be)"
    "n \<in> set (mem_ListMeta be)" "HasSuffix n ''.cmeta''" "\<forall>m \<in> set (mem_ListMeta be). m \<le> n"
  shows "meta_obj be' n = meta_obj be n"
proof -
  let ?v = "validMetaNames (mem_ListMeta be)"
  obtain zs where v: "?v = zs @ [n]" using validMetaNames_last [OF assms(4-6)] by blast
  have "n \<notin> set zs" using distinct_validMetaNames [OF assms(3)] v by simp
  moreover have "take (length ?v - nat retain) ?v = take (length ?v - nat retain) zs" using assms(2) by (simp add: v)
  ultimately show ?thesis using prune_effect(3) [OF assms(1), of n] by (metis in_set_takeD)
qed

end
