(* ===== verification/Recovery.thy ===== *)
theory Recovery
  imports MetaBackup
begin

text \<open>
  What the backups of the metadata promise: a backup that was made restores the database it was made
  of, a garbage collection keeps every backup restorable, and what is restored is complete.
\<close>

subsection \<open>Verified snapshots\<close>

lemma verifyBackupChunks_iff:
  "verifyBackupChunks E run be cs = Inr u \<longleftrightarrow>
     (\<forall>(h, b, s) \<in> set cs. rr_get run b = None \<and>
        (\<exists>raw pt. mem_Get b be = Inr raw \<and> Decrypt (re_aead E) raw b = Inr pt \<and> re_hash E pt = h \<and> int (length pt) = s))"
proof (induction cs)
  case (Cons c cs)
  obtain h b s where c: "c = (h, b, s)" by (cases c)
  show ?case
    using Cons by (auto simp: c bind_res_eq_Inr split: option.split sum.split)
qed simp

lemma verifyBackupChunks_cong:
  assumes "\<forall>(h, b, s) \<in> set cs. mem_Get b be' = mem_Get b be"
  shows "verifyBackupChunks E run be' cs = verifyBackupChunks E run be cs"
  using assms by (induction cs) (auto split: option.split cong: if_cong)

lemma Validate_Inr:
  assumes "ValidateSnapshot expected db = Inr chunks"
  shows "fk_check db" "check_paths db" "check_refcounts db" "check_idxs db" "check_sizes db" "chunks = backup_chunks db"
    "\<exists>rid. GetMeta ''repository_id'' db = Some rid \<and> (expected = [] \<or> rid = expected)"
  using assms by (auto simp: ValidateSnapshot_def split: if_splits option.splits)

lemma Validate_any_id: "ValidateSnapshot expected db = Inr chunks \<Longrightarrow> ValidateSnapshot [] db = Inr chunks"
  by (auto simp: ValidateSnapshot_def split: if_splits option.splits)

lemma check_snapshot_Inr:
  assumes "check_snapshot opn expected fl = Inr chunks"
  shows "\<exists>db. opn fl = Some db \<and> ValidateSnapshot expected db = Inr chunks"
  using assms by (auto simp: check_snapshot_def split: option.splits)

lemma check_snapshot_any_id: "check_snapshot opn expected fl = Inr chunks \<Longrightarrow> check_snapshot opn [] fl = Inr chunks"
  by (auto simp: check_snapshot_def Validate_any_id split: option.splits)

lemma backup_chunks_rows:
  "(h, b, s) \<in> set (backup_chunks db) \<longleftrightarrow> (\<exists>c \<in> set (db_chunks db). ck_hash c = h \<and> ck_blob c = b \<and> ck_size c = s \<and>
     (\<exists>fc \<in> set (db_fcs db). fc_chunk fc = ck_id c \<and> fc_file fc \<in> df_id ` set (db_files db)))"
  by (auto simp: backup_chunks_def)

text \<open>A candidate is accepted because of its object, the tables in it and the blobs they name.\<close>

lemma candidate_Inr:
  assumes "candidate E opn run verifyData be n = Inr snap"
  obtains enc enc' rid chunks where "mem_GetMeta n be = Inr enc" "rr_down run n enc = Inr enc'"
    "DecryptMeta (re_aead E) enc' n = Inr (rid, snap)" "check_snapshot opn rid snap = Inr chunks"
    "verifyData \<Longrightarrow> verifyBackupChunks E run be chunks = Inr ()"
  using assms by (auto simp: candidate_def bind_res_eq_Inr split: option.splits if_splits)

lemma try_candidates_Inr:
  assumes "try_candidates E opn run be ns target = (Inr n, target')"
  shows "n \<in> set ns \<and> (\<exists>snap. candidate E opn run True be n = Inr snap \<and> target' = Some snap)"
  using assms
  by (induction ns arbitrary: target) (auto simp: restoreCandidate_def split: sum.splits option.splits prod.splits)

lemma RestoreMeta_Inr:
  assumes "RestoreMeta E opn run be target = (Inr n, target')"
  shows "n \<in> set (mem_ListMeta be) \<and> (\<exists>snap. candidate E opn run True be n = Inr snap \<and> target' = Some snap)"
  using assms try_candidates_Inr [of E opn run be "rev (validMetaNames (mem_ListMeta be))" target n target']
  by (auto simp: RestoreMeta_def Let_def set_validMetaNames split: option.splits if_splits)

subsection \<open>A backup restores\<close>

text \<open>
  The surroundings of a backup: SQLite's backup is a file that opens to the same tables, reading back
  gives what is stored, an object that was damaged on its way has another digest, and the random
  bytes have their lengths.
\<close>

definition backup_env :: "repo_env \<Rightarrow> opener \<Rightarrow> backup_run \<Rightarrow> bool" where
  "backup_env E opn run \<longleftrightarrow> aead_laws (re_aead E) \<and> (\<forall>j. length (br_nonces run j) = 12) \<and>
     (\<forall>db snap. br_snapshot run db = Inr snap \<longrightarrow> opn snap = Some db) \<and> (\<forall>d. br_echo run d = Inr d) \<and>
     (\<forall>fl d. br_put run fl = (None, Some d) \<longrightarrow> re_hash E d = re_hash E fl \<longrightarrow> d = fl) \<and>
     (\<exists>raw. length raw = 16 \<and> br_id run = hex_encode raw)"

text \<open>The id of a repository is written in lower case, as \<open>EnsureRepositoryID\<close> does.\<close>

definition canonical_id :: "meta_db \<Rightarrow> bool" where
  "canonical_id db \<longleftrightarrow> (\<forall>v raw. GetMeta ''repository_id'' db = Some v \<longrightarrow> hex_decode v = Some raw \<longrightarrow> v = hex_encode raw)"

lemma GetMeta_SetMeta: "GetMeta k' (SetMeta k v db) = (if k' = k then Some v else GetMeta k' db)"
proof -
  have m: "map_of (map (\<lambda>(k', v'). if k' = k then (k', v) else (k', v')) xs) y =
      (if y = k then map_option (\<lambda>_. v) (map_of xs k) else map_of xs y)" for y and xs :: "(string \<times> string) list"
    by (induction xs) auto
  have keys: "k \<in> set (map fst xs) \<longleftrightarrow> map_of xs k \<noteq> None" for xs :: "(string \<times> string) list"
    by (simp add: map_of_eq_None_iff)
  show ?thesis
    unfolding GetMeta_def SetMeta_def keys by (auto simp: m map_add_def split: option.split)
qed

lemma EnsureRepositoryID_Inr:
  assumes "EnsureRepositoryID fresh db = (Inr rid, db')" "canonical_id db" "\<exists>raw. length raw = 16 \<and> fresh = hex_encode raw"
  shows "\<exists>raw. length raw = 16 \<and> rid = hex_encode raw" "GetMeta ''repository_id'' db' = Some rid"
    "db_files db' = db_files db" "db_chunks db' = db_chunks db" "db_fcs db' = db_fcs db"
proof -
  have g: "GetMeta ''repository_id'' (SetMeta ''repository_schema'' ''1'' db) = GetMeta ''repository_id'' db"
    by (simp add: GetMeta_SetMeta)
  show "\<exists>raw. length raw = 16 \<and> rid = hex_encode raw" "GetMeta ''repository_id'' db' = Some rid"
    using assms g by (auto simp: EnsureRepositoryID_def Let_def GetMeta_SetMeta canonical_id_def valid_repo_id_def
        split: option.splits if_splits)
  show "db_files db' = db_files db" "db_chunks db' = db_chunks db" "db_fcs db' = db_fcs db"
    using assms(1) by (auto simp: EnsureRepositoryID_def Let_def SetMeta_def split: option.splits if_splits)
qed

lemma metaBackupName_suffix: "HasSuffix (metaBackupName t sfx) ''.cmeta''" "metaBackupName t sfx \<noteq> []"
  unfolding HasSuffix_iff metaBackupName_def by (metis append.assoc) simp

lemma Create_named:
  assumes "CreateMetaBackup E opn run retain db be = ((name, e), db', be')" "name \<noteq> []"
  obtains rid fl be1 r where "EnsureRepositoryID (br_id run) db = (Inr rid, db')"
    "name = metaBackupName (br_time run) (br_suffix run)" "snapshot_file E opn run name rid db' = Inr fl"
    "uploadAndVerifyMeta E run name fl be = (Inr (), be1)" "pruneMetaBackups run retain be1 = (r, be')" "0 < retain"
  using assms by (auto simp: CreateMetaBackup_def Let_def split: if_splits prod.splits sum.splits)

lemma snapshot_file_Inr:
  assumes "snapshot_file E opn run name rid db = Inr fl" "backup_env E opn run" "length raw = 16" "rid = hex_encode raw"
  shows "\<exists>snap chunks. opn snap = Some db \<and> DecryptMeta (re_aead E) fl name = Inr (rid, snap) \<and>
    check_snapshot opn rid snap = Inr chunks"
proof -
  obtain snap chunks where s: "br_snapshot run db = Inr snap" "check_snapshot opn rid snap = Inr chunks"
    "EncryptMeta (re_aead E) (br_nonces run) (snap, br_source_end run) name rid = Inr fl"
    using assms(1) by (auto simp: snapshot_file_def bind_res_eq_Inr split: option.splits)
  have "br_source_end run = EOF \<or> br_source_end run = UnexpectedEOF"
    using s(3) assms(3,4) by (auto simp: EncryptMeta_def split: if_splits)
  then have "DecryptMeta (re_aead E) fl name = Inr (rid, snap)"
    using meta_roundtrip [of "re_aead E" "br_nonces run" raw "br_source_end run" snap name] s(3) assms(2-4)
    by (auto simp: backup_env_def)
  then show ?thesis using s(1,2) assms(2) by (auto simp: backup_env_def)
qed

text \<open>After a verified upload the backend has the container, whatever it did with the upload.\<close>

lemma upload_Inr:
  assumes "uploadAndVerifyMeta E run name fl be = (Inr u, be1)" "backup_env E opn run" "meta_obj be name = None"
  shows "be1 = be\<lparr>mem_mm := assoc_put name fl (mem_mm be)\<rparr>"
proof -
  obtain remote where 1: "put_meta run name fl be = (Inr u, be1)" "mem_GetMeta name be1 = Inr remote"
    "re_hash E remote = re_hash E fl"
    using assms(1,2) by (auto simp: uploadAndVerifyMeta_def equalBytes_iff bind_res_eq_Inr backup_env_def
        split: prod.splits sum.splits if_splits)
  obtain v stored where 2: "validateBlobName name = Inr v" "br_put run fl = (None, stored)"
    using 1(1) by (auto simp: put_meta_def split: sum.splits prod.splits option.splits)
  show ?thesis
  proof (cases stored)
    case None
    then have "be1 = be" using 1(1) 2 by (simp add: put_meta_def)
    then show ?thesis using 1(2) assms(3) by (simp add: mem_GetMeta_def)
  next
    case (Some d)
    then have b: "be1 = be\<lparr>mem_mm := assoc_put name d (mem_mm be)\<rparr>"
      using 1(1) 2 by (simp add: put_meta_def mem_PutMeta_effect)
    then have "remote = d" using 1(2) by (simp add: mem_GetMeta_def map_of_assoc_put)
    then have "d = fl" using 1(3) 2(2) Some assms(2) by (auto simp: backup_env_def)
    then show ?thesis using b by simp
  qed
qed

lemma distinct_assoc_put: "distinct (map fst m) \<Longrightarrow> distinct (map fst (assoc_put n d m))"
  by (auto simp: assoc_put_def distinct_map_filter)

lemma set_assoc_put: "set (map fst (assoc_put n d m)) = insert n (set (map fst m))"
  by (auto simp: assoc_put_def image_iff)

lemma distinct_upload:
  assumes "distinct (mem_ListMeta be)" "uploadAndVerifyMeta E run n fl be = (r, be')"
  shows "distinct (mem_ListMeta be')"
  using upload_effect(3) [OF assms(2)] assms(1) distinct_assoc_put by (auto simp: mem_ListMeta_def)

lemma distinct_delete_meta: "distinct (mem_ListMeta be) \<Longrightarrow> delete_meta run n be = (r, be') \<Longrightarrow> distinct (mem_ListMeta be')"
  by (auto simp: delete_meta_def mem_DeleteMeta_def mem_ListMeta_def assoc_del_def distinct_map_filter split: option.splits)

lemma distinct_delete_all: "distinct (mem_ListMeta be) \<Longrightarrow> delete_all run ns be = (r, be') \<Longrightarrow> distinct (mem_ListMeta be')"
  by (induction ns arbitrary: be) (auto dest: distinct_delete_meta split: prod.splits sum.splits)

lemma distinct_prune: "distinct (mem_ListMeta be) \<Longrightarrow> pruneMetaBackups run retain be = (r, be') \<Longrightarrow> distinct (mem_ListMeta be')"
  by (auto simp: pruneMetaBackups_def Let_def dest: distinct_delete_all split: option.splits if_splits)

text \<open>The backup is the first one that a restore tries.\<close>

lemma Create_object:
  assumes "CreateMetaBackup E opn run retain db be = ((name, e), db', be')" "name \<noteq> []" "backup_env E opn run"
    "canonical_id db" "distinct (mem_ListMeta be)" "\<forall>n \<in> set (mem_ListMeta be). n < name"
  shows "\<exists>fl rid snap chunks zs. meta_obj be' name = Some fl \<and> DecryptMeta (re_aead E) fl name = Inr (rid, snap) \<and>
    check_snapshot opn rid snap = Inr chunks \<and> opn snap = Some db' \<and> validMetaNames (mem_ListMeta be') = zs @ [name]"
    "mem_m be' = mem_m be" "db_files db' = db_files db" "db_chunks db' = db_chunks db" "db_fcs db' = db_fcs db"
proof -
  obtain rid fl be1 r where c: "EnsureRepositoryID (br_id run) db = (Inr rid, db')"
    "name = metaBackupName (br_time run) (br_suffix run)" "snapshot_file E opn run name rid db' = Inr fl"
    "uploadAndVerifyMeta E run name fl be = (Inr (), be1)" "pruneMetaBackups run retain be1 = (r, be')" "0 < retain"
    by (rule Create_named [OF assms(1,2)])
  have id: "\<exists>raw. length raw = 16 \<and> br_id run = hex_encode raw" using assms(3) by (simp add: backup_env_def)
  note ens = EnsureRepositoryID_Inr [OF c(1) assms(4) id]
  obtain raw where raw: "length raw = 16" "rid = hex_encode raw" using ens(1) by blast
  obtain snap chunks where s: "opn snap = Some db'" "DecryptMeta (re_aead E) fl name = Inr (rid, snap)"
    "check_snapshot opn rid snap = Inr chunks"
    using snapshot_file_Inr [OF c(3) assms(3) raw] by blast
  have "name \<notin> set (mem_ListMeta be)" using assms(6) by blast
  then have "meta_obj be name = None" by (simp add: ListMeta_obj)
  from upload_Inr [OF c(4) assms(3) this] have b1: "be1 = be\<lparr>mem_mm := assoc_put name fl (mem_mm be)\<rparr>" .
  have names: "set (mem_ListMeta be1) = insert name (set (mem_ListMeta be))" "distinct (mem_ListMeta be1)"
    "meta_obj be1 name = Some fl"
    using assms(5) set_assoc_put distinct_assoc_put by (auto simp: b1 mem_ListMeta_def map_of_assoc_put)
  have sfx: "HasSuffix name ''.cmeta''" using c(2) metaBackupName_suffix by simp
  have max: "\<forall>m \<in> set (mem_ListMeta be1). m \<le> name" using assms(6) names(1) by auto
  have obj: "meta_obj be' name = Some fl"
    using prune_spares_last [OF c(5,6) names(2) _ sfx max] names(1,3) by simp
  have "name \<in> set (mem_ListMeta be')" using obj by (simp add: ListMeta_obj)
  moreover have "\<forall>m \<in> set (mem_ListMeta be'). m \<le> name" using prune_effect(2) [OF c(5)] max by blast
  ultimately obtain zs where "validMetaNames (mem_ListMeta be') = zs @ [name]" using validMetaNames_last [OF _ sfx] by blast
  then show "\<exists>fl rid snap chunks zs. meta_obj be' name = Some fl \<and> DecryptMeta (re_aead E) fl name = Inr (rid, snap) \<and>
    check_snapshot opn rid snap = Inr chunks \<and> opn snap = Some db' \<and> validMetaNames (mem_ListMeta be') = zs @ [name]"
    using obj s by blast
  show "mem_m be' = mem_m be" using prune_effect(1) [OF c(5)] b1 by simp
  show "db_files db' = db_files db" "db_chunks db' = db_chunks db" "db_fcs db' = db_fcs db" using ens by simp_all
qed

lemma faultless_candidate:
  assumes "faultless rr" "meta_obj be name = Some fl" "DecryptMeta (re_aead E) fl name = Inr (rid, snap)"
    "check_snapshot opn rid snap = Inr chunks" "verifyBackupChunks E rr be chunks = Inr ()"
  shows "candidate E opn rr True be name = Inr snap"
  using assms by (simp add: candidate_def faultless_def mem_GetMeta_def)

lemma repo_ok_verifies:
  assumes "repo_ok E st" "rp_db st = db" "rp_be st = be" "faultless rr"
  shows "verifyBackupChunks E rr be (backup_chunks db) = Inr ()"
proof -
  have "rr_get rr b = None \<and> (\<exists>raw pt. mem_Get b be = Inr raw \<and> Decrypt (re_aead E) raw b = Inr pt \<and> re_hash E pt = h \<and> int (length pt) = s)"
    if hbs: "(h, b, s) \<in> set (backup_chunks db)" for h b s
  proof -
    obtain c where c: "c \<in> set (db_chunks db)" "ck_hash c = h" "ck_blob c = b" "ck_size c = s"
      using hbs by (auto simp: backup_chunks_rows)
    then obtain pt where "row_holds E st c pt" using assms(1,2) unfolding repo_ok_def by blast
    then show ?thesis using c assms(3,4) by (auto simp: row_holds_def read_blob_def bind_res_eq_Inr faultless_def)
  qed
  then show ?thesis unfolding verifyBackupChunks_iff by blast
qed

subsection \<open>Collections and backups\<close>

definition faithful :: "restore_run \<Rightarrow> bool" where
  "faithful run \<longleftrightarrow> (\<forall>n d x. rr_down run n d = Inr x \<longrightarrow> x = d)"

lemma protect_names_Inr:
  assumes "protect_names E opn rr be ns = Inr prot" "n \<in> set ns"
  shows "\<exists>snap chunks. candidate E opn rr False be n = Inr snap \<and> check_snapshot opn [] snap = Inr chunks \<and>
    (\<forall>(h, b, s) \<in> set chunks. b \<in> set prot)"
  using assms
proof (induction ns arbitrary: prot)
  case (Cons m ns)
  obtain snap chunks ps where 1: "candidate E opn rr False be m = Inr snap" "check_snapshot opn [] snap = Inr chunks"
    "protect_names E opn rr be ns = Inr ps" "prot = map (\<lambda>(h, b, s). b) chunks @ ps"
    using Cons.prems(1) by (auto simp: restoreCandidate_def bind_res_eq_Inr split: sum.splits option.splits)
  show ?case
  proof (cases "n = m")
    case True
    have "\<forall>(h, b, s) \<in> set chunks. b \<in> set prot" using 1(4) by force
    then show ?thesis using 1(1,2) True by blast
  next
    case False
    then have "n \<in> set ns" using Cons.prems(2) by simp
    from Cons.IH [OF 1(3) this] show ?thesis using 1(4) by fastforce
  qed
qed simp

lemma GC_backend:
  assumes "repo_ok E st" "GC (Inr prot) fault st = (r, st')"
  shows "mem_mm (rp_be st') = mem_mm (rp_be st)" "b \<in> set prot \<Longrightarrow> mem_Get b (rp_be st') = mem_Get b (rp_be st)"
proof -
  have mm: "mem_mm (delete_blobs fault ns be) = mem_mm be" for ns be
    by (induction ns arbitrary: be) (auto simp: delete_blobs_def mem_Delete_def)
  show "mem_mm (rp_be st') = mem_mm (rp_be st)"
    using assms(2) mm by (auto simp: GC_def Let_def split: if_splits)
  show "mem_Get b (rp_be st') = mem_Get b (rp_be st)" if "b \<in> set prot"
  proof (cases "mem_List (rp_be st) = []")
    case False
    have "b \<notin> set (garbage prot st)" using garbage_set [OF assms(1)] that by blast
    then show ?thesis using GC_state [OF assms False] by (simp add: mem_Get_def delete_blobs_map_of)
  qed (use assms(2) in \<open>simp add: GC_def\<close>)
qed

lemma candidate_same:
  assumes "repo_ok E st" "GC (Inr prot) fault st = (r, st')" "faithful rr" "faithful run"
    and "protect_names E opn rr (rp_be st) ns = Inr prot" "n \<in> set ns"
  shows "candidate E opn run True (rp_be st') n = candidate E opn run True (rp_be st) n"
proof -
  obtain snap chunks where p: "candidate E opn rr False (rp_be st) n = Inr snap" "check_snapshot opn [] snap = Inr chunks"
    "\<forall>(h, b, s) \<in> set chunks. b \<in> set prot"
    using protect_names_Inr [OF assms(5,6)] by blast
  obtain enc rid where e: "mem_GetMeta n (rp_be st) = Inr enc" "DecryptMeta (re_aead E) enc n = Inr (rid, snap)"
    "check_snapshot opn rid snap = Inr chunks"
    by (rule candidate_Inr [OF p(1)]) (use assms(3) p(2) check_snapshot_any_id in \<open>fastforce simp: faithful_def\<close>)
  note gc = GC_backend [OF assms(1,2)]
  have e': "mem_GetMeta n (rp_be st') = Inr enc" using e(1) gc(1) by (simp add: mem_GetMeta_def)
  have v: "verifyBackupChunks E run (rp_be st') chunks = verifyBackupChunks E run (rp_be st) chunks"
    by (rule verifyBackupChunks_cong) (use p(3) gc(2) in fast)
  show ?thesis
  proof (cases "rr_down run n enc")
    case (Inr x)
    then have "x = enc" using assms(4) by (simp add: faithful_def)
    then show ?thesis using Inr e e' v by (simp add: candidate_def split: option.split)
  qed (use e e' in \<open>simp add: candidate_def split: option.split\<close>)
qed

lemma try_candidates_cong:
  assumes "\<forall>n \<in> set ns. candidate E opn run True be' n = candidate E opn run True be n"
  shows "try_candidates E opn run be' ns target = try_candidates E opn run be ns target"
  using assms by (induction ns arbitrary: target) (auto simp: restoreCandidate_def split: sum.split option.split)

subsection \<open>What is restored is complete\<close>

text \<open>What SQLite guarantees of every file that opens: the keys and unique columns of the schema.\<close>

definition keys_ok :: "meta_db \<Rightarrow> bool" where
  "keys_ok db \<longleftrightarrow> distinct (map df_id (db_files db)) \<and> distinct (map ck_id (db_chunks db)) \<and>
     distinct (map ck_hash (db_chunks db)) \<and> distinct (map fc_key (db_fcs db))"

lemma Validate_db_inv:
  assumes "keys_ok db" "ValidateSnapshot expected db = Inr chunks"
  shows "db_inv db"
  using assms(1) Validate_Inr [OF assms(2)]
  by (auto simp: db_inv_def keys_ok_def fk_check_def check_paths_def check_refcounts_def list_all_iff uses_def)

lemma verified_row:
  assumes "verifyBackupChunks E rr be (backup_chunks db) = Inr ()" "db_inv db" "c \<in> set (db_chunks (live_db db))"
  shows "\<exists>pt. row_holds E \<lparr>rp_db = db', rp_be = be\<rparr> c pt"
proof -
  obtain fc where fc: "c \<in> set (db_chunks db)" "fc \<in> set (db_fcs db)" "fc_chunk fc = ck_id c"
    using assms(3) by (auto simp: live_db_def)
  then have "fc_file fc \<in> df_id ` set (db_files db)" using assms(2) by (simp add: db_inv_def)
  then have "(ck_hash c, ck_blob c, ck_size c) \<in> set (backup_chunks db)" using fc by (auto simp: backup_chunks_rows)
  then show ?thesis using assms(1) unfolding verifyBackupChunks_iff
    by (auto simp: row_holds_def read_blob_def bind_res_eq_Inr)
qed

lemma verified_live_ok:
  assumes v: "verifyBackupChunks E rr be (backup_chunks db) = Inr ()" and inv: "db_inv db"
  shows "repo_ok E \<lparr>rp_db = live_db db, rp_be = be\<rparr>"
proof -
  let ?st = "\<lparr>rp_db = live_db db, rp_be = be\<rparr>"
  have rows: "\<exists>pt. row_holds E ?st c pt" if "c \<in> set (db_chunks (live_db db))" for c
    using verified_row [OF v inv that] .
  have inv': "db_inv (live_db db)" by (rule GC_db(2) [OF inv])
  have "inj_on ck_blob (set (db_chunks (live_db db)))"
  proof (rule inj_onI)
    fix c d assume cd: "c \<in> set (db_chunks (live_db db))" "d \<in> set (db_chunks (live_db db))" "ck_blob c = ck_blob d"
    then have "ck_hash c = ck_hash d" using rows [OF cd(1)] rows [OF cd(2)] by (auto simp: row_holds_def)
    then show "c = d" using inv' cd(1,2) by (auto simp: db_inv_def distinct_map inj_on_def)
  qed
  moreover have "distinct (db_chunks (live_db db))" using inv' by (auto simp: db_inv_def distinct_map)
  ultimately show ?thesis using rows inv' by (simp add: repo_ok_def distinct_map)
qed

lemma stream_blobs_total:
  assumes "\<forall>(n, s) \<in> set bs. \<exists>pt. read_blob E n st = Inr pt \<and> s = int (length pt)"
  shows "\<exists>w. stream_blobs E bs st = (w, Inr ()) \<and> int (length w) = sum_list (map snd bs)"
  using assms by (induction bs) fastforce+

lemma file_blobs_sum:
  "sum_list (map snd (file_blobs p db)) =
     sum_list (map (\<lambda>fc. chunk_size_of db (fc_chunk fc)) (filter (\<lambda>fc. fc_file fc \<in> set (path_fids db p)) (db_fcs db)))"
proof -
  have mf: "sum_list (map snd (List.map_filter (\<lambda>r. map_option (\<lambda>c. (ck_blob c, ck_size c)) (chunk_by_id (fst r) db)) rs)) =
      sum_list (map (\<lambda>r. chunk_size_of db (fst r)) rs)" for rs :: "(int \<times> int) list"
    by (induction rs) (auto simp: List.map_filter_simps chunk_size_of_def split: option.split)
  have perm: "sum_list (map g (sort_key k xs)) = sum_list (map g xs)" for g :: "file_chunk \<Rightarrow> int" and k :: "file_chunk \<Rightarrow> int" and xs
    by (metis mset_map mset_sort sum_mset_sum_list)
  show ?thesis unfolding file_blobs_def mf GetFileChunks_def by (simp add: o_def perm)
qed

lemma verified_file_streams:
  assumes v: "verifyBackupChunks E rr be (backup_chunks db) = Inr ()" and inv: "db_inv db" and sz: "check_sizes db"
    and d: "d \<in> set (db_files db)" "\<not> fr_isdir (df_row d)" "\<not> fr_issymlink (df_row d)"
  shows "\<exists>w. StreamFile E (fr_path (df_row d)) \<lparr>rp_db = db, rp_be = be\<rparr> = (w, Inr (fr_size (df_row d), re_md5 E w))"
proof -
  let ?p = "fr_path (df_row d)" and ?st = "\<lparr>rp_db = db, rp_be = be\<rparr>"
  have inj: "inj_on (\<lambda>d. fr_path (df_row d)) (set (db_files db))" "distinct (map (\<lambda>d. fr_path (df_row d)) (db_files db))"
    using inv by (simp_all add: db_inv_def distinct_map)
  have row: "GetFileRow ?p db = Some (df_row d)"
    using find_distinct [OF inj(2) d(1)] by (simp add: GetFileRow_def)
  have fids: "set (path_fids db ?p) = {df_id d}" using d(1) inj(1) by (auto simp: set_path_fids inj_on_def)
  have "\<exists>pt. read_blob E n ?st = Inr pt \<and> s = int (length pt)" if ns: "(n, s) \<in> set (file_blobs ?p db)" for n s
  proof -
    obtain r c where r: "r \<in> set (GetFileChunks ?p db)" "chunk_by_id (fst r) db = Some c" "n = ck_blob c" "s = ck_size c"
      using map_filter_in [OF ns [unfolded file_blobs_def]] by auto
    have c: "c \<in> set (db_chunks db)" "ck_id c = fst r" using chunk_by_id_Some [OF r(2)] by simp_all
    obtain fc where "fc \<in> set (db_fcs db)" "fc_chunk fc = fst r"
      using r(1) GetFileChunks_set [of "fst r" "snd r" ?p db] by auto
    then have "fst r \<in> fc_chunk ` set (db_fcs db)" by (metis image_eqI)
    then have "c \<in> set (db_chunks (live_db db))" using c by (simp add: live_db_def)
    from verified_row [OF v inv this] show ?thesis using r(3,4) by (auto simp: row_holds_def)
  qed
  then obtain w where w: "stream_blobs E (file_blobs ?p db) ?st = (w, Inr ())" "int (length w) = sum_list (map snd (file_blobs ?p db))"
    using stream_blobs_total [of "file_blobs ?p db" E ?st] by blast
  have "sum_list (map snd (file_blobs ?p db)) = file_total db (df_id d)"
    by (simp add: file_blobs_sum fids file_total_def)
  also have "\<dots> = fr_size (df_row d)" using sz d by (auto simp: check_sizes_def list_all_iff)
  finally show ?thesis using w row by (auto simp: StreamFile_def)
qed

subsection \<open>A backup that succeeds\<close>

lemma Create_succeeds:
  assumes "backup_env E opn run" "0 < retain" "EnsureRepositoryID (br_id run) db = (Inr rid, db')" "rid = hex_encode raw" "length raw = 16"
    and "br_snapshot run db' = Inr snap" "check_snapshot opn rid snap = Inr chunks" "br_source_end run = EOF" "br_local run = None"
    and "\<forall>d. br_put run d = (None, Some d)" "validateBlobName (metaBackupName (br_time run) (br_suffix run)) = Inr u"
  shows "\<exists>fl e be'. CreateMetaBackup E opn run retain db be = ((metaBackupName (br_time run) (br_suffix run), e), db', be') \<and>
    DecryptMeta (re_aead E) fl (metaBackupName (br_time run) (br_suffix run)) = Inr (rid, snap) \<and>
    (mem_mm be = [] \<longrightarrow> be' = be\<lparr>mem_mm := [(metaBackupName (br_time run) (br_suffix run), fl)]\<rparr>)"
proof -
  let ?name = "metaBackupName (br_time run) (br_suffix run)"
  obtain fl where "EncryptMeta (re_aead E) (br_nonces run) (snap, EOF) ?name rid = Inr fl"
    and dec: "DecryptMeta (re_aead E) fl ?name = Inr (rid, snap)"
    using meta_roundtrip [of "re_aead E" "br_nonces run" raw EOF snap ?name] assms(1,4,5) by (auto simp: backup_env_def)
  then have fl: "snapshot_file E opn run ?name rid db' = Inr fl" using assms(6-9) by (simp add: snapshot_file_def)
  have echo: "br_echo run d = Inr d" for d using assms(1) by (simp add: backup_env_def)
  let ?be1 = "be\<lparr>mem_mm := assoc_put ?name fl (mem_mm be)\<rparr>"
  have up: "uploadAndVerifyMeta E run ?name fl be = (Inr (), ?be1)"
    using assms(10,11) echo by (simp add: uploadAndVerifyMeta_def put_meta_def mem_PutMeta_effect mem_GetMeta_def map_of_assoc_put equalBytes_iff)
  obtain r be' where pr: "pruneMetaBackups run retain ?be1 = (r, be')" by fastforce
  have "be' = ?be1" if "mem_mm be = []"
  proof -
    have "length (validMetaNames (mem_ListMeta ?be1)) \<le> 1"
      using that by (simp add: validMetaNames_def mem_ListMeta_def assoc_put_def)
    then show ?thesis using pr assms(2) by (auto simp: pruneMetaBackups_def Let_def split: option.splits)
  qed
  moreover have "assoc_put ?name fl [] = [(?name, fl)]" by (simp add: assoc_put_def)
  ultimately show ?thesis using assms(2,3) fl up pr dec
    by (cases r) (auto simp: CreateMetaBackup_def Let_def intro!: exI [of _ fl])
qed

lemma backup_restores:
  assumes "backup_env E opn run" "repo_ok E st" "canonical_id (rp_db st)" "distinct (mem_ListMeta (rp_be st))"
    and "CreateMetaBackup E opn run retain (rp_db st) (rp_be st) = ((name, e), db', be')" "name \<noteq> []"
    and "\<forall>n \<in> set (mem_ListMeta (rp_be st)). n < name" "faultless rr"
  shows "\<exists>snap. RestoreMeta E opn rr be' target = (Inr name, Some snap) \<and> opn snap = Some db' \<and>
    (\<forall>q. GetFileRow q db' = GetFileRow q (rp_db st) \<and>
         StreamFile E q \<lparr>rp_db = db', rp_be = be'\<rparr> = StreamFile E q st)"
proof -
  note c = Create_object [OF assms(5,6,1,3,4,7)]
  obtain fl rid snap chunks zs where o: "meta_obj be' name = Some fl" "DecryptMeta (re_aead E) fl name = Inr (rid, snap)"
    "check_snapshot opn rid snap = Inr chunks" "opn snap = Some db'" "validMetaNames (mem_ListMeta be') = zs @ [name]"
    using c(1) by blast
  have chunks: "chunks = backup_chunks (rp_db st)"
    using check_snapshot_Inr [OF o(3)] o(4) Validate_Inr(6) c(3-5) by (force simp: backup_chunks_def)
  have "mem_Get b be' = mem_Get b (rp_be st)" for b using c(2) by (simp add: mem_Get_def)
  then have "verifyBackupChunks E rr be' chunks = Inr ()"
    using repo_ok_verifies [OF assms(2) refl refl assms(8)] verifyBackupChunks_cong [of chunks be' "rp_be st" E rr]
    by (auto simp: chunks)
  from faultless_candidate [OF assms(8) o(1-3) this]
  have "RestoreMeta E opn rr be' target = (Inr name, Some snap)"
    using assms(8) by (simp add: RestoreMeta_def Let_def o(5) restoreCandidate_def faultless_def)
  moreover have rows: "GetFileRow q db' = GetFileRow q (rp_db st)" "GetFileChunks q db' = GetFileChunks q (rp_db st)"
    "chunk_info i db' = chunk_info i (rp_db st)" for q i
    using c(3-5) by (simp_all add: GetFileRow_def GetFileChunks_def path_fids_def chunk_info_def chunk_by_id_def)
  moreover have "StreamFile E q \<lparr>rp_db = db', rp_be = be'\<rparr> = StreamFile E q st" for q
    by (rule StreamFile_same) (simp add: same_content_def rows read_blob_def mem_Get_def c(2))
  ultimately show ?thesis using o(4) by blast
qed

lemma Create_unnamed:
  assumes "CreateMetaBackup E opn run retain db be = (([], e), db', be')"
  shows "mem_m be' = mem_m be" "n \<noteq> metaBackupName (br_time run) (br_suffix run) \<Longrightarrow> meta_obj be' n = meta_obj be n"
    "distinct (mem_ListMeta be) \<Longrightarrow> distinct (mem_ListMeta be')"
proof -
  have *: "be' = be \<or> (\<exists>fl e1 be1 r. uploadAndVerifyMeta E run (metaBackupName (br_time run) (br_suffix run)) fl be = (Inl e1, be1) \<and>
      delete_meta run (metaBackupName (br_time run) (br_suffix run)) be1 = (r, be'))"
  proof (cases "be' = be")
    case False
    then obtain fl e1 be1 where u: "uploadAndVerifyMeta E run (metaBackupName (br_time run) (br_suffix run)) fl be = (Inl e1, be1)"
      "be' = snd (delete_meta run (metaBackupName (br_time run) (br_suffix run)) be1)"
      using assms metaBackupName_suffix(2)
      by (auto simp: CreateMetaBackup_def Let_def split: if_splits prod.splits sum.splits)
    then show ?thesis by (metis prod.collapse)
  qed simp
  show "mem_m be' = mem_m be" "n \<noteq> metaBackupName (br_time run) (br_suffix run) \<Longrightarrow> meta_obj be' n = meta_obj be n"
    using * upload_effect(1,2) delete_meta_effect(1,2) by metis+
  show "distinct (mem_ListMeta be')" if "distinct (mem_ListMeta be)"
    using * distinct_upload [OF that] distinct_delete_meta that by blast
qed

subsection \<open>Properties\<close>

text \<open>
  C7: a backup that was made, whatever failed on the way, can be restored as long as the blobs are there:
  restoring on the same backend chooses it, puts a file in place that opens to the database it was
  made of, and every file has the row and the content it had.
\<close>

theorem backup_is_restored:
  assumes "backup_env E opn run" "repo_ok E st" "canonical_id (rp_db st)" "distinct (mem_ListMeta (rp_be st))"
    and "CreateMetaBackup E opn run retain (rp_db st) (rp_be st) = ((name, e), db', be')" "name \<noteq> []"
    and "\<forall>n \<in> set (mem_ListMeta (rp_be st)). n < name" "faultless rr"
  shows "\<exists>snap. RestoreMeta E opn rr be' target = (Inr name, Some snap) \<and> opn snap = Some db' \<and>
    (\<forall>q. GetFileRow q db' = GetFileRow q (rp_db st) \<and>
         StreamFile E q \<lparr>rp_db = db', rp_be = be'\<rparr> = StreamFile E q st)"
  using assms by (rule backup_restores)

definition backup_db :: meta_db where
  "backup_db = fold run_op [OpEnsureRepositoryID (hex_encode (replicate 16 1)), OpInsertChunk (replicate 32 1) ''b1'' 32,
     OpUpsert (row_named ''x'' 32) [(1, 0)]] empty_db"

definition backup_repo :: repo where
  "backup_repo = \<lparr>rp_db = backup_db, rp_be = snd (mem_Put ''b1'' (Encrypt plain_aead (replicate 12 0) (replicate 32 1) ''b1'') NewInMemory)\<rparr>"

definition sample_opener :: opener where
  "sample_opener bs = (if bs = [7] then Some backup_db else None)"

definition sample_backup :: backup_run where
  "sample_backup = \<lparr>br_time = \<lparr>ut_year = 2024, ut_month = 5, ut_day = 17, ut_hour = 3, ut_minute = 0, ut_second = 1, ut_nano = 50\<rparr>,
     br_suffix = [1, 2, 3, 4], br_id = hex_encode (replicate 16 0), br_snapshot = (\<lambda>db. if db = backup_db then Inr [7] else Inl EOF),
     br_source_end = EOF, br_nonces = (\<lambda>_. replicate 12 0), br_local = None, br_put = (\<lambda>d. (None, Some d)), br_echo = Inr,
     br_list = None, br_delete = (\<lambda>_. None)\<rparr>"

definition clean_restore :: restore_run where
  "clean_restore = \<lparr>rr_list = None, rr_temp = (\<lambda>_. None), rr_down = (\<lambda>_. Inr), rr_get = (\<lambda>_. None), rr_rename = (\<lambda>_. None),
     rr_sync = (\<lambda>_. None)\<rparr>"

lemma clean_restore_faultless: "faultless clean_restore" "faithful clean_restore"
  by (simp_all add: faultless_def faithful_def clean_restore_def)

lemma sample_backup_env: "backup_env identity_env sample_opener sample_backup"
  by (auto simp: backup_env_def sample_backup_def sample_opener_def identity_env_def plain_aead_laws split: if_splits
      intro: exI [of _ "replicate 16 0"])

lemma backup_repo_ok: "repo_ok identity_env backup_repo"
proof -
  have "db_inv backup_db" unfolding backup_db_def by (rule db_inv_run) (rule db_inv_empty)
  moreover have rows: "db_chunks backup_db = [\<lparr>ck_id = 1, ck_hash = replicate 32 1, ck_size = 32, ck_refcount = 1, ck_blob = ''b1''\<rparr>]"
    by code_simp
  moreover have "read_blob identity_env ''b1'' backup_repo = Inr (replicate 32 1)"
    by (simp add: read_blob_def backup_repo_def mem_Put_def mem_Get_def assoc_put_def NewInMemory_def identity_env_def Decrypt_Encrypt [OF plain_aead_laws])
  ultimately show ?thesis by (simp add: repo_ok_def backup_repo_def row_holds_def identity_env_def)
qed

lemma sample_backup_made:
  obtains name e fl where "CreateMetaBackup identity_env sample_opener sample_backup 2 (rp_db backup_repo) (rp_be backup_repo) =
      ((name, e), backup_db, (rp_be backup_repo)\<lparr>mem_mm := [(name, fl)]\<rparr>)"
    "name \<noteq> []" "HasSuffix name ''.cmeta''" "DecryptMeta plain_aead fl name = Inr (hex_encode (replicate 16 1), [7])"
    "check_snapshot sample_opener (hex_encode (replicate 16 1)) [7] = Inr [(replicate 32 1, ''b1'', 32)]"
proof -
  have 1: "EnsureRepositoryID (br_id sample_backup) backup_db = (Inr (hex_encode (replicate 16 1)), backup_db)" by code_simp
  have 2: "check_snapshot sample_opener (hex_encode (replicate 16 1)) [7] = Inr [(replicate 32 1, ''b1'', 32)]" by code_simp
  have 3: "validateBlobName (metaBackupName (br_time sample_backup) (br_suffix sample_backup)) = Inr ()" by code_simp
  have mm: "mem_mm (rp_be backup_repo) = []" by (simp add: backup_repo_def mem_Put_def NewInMemory_def)
  let ?name = "metaBackupName (br_time sample_backup) (br_suffix sample_backup)"
  have "\<exists>fl e be'. CreateMetaBackup identity_env sample_opener sample_backup 2 backup_db (rp_be backup_repo) = ((?name, e), backup_db, be') \<and>
      DecryptMeta (re_aead identity_env) fl ?name = Inr (hex_encode (replicate 16 1), [7]) \<and>
      (mem_mm (rp_be backup_repo) = [] \<longrightarrow> be' = (rp_be backup_repo)\<lparr>mem_mm := [(?name, fl)]\<rparr>)"
    by (rule Create_succeeds [OF sample_backup_env _ 1 refl _ _ 2 _ _ _ 3]) (simp_all add: sample_backup_def)
  then show ?thesis using that [OF _ metaBackupName_suffix(2,1) _ 2] mm by (auto simp: identity_env_def backup_repo_def)
qed

theorem backup_is_restored_witness:
  "\<exists>name be' snap. RestoreMeta identity_env sample_opener clean_restore be' None = (Inr name, Some snap) \<and>
     sample_opener snap = Some backup_db \<and>
     StreamFile identity_env ''x'' \<lparr>rp_db = backup_db, rp_be = be'\<rparr> = StreamFile identity_env ''x'' backup_repo"
proof -
  obtain name e fl where c: "CreateMetaBackup identity_env sample_opener sample_backup 2 (rp_db backup_repo) (rp_be backup_repo) =
      ((name, e), backup_db, (rp_be backup_repo)\<lparr>mem_mm := [(name, fl)]\<rparr>)" "name \<noteq> []"
    by (rule sample_backup_made)
  have "canonical_id (rp_db backup_repo)"
  proof -
    have "GetMeta ''repository_id'' (rp_db backup_repo) = Some (hex_encode (replicate 16 1))" by code_simp
    then show ?thesis by (auto simp: canonical_id_def)
  qed
  moreover have "mem_ListMeta (rp_be backup_repo) = []" by code_simp
  ultimately show ?thesis
    using backup_is_restored [OF sample_backup_env backup_repo_ok _ _ c _ clean_restore_faultless(1), where target = None] by auto
qed

text \<open>
  C25: a collection that got its protected set from the backups leaves every one of them restorable: a
  restore after it has the outcome it had before, the name it chooses and the file it writes.
\<close>

theorem collection_keeps_backups:
  assumes "repo_ok E st" "ProtectedMetaBlobs E opn rr (rp_be st) = Inr prot" "faithful rr" "faithful run"
    and "GC (Inr prot) fault st = (r, st')"
  shows "RestoreMeta E opn run (rp_be st') target = RestoreMeta E opn run (rp_be st) target"
proof -
  have p: "protect_names E opn rr (rp_be st) (validMetaNames (mem_ListMeta (rp_be st))) = Inr prot"
    using assms(2) by (auto simp: ProtectedMetaBlobs_def split: option.splits)
  have l: "mem_ListMeta (rp_be st') = mem_ListMeta (rp_be st)" using GC_backend(1) [OF assms(1,5)] by (simp add: mem_ListMeta_def)
  have "try_candidates E opn run (rp_be st') (rev (validMetaNames (mem_ListMeta (rp_be st)))) target =
      try_candidates E opn run (rp_be st) (rev (validMetaNames (mem_ListMeta (rp_be st)))) target"
    by (rule try_candidates_cong) (use candidate_same [OF assms(1,5,3,4) p] in auto)
  then show ?thesis unfolding RestoreMeta_def Let_def l by (simp split: option.split)
qed

text \<open>
  C26: whatever is on the backend, a database that a restore accepts is consistent, every regular file in
  it streams to its end with the size of its row, and without its unreferenced chunk rows it is a
  sound repository.
\<close>

theorem restored_repository_is_complete:
  assumes "\<forall>fl db. opn fl = Some db \<longrightarrow> keys_ok db" "RestoreMeta E opn rr be target = (Inr name, target')"
  shows "\<exists>snap db. target' = Some snap \<and> opn snap = Some db \<and> db_inv db \<and> repo_ok E \<lparr>rp_db = live_db db, rp_be = be\<rparr> \<and>
    (\<forall>d \<in> set (db_files db). fr_isdir (df_row d) \<or> fr_issymlink (df_row d) \<or>
       (\<exists>w. StreamFile E (fr_path (df_row d)) \<lparr>rp_db = db, rp_be = be\<rparr> = (w, Inr (fr_size (df_row d), re_md5 E w))))"
proof -
  obtain snap where snap: "candidate E opn rr True be name = Inr snap" "target' = Some snap"
    using RestoreMeta_Inr [OF assms(2)] by blast
  obtain rid chunks where c: "check_snapshot opn rid snap = Inr chunks" "verifyBackupChunks E rr be chunks = Inr ()"
    by (rule candidate_Inr [OF snap(1)]) simp
  obtain db where db: "opn snap = Some db" "ValidateSnapshot rid db = Inr chunks" using check_snapshot_Inr [OF c(1)] by blast
  have inv: "db_inv db" using Validate_db_inv [OF _ db(2)] assms(1) db(1) by blast
  have v: "verifyBackupChunks E rr be (backup_chunks db) = Inr ()" using c(2) Validate_Inr(6) [OF db(2)] by simp
  show ?thesis
    using snap(2) db(1) inv verified_live_ok [OF v inv] verified_file_streams [OF v inv Validate_Inr(5) [OF db(2)]] by blast
qed

text \<open>The sample after its backup.\<close>

lemma sample_state:
  obtains name fl where "repo_ok identity_env (backup_repo\<lparr>rp_be := (rp_be backup_repo)\<lparr>mem_mm := [(name, fl)]\<rparr>\<rparr>)"
    "RestoreMeta identity_env sample_opener clean_restore ((rp_be backup_repo)\<lparr>mem_mm := [(name, fl)]\<rparr>) None = (Inr name, Some [7])"
    "ProtectedMetaBlobs identity_env sample_opener clean_restore ((rp_be backup_repo)\<lparr>mem_mm := [(name, fl)]\<rparr>) = Inr [''b1'']"
proof -
  obtain name e fl where n: "HasSuffix name ''.cmeta''" "DecryptMeta plain_aead fl name = Inr (hex_encode (replicate 16 1), [7])"
    "check_snapshot sample_opener (hex_encode (replicate 16 1)) [7] = Inr [(replicate 32 1, ''b1'', 32)]"
    by (rule sample_backup_made)
  let ?be = "(rp_be backup_repo)\<lparr>mem_mm := [(name, fl)]\<rparr>"
  let ?st = "backup_repo\<lparr>rp_be := ?be\<rparr>"
  have ok: "repo_ok identity_env ?st"
    using backup_repo_ok by (simp add: repo_ok_def row_holds_def read_blob_def mem_Get_def)
  have bc: "backup_chunks backup_db = [(replicate 32 1, ''b1'', 32)]" by code_simp
  have v: "verifyBackupChunks identity_env clean_restore ?be [(replicate 32 1, ''b1'', 32)] = Inr ()"
    using repo_ok_verifies [OF ok _ refl clean_restore_faultless(1)] by (simp add: bc [symmetric] backup_repo_def)
  have obj: "meta_obj ?be name = Some fl" by simp
  have names: "validMetaNames (mem_ListMeta ?be) = [name]" using n(1) by (simp add: validMetaNames_def mem_ListMeta_def)
  have a: "re_aead identity_env = plain_aead" by (simp add: identity_env_def)
  have "candidate identity_env sample_opener clean_restore True ?be name = Inr [7]"
    by (rule faultless_candidate [OF clean_restore_faultless(1) obj _ n(3) v]) (simp add: a n(2))
  then have 1: "RestoreMeta identity_env sample_opener clean_restore ?be None = (Inr name, Some [7])"
    by (simp add: RestoreMeta_def Let_def names restoreCandidate_def clean_restore_def)
  have "candidate identity_env sample_opener clean_restore False ?be name = Inr [7]"
    using n(2,3) by (simp add: candidate_def clean_restore_def mem_GetMeta_def a)
  then have 2: "ProtectedMetaBlobs identity_env sample_opener clean_restore ?be = Inr [''b1'']"
    using check_snapshot_any_id [OF n(3)]
    by (simp add: ProtectedMetaBlobs_def names restoreCandidate_def clean_restore_def)
  show ?thesis using that ok 1 2 by blast
qed

theorem collection_keeps_backups_witness:
  "\<exists>st st' name. GC (Inr [''b1'']) (\<lambda>_. False) st = (Inr 0, st') \<and>
     RestoreMeta identity_env sample_opener clean_restore (rp_be st') None = (Inr name, Some [7])"
proof -
  obtain name fl where s: "repo_ok identity_env (backup_repo\<lparr>rp_be := (rp_be backup_repo)\<lparr>mem_mm := [(name, fl)]\<rparr>\<rparr>)"
    "RestoreMeta identity_env sample_opener clean_restore ((rp_be backup_repo)\<lparr>mem_mm := [(name, fl)]\<rparr>) None = (Inr name, Some [7])"
    "ProtectedMetaBlobs identity_env sample_opener clean_restore ((rp_be backup_repo)\<lparr>mem_mm := [(name, fl)]\<rparr>) = Inr [''b1'']"
    by (rule sample_state)
  let ?st = "backup_repo\<lparr>rp_be := (rp_be backup_repo)\<lparr>mem_mm := [(name, fl)]\<rparr>\<rparr>"
  have "fst (GC (Inr [''b1'']) (\<lambda>_. False) ?st) = Inr 0" by (simp add: GC_def) code_simp
  then have g: "GC (Inr [''b1'']) (\<lambda>_. False) ?st = (Inr 0, snd (GC (Inr [''b1'']) (\<lambda>_. False) ?st))" by (metis prod.collapse)
  show ?thesis
    using collection_keeps_backups [OF s(1) _ clean_restore_faultless(2) clean_restore_faultless(2) g, where opn = sample_opener and target = None]
      s(2,3) g by auto
qed

theorem restored_repository_is_complete_witness:
  "\<exists>be. (\<exists>w. StreamFile identity_env ''x'' \<lparr>rp_db = backup_db, rp_be = be\<rparr> = (w, Inr (32, [])))"
proof -
  obtain name fl where s: "RestoreMeta identity_env sample_opener clean_restore ((rp_be backup_repo)\<lparr>mem_mm := [(name, fl)]\<rparr>) None = (Inr name, Some [7])"
    by (rule sample_state)
  have "keys_ok backup_db" by code_simp
  then have k: "\<forall>fl db. sample_opener fl = Some db \<longrightarrow> keys_ok db" by (simp add: sample_opener_def)
  have f: "db_files backup_db = [\<lparr>df_id = 1, df_row = row_named ''x'' 32\<rparr>]" by code_simp
  show ?thesis
    using restored_repository_is_complete [OF k s] by (auto simp: sample_opener_def f row_named_def identity_env_def split: if_splits)
qed

text \<open>
  Making a backup, whatever fails, touches no blob, and an older backup is only ever taken away after
  the new one was uploaded and read back with the right digest, and only when at least \<open>retain\<close> newer
  ones are on the backend.
\<close>

lemma backup_spares_newest:
  assumes "CreateMetaBackup E opn run retain db be = ((name, e), db', be')" "n \<noteq> metaBackupName (br_time run) (br_suffix run)"
  shows "mem_m be' = mem_m be \<and> (meta_obj be' n = meta_obj be n \<or>
    (\<exists>fl be1 names. uploadAndVerifyMeta E run name fl be = (Inr (), be1) \<and> names = validMetaNames (mem_ListMeta be1) \<and>
       nat retain < length names \<and> n \<in> set (take (length names - nat retain) names)))"
proof (cases "name = []")
  case True
  show ?thesis using Create_unnamed(1) [OF assms(1) [unfolded True]] Create_unnamed(2) [OF assms(1) [unfolded True] assms(2)] by simp
next
  case False
  obtain rid fl be1 r where c: "name = metaBackupName (br_time run) (br_suffix run)"
    "uploadAndVerifyMeta E run name fl be = (Inr (), be1)" "pruneMetaBackups run retain be1 = (r, be')"
    by (rule Create_named [OF assms(1) False])
  let ?v = "validMetaNames (mem_ListMeta be1)"
  have 1: "mem_m be' = mem_m be" "meta_obj be1 n = meta_obj be n"
    using upload_effect(1) [OF c(2)] prune_effect(1) [OF c(3)] upload_effect(2) [OF c(2)] assms(2) c(1) by simp_all
  show ?thesis
  proof (cases "n \<in> set (take (length ?v - nat retain) ?v)")
    case True
    moreover from True have "nat retain < length ?v" by (cases "nat retain < length ?v") auto
    ultimately show ?thesis using 1(1) c(2) by blast
  qed (use prune_effect(3) [OF c(3)] 1 in simp)
qed

subsection \<open>Chunk rows without a reference\<close>

text \<open>
  A snapshot may hold a chunk row that no file refers to, of an upload under way or that was given up:
  its blob is neither verified nor protected.  When a collection has taken the blob and the snapshot
  is then restored, an upload of the same content takes the row for a stored chunk; the file is
  committed without its content.
\<close>

definition dead_row_db :: meta_db where
  "dead_row_db = fold run_op [OpEnsureRepositoryID (hex_encode (replicate 16 1)), OpInsertChunk [5] ''b1'' 1] empty_db"

lemma dead_row_loses_upload:
  "ValidateSnapshot (hex_encode (replicate 16 1)) dead_row_db = Inr []"
  "verifyBackupChunks identity_env clean_restore NewInMemory [] = Inr ()"
  "fst (PutFileContext identity_env [(0, upload_named ''u'')] ''f'' 0x81A4 5 False ([5], EOF) \<lparr>rp_db = dead_row_db, rp_be = NewInMemory\<rparr>) = Inr 1"
  "StreamFile identity_env ''f'' (snd (PutFileContext identity_env [(0, upload_named ''u'')] ''f'' 0x81A4 5 False ([5], EOF)
     \<lparr>rp_db = dead_row_db, rp_be = NewInMemory\<rparr>)) = ([], Inl (Err ''no such blob''))"
  by code_simp+

end
