(* ===== verification/ModuleOpen.thy ===== *)
theory ModuleOpen
  imports Recovery
begin

text \<open>
  Opening a module (\<open>internal/core/open.go\<close>, \<open>backoff.go\<close>): a new backend is initialised with a fresh key
  and an empty database, a lost database is restored from the newest backup, and everything that
  could replace a key whose data still exists is refused.  The state is the key file and the file of
  the database; the backend is only read.  SQLite is the record \<open>sqlite\<close>, the environment of a key
  the function \<open>env\<close>, and what fails or races in one call the record \<open>init_run\<close>.
\<close>

subsection \<open>Files\<close>

record module_disk =
  md_key :: "bytes option"
  md_meta :: "bytes option"

record sqlite =
  sq_snapshot :: opener
  sq_existing :: opener
  sq_store :: "meta_db \<Rightarrow> bytes"

text \<open>
  \<open>in_stat\<close> gives the error of the i-th \<open>os.Stat\<close>; \<open>in_race\<close> the key file that another process creates
  before the recheck (0) or between the recheck and the exclusive creation (1); \<open>in_write\<close> an error of
  the write with the number of bytes written; \<open>in_open\<close> an error of creating the database with the
  file it leaves; \<open>in_id_fault\<close> an error of writing the id, after the schema row or before.
\<close>

record init_run =
  in_stat :: "nat \<Rightarrow> goerr option"
  in_list :: "goerr option"
  in_blobs :: "goerr option"
  in_race :: "nat \<Rightarrow> bytes option"
  in_key :: "bytes result"
  in_mkdir :: "goerr option"
  in_create :: "goerr option"
  in_write :: "(goerr \<times> nat) option"
  in_open :: "(goerr \<times> bytes option) option"
  in_id :: string
  in_id_fault :: "(goerr \<times> bool) option"
  in_close :: "goerr option"
  in_restore :: restore_run

definition fileExists :: "goerr option \<Rightarrow> bytes option \<Rightarrow> bool result" where
  "fileExists fault f = (case fault of Some e \<Rightarrow> Inl e | None \<Rightarrow> Inr (f \<noteq> None))"

definition other_process :: "bytes option \<Rightarrow> module_disk \<Rightarrow> module_disk" where
  "other_process race d = (case race of None \<Rightarrow> d
     | Some k \<Rightarrow> if md_key d = None then d\<lparr>md_key := Some k\<rparr> else d)"

definition SaveKeyFileExclusive :: "init_run \<Rightarrow> bytes \<Rightarrow> module_disk \<Rightarrow> bool result \<times> module_disk" where
  "SaveKeyFileExclusive run k d =
     (if md_key d \<noteq> None then (Inr False, d)
      else case in_create run of Some e \<Rightarrow> (Inl e, d) | None \<Rightarrow>
        (case in_write run of
           Some (e, n) \<Rightarrow> (Inl e, d\<lparr>md_key := Some (take n (encodeKey k))\<rparr>)
         | None \<Rightarrow> (Inr True, d\<lparr>md_key := Some (encodeKey k)\<rparr>)))"

definition ensureKeyfile :: "init_run \<Rightarrow> module_disk \<Rightarrow> bool result \<times> module_disk" where
  "ensureKeyfile run d = (case fileExists (in_stat run 2) (md_key d) of
       Inl e \<Rightarrow> (Inl e, d)
     | Inr there \<Rightarrow> if there then (Inr False, d)
       else let d1 = other_process (in_race run 0) d in
         (case fileExists (in_stat run 3) (md_key d1) of
            Inl e \<Rightarrow> (Inl e, d1)
          | Inr there \<Rightarrow> if there then (Inr False, d1)
            else (case fileExists (in_stat run 4) (md_meta d1) of
                Inl e \<Rightarrow> (Inl e, d1)
              | Inr there \<Rightarrow> if there then (Inl (Err ''meta without key''), d1)
                else (case in_key run of
                    Inl e \<Rightarrow> (Inl e, d1)
                  | Inr k \<Rightarrow> (case in_mkdir run of
                      Some e \<Rightarrow> (Inl e, d1)
                    | None \<Rightarrow> SaveKeyFileExclusive run k (other_process (in_race run 1) d1))))))"

subsection \<open>Getting a module ready\<close>

record init_result =
  KeyCreated :: bool
  MetaRestored :: bool

definition nothing_done :: init_result where
  "nothing_done = \<lparr>KeyCreated = False, MetaRestored = False\<rparr>"

text \<open>\<open>meta.Open\<close> of a file that does not exist, and the repository id.\<close>

definition create_meta :: "sqlite \<Rightarrow> init_run \<Rightarrow> module_disk \<Rightarrow> goerr option \<times> module_disk" where
  "create_meta sq run d = (case in_open run of
       Some (e, left) \<Rightarrow> (Some e, d\<lparr>md_meta := left\<rparr>)
     | None \<Rightarrow> (case in_id_fault run of
         Some (e, schema) \<Rightarrow> (Some e, d\<lparr>md_meta :=
           Some (sq_store sq (if schema then SetMeta ''repository_schema'' ''1'' empty_db else empty_db))\<rparr>)
       | None \<Rightarrow> (in_close run, d\<lparr>md_meta := Some (sq_store sq (snd (EnsureRepositoryID (in_id run) empty_db)))\<rparr>)))"

definition ensureModuleReady :: "(bytes \<Rightarrow> repo_env) \<Rightarrow> sqlite \<Rightarrow> init_run \<Rightarrow> mem_backend \<Rightarrow> module_disk \<Rightarrow>
    (init_result \<times> goerr option) \<times> module_disk" where
  "ensureModuleReady env sq run be d =
     (case fileExists (in_stat run 0) (md_key d) of Inl e \<Rightarrow> ((nothing_done, Some e), d) | Inr keyExists \<Rightarrow>
     (case fileExists (in_stat run 1) (md_meta d) of Inl e \<Rightarrow> ((nothing_done, Some e), d) | Inr metaExists \<Rightarrow>
      if keyExists \<and> metaExists then ((nothing_done, None), d)
      else if \<not> keyExists \<and> metaExists then ((nothing_done, Some (Err ''meta without key'')), d)
      else (case in_list run of Some e \<Rightarrow> ((nothing_done, Some e), d) | None \<Rightarrow>
        let names = mem_ListMeta be in
        if keyExists then
          (if names = [] then ((nothing_done, Some (Err ''key but neither meta nor backup'')), d)
           else case LoadKeyFile (the (md_key d)) of Inl e \<Rightarrow> ((nothing_done, Some e), d) | Inr k \<Rightarrow>
             (case RestoreMeta (env k) (sq_snapshot sq) (in_restore run) be (md_meta d) of
                (Inl e, f) \<Rightarrow> ((nothing_done, Some e), d\<lparr>md_meta := f\<rparr>)
              | (Inr _, f) \<Rightarrow> ((nothing_done\<lparr>MetaRestored := True\<rparr>, None), d\<lparr>md_meta := f\<rparr>)))
        else if names \<noteq> [] then ((nothing_done, Some (Err ''backups without key'')), d)
        else (case in_blobs run of Some e \<Rightarrow> ((nothing_done, Some e), d) | None \<Rightarrow>
          if mem_List be \<noteq> [] then ((nothing_done, Some (Err ''blobs without key'')), d)
          else (case ensureKeyfile run d of
              (Inl e, d') \<Rightarrow> ((nothing_done, Some e), d')
            | (Inr autoInit, d') \<Rightarrow> (case create_meta sq run d' of
                (e, d'') \<Rightarrow> ((nothing_done\<lparr>KeyCreated := autoInit\<rparr>, e), d'')))))))"

text \<open>A module that is open: its key and its repository.\<close>

definition openModule :: "(bytes \<Rightarrow> repo_env) \<Rightarrow> sqlite \<Rightarrow> init_run \<Rightarrow> goerr option \<Rightarrow> mem_backend \<Rightarrow> module_disk \<Rightarrow>
    (bytes \<times> repo) result \<times> module_disk" where
  "openModule env sq run ping be d = (case ping of Some e \<Rightarrow> (Inl e, d) | None \<Rightarrow>
     (case ensureModuleReady env sq run be d of
        ((_, Some e), d') \<Rightarrow> (Inl e, d')
      | ((_, None), d') \<Rightarrow>
          (bind_res (case md_key d' of None \<Rightarrow> Inl ErrNotExist | Some f \<Rightarrow> LoadKeyFile f) (\<lambda>k.
             case md_meta d' of None \<Rightarrow> Inl ErrNotExist | Some f \<Rightarrow> (case sq_existing sq f of
                 None \<Rightarrow> Inl (Err ''open meta'')
               | Some db \<Rightarrow> Inr (k, \<lparr>rp_db = db, rp_be = be\<rparr>))), d')))"

subsection \<open>Retrying\<close>

text \<open>Nanoseconds in an int64; the shift drops the bits beyond the width.\<close>

definition initBackoffMin :: "64 word" where "initBackoffMin = 1000000000"
definition initBackoffMax :: "64 word" where "initBackoffMax = 30 * 1000000000"

definition nextInitBackoff :: "nat \<Rightarrow> 64 word" where
  "nextInitBackoff failures =
     (let delay = push_bit (failures - 1) initBackoffMin in
      if sint initBackoffMax < sint delay \<or> sint delay \<le> 0 then initBackoffMax else delay)"

text \<open>
  One attempt of \<open>runBackupUntil\<close>: the module is made ready, then it is backed up once for every element
  of \<open>rounds\<close>; a backup that fails is only logged.
\<close>

fun backup_rounds :: "repo_env \<Rightarrow> sqlite \<Rightarrow> int \<Rightarrow> backup_run list \<Rightarrow> meta_db \<Rightarrow> mem_backend \<Rightarrow> meta_db \<times> mem_backend" where
  "backup_rounds E sq retain [] db be = (db, be)"
| "backup_rounds E sq retain (run # runs) db be = (case CreateMetaBackup E (sq_snapshot sq) run retain db be of
     (_, db', be') \<Rightarrow> backup_rounds E sq retain runs db' be')"

definition runBackupUntil :: "(bytes \<Rightarrow> repo_env) \<Rightarrow> sqlite \<Rightarrow> int \<Rightarrow> init_run \<Rightarrow> backup_run list \<Rightarrow> mem_backend \<Rightarrow> module_disk \<Rightarrow>
    unit result \<times> mem_backend \<times> module_disk" where
  "runBackupUntil env sq retain run rounds be d = (case openModule env sq run None be d of
       (Inl e, d') \<Rightarrow> (Inl e, be, d')
     | (Inr (k, st), d') \<Rightarrow> (case backup_rounds (env k) sq retain rounds (rp_db st) be of
         (db, be') \<Rightarrow> (Inr (), be', d'\<lparr>md_meta := Some (sq_store sq db)\<rparr>)))"

text \<open>
  \<open>RunMetaBackupScheduler\<close> until it is cancelled: the attempts it gets to make.  It returns after the
  first that got the module ready; the result is the number of attempts that failed.
\<close>

fun RunMetaBackupScheduler :: "(bytes \<Rightarrow> repo_env) \<Rightarrow> sqlite \<Rightarrow> int \<Rightarrow> (init_run \<times> backup_run list) list \<Rightarrow> mem_backend \<Rightarrow> module_disk \<Rightarrow>
    nat \<times> mem_backend \<times> module_disk" where
  "RunMetaBackupScheduler env sq retain [] be d = (0, be, d)"
| "RunMetaBackupScheduler env sq retain ((run, rounds) # attempts) be d =
     (case runBackupUntil env sq retain run rounds be d of
        (Inr _, be', d') \<Rightarrow> (0, be', d')
      | (Inl _, be', d') \<Rightarrow> (case RunMetaBackupScheduler env sq retain attempts be' d' of
          (n, be'', d'') \<Rightarrow> (Suc n, be'', d'')))"

text \<open>One tick of \<open>RunGCScheduler\<close>: the module is opened and collected.\<close>

definition gc_tick :: "(bytes \<Rightarrow> repo_env) \<Rightarrow> sqlite \<Rightarrow> init_run \<Rightarrow> restore_run \<Rightarrow> (string \<Rightarrow> bool) \<Rightarrow> goerr option \<Rightarrow> mem_backend \<Rightarrow> module_disk \<Rightarrow>
    int result \<times> mem_backend \<times> module_disk" where
  "gc_tick env sq run rr fault ping be d = (case openModule env sq run ping be d of
       (Inl e, d') \<Rightarrow> (Inl e, be, d')
     | (Inr (k, st), d') \<Rightarrow> (case GC (ProtectedMetaBlobs (env k) (sq_snapshot sq) rr be) fault st of
         (r, st') \<Rightarrow> (r, rp_be st', d'\<lparr>md_meta := Some (sq_store sq (rp_db st'))\<rparr>)))"

subsection \<open>Lemmas\<close>

lemma other_process_keeps [simp]: "md_meta (other_process r d) = md_meta d" "md_key d = Some k \<Longrightarrow> other_process r d = d"
  by (auto simp: other_process_def split: option.split)

lemma SaveKeyFileExclusive_keeps:
  "SaveKeyFileExclusive run k d = (r, d') \<Longrightarrow> md_meta d' = md_meta d \<and> (md_key d \<noteq> None \<longrightarrow> d' = d)"
  by (auto simp: SaveKeyFileExclusive_def split: option.splits if_splits)

lemma ensureKeyfile_keeps:
  "ensureKeyfile run d = (r, d') \<Longrightarrow> md_meta d' = md_meta d \<and> (md_key d \<noteq> None \<longrightarrow> d' = d)"
  by (auto simp: ensureKeyfile_def fileExists_def Let_def split: option.splits if_splits sum.splits dest: SaveKeyFileExclusive_keeps)

lemma create_meta_key: "create_meta sq run d = (e, d') \<Longrightarrow> md_key d' = md_key d"
  by (auto simp: create_meta_def split: option.splits prod.splits)

lemma ensureModuleReady_effect:
  assumes "ensureModuleReady env sq run be d = (x, d')"
  shows "md_key d' = md_key d \<or> (md_key d = None \<and> md_meta d = None \<and> mem_ListMeta be = [] \<and> mem_List be = [])"
    "md_meta d = Some m \<Longrightarrow> d' = d"
proof -
  show "md_key d' = md_key d \<or> (md_key d = None \<and> md_meta d = None \<and> mem_ListMeta be = [] \<and> mem_List be = [])"
    using assms by (auto simp: ensureModuleReady_def fileExists_def Let_def split: option.splits if_splits sum.splits prod.splits)
  show "d' = d" if "md_meta d = Some m"
    using assms that by (auto simp: ensureModuleReady_def fileExists_def Let_def split: option.splits if_splits)
qed

lemma stuck_init:
  assumes "md_key d = Some k" "md_meta d = None" "mem_ListMeta be = []"
  shows "\<exists>e. ensureModuleReady env sq run be d = ((nothing_done, Some e), d)"
  using assms by (auto simp: ensureModuleReady_def fileExists_def split: option.split)

lemma LoadKeyFile_encodeKey: "length k = 32 \<Longrightarrow> LoadKeyFile (encodeKey k) = Inr k"
  by (simp add: LoadKeyFile_def encodeKey_def keyMagic_def to_bytes_def nth_append)

subsection \<open>Properties\<close>

text \<open>
  Getting a module ready never replaces a key: a key file keeps its bytes, a database file is not touched,
  and a key is only written where there was neither key, database, backup nor blob, whatever fails
  or races.
\<close>

lemma key_never_replaced:
  assumes "ensureModuleReady env sq run be d = (x, d')"
  shows "(\<forall>k. md_key d = Some k \<longrightarrow> md_key d' = Some k) \<and> (\<forall>m. md_meta d = Some m \<longrightarrow> d' = d) \<and>
    (md_key d' \<noteq> md_key d \<longrightarrow> md_key d = None \<and> md_meta d = None \<and> mem_ListMeta be = [] \<and> mem_List be = [])"
  using ensureModuleReady_effect [OF assms] by auto

definition quiet_init :: init_run where
  "quiet_init = \<lparr>in_stat = (\<lambda>_. None), in_list = None, in_blobs = None, in_race = (\<lambda>_. None), in_key = Inr (replicate 32 7), in_mkdir = None,
     in_create = None, in_write = None, in_open = None, in_id = hex_encode (replicate 16 2), in_id_fault = None, in_close = None,
     in_restore = clean_restore\<rparr>"

definition sample_sqlite :: sqlite where
  "sample_sqlite = \<lparr>sq_snapshot = sample_opener, sq_existing = sample_opener, sq_store = (\<lambda>db. if db = backup_db then [7] else [8])\<rparr>"

text \<open>
  C23: the whole path of a disaster: the repository is backed up, the database is lost and the key is
  not; opening the module restores the backup, and every file has the content it had.
\<close>

theorem lost_database_is_recovered:
  assumes "backup_env (env k) (sq_snapshot sq) run" "repo_ok (env k) st" "canonical_id (rp_db st)" "distinct (mem_ListMeta (rp_be st))"
    and "CreateMetaBackup (env k) (sq_snapshot sq) run retain (rp_db st) (rp_be st) = ((name, e), db', be')" "name \<noteq> []"
    and "\<forall>n \<in> set (mem_ListMeta (rp_be st)). n < name" "length k = 32"
    and "\<forall>i. in_stat irun i = None" "in_list irun = None" "faultless (in_restore irun)"
    and "\<forall>f db. sq_snapshot sq f = Some db \<longrightarrow> sq_existing sq f = Some db"
  shows "\<exists>d'. openModule env sq irun None be' \<lparr>md_key = Some (encodeKey k), md_meta = None\<rparr> = (Inr (k, \<lparr>rp_db = db', rp_be = be'\<rparr>), d') \<and>
    (\<forall>q. StreamFile (env k) q \<lparr>rp_db = db', rp_be = be'\<rparr> = StreamFile (env k) q st)"
proof -
  obtain snap where r: "RestoreMeta (env k) (sq_snapshot sq) (in_restore irun) be' None = (Inr name, Some snap)"
    "sq_snapshot sq snap = Some db'" "\<forall>q. StreamFile (env k) q \<lparr>rp_db = db', rp_be = be'\<rparr> = StreamFile (env k) q st"
    using backup_restores [OF assms(1-7,11), of None] by blast
  have "name \<in> set (mem_ListMeta be')" using RestoreMeta_Inr [OF r(1)] by simp
  then have "mem_ListMeta be' \<noteq> []" by auto
  then show ?thesis
    using r assms(8-10,12)
    by (simp add: openModule_def ensureModuleReady_def fileExists_def LoadKeyFile_encodeKey Let_def nothing_done_def)
qed

theorem lost_database_is_recovered_witness:
  "\<exists>be' d'. openModule (\<lambda>_. identity_env) sample_sqlite quiet_init None be' \<lparr>md_key = Some (encodeKey (replicate 32 7)), md_meta = None\<rparr> =
     (Inr (replicate 32 7, \<lparr>rp_db = backup_db, rp_be = be'\<rparr>), d')"
proof -
  obtain name e fl where c: "CreateMetaBackup identity_env sample_opener sample_backup 2 (rp_db backup_repo) (rp_be backup_repo) =
      ((name, e), backup_db, (rp_be backup_repo)\<lparr>mem_mm := [(name, fl)]\<rparr>)" "name \<noteq> []"
    by (rule sample_backup_made)
  have l: "mem_ListMeta (rp_be backup_repo) = []" by code_simp
  have g: "GetMeta ''repository_id'' (rp_db backup_repo) = Some (hex_encode (replicate 16 1))" by code_simp
  have s: "sq_snapshot sample_sqlite = sample_opener" "sq_existing sample_sqlite = sample_opener" by (simp_all add: sample_sqlite_def)
  show ?thesis
    using lost_database_is_recovered [where env = "\<lambda>_. identity_env" and sq = sample_sqlite and k = "replicate 32 7" and irun = quiet_init,
        unfolded s, OF sample_backup_env backup_repo_ok _ _ c]
    by (auto simp: canonical_id_def g l quiet_init_def clean_restore_faultless)
qed

text \<open>
  A first initialisation that wrote the key and then failed to create the database is never repaired:
  the key alone is taken for a lost database, every attempt of the retrying scheduler fails and
  nothing changes, until somebody deletes the key.
\<close>

lemma interrupted_init_is_final:
  assumes "md_key d = Some k" "md_meta d = None" "mem_ListMeta be = []"
  shows "RunMetaBackupScheduler env sq retain attempts be d = (length attempts, be, d)"
proof (induction attempts)
  case (Cons a attempts)
  obtain run rounds where a: "a = (run, rounds)" by fastforce
  obtain e where "ensureModuleReady env sq run be d = ((nothing_done, Some e), d)"
    using stuck_init [OF assms] by blast
  then show ?case using Cons by (simp add: a runBackupUntil_def openModule_def nothing_done_def)
qed simp

text \<open>
  The waiting time before the n-th retry doubles from one second and stays at thirty from the sixth on,
  for every number of failures, also when the shift runs out of the 64 bits.
\<close>

lemma backoff_doubles_to_cap:
  "nextInitBackoff f = (if f \<le> 5 then 2 ^ (f - 1) * 1000000000 else 30000000000)"
proof (cases "f < 28")
  case True
  have "list_all (\<lambda>f. nextInitBackoff f = (if f \<le> 5 then 2 ^ (f - 1) * 1000000000 else 30000000000)) [0..<28]" by code_simp
  then show ?thesis using True by (auto simp: list_all_iff)
next
  case False
  have m: "initBackoffMin = push_bit 9 1953125" by (simp add: initBackoffMin_def push_bit_eq_mult)
  have "push_bit (f - 1) initBackoffMin = push_bit 36 (push_bit (f - 28) (1953125 :: 64 word))"
  proof -
    have "f - 1 + 9 = 36 + (f - 28)" using False by simp
    then show ?thesis unfolding m push_bit_push_bit by (simp only:)
  qed
  then obtain w :: "64 word" where w: "push_bit (f - 1) initBackoffMin = push_bit 36 w" by blast
  have "30000000000 < sint (push_bit 36 w) \<or> sint (push_bit 36 w) \<le> 0"
  proof (rule ccontr)
    assume "\<not> ?thesis"
    then have s: "0 < sint (push_bit 36 w)" "sint (push_bit 36 w) \<le> 30000000000" by auto
    have u: "uint (push_bit 36 w) = sint (push_bit 36 w)"
      using s unfolding uint_sint by (simp add: take_bit_int_eq_self)
    have "uint (push_bit 36 w) = (uint w * 2 ^ 36) mod 2 ^ 64"
      by (subst unsigned_push_bit_eq) (simp add: take_bit_eq_mod push_bit_eq_mult)
    then have "(2 :: int) ^ 36 dvd uint (push_bit 36 w)"
      by (simp only:) (rule dvd_mod, simp_all add: le_imp_power_dvd)
    then have "(2 :: int) ^ 36 \<le> sint (push_bit 36 w)" using s(1) u by (metis zdvd_imp_le)
    then show False using s(2) by simp
  qed
  then have "nextInitBackoff f = initBackoffMax"
    unfolding nextInitBackoff_def Let_def w by (auto simp: initBackoffMax_def)
  then show ?thesis using False by (simp add: initBackoffMax_def)
qed

end
