(* ===== verification/Lifetime.thy ===== *)
theory Lifetime
  imports Recovery
begin

text \<open>
  A repository over its whole life: uploads, directories, removals and moves of its clients, backups of
  its database and garbage collections, in any order and with any failures.  What stays true is that
  the repository is sound and that, once a backup could be restored, some backup can.
\<close>

subsection \<open>What the database operations have in common\<close>

text \<open>
  A relation between the tables before and after that every single statement group establishes holds
  for the composed operations too.
\<close>

locale table_law =
  fixes R :: "meta_db \<Rightarrow> meta_db \<Rightarrow> bool"
  assumes R_refl: "R db db"
    and R_trans: "R a b \<Longrightarrow> R b c \<Longrightarrow> R a c"
    and R_inv: "db_inv a \<Longrightarrow> R a b \<Longrightarrow> db_inv b"
    and R_upsert: "db_inv db \<Longrightarrow> R db (snd (UpsertFile f refs db))"
    and R_delete: "db_inv db \<Longrightarrow> R db (DeleteFile p db)"
    and R_zero: "db_inv db \<Longrightarrow> R db (DeleteChunkIfZero i db)"
begin

lemma fold_R:
  assumes "\<And>x db. db_inv db \<Longrightarrow> R db (g x db)" "db_inv db"
  shows "R db (fold g xs db)"
  using assms(2)
proof (induction xs arbitrary: db)
  case (Cons x xs)
  then show ?case using assms(1) [of db x] R_trans R_inv by fastforce
qed (simp add: R_refl)

lemma Mkcol: "db_inv db \<Longrightarrow> R db (snd (Mkcol path now db))"
  using R_upsert [of db "dir_row path now" "[]"] by (auto simp: Mkcol_def R_refl split: sum.split prod.split)

lemma DeletePath: "db_inv db \<Longrightarrow> R db (DeletePath path db)"
  by (auto simp: DeletePath_def R_refl intro!: fold_R R_delete)

lemma move_row:
  assumes "db_inv db" shows "R db (snd (move_row src dst row (r, db)))"
proof (cases r)
  case (Inr u)
  let ?f = "row\<lparr>fr_path := if fr_path row = src then dst else dst @ drop (length src) (fr_path row)\<rparr>"
  obtain r' db' where u: "UpsertFile ?f (GetFileChunks (fr_path row) db) db = (r', db')" by fastforce
  then have 1: "R db db'" using R_upsert [OF assms, of ?f] by (metis snd_conv)
  then have "R db (DeleteFile (fr_path row) db')" using R_delete R_inv [OF assms] R_trans by blast
  then show ?thesis using 1 u Inr by (auto simp: move_row_def split: sum.split)
qed (simp add: move_row_def R_refl)

lemma MovePath: "db_inv db \<Longrightarrow> R db (snd (MovePath src dst db))"
proof -
  assume inv: "db_inv db"
  have rows: "R d (snd (fold (move_row src dst) rows (r, d)))" if "db_inv d" for rows r d
    using that
  proof (induction rows arbitrary: r d)
    case (Cons row rows)
    obtain r' d' where m: "move_row src dst row (r, d) = (r', d')" by fastforce
    have "R d d'" using move_row [OF Cons.prems, of src dst row r] m by simp
    then show ?case using Cons.IH [of d' r'] R_inv [OF Cons.prems] R_trans m by auto
  qed (simp add: R_refl)
  let ?db1 = "fold (\<lambda>row d. if fr_path row \<in> set (map fr_path (FileRows src db)) then d else DeleteFile (fr_path row) d) (FileRows dst db) db"
  have 1: "R db ?db1" by (rule fold_R [OF _ inv]) (simp add: R_refl R_delete)
  then show ?thesis
    using R_trans [OF 1 rows [OF R_inv [OF inv 1]]] by (auto simp: MovePath_def Let_def R_refl split: sum.split)
qed

lemma cleanup: "db_inv (rp_db st) \<Longrightarrow> R (rp_db st) (rp_db (cleanupNewChunks is st))"
  by (auto simp: cleanupNewChunks_def intro: fold_R R_zero)

lemma put_commit:
  assumes "db_inv (rp_db st)"
  shows "R (rp_db st) (rp_db (snd (put_commit path mode mtime cancelled acc st)))"
proof -
  let ?row = "new_file_row path mode (int (pa_total acc)) mtime"
  obtain r db where u: "UpsertFile ?row (put_refs acc) (rp_db st) = (r, db)" by fastforce
  have 1: "R (rp_db st) db" using R_upsert [OF assms, of ?row "put_refs acc"] u by simp
  have a: "R (rp_db st') (rp_db (put_abort acc st'))" if "db_inv (rp_db st')" for st'
    using cleanup [OF that] by (simp add: put_abort_def)
  have 2: "R (rp_db st) (rp_db (put_abort acc (st\<lparr>rp_db := db\<rparr>)))"
    using R_trans [OF 1] a [of "st\<lparr>rp_db := db\<rparr>"] R_inv [OF assms 1] by simp
  show ?thesis
    using a [OF assms] 1 2 by (auto simp: put_commit_def u split: sum.split)
qed

end

text \<open>The tables only lose chunk rows or change their counts, and the repository id stays.\<close>

definition table_step :: "meta_db \<Rightarrow> meta_db \<Rightarrow> bool" where
  "table_step db db' \<longleftrightarrow> (db_inv db \<longrightarrow> db_inv db') \<and> pruned db db' \<and> db_meta db' = db_meta db"

lemma pruned_refl: "pruned db db"
  unfolding pruned_def by (rule exI [of _ "\<lambda>_. True"], rule exI [of _ "\<lambda>c. c"]) simp

lemma pruned_trans:
  assumes "pruned a b" "pruned b c"
  shows "pruned a c"
proof -
  obtain K g where 1: "db_chunks b = map g (filter K (db_chunks a))"
    "\<And>c. ck_id (g c) = ck_id c \<and> ck_hash (g c) = ck_hash c \<and> ck_size (g c) = ck_size c \<and> ck_blob (g c) = ck_blob c"
    using assms(1) unfolding pruned_def by blast
  obtain K' g' where 2: "db_chunks c = map g' (filter K' (db_chunks b))"
    "\<And>c. ck_id (g' c) = ck_id c \<and> ck_hash (g' c) = ck_hash c \<and> ck_size (g' c) = ck_size c \<and> ck_blob (g' c) = ck_blob c"
    using assms(2) unfolding pruned_def by blast
  have "db_chunks c = map (g' \<circ> g) (filter (\<lambda>x. K x \<and> K' (g x)) (db_chunks a))"
    by (simp add: 1(1) 2(1) filter_map o_def conj_commute)
  then show ?thesis unfolding pruned_def using 1(2) 2(2)
    by (intro exI [of _ "\<lambda>x. K x \<and> K' (g x)"] exI [of _ "g' \<circ> g"]) simp
qed

lemma db_meta_ops: "db_meta (upserted f refs db) = db_meta db" "db_inv db \<Longrightarrow> db_meta (DeleteFile p db) = db_meta db"
  "db_meta (DeleteChunkIfZero i db) = db_meta db"
  by (simp_all add: upserted_def replaced_def Let_def DeleteFile_eq DeleteChunkIfZero_def delete_chunks_def)

lemma pruned_zero: "pruned db (DeleteChunkIfZero i db)"
  by (simp add: DeleteChunkIfZero_def pruned_delete_chunks)

interpretation tables: table_law table_step
proof
  show "table_step db (snd (UpsertFile f refs db))" if "db_inv db" for db f refs
  proof -
    have "snd (UpsertFile f refs db) = upserted f refs db \<or> snd (UpsertFile f refs db) = db"
      using UpsertFile_cases [OF that, of refs f] by (cases "refs_ok refs db") auto
    then show ?thesis using db_inv_UpsertFile [OF that, of f refs] pruned_upserted pruned_refl
      by (auto simp: table_step_def db_meta_ops)
  qed
  show "table_step db (DeleteFile p db)" if "db_inv db" for db p
    using that by (simp add: table_step_def db_inv_DeleteFile pruned_DeleteFile db_meta_ops)
  show "table_step db (DeleteChunkIfZero i db)" if "db_inv db" for db i
    using db_inv_DeleteChunkIfZero [OF that, of i]
    by (auto simp: table_step_def db_meta_ops pruned_zero)
qed (auto simp: table_step_def pruned_refl intro: pruned_trans)

subsection \<open>Events\<close>

datatype event =
    Upload "(nat \<times> upload) list" string "32 word" int bool "bytes \<times> goerr"
  | Directory string int
  | Remove string
  | Move string string
  | Backup backup_run int
  | Collect restore_run "string \<Rightarrow> bool"

fun happen :: "repo_env \<Rightarrow> opener \<Rightarrow> event \<Rightarrow> repo \<Rightarrow> repo" where
  "happen E opn (Upload sched path mode mtime cancelled src) st = snd (PutFileContext E sched path mode mtime cancelled src st)"
| "happen E opn (Directory path now) st = st\<lparr>rp_db := snd (Mkcol path now (rp_db st))\<rparr>"
| "happen E opn (Remove path) st = st\<lparr>rp_db := DeletePath path (rp_db st)\<rparr>"
| "happen E opn (Move src dst) st = st\<lparr>rp_db := snd (MovePath src dst (rp_db st))\<rparr>"
| "happen E opn (Backup run retain) st = (case CreateMetaBackup E opn run retain (rp_db st) (rp_be st) of
     (_, db, be) \<Rightarrow> \<lparr>rp_db = db, rp_be = be\<rparr>)"
| "happen E opn (Collect rr fault) st = snd (GC (ProtectedMetaBlobs E opn rr (rp_be st)) fault st)"

text \<open>
  What is asked of the surroundings: fresh random names, a clock that moves on between backups, and
  downloads that fail rather than lie.
\<close>

fun possible :: "repo_env \<Rightarrow> opener \<Rightarrow> event \<Rightarrow> repo \<Rightarrow> bool" where
  "possible E opn (Upload sched path mode mtime cancelled src) st \<longleftrightarrow> names_fresh sched st"
| "possible E opn (Backup run retain) st \<longleftrightarrow> backup_env E opn run \<and>
     (\<forall>n \<in> set (mem_ListMeta (rp_be st)). n < metaBackupName (br_time run) (br_suffix run))"
| "possible E opn (Collect rr fault) st \<longleftrightarrow> faithful rr"
| "possible E opn _ st \<longleftrightarrow> True"

inductive life :: "repo_env \<Rightarrow> opener \<Rightarrow> repo \<Rightarrow> repo \<Rightarrow> bool" for E opn st where
  start: "life E opn st st"
| event: "life E opn st st' \<Longrightarrow> possible E opn ev st' \<Longrightarrow> life E opn st (happen E opn ev st')"

inductive_cases life_cases: "life E opn st st'"

definition restorable :: "repo_env \<Rightarrow> opener \<Rightarrow> mem_backend \<Rightarrow> string \<Rightarrow> bool" where
  "restorable E opn be n \<longleftrightarrow> HasSuffix n ''.cmeta'' \<and> n \<in> set (mem_ListMeta be) \<and>
     (\<exists>snap. candidate E opn clean_restore True be n = Inr snap)"

definition alive :: "repo_env \<Rightarrow> opener \<Rightarrow> repo \<Rightarrow> bool" where
  "alive E opn st \<longleftrightarrow> repo_ok E st \<and> canonical_id (rp_db st) \<and> distinct (mem_ListMeta (rp_be st)) \<and> (\<exists>n. restorable E opn (rp_be st) n)"

lemma try_candidates_some:
  assumes "n \<in> set ns" "candidate E opn rr True be n = Inr snap" "faultless rr"
  shows "\<exists>m snap'. try_candidates E opn rr be ns target = (Inr m, Some snap')"
  using assms
  by (induction ns arbitrary: target) (auto simp: restoreCandidate_def faultless_def split: sum.split)

lemma restorable_restores:
  assumes "restorable E opn be n"
  shows "\<exists>m snap. RestoreMeta E opn clean_restore be target = (Inr m, Some snap)"
proof -
  obtain snap where c: "candidate E opn clean_restore True be n = Inr snap" using assms by (auto simp: restorable_def)
  have "n \<in> set (rev (validMetaNames (mem_ListMeta be)))" using assms by (simp add: restorable_def set_validMetaNames)
  from try_candidates_some [OF this c clean_restore_faultless(1)] this show ?thesis
    by (auto simp: RestoreMeta_def clean_restore_def Let_def)
qed

text \<open>More blobs, and the same object: a candidate stays one.\<close>

lemma candidate_mono:
  assumes "candidate E opn rr True be n = Inr snap" "meta_obj be' n = meta_obj be n" "map_of (mem_m be) \<subseteq>\<^sub>m map_of (mem_m be')"
  shows "candidate E opn rr True be' n = Inr snap"
proof -
  obtain enc enc' rid chunks where c: "mem_GetMeta n be = Inr enc" "rr_down rr n enc = Inr enc'"
    "DecryptMeta (re_aead E) enc' n = Inr (rid, snap)" "check_snapshot opn rid snap = Inr chunks"
    "verifyBackupChunks E rr be chunks = Inr ()" "rr_temp rr n = None"
    using assms(1) by (auto simp: candidate_def bind_res_eq_Inr split: option.splits)
  have g: "mem_Get b be = Inr raw \<Longrightarrow> mem_Get b be' = Inr raw" for b raw
    using assms(3) by (auto simp: mem_Get_def map_le_def dom_def split: option.splits)
  have "verifyBackupChunks E rr be' chunks = Inr ()"
    using c(5) g unfolding verifyBackupChunks_iff by fast
  moreover have "mem_GetMeta n be' = Inr enc" using c(1) assms(2) by (simp add: mem_GetMeta_def)
  ultimately show ?thesis using c by (simp add: candidate_def)
qed

lemma restorable_mono:
  assumes "restorable E opn be n" "meta_obj be' n = meta_obj be n" "map_of (mem_m be) \<subseteq>\<^sub>m map_of (mem_m be')"
  shows "restorable E opn be' n"
  using assms candidate_mono [OF _ assms(2,3)] by (auto simp: restorable_def ListMeta_obj)

subsection \<open>No event kills a repository\<close>

text \<open>What every event does to a sound repository.\<close>

definition survives :: "repo_env \<Rightarrow> opener \<Rightarrow> repo \<Rightarrow> repo \<Rightarrow> bool" where
  "survives E opn st st' \<longleftrightarrow> repo_ok E st' \<and> canonical_id (rp_db st') \<and> distinct (mem_ListMeta (rp_be st')) \<and>
     ((\<exists>n. restorable E opn (rp_be st) n) \<longrightarrow> (\<exists>n. restorable E opn (rp_be st') n))"

lemma canonical_step: "table_step db db' \<Longrightarrow> canonical_id db \<Longrightarrow> canonical_id db'"
  by (simp add: table_step_def canonical_id_def GetMeta_def)

lemma table_survives:
  assumes "repo_ok E st" "canonical_id (rp_db st)" "distinct (mem_ListMeta (rp_be st))" "table_step (rp_db st) db"
  shows "survives E opn st (st\<lparr>rp_db := db\<rparr>)"
  using assms repo_ok_pruned [OF assms(1), of db] canonical_step [OF assms(4)]
  by (simp add: survives_def table_step_def repo_ok_def)

lemma StoreChunk_meta: "StoreChunk E u data st = (r, st') \<Longrightarrow> mem_mm (rp_be st') = mem_mm (rp_be st)"
  by (auto simp: StoreChunk_def store_new_def putBlob_def mem_Put_def mem_Delete_def Let_def
      split: if_splits option.splits prod.splits sum.splits)

lemma put_jobs_meta: "fold (put_job E cs) jobs (acc, st) = (acc', st') \<Longrightarrow> mem_mm (rp_be st') = mem_mm (rp_be st)"
proof (induction jobs arbitrary: acc st)
  case (Cons j jobs)
  obtain acc1 st1 where j: "put_job E cs j (acc, st) = (acc1, st1)" by fastforce
  then have "mem_mm (rp_be st1) = mem_mm (rp_be st)"
    by (auto simp: put_job_def dest: StoreChunk_meta split: prod.splits sum.splits)
  then show ?case using Cons j by simp
qed simp

lemma put_upload_meta: "put_upload E sched src st = (acc, st') \<Longrightarrow> mem_mm (rp_be st') = mem_mm (rp_be st)"
  by (auto simp: put_upload_def Let_def dest: put_jobs_meta split: prod.splits)

lemma commit_backend: "rp_be (snd (put_commit path mode mtime cancelled acc st)) = rp_be st" "rp_be (put_abort acc st) = rp_be st"
  by (auto simp: put_commit_def put_abort_def cleanupNewChunks_def split: sum.split prod.split)

lemma upload_survives:
  assumes "aead_laws (re_aead E)" "repo_ok E st" "canonical_id (rp_db st)" "distinct (mem_ListMeta (rp_be st))" "names_fresh sched st"
  shows "survives E opn st (snd (PutFileContext E sched path mode mtime cancelled src st))"
proof -
  obtain acc st1 where up: "put_upload E sched src st = (acc, st1)" by fastforce
  have 1: "repo_ok E st1" "extends st st1" using put_upload_any [OF assms(2,1,5) up] by simp_all
  have mm: "mem_mm (rp_be st1) = mem_mm (rp_be st)" by (rule put_upload_meta [OF up])
  let ?st' = "snd (PutFileContext E sched path mode mtime cancelled src st)"
  have inv: "db_inv (rp_db st1)" using 1(1) by (simp add: repo_ok_def)
  have be: "rp_be ?st' = rp_be st1"
    by (simp add: PutFileContext_def up commit_backend split: option.split)
  have "table_step (rp_db st1) (rp_db ?st')"
    using tables.put_commit [OF inv] tables.cleanup [OF inv] by (simp add: PutFileContext_def up put_abort_def split: option.split)
  moreover have "canonical_id (rp_db st1)" using assms(3) 1(2) by (simp add: canonical_id_def GetMeta_def extends_def)
  moreover have "?st' = st1\<lparr>rp_db := rp_db ?st'\<rparr>" using be by simp
  ultimately have "survives E opn st1 ?st'"
    using table_survives [OF 1(1), of "rp_db ?st'"] assms(4) mm by (metis mem_ListMeta_def)
  moreover have "restorable E opn (rp_be st1) n" if "restorable E opn (rp_be st) n" for n
    by (rule restorable_mono [OF that]) (use mm 1(2) in \<open>simp_all add: extends_def\<close>)
  ultimately show ?thesis unfolding survives_def by blast
qed

lemma collect_survives:
  assumes "repo_ok E st" "canonical_id (rp_db st)" "distinct (mem_ListMeta (rp_be st))" "faithful rr"
  shows "survives E opn st (snd (GC (ProtectedMetaBlobs E opn rr (rp_be st)) fault st))"
proof -
  obtain r st' where g: "GC (ProtectedMetaBlobs E opn rr (rp_be st)) fault st = (r, st')" by fastforce
  show ?thesis
  proof (cases "st' = st")
    case True
    then show ?thesis using assms g by (simp add: survives_def)
  next
    case False
    then obtain prot where p: "ProtectedMetaBlobs E opn rr (rp_be st) = Inr prot" and ne: "mem_List (rp_be st) \<noteq> []"
      using g by (auto simp: GC_def split: if_splits sum.splits)
    have g': "GC (Inr prot) fault st = (r, st')" using g p by simp
    have st': "rp_db st' = live_db (rp_db st)" using GC_state [OF assms(1) g' ne] by simp
    have mm: "mem_mm (rp_be st') = mem_mm (rp_be st)" by (rule GC_backend(1) [OF assms(1) g'])
    have pn: "protect_names E opn rr (rp_be st) (validMetaNames (mem_ListMeta (rp_be st))) = Inr prot"
      using p by (auto simp: ProtectedMetaBlobs_def split: option.splits)
    have "restorable E opn (rp_be st') n" if n: "restorable E opn (rp_be st) n" for n
    proof -
      have "n \<in> set (validMetaNames (mem_ListMeta (rp_be st)))" using n by (simp add: restorable_def set_validMetaNames)
      from candidate_same [OF assms(1) g' assms(4) clean_restore_faultless(2) pn this] n mm
      show ?thesis by (simp add: restorable_def mem_ListMeta_def)
    qed
    moreover have "repo_ok E st'" using GC_same_content [OF assms(1) g' ne] by blast
    moreover have "canonical_id (rp_db st')" using assms(2) by (simp add: st' live_db_def canonical_id_def GetMeta_def)
    ultimately show ?thesis using assms(3) g mm by (auto simp: survives_def mem_ListMeta_def)
  qed
qed

lemma Create_db:
  assumes "CreateMetaBackup E opn run retain db be = (x, db', be')"
  shows "db_files db' = db_files db" "db_chunks db' = db_chunks db" "db_fcs db' = db_fcs db"
    "canonical_id db \<Longrightarrow> \<exists>raw. br_id run = hex_encode raw \<Longrightarrow> canonical_id db'"
proof -
  have d: "db' = db \<or> (\<exists>r. EnsureRepositoryID (br_id run) db = (r, db'))"
    using assms by (auto simp: CreateMetaBackup_def Let_def split: if_splits prod.splits sum.splits)
  then show "db_files db' = db_files db" "db_chunks db' = db_chunks db" "db_fcs db' = db_fcs db"
    by (auto simp: EnsureRepositoryID_def Let_def SetMeta_def split: option.splits if_splits)
  show "canonical_id db \<Longrightarrow> \<exists>raw. br_id run = hex_encode raw \<Longrightarrow> canonical_id db'"
    using d by (auto simp: EnsureRepositoryID_def Let_def canonical_id_def GetMeta_SetMeta split: option.splits if_splits)
      (metis hex_decode_encode option.inject)+
qed

lemma repo_ok_same_tables:
  assumes "repo_ok E st" "db_files db = db_files (rp_db st)" "db_chunks db = db_chunks (rp_db st)" "db_fcs db = db_fcs (rp_db st)"
    "mem_m be = mem_m (rp_be st)"
  shows "repo_ok E \<lparr>rp_db = db, rp_be = be\<rparr>"
  using assms by (simp add: repo_ok_def db_inv_def row_holds_def read_blob_def mem_Get_def)

lemma backup_survives:
  assumes "repo_ok E st" "canonical_id (rp_db st)" "distinct (mem_ListMeta (rp_be st))" "backup_env E opn run"
    "\<forall>n \<in> set (mem_ListMeta (rp_be st)). n < metaBackupName (br_time run) (br_suffix run)"
    "CreateMetaBackup E opn run retain (rp_db st) (rp_be st) = ((name, e), db', be')"
  shows "survives E opn st \<lparr>rp_db = db', rp_be = be'\<rparr>"
proof (cases "name = []")
  case True
  note c = Create_unnamed [OF assms(6) [unfolded True]]
  have "restorable E opn be' n" if n: "restorable E opn (rp_be st) n" for n
  proof -
    have "n < metaBackupName (br_time run) (br_suffix run)" using assms(5) n by (simp add: restorable_def)
    then have "meta_obj be' n = meta_obj (rp_be st) n" by (intro c(2)) auto
    with n show ?thesis by (rule restorable_mono) (simp add: c(1))
  qed
  moreover have "repo_ok E \<lparr>rp_db = db', rp_be = be'\<rparr>"
    using repo_ok_same_tables [OF assms(1)] Create_db(1-3) [OF assms(6)] c(1) by simp
  moreover have "\<exists>raw. br_id run = hex_encode raw" using assms(4) by (auto simp: backup_env_def)
  ultimately show ?thesis
    using c(3) assms(3) Create_db(4) [OF assms(6,2)] unfolding survives_def by auto
next
  case False
  obtain rid fl be1 r where m: "name = metaBackupName (br_time run) (br_suffix run)"
    "uploadAndVerifyMeta E run name fl (rp_be st) = (Inr (), be1)" "pruneMetaBackups run retain be1 = (r, be')"
    by (rule Create_named [OF assms(6) False])
  have lt: "\<forall>n \<in> set (mem_ListMeta (rp_be st)). n < name" using assms(5) m(1) by simp
  note c = Create_object [OF assms(6) False assms(4,2,3) lt]
  obtain file' rid' snap chunks where o: "meta_obj be' name = Some file'" "DecryptMeta (re_aead E) file' name = Inr (rid', snap)"
    "check_snapshot opn rid' snap = Inr chunks" "opn snap = Some db'"
    using c(1) by blast
  have ok: "repo_ok E \<lparr>rp_db = db', rp_be = be'\<rparr>" using repo_ok_same_tables [OF assms(1)] c(2-5) by simp
  have "chunks = backup_chunks db'" using check_snapshot_Inr [OF o(3)] o(4) Validate_Inr(6) by force
  then have v: "verifyBackupChunks E clean_restore be' chunks = Inr ()"
    using repo_ok_verifies [OF ok _ _ clean_restore_faultless(1)] by simp
  have "candidate E opn clean_restore True be' name = Inr snap"
    by (rule faultless_candidate [OF clean_restore_faultless(1) o(1-3) v])
  then have "restorable E opn be' name"
    using o(1) m(1) metaBackupName_suffix(1) by (auto simp: restorable_def ListMeta_obj)
  moreover have "distinct (mem_ListMeta be')" using distinct_prune [OF distinct_upload [OF assms(3) m(2)] m(3)] .
  moreover have "\<exists>raw. br_id run = hex_encode raw" using assms(4) by (auto simp: backup_env_def)
  ultimately show ?thesis
    using ok Create_db(4) [OF assms(6,2)] unfolding survives_def by auto
qed

lemma happen_survives:
  assumes "aead_laws (re_aead E)" "repo_ok E st" "canonical_id (rp_db st)" "distinct (mem_ListMeta (rp_be st))" "possible E opn ev st"
  shows "survives E opn st (happen E opn ev st)"
proof -
  have inv: "db_inv (rp_db st)" using assms(2) by (simp add: repo_ok_def)
  show ?thesis
  proof (cases ev)
    case (Backup run retain)
    obtain name e db be where c: "CreateMetaBackup E opn run retain (rp_db st) (rp_be st) = ((name, e), db, be)" by (metis prod_cases4 surj_pair)
    then show ?thesis using backup_survives [OF assms(2-4) _ _ c] assms(5) Backup by simp
  next
    case (Collect rr fault)
    then show ?thesis using collect_survives [OF assms(2-4)] assms(5) by simp
  next
    case (Upload sched path mode mtime cancelled src)
    then show ?thesis using upload_survives [OF assms(1-4)] assms(5) by simp
  qed (use table_survives [OF assms(2-4)] tables.Mkcol tables.DeletePath tables.MovePath inv in simp_all)
qed

lemma life_alive:
  assumes "life E opn st st'" "aead_laws (re_aead E)" "alive E opn st"
  shows "alive E opn st'"
  using assms(1)
proof (induction rule: life.induct)
  case (event st1 ev)
  then show ?case using happen_survives [OF assms(2)] unfolding alive_def survives_def by blast
qed (use assms(3) in simp)

lemma life_trans: "life E opn b c \<Longrightarrow> life E opn a b \<Longrightarrow> life E opn a c"
  by (induction rule: life.induct) (auto intro: life.event)

lemma life_one: "possible E opn ev st \<Longrightarrow> life E opn st (happen E opn ev st)"
  by (rule life.event [OF life.start])

subsection \<open>Properties\<close>

text \<open>
  C2: through any life of a repository, uploads, removals, moves, backups and collections in any order and
  with any failures, it stays sound, and once a backup could be restored, a restore that nothing
  disturbs finds one.
\<close>

theorem some_backup_stays_restorable:
  assumes "life E opn st st'" "aead_laws (re_aead E)" "alive E opn st"
  shows "alive E opn st' \<and> (\<exists>name snap. RestoreMeta E opn clean_restore (rp_be st') target = (Inr name, Some snap))"
  using life_alive [OF assms] restorable_restores unfolding alive_def by blast

text \<open>The sample repository, backed up, gains a directory, loses its file and is collected.\<close>

theorem some_backup_stays_restorable_witness:
  "\<exists>st name snap. RestoreMeta identity_env sample_opener clean_restore
     (rp_be (happen identity_env sample_opener (Collect clean_restore (\<lambda>_. False)) (happen identity_env sample_opener (Remove ''x'') st))) None = (Inr name, Some snap)"
proof -
  obtain name fl where s: "repo_ok identity_env (backup_repo\<lparr>rp_be := (rp_be backup_repo)\<lparr>mem_mm := [(name, fl)]\<rparr>\<rparr>)"
    "RestoreMeta identity_env sample_opener clean_restore ((rp_be backup_repo)\<lparr>mem_mm := [(name, fl)]\<rparr>) None = (Inr name, Some [7])"
    by (rule sample_state)
  let ?st = "backup_repo\<lparr>rp_be := (rp_be backup_repo)\<lparr>mem_mm := [(name, fl)]\<rparr>\<rparr>"
  let ?st2 = "happen identity_env sample_opener (Collect clean_restore (\<lambda>_. False)) (happen identity_env sample_opener (Remove ''x'') ?st)"
  have "GetMeta ''repository_id'' backup_db = Some (hex_encode (replicate 16 1))" by code_simp
  then have id: "canonical_id (rp_db ?st)" by (simp add: canonical_id_def backup_repo_def)
  have "name \<in> set (validMetaNames (mem_ListMeta (rp_be ?st)))"
    using s(2) try_candidates_Inr [of identity_env sample_opener clean_restore _ _ None name]
    by (fastforce simp: RestoreMeta_def clean_restore_def Let_def split: if_splits)
  then have "restorable identity_env sample_opener (rp_be ?st) name"
    using RestoreMeta_Inr [OF s(2)] by (simp add: restorable_def set_validMetaNames)
  then have "alive identity_env sample_opener ?st" using s(1) id by (auto simp: alive_def mem_ListMeta_def)
  moreover have "life identity_env sample_opener ?st ?st2"
    by (intro life.event life.start) (simp_all add: clean_restore_faultless)
  moreover have "aead_laws (re_aead identity_env)" by (simp add: identity_env_def plain_aead_laws)
  ultimately show ?thesis using some_backup_stays_restorable by blast
qed

end
