(* ===== verification/Config.thy ===== *)
theory Config
  imports Backends
begin

text \<open>
  The configuration (\<open>internal/config/config.go\<close>) after the YAML parser: defaults, checks and accessors.
  The parsed file, the flag whether \<open>max_inflight_chunks\<close> is written in it, and \<open>time.ParseDuration\<close>
  (nanoseconds, None for an error) are arguments.
\<close>

record log_config =
  lc_file :: string
  lc_level :: string
  lc_max_size :: "int option"
  lc_max_files :: "int option"

record module_section =
  ms_name :: string
  ms_path :: string
  ms_readonly :: bool
  ms_maxconn :: int
  ms_maxup :: int
  ms_type :: string
  ms_depth :: int
  ms_keyfile :: string
  ms_meta :: string
  ms_chunk :: int
  ms_interval :: string
  ms_retain :: int
  ms_gc :: string

text \<open>A front end's section is its listening address.\<close>

record daemon_config =
  dc_rsync :: "string option"
  dc_webdav :: "string option"
  dc_log :: log_config
  dc_inflight :: int
  dc_modules :: "module_section list"

definition DefaultChunkSize :: int where "DefaultChunkSize = 4194304"
definition DefaultMetaBackupInterval :: int where "DefaultMetaBackupInterval = 3600 * 1000000000"
definition DefaultMetaBackupRetain :: int where "DefaultMetaBackupRetain = 24"
definition DefaultMaxInflightChunks :: int where "DefaultMaxInflightChunks = 8"

subsection \<open>Accessors\<close>

definition SizeLimitMB :: "log_config \<Rightarrow> int" where
  "SizeLimitMB l = (case lc_max_size l of None \<Rightarrow> 16 | Some n \<Rightarrow> n)"

definition RetainFiles :: "log_config \<Rightarrow> int" where
  "RetainFiles l = (case lc_max_files l of None \<Rightarrow> 5 | Some n \<Rightarrow> n)"

definition ChunkSizeBytes :: "module_section \<Rightarrow> int" where
  "ChunkSizeBytes m = (if ms_chunk m \<le> 0 then DefaultChunkSize else ms_chunk m)"

text \<open>A duration that does not parse is read as its zero value.\<close>

definition MetaBackupInterval :: "(string \<Rightarrow> int option) \<Rightarrow> module_section \<Rightarrow> int" where
  "MetaBackupInterval dur m = (if ms_interval m = [] then DefaultMetaBackupInterval
     else case dur (ms_interval m) of None \<Rightarrow> 0 | Some d \<Rightarrow> d)"

definition MetaBackupRetain :: "module_section \<Rightarrow> int" where
  "MetaBackupRetain m = (if ms_retain m = 0 then DefaultMetaBackupRetain else ms_retain m)"

definition GCInterval :: "(string \<Rightarrow> int option) \<Rightarrow> module_section \<Rightarrow> int" where
  "GCInterval dur m = (if ms_gc m = [] then 0 else case dur (ms_gc m) of None \<Rightarrow> 0 | Some d \<Rightarrow> d)"

subsection \<open>Defaults and checks\<close>

definition applyUploadDefaults :: "bool \<Rightarrow> daemon_config \<Rightarrow> daemon_config" where
  "applyUploadDefaults specified c =
     (if \<not> specified \<and> dc_inflight c = 0 then c\<lparr>dc_inflight := DefaultMaxInflightChunks\<rparr> else c)"

definition applyLogDefaults :: "daemon_config \<Rightarrow> daemon_config" where
  "applyLogDefaults c = (if lc_level (dc_log c) = [] then c\<lparr>dc_log := (dc_log c)\<lparr>lc_level := ''info''\<rparr>\<rparr> else c)"

definition validateLog :: "daemon_config \<Rightarrow> unit result" where
  "validateLog c = (let l = dc_log c in
     if lc_level l \<notin> {''debug'', ''info'', ''warn'', ''error''} then Inl (Err ''log.level'')
     else if lc_file l \<noteq> [] \<and> SizeLimitMB l \<le> 0 then Inl (Err ''log.max_size_mb'')
     else if lc_file l \<noteq> [] \<and> RetainFiles l < 0 then Inl (Err ''log.max_files'')
     else Inr ())"

text \<open>The body of the loop over the modules; it fills in the defaults of the module it checks.\<close>

definition check_module :: "(string \<Rightarrow> int option) \<Rightarrow> module_section \<Rightarrow> module_section result" where
  "check_module dur m =
     (if ms_name m = [] then Inl (Err ''module without a name'')
      else if ms_keyfile m = [] \<or> ms_meta m = [] then Inl (Err ''module without keyfile or meta'')
      else if ms_type m = [] then Inl (Err ''module without backend.type'')
      else bind_res (NormalizeBucketDepth (ms_depth m)) (\<lambda>depth.
        let m1 = m\<lparr>ms_depth := depth, ms_interval := (if ms_interval m = [] then ''1h0m0s'' else ms_interval m)\<rparr> in
        if (case dur (ms_interval m1) of None \<Rightarrow> True | Some d \<Rightarrow> d \<le> 0) then Inl (Err ''meta_backup.interval'')
        else let m2 = m1\<lparr>ms_retain := (if ms_retain m1 = 0 then DefaultMetaBackupRetain else ms_retain m1)\<rparr> in
        if ms_retain m2 < 1 then Inl (Err ''meta_backup.retain'')
        else if ms_gc m2 \<noteq> [] \<and> (case dur (ms_gc m2) of None \<Rightarrow> True | Some d \<Rightarrow> d < 0) then Inl (Err ''gc.interval'')
        else Inr m2))"

fun check_modules :: "(string \<Rightarrow> int option) \<Rightarrow> module_section list \<Rightarrow> module_section list result" where
  "check_modules dur [] = Inr []"
| "check_modules dur (m # ms) = bind_res (check_module dur m) (\<lambda>m'. bind_res (check_modules dur ms) (\<lambda>ms'. Inr (m' # ms')))"

definition validateStructure :: "(string \<Rightarrow> int option) \<Rightarrow> daemon_config \<Rightarrow> daemon_config result" where
  "validateStructure dur c =
     (if dc_inflight c \<le> 0 then Inl (Err ''upload.max_inflight_chunks'')
      else if dc_modules c = [] then Inl (Err ''no module'')
      else bind_res (check_modules dur (dc_modules c)) (\<lambda>ms. Inr (c\<lparr>dc_modules := ms\<rparr>)))"

text \<open>\<open>Load\<close> after parsing, and \<open>Validate\<close>.\<close>

definition Load :: "(string \<Rightarrow> int option) \<Rightarrow> bool \<Rightarrow> daemon_config \<Rightarrow> daemon_config result" where
  "Load dur specified c = bind_res (validateStructure dur (applyUploadDefaults specified (applyLogDefaults c)))
     (\<lambda>c'. bind_res (validateLog c') (\<lambda>_. Inr c'))"

fun check_unique :: "string set \<Rightarrow> module_section list \<Rightarrow> unit result" where
  "check_unique seen [] = Inr ()"
| "check_unique seen (m # ms) = (if ms_name m \<in> seen then Inl (Err ''duplicate module name'')
     else check_unique (insert (ms_name m) seen) ms)"

definition Validate :: "(string \<Rightarrow> int option) \<Rightarrow> daemon_config \<Rightarrow> daemon_config result" where
  "Validate dur c =
     (if dc_rsync c = None \<and> dc_webdav c = None then Inl (Err ''no front'')
      else if dc_rsync c = Some [] then Inl (Err ''front.rsync.listen'')
      else if dc_webdav c = Some [] then Inl (Err ''front.webdav.listen'')
      else bind_res (validateStructure dur c) (\<lambda>c'. bind_res (check_unique {} (dc_modules c')) (\<lambda>_. Inr c')))"

subsection \<open>Well-formed configurations\<close>

definition module_wf :: "(string \<Rightarrow> int option) \<Rightarrow> module_section \<Rightarrow> bool" where
  "module_wf dur m \<longleftrightarrow> ms_name m \<noteq> [] \<and> ms_keyfile m \<noteq> [] \<and> ms_meta m \<noteq> [] \<and> ms_type m \<noteq> [] \<and> ms_depth m \<in> {1..4} \<and>
     0 < ChunkSizeBytes m \<and> 0 < MetaBackupInterval dur m \<and> 1 \<le> MetaBackupRetain m \<and> 0 \<le> GCInterval dur m"

definition config_wf :: "(string \<Rightarrow> int option) \<Rightarrow> daemon_config \<Rightarrow> bool" where
  "config_wf dur c \<longleftrightarrow> 0 < dc_inflight c \<and> dc_modules c \<noteq> [] \<and> (\<forall>m \<in> set (dc_modules c). module_wf dur m)"

lemma NormalizeBucketDepth_Inr: "NormalizeBucketDepth d = Inr d' \<Longrightarrow> d' \<in> {1..4} \<and> NormalizeBucketDepth d' = Inr d'"
  by (auto simp: NormalizeBucketDepth_def DefaultBucketDepth_def split: if_splits)

lemma check_module_iff:
  "check_module dur m = Inr m' \<longleftrightarrow> ms_name m \<noteq> [] \<and> ms_keyfile m \<noteq> [] \<and> ms_meta m \<noteq> [] \<and> ms_type m \<noteq> [] \<and>
     (\<exists>depth intv d. NormalizeBucketDepth (ms_depth m) = Inr depth \<and> intv = (if ms_interval m = [] then ''1h0m0s'' else ms_interval m) \<and>
        dur intv = Some d \<and> 0 < d \<and> 1 \<le> MetaBackupRetain m \<and> (ms_gc m \<noteq> [] \<longrightarrow> (\<exists>g. dur (ms_gc m) = Some g \<and> 0 \<le> g)) \<and>
        m' = m\<lparr>ms_depth := depth, ms_interval := intv, ms_retain := MetaBackupRetain m\<rparr>)"
  by (cases "NormalizeBucketDepth (ms_depth m)"; cases "dur (if ms_interval m = [] then ''1h0m0s'' else ms_interval m)"; cases "dur (ms_gc m)")
    (simp_all add: check_module_def Let_def MetaBackupRetain_def not_less not_le, auto)

lemma check_module_Inr:
  assumes "check_module dur m = Inr m'"
  shows "module_wf dur m' \<and> check_module dur m' = Inr m' \<and> ms_name m' = ms_name m"
proof -
  obtain depth intv d where m: "ms_name m \<noteq> []" "ms_keyfile m \<noteq> []" "ms_meta m \<noteq> []" "ms_type m \<noteq> []"
    "NormalizeBucketDepth (ms_depth m) = Inr depth" "intv = (if ms_interval m = [] then ''1h0m0s'' else ms_interval m)"
    "dur intv = Some d" "0 < d" "1 \<le> MetaBackupRetain m" "ms_gc m \<noteq> [] \<longrightarrow> (\<exists>g. dur (ms_gc m) = Some g \<and> 0 \<le> g)"
    "m' = m\<lparr>ms_depth := depth, ms_interval := intv, ms_retain := MetaBackupRetain m\<rparr>"
    using assms unfolding check_module_iff by blast
  have n: "depth \<in> {1..4}" "NormalizeBucketDepth depth = Inr depth" using NormalizeBucketDepth_Inr [OF m(5)] by simp_all
  have i: "intv \<noteq> []" using m(6) by simp
  have r: "MetaBackupRetain m' = MetaBackupRetain m" using m(9) by (simp add: m(11) MetaBackupRetain_def)
  have "module_wf dur m'"
    using m(1-4,7-10) n(1) i r by (auto simp: module_wf_def m(11) ChunkSizeBytes_def DefaultChunkSize_def MetaBackupInterval_def GCInterval_def)
  moreover have "check_module dur m' = Inr m'"
    unfolding check_module_iff using m(1-4,7-10) n i r by (auto simp: m(11))
  ultimately show ?thesis by (simp add: m(11))
qed

lemma check_modules_Inr:
  "check_modules dur ms = Inr ms' \<Longrightarrow>
     (\<forall>m \<in> set ms'. module_wf dur m) \<and> check_modules dur ms' = Inr ms' \<and> map ms_name ms' = map ms_name ms"
proof (induction ms arbitrary: ms')
  case (Cons m ms)
  then obtain m1 ms1 where 1: "check_module dur m = Inr m1" "check_modules dur ms = Inr ms1" "ms' = m1 # ms1"
    by (auto simp: bind_res_eq_Inr)
  then show ?case using check_module_Inr [OF 1(1)] Cons.IH [OF 1(2)] by simp
qed simp

lemma validateStructure_Inr:
  assumes "validateStructure dur c = Inr c'"
  shows "config_wf dur c' \<and> validateStructure dur c' = Inr c' \<and> map ms_name (dc_modules c') = map ms_name (dc_modules c) \<and>
    dc_rsync c' = dc_rsync c \<and> dc_webdav c' = dc_webdav c \<and> dc_log c' = dc_log c"
proof -
  obtain ms where ms: "check_modules dur (dc_modules c) = Inr ms" "c' = c\<lparr>dc_modules := ms\<rparr>" "0 < dc_inflight c" "dc_modules c \<noteq> []"
    using assms by (auto simp: validateStructure_def bind_res_eq_Inr split: if_splits)
  note m = check_modules_Inr [OF ms(1)]
  have "ms \<noteq> []" using m ms(4) by auto
  then show ?thesis using m ms by (simp add: config_wf_def validateStructure_def)
qed

lemma check_unique_iff: "check_unique seen ms = Inr () \<longleftrightarrow> distinct (map ms_name ms) \<and> seen \<inter> set (map ms_name ms) = {}"
  by (induction ms arbitrary: seen) auto

subsection \<open>Properties\<close>

text \<open>
  C37: a configuration that the daemon accepts is well formed: no timer has an interval of zero or less, every
  module keeps at least one backup and has a bucket depth, a chunk size and its files, and the
  names are distinct.  Checking it again changes nothing, so \<open>Validate\<close> after \<open>Load\<close> sees the defaults
  that \<open>Load\<close> filled in.
\<close>

theorem accepted_config_is_well_formed:
  assumes "Load dur specified c = Inr c1" "Validate dur c1 = Inr c2"
  shows "c2 = c1 \<and> config_wf dur c2 \<and> distinct (map ms_name (dc_modules c2)) \<and>
    (dc_rsync c2 \<noteq> None \<or> dc_webdav c2 \<noteq> None) \<and> lc_level (dc_log c2) \<noteq> [] \<and>
    (lc_file (dc_log c2) \<noteq> [] \<longrightarrow> 0 < SizeLimitMB (dc_log c2) \<and> 0 \<le> RetainFiles (dc_log c2))"
proof -
  have 1: "validateStructure dur (applyUploadDefaults specified (applyLogDefaults c)) = Inr c1" "validateLog c1 = Inr ()"
    using assms(1) by (auto simp: Load_def bind_res_eq_Inr)
  have 2: "validateStructure dur c1 = Inr c2" "check_unique {} (dc_modules c2) = Inr ()" "dc_rsync c1 \<noteq> None \<or> dc_webdav c1 \<noteq> None"
    using assms(2) by (auto simp: Validate_def bind_res_eq_Inr split: if_splits)
  note v = validateStructure_Inr [OF 1(1)]
  have "c2 = c1" using v 2(1) by simp
  then show ?thesis using v 2(2,3) 1(2) by (auto simp: check_unique_iff validateLog_def Let_def split: if_splits)
qed

definition sample_config :: daemon_config where
  "sample_config = \<lparr>dc_rsync = Some '':873'', dc_webdav = None, dc_log = \<lparr>lc_file = ''l'', lc_level = [], lc_max_size = None, lc_max_files = Some 0\<rparr>,
     dc_inflight = 0, dc_modules = [\<lparr>ms_name = ''m'', ms_path = [], ms_readonly = False, ms_maxconn = 0, ms_maxup = 0, ms_type = ''dir'',
       ms_depth = 0, ms_keyfile = ''k'', ms_meta = ''d'', ms_chunk = 0, ms_interval = [], ms_retain = 0, ms_gc = ''0s''\<rparr>]\<rparr>"

definition sample_dur :: "string \<Rightarrow> int option" where
  "sample_dur s = (if s = ''1h0m0s'' then Some (3600 * 1000000000) else if s = ''0s'' then Some 0 else None)"

theorem accepted_config_is_well_formed_witness:
  "\<exists>c. Load sample_dur False sample_config = Inr c \<and> Validate sample_dur c = Inr c \<and> config_wf sample_dur c"
proof -
  have "case Load sample_dur False sample_config of Inr c \<Rightarrow> Validate sample_dur c = Inr c | _ \<Rightarrow> False" by code_simp
  then obtain c where c: "Load sample_dur False sample_config = Inr c" "Validate sample_dur c = Inr c" by (auto split: sum.splits)
  from accepted_config_is_well_formed [OF c] c show ?thesis by blast
qed

end
