(* ===== verification/GoUrl.thy ===== *)
theory GoUrl
  imports GoStrings
begin

text \<open>
  The escaping functions of Go's standard library that the source calls: \<open>url.PathEscape\<close> and
  \<open>url.PathUnescape\<close> (\<open>net/url\<close>) and \<open>html.EscapeString\<close>, on byte strings.
\<close>

subsection \<open>Splitting and joining\<close>

lemma split_at_append: "split_at c (a @ c # b) = split_at c a @ split_at c b"
proof (induction a)
  case (Cons x a)
  show ?case
  proof (cases "x = c")
    case False
    have "split_at c a \<noteq> []" by simp
    then show ?thesis using Cons False by (cases "split_at c a") simp_all
  qed (use Cons in simp)
qed simp

lemma split_join: "ss \<noteq> [] \<Longrightarrow> \<forall>s \<in> set ss. c \<notin> set s \<Longrightarrow> split_at c (join_at c ss) = ss"
proof (induction c ss rule: join_at.induct)
  case (2 c s)
  then show ?case by (induction s) auto
next
  case (3 c s t ss)
  have "split_at c (s @ c # w) = s # split_at c w" if "c \<notin> set s" for s w
    using that by (induction s) auto
  then show ?case using 3 by simp
qed simp

lemma split_at_step: "c \<notin> set a \<Longrightarrow> split_at c (c # a @ c # b) = [] # a # split_at c b"
proof -
  assume "c \<notin> set a"
  then have "split_at c a = [a]" by (induction a) auto
  then show ?thesis by (simp add: split_at_append)
qed

subsection \<open>Path segments of a URL\<close>

definition byte_of :: "char \<Rightarrow> nat" where "byte_of c = of_char c"

definition is_alnum :: "char \<Rightarrow> bool" where
  "is_alnum c \<longleftrightarrow> (let n = byte_of c in (48 \<le> n \<and> n \<le> 57) \<or> (65 \<le> n \<and> n \<le> 90) \<or> (97 \<le> n \<and> n \<le> 122))"

text \<open>\<open>shouldEscape\<close> for a path segment.\<close>

definition shouldEscape :: "char \<Rightarrow> bool" where
  "shouldEscape c \<longleftrightarrow> \<not> is_alnum c \<and> c \<notin> set ''-_.~$&+:=@''"

definition upperhex :: "nat \<Rightarrow> char" where
  "upperhex n = (if n < 10 then char_of (48 + n) else char_of (55 + n))"

definition ishex :: "char \<Rightarrow> bool" where
  "ishex c \<longleftrightarrow> (let n = byte_of c in (48 \<le> n \<and> n \<le> 57) \<or> (97 \<le> n \<and> n \<le> 102) \<or> (65 \<le> n \<and> n \<le> 70))"

definition unhex :: "char \<Rightarrow> nat" where
  "unhex c = (let n = byte_of c in if n \<le> 57 then n - 48 else if 97 \<le> n then n - 87 else n - 55)"

definition escape_char :: "char \<Rightarrow> string" where
  "escape_char c = (if shouldEscape c then [CHR ''%'', upperhex (byte_of c div 16), upperhex (byte_of c mod 16)] else [c])"

definition PathEscape :: "string \<Rightarrow> string" where
  "PathEscape s = concat (map escape_char s)"

fun PathUnescape :: "string \<Rightarrow> string result" where
  "PathUnescape [] = Inr []"
| "PathUnescape (c # s) =
     (if c = CHR ''%'' then
        (case s of
           a # b # r \<Rightarrow> if ishex a \<and> ishex b
             then bind_res (PathUnescape r) (\<lambda>t. Inr (char_of (16 * unhex a + unhex b) # t))
             else Inl (Err ''invalid URL escape'')
         | _ \<Rightarrow> Inl (Err ''invalid URL escape''))
      else bind_res (PathUnescape s) (\<lambda>t. Inr (c # t)))"

lemma byte_of_less: "byte_of c < 256" by (simp add: byte_of_def)

lemma byte_of_char: "n < 256 \<Longrightarrow> byte_of (char_of n) = n" by (simp add: byte_of_def)

lemma char_of_byte: "char_of (byte_of c) = c" by (simp add: byte_of_def)

lemma upperhex:
  assumes "n < 16" shows "ishex (upperhex n)" "unhex (upperhex n) = n"
    "is_alnum (upperhex n)"
  using assms by (auto simp: ishex_def unhex_def upperhex_def is_alnum_def byte_of_char Let_def)

lemma PathUnescape_escape: "PathUnescape (escape_char c @ r) = bind_res (PathUnescape r) (\<lambda>t. Inr (c # t))"
proof (cases "shouldEscape c")
  case True
  have "byte_of c div 16 < 16" using byte_of_less [of c] by simp
  then have h: "ishex (upperhex (byte_of c div 16))" "unhex (upperhex (byte_of c div 16)) = byte_of c div 16"
    "ishex (upperhex (byte_of c mod 16))" "unhex (upperhex (byte_of c mod 16)) = byte_of c mod 16"
    by (simp_all add: upperhex)
  have e: "16 * (byte_of c div 16) + byte_of c mod 16 = byte_of c" by (rule mult_div_mod_eq)
  show ?thesis by (simp add: escape_char_def True h e char_of_byte)
next
  case False
  then have "c \<noteq> CHR ''%''" by (auto simp: shouldEscape_def is_alnum_def byte_of_def)
  then show ?thesis using False by (simp add: escape_char_def)
qed

text \<open>An escaped segment reads back, and it has only characters that cannot end the segment.\<close>

lemma PathEscape_roundtrip: "PathUnescape (PathEscape s) = Inr s"
proof (induction s)
  case (Cons c s)
  then show ?case using PathUnescape_escape [of c "PathEscape s"] by (simp add: PathEscape_def)
qed (simp add: PathEscape_def)

definition url_safe :: "char \<Rightarrow> bool" where
  "url_safe c \<longleftrightarrow> is_alnum c \<or> c \<in> set ''%-_.~$&+:=@''"

lemma escape_char_safe: "x \<in> set (escape_char c) \<Longrightarrow> url_safe x"
proof -
  have 1: "url_safe (upperhex (byte_of c div 16))" "url_safe (upperhex (byte_of c mod 16))" "url_safe CHR ''%''"
    using byte_of_less [of c] by (simp_all add: upperhex url_safe_def)
  have 2: "url_safe c" if "\<not> shouldEscape c" using that by (auto simp only: shouldEscape_def url_safe_def) auto
  assume "x \<in> set (escape_char c)"
  then have "x \<in> set [CHR ''%'', upperhex (byte_of c div 16), upperhex (byte_of c mod 16)] \<or> x = c \<and> \<not> shouldEscape c"
    unfolding escape_char_def by (metis list.set(2) list.set(1) insertE emptyE)
  then show ?thesis using 1 2 by auto
qed

lemma PathEscape_safe: "x \<in> set (PathEscape s) \<Longrightarrow> url_safe x"
proof -
  assume "x \<in> set (PathEscape s)"
  then obtain c where "x \<in> set (escape_char c)" unfolding PathEscape_def by force
  then show ?thesis by (rule escape_char_safe)
qed

lemma PathEscape_no_slash: "CHR ''/'' \<notin> set (PathEscape s)"
  using PathEscape_safe [of "CHR ''/''" s] by (auto simp: url_safe_def is_alnum_def byte_of_def)

lemma PathEscape_inj: "PathEscape s = PathEscape t \<longleftrightarrow> s = t"
  by (metis PathEscape_roundtrip sum.inject(2))

lemma PathEscape_Nil [simp]: "PathEscape s = [] \<longleftrightarrow> s = []"
  using PathEscape_inj [of s "[]"] by (simp add: PathEscape_def)

subsection \<open>HTML text\<close>

definition html_char :: "char \<Rightarrow> string" where
  "html_char c =
     (if c = CHR ''&'' then ''&amp;'' else if c = CHR 0x27 then ''&#39;'' else if c = CHR ''<'' then ''&lt;''
      else if c = CHR ''>'' then ''&gt;'' else if c = CHR 0x22 then ''&#34;'' else [c])"

definition EscapeString :: "string \<Rightarrow> string" where
  "EscapeString s = concat (map html_char s)"

text \<open>Escaped text has no character that opens a tag or ends a quoted attribute.\<close>

lemma EscapeString_safe: "x \<in> set (EscapeString s) \<Longrightarrow> x \<notin> {CHR ''<'', CHR ''>'', CHR 0x22, CHR 0x27}"
  by (auto simp: EscapeString_def html_char_def split: if_splits)

end
