(* ===== verification/WebFs.thy ===== *)
theory WebFs
  imports FileReader GoUrl
begin

text \<open>
  The file system that the WebDAV library sees (\<open>moduleFS\<close> and its file handles in
  \<open>internal/front/webdav/fs.go\<close> and \<open>write.go\<close>), over the repository of a module.  A call is a function
  of the repository; a handle is a value that its calls return updated.  A write handle collects the
  bytes of its temporary file; its file operations fail as \<open>fault\<close> says.
\<close>

subsection \<open>Paths\<close>

record module_fs =
  mf_readOnly :: bool
  mf_urlRoot :: string
  mf_rootName :: string
  mf_rootTime :: int

definition normalize :: "string \<Rightarrow> string" where
  "normalize name = TrimChar CHR ''/'' name"

definition repoPath :: "module_fs \<Rightarrow> string \<Rightarrow> string result" where
  "repoPath m name =
     (let clean = path_Clean (''/'' @ name) in
      if mf_urlRoot m = [] then Inr (normalize clean)
      else let root = path_Clean (mf_urlRoot m) in
        if clean = root then Inr []
        else if \<not> HasPrefix clean (root @ ''/'') then Inl ErrNotExist
        else Inr (TrimPrefix clean (root @ ''/'')))"

subsection \<open>File information\<close>

record file_info =
  fi_row :: file_row
  fi_name :: string
  fi_modTime :: "int option"

definition no_row :: file_row where
  "no_row = \<lparr>fr_path = [], fr_isdir = True, fr_issymlink = False, fr_mode = 0x41ED, fr_uid = 0, fr_gid = 0, fr_size = 0,
     fr_mtime = 0, fr_xattrs = [], fr_link = []\<rparr>"

definition rootInfo :: "module_fs \<Rightarrow> file_info" where
  "rootInfo m = \<lparr>fi_row = no_row, fi_name = mf_rootName m, fi_modTime = Some (mf_rootTime m)\<rparr>"

definition row_info :: "file_row \<Rightarrow> file_info" where
  "row_info row = \<lparr>fi_row = row, fi_name = [], fi_modTime = None\<rparr>"

definition info_Name :: "file_info \<Rightarrow> string" where
  "info_Name i = (if fi_name i \<noteq> [] then fi_name i else if fr_path (fi_row i) = [] then [] else path_Base (fr_path (fi_row i)))"

definition info_Size :: "file_info \<Rightarrow> int" where
  "info_Size i = fr_size (fi_row i)"

definition info_ModTime :: "file_info \<Rightarrow> int" where
  "info_ModTime i = (case fi_modTime i of Some t \<Rightarrow> t | None \<Rightarrow> fr_mtime (fi_row i))"

text \<open>\<open>os.ModeDir\<close> is the highest bit of the 32.\<close>

definition info_Mode :: "file_info \<Rightarrow> 32 word" where
  "info_Mode i = (if fr_isdir (fi_row i) then or 0x1ED 0x80000000
     else if fr_issymlink (fi_row i) then 0x1A4 else fr_mode (fi_row i))"

definition fs_Stat :: "module_fs \<Rightarrow> string \<Rightarrow> meta_db \<Rightarrow> file_info result" where
  "fs_Stat m name db = bind_res (repoPath m name) (\<lambda>path.
     if path = [] then Inr (rootInfo m)
     else case GetFileRow path db of None \<Rightarrow> Inl ErrNotExist | Some row \<Rightarrow> Inr (row_info row))"

subsection \<open>Handles\<close>

datatype handle =
    DirHandle string file_info nat
  | LinkHandle file_info string nat
  | ReadHandle file_reader file_info
  | WriteHandle string bytes bool

definition openWrite :: "module_fs \<Rightarrow> goerr option \<Rightarrow> string \<Rightarrow> handle result" where
  "openWrite m fault path =
     (if mf_readOnly m then Inl ErrPermission
      else if path = [] then Inl ErrInvalid
      else case fault of Some e \<Rightarrow> Inl e | None \<Rightarrow> Inr (WriteHandle path [] False))"

definition fs_OpenFile :: "module_fs \<Rightarrow> goerr option \<Rightarrow> string \<Rightarrow> bool \<Rightarrow> meta_db \<Rightarrow> handle result" where
  "fs_OpenFile m fault name write db = bind_res (repoPath m name) (\<lambda>path.
     if write then openWrite m fault path
     else if path = [] then Inr (DirHandle path (rootInfo m) 0)
     else case GetFileRow path db of
       None \<Rightarrow> Inl ErrNotExist
     | Some row \<Rightarrow>
         if fr_isdir row then Inr (DirHandle path (row_info row) 0)
         else if fr_issymlink row then Inr (LinkHandle (row_info row) (fr_link row) 0)
         else bind_res (OpenFile path db) (\<lambda>fr. Inr (ReadHandle fr (row_info row))))"

text \<open>\<open>Readdir\<close>, with a cnt of 0 or less for everything that is left.\<close>

definition Readdir :: "int \<Rightarrow> handle \<Rightarrow> meta_db \<Rightarrow> file_info list result \<times> handle" where
  "Readdir cnt h db = (case h of
       DirHandle path fi off \<Rightarrow>
         (let infos = map row_info (ListDir path db) in
          if length infos \<le> off then ((if 0 < cnt then Inl EOF else Inr []), h)
          else let stop = (if 0 < cnt \<and> int off + cnt < int (length infos) then off + nat cnt else length infos) in
            (Inr (take (stop - off) (drop off infos)), DirHandle path fi stop))
     | _ \<Rightarrow> (Inl ErrInvalid, h))"

definition handle_Read :: "repo_env \<Rightarrow> repo \<Rightarrow> nat \<Rightarrow> handle \<Rightarrow> bytes result \<times> handle" where
  "handle_Read E st n h = (case h of
       LinkHandle fi target off \<Rightarrow>
         if length target \<le> off then (Inl EOF, h)
         else (let b = take n (drop off (to_bytes target)) in (Inr b, LinkHandle fi target (off + length b)))
     | ReadHandle fr fi \<Rightarrow> (case rd_Read E st n fr of (r, fr') \<Rightarrow> (r, ReadHandle fr' fi))
     | _ \<Rightarrow> (Inl ErrInvalid, h))"

definition wrap64 :: "int \<Rightarrow> int" where
  "wrap64 x = sint (word_of_int x :: 64 word)"

text \<open>The whence is 0, 1 or 2 for the start, the position and the end.\<close>

definition handle_Seek :: "repo_env \<Rightarrow> repo \<Rightarrow> int \<Rightarrow> int \<Rightarrow> handle \<Rightarrow> int result \<times> handle" where
  "handle_Seek E st offs w h = (case h of
       LinkHandle fi target off \<Rightarrow>
         (let n = int (length target);
              base = (if w = 0 then Some 0 else if w = 1 then Some (int off) else if w = 2 then Some n else None) in
          case base of
            None \<Rightarrow> (Inl ErrInvalid, h)
          | Some b \<Rightarrow> let a = wrap64 (b + offs) in
              if a < 0 then (Inl ErrInvalid, h) else (Inr (min a n), LinkHandle fi target (nat (min a n))))
     | ReadHandle fr fi \<Rightarrow> (case rd_Seek E st offs w fr of (r, fr') \<Rightarrow> (r, ReadHandle fr' fi))
     | _ \<Rightarrow> (Inl ErrInvalid, h))"

definition handle_Write :: "bytes \<Rightarrow> handle \<Rightarrow> nat result \<times> handle" where
  "handle_Write p h = (case h of
       WriteHandle path b done \<Rightarrow> if done then (Inl (Err ''file closed''), h) else (Inr (length p), WriteHandle path (b @ p) done)
     | _ \<Rightarrow> (Inl ErrInvalid, h))"

text \<open>The information of a handle; while a file is uploaded it is a virtual one of the size so far.\<close>

definition uploading_info :: "nat \<Rightarrow> int \<Rightarrow> file_info" where
  "uploading_info n t = \<lparr>fi_row = no_row\<lparr>fr_isdir := False, fr_mode := 0x1A4, fr_size := int n\<rparr>, fi_name = ''uploading'', fi_modTime = Some t\<rparr>"

definition handle_Stat :: "int \<Rightarrow> handle \<Rightarrow> file_info result" where
  "handle_Stat t h = (case h of
       DirHandle path fi off \<Rightarrow> Inr fi
     | LinkHandle fi target off \<Rightarrow> Inr fi
     | ReadHandle fr fi \<Rightarrow> Inr fi
     | WriteHandle path b done \<Rightarrow> if done then Inl (Err ''file closed'') else Inr (uploading_info (length b) t))"

text \<open>Closing a write handle stores what was written, once.\<close>

definition handle_Close :: "repo_env \<Rightarrow> (nat \<times> upload) list \<Rightarrow> int \<Rightarrow> goerr option \<Rightarrow> handle \<Rightarrow> repo \<Rightarrow> unit result \<times> handle \<times> repo" where
  "handle_Close E sched now fault h st = (case h of
       WriteHandle path b done \<Rightarrow>
         if done then (Inr (), h, st)
         else (case fault of Some e \<Rightarrow> (Inl e, WriteHandle path b True, st) | None \<Rightarrow>
           (case PutFileContext E sched path 0x81A4 now False (b, EOF) st of
              (Inl e, st') \<Rightarrow> (Inl e, WriteHandle path b True, st')
            | (Inr _, st') \<Rightarrow> (Inr (), WriteHandle path b True, st')))
     | ReadHandle fr fi \<Rightarrow> (Inr (), ReadHandle (rd_Close fr) fi, st)
     | _ \<Rightarrow> (Inr (), h, st))"

subsection \<open>Changes\<close>

definition fs_Mkdir :: "module_fs \<Rightarrow> string \<Rightarrow> int \<Rightarrow> repo \<Rightarrow> unit result \<times> repo" where
  "fs_Mkdir m name now st = (case repoPath m name of Inl e \<Rightarrow> (Inl e, st) | Inr path \<Rightarrow>
     (case Mkcol path now (rp_db st) of (r, db) \<Rightarrow> (r, st\<lparr>rp_db := db\<rparr>)))"

definition fs_RemoveAll :: "module_fs \<Rightarrow> string \<Rightarrow> repo \<Rightarrow> unit result \<times> repo" where
  "fs_RemoveAll m name st = (case repoPath m name of Inl e \<Rightarrow> (Inl e, st) | Inr path \<Rightarrow>
     (Inr (), st\<lparr>rp_db := DeletePath path (rp_db st)\<rparr>))"

definition fs_Rename :: "module_fs \<Rightarrow> string \<Rightarrow> string \<Rightarrow> repo \<Rightarrow> unit result \<times> repo" where
  "fs_Rename m old new st = (case repoPath m old of Inl e \<Rightarrow> (Inl e, st) | Inr oldPath \<Rightarrow>
     (case repoPath m new of Inl e \<Rightarrow> (Inl e, st) | Inr newPath \<Rightarrow>
       (case MovePath oldPath newPath (rp_db st) of (r, db) \<Rightarrow> (r, st\<lparr>rp_db := db\<rparr>))))"

subsection \<open>Canonical paths\<close>

definition seg_ok :: "string \<Rightarrow> bool" where
  "seg_ok s \<longleftrightarrow> s \<noteq> [] \<and> s \<noteq> ''.'' \<and> s \<noteq> ''..'' \<and> CHR ''/'' \<notin> set s"

lemma clean_segs_ok:
  assumes "\<forall>s \<in> set acc. seg_ok s" "\<forall>s \<in> set ss. CHR ''/'' \<notin> set s"
  shows "\<forall>s \<in> set (clean_segs True acc ss). seg_ok s"
  using assms
proof (induction ss arbitrary: acc)
  case (Cons s ss)
  show ?case
  proof (cases "s = [] \<or> s = ''.'' \<or> s = ''..''")
    case True
    have ih: "\<forall>x \<in> set (clean_segs True acc' ss). seg_ok x" if "set acc' \<subseteq> set acc" for acc'
      by (rule Cons.IH) (use that Cons.prems in auto)
    have "clean_segs True acc (s # ss) \<in> {clean_segs True acc ss, clean_segs True (tl acc) ss}"
    proof (cases acc)
      case (Cons a as)
      then have "a \<noteq> ''..''" using Cons.prems(1) by (auto simp: seg_ok_def)
      with True show ?thesis by (elim disjE) (simp_all add: Cons)
    qed (use True in \<open>elim disjE, simp_all\<close>)
    moreover have "\<forall>x \<in> set (clean_segs True acc ss). seg_ok x" by (rule ih) simp
    moreover have "\<forall>x \<in> set (clean_segs True (tl acc) ss). seg_ok x" by (rule ih) (cases acc, auto)
    ultimately show ?thesis by (elim insertE) auto
  next
    case False
    then have "\<forall>x \<in> set (s # acc). seg_ok x" using Cons.prems by (simp add: seg_ok_def)
    then have "\<forall>x \<in> set (clean_segs True (s # acc) ss). seg_ok x" by (rule Cons.IH) (use Cons.prems(2) in simp)
    then show ?thesis using False by simp
  qed
qed simp

lemma clean_segs_id: "\<forall>s \<in> set ss. seg_ok s \<Longrightarrow> clean_segs r acc ss = rev acc @ ss"
  by (induction ss arbitrary: acc) (auto simp: seg_ok_def)

text \<open>What \<open>path.Clean\<close> makes of an absolute path.\<close>

lemma path_Clean_abs:
  "\<exists>ss. path_Clean (CHR ''/'' # p) = CHR ''/'' # join_at CHR ''/'' ss \<and> (\<forall>s \<in> set ss. seg_ok s)"
proof -
  let ?ss = "clean_segs True [] (split_at CHR ''/'' (CHR ''/'' # p))"
  have "\<forall>s \<in> set ?ss. seg_ok s"
    by (rule clean_segs_ok) (use split_at_no_sep in \<open>auto\<close>)
  then show ?thesis by (intro exI [of _ ?ss]) (simp add: path_Clean_def HasPrefix_def)
qed

lemma path_Clean_canonical:
  assumes "\<forall>s \<in> set ss. seg_ok s"
  shows "path_Clean (CHR ''/'' # CHR ''/'' # join_at CHR ''/'' ss) = CHR ''/'' # join_at CHR ''/'' ss"
    "path_Clean (CHR ''/'' # join_at CHR ''/'' ss) = CHR ''/'' # join_at CHR ''/'' ss"
    "path_Clean (CHR ''/'' # CHR ''/'' # join_at CHR ''/'' ss @ ''/'') = CHR ''/'' # join_at CHR ''/'' ss"
proof -
  have sp: "split_at CHR ''/'' (join_at CHR ''/'' ss) = (if ss = [] then [[]] else ss)"
    using split_join [of ss "CHR ''/''"] assms by (auto simp: seg_ok_def)
  have app: "split_at c (w @ [c]) = split_at c w @ [[]]" for c and w :: string
    by (induction w) (auto split: list.splits)
  have c: "clean_segs True [] (if ss = [] then [[]] else ss) = ss" "clean_segs True [] ((if ss = [] then [[]] else ss) @ [[]]) = ss"
  proof -
    have "clean_segs True acc (ss @ [[]]) = rev acc @ ss" for acc
      using assms by (induction ss arbitrary: acc) (auto simp: seg_ok_def)
    then show "clean_segs True [] (if ss = [] then [[]] else ss) = ss" "clean_segs True [] ((if ss = [] then [[]] else ss) @ [[]]) = ss"
      using clean_segs_id [OF assms] by auto
  qed
  show "path_Clean (CHR ''/'' # CHR ''/'' # join_at CHR ''/'' ss) = CHR ''/'' # join_at CHR ''/'' ss"
    "path_Clean (CHR ''/'' # join_at CHR ''/'' ss) = CHR ''/'' # join_at CHR ''/'' ss"
    "path_Clean (CHR ''/'' # CHR ''/'' # join_at CHR ''/'' ss @ ''/'') = CHR ''/'' # join_at CHR ''/'' ss"
    by (simp_all add: path_Clean_def HasPrefix_def sp app c del: split_at.simps) (simp_all add: sp app c)
qed

lemma normalize_id: "w \<noteq> [] \<Longrightarrow> hd w \<noteq> CHR ''/'' \<Longrightarrow> last w \<noteq> CHR ''/'' \<Longrightarrow> normalize w = w"
proof -
  have d: "dropWhile (\<lambda>x. x = c) xs = xs" if "xs \<noteq> []" "hd xs \<noteq> c" for xs :: string and c using that by (cases xs) auto
  assume "w \<noteq> []" "hd w \<noteq> CHR ''/''" "last w \<noteq> CHR ''/''"
  then show ?thesis using d [of w] d [of "rev w"] by (simp add: normalize_def TrimChar_def hd_rev)
qed

lemma normalize_slashes: "normalize (CHR ''/'' # w) = normalize w" "normalize (w @ ''/'') = normalize w" "normalize [] = []"
proof -
  have "dropWhile (\<lambda>x. x = c) (rev (dropWhile (\<lambda>x. x = c) (w @ [c]))) = dropWhile (\<lambda>x. x = c) (rev (dropWhile (\<lambda>x. x = c) w))" for c :: char
    by (induction w) auto
  then show "normalize (w @ ''/'') = normalize w" by (simp add: normalize_def TrimChar_def)
qed (simp_all add: normalize_def TrimChar_def)

text \<open>A remainder of a canonical path behind one of its slashes.\<close>

lemma canonical_rest:
  assumes "\<forall>s \<in> set ss. seg_ok s" "join_at CHR ''/'' ss = r @ CHR ''/'' # w"
  shows "w \<noteq> [] \<and> hd w \<noteq> CHR ''/'' \<and> last w \<noteq> CHR ''/''"
proof -
  have ne: "ss \<noteq> []" using assms(2) by auto
  have "ss = split_at CHR ''/'' (r @ CHR ''/'' # w)"
    using split_join [OF ne, of "CHR ''/''"] assms by (auto simp: seg_ok_def)
  then have ok: "\<forall>s \<in> set (split_at CHR ''/'' w). seg_ok s" using assms(1) by (auto simp: split_at_append)
  have emp: "[] \<notin> set (split_at CHR ''/'' w)" using ok by (auto simp: seg_ok_def)
  have 1: "w \<noteq> []" using emp by auto
  have 2: "hd w \<noteq> CHR ''/''" using emp 1 by (cases w) auto
  have 3: "last w \<noteq> CHR ''/''"
  proof
    assume "last w = CHR ''/''"
    then obtain v where "w = v @ [CHR ''/'']" using 1 by (metis append_butlast_last_id)
    then show False using emp split_at_append [of "CHR ''/''" v "[]"] by simp
  qed
  show ?thesis using 1 2 3 by blast
qed

text \<open>\<open>net/http\<close>'s \<open>cleanPath\<close>: what the request router redirects to.\<close>

definition http_cleanPath :: "string \<Rightarrow> string" where
  "http_cleanPath p =
     (if p = [] then ''/''
      else let p' = (if hd p = CHR ''/'' then p else CHR ''/'' # p); np = path_Clean p' in
        if last p' = CHR ''/'' \<and> np \<noteq> ''/'' then np @ ''/'' else np)"

lemma cleanPath_canonical:
  assumes "http_cleanPath p = p"
  obtains ss where "\<forall>s \<in> set ss. seg_ok s" "p = CHR ''/'' # join_at CHR ''/'' ss \<or> p = CHR ''/'' # join_at CHR ''/'' ss @ ''/''"
proof -
  have "p \<noteq> []" using assms by (auto simp: http_cleanPath_def)
  moreover have "hd p = CHR ''/''"
  proof (rule ccontr)
    assume h: "hd p \<noteq> CHR ''/''"
    then have "p = path_Clean (CHR ''/'' # p) \<or> p = path_Clean (CHR ''/'' # p) @ ''/''"
      using assms \<open>p \<noteq> []\<close> by (auto simp: http_cleanPath_def Let_def split: if_splits)
    then show False using h path_Clean_abs [of p] by auto
  qed
  ultimately obtain q where q: "p = CHR ''/'' # q" by (cases p) auto
  obtain ss where ss: "path_Clean (CHR ''/'' # q) = CHR ''/'' # join_at CHR ''/'' ss" "\<forall>s \<in> set ss. seg_ok s"
    using path_Clean_abs by blast
  show thesis using assms ss q by (intro that [OF ss(2)]) (auto simp: http_cleanPath_def Let_def split: if_splits)
qed

lemma paths_agree:
  assumes "http_cleanPath p = p" "path_Clean (mf_urlRoot m) = mf_urlRoot m" "HasPrefix (mf_urlRoot m) ''/''"
    and "HasPrefix p (mf_urlRoot m @ ''/'')"
  shows "repoPath m p = Inr (normalize (TrimPrefix p (mf_urlRoot m)))"
proof -
  obtain ss where ss: "\<forall>s \<in> set ss. seg_ok s" "p = CHR ''/'' # join_at CHR ''/'' ss \<or> p = CHR ''/'' # join_at CHR ''/'' ss @ ''/''"
    using cleanPath_canonical [OF assms(1)] by blast
  let ?c = "CHR ''/'' # join_at CHR ''/'' ss"
  have c: "path_Clean (CHR ''/'' # p) = ?c"
    using ss(2) path_Clean_canonical(1,3) [OF ss(1)] by auto
  obtain r where r: "mf_urlRoot m = CHR ''/'' # r" using assms(3) by (auto simp: HasPrefix_iff)
  have cr: "path_Clean (CHR ''/'' # r) = CHR ''/'' # r" using assms(2) r by simp
  obtain w where w: "p = CHR ''/'' # r @ CHR ''/'' # w" using assms(4) r by (auto simp: HasPrefix_iff)
  have t: "TrimPrefix p (CHR ''/'' # r) = CHR ''/'' # w" by (simp add: TrimPrefix_def HasPrefix_def w r)
  show ?thesis
  proof (cases "?c = mf_urlRoot m")
    case True
    then have "w = []" using ss(2) w r by auto
    then show ?thesis using True r t by (simp add: repoPath_def c cr normalize_slashes)
  next
    case False
    have "\<exists>v. join_at CHR ''/'' ss = r @ CHR ''/'' # v \<and> (w = v \<or> w = v @ ''/'')"
    proof (cases "p = ?c")
      case False
      then have *: "join_at CHR ''/'' ss @ ''/'' = r @ CHR ''/'' # w" using ss(2) w by auto
      then have "w \<noteq> []" using \<open>?c \<noteq> mf_urlRoot m\<close> r by auto
      then obtain v x where "w = v @ [x]" by (cases w rule: rev_cases) auto
      then show ?thesis using * by auto
    next
      case True
      then show ?thesis using w by (intro exI [of _ w]) simp
    qed
    then obtain v where v: "join_at CHR ''/'' ss = r @ CHR ''/'' # v" "w = v \<or> w = v @ ''/''" by blast
    have "normalize v = v" using canonical_rest [OF ss(1) v(1)] by (simp add: normalize_id)
    then have n: "normalize (CHR ''/'' # w) = v" using v(2) by (auto simp: normalize_slashes)
    have "HasPrefix ?c (mf_urlRoot m @ ''/'')" "TrimPrefix ?c (mf_urlRoot m @ ''/'') = v"
      by (simp_all add: HasPrefix_def TrimPrefix_def r v(1))
    then show ?thesis using False r by (simp add: repoPath_def c cr t n Let_def)
  qed
qed

text \<open>
  For a request path that the router passes on, the middleware (which trims the module's prefix
  and the slashes) and the file system below the WebDAV library (which cleans the path) agree on
  which file of the module is meant.
\<close>

lemma middleware_paths_agree:
  assumes "http_cleanPath p = p" "path_Clean (mf_urlRoot m) = mf_urlRoot m" "HasPrefix (mf_urlRoot m) ''/''"
    and "HasPrefix p (mf_urlRoot m @ ''/'')"
  shows "repoPath m p = Inr (normalize (TrimPrefix p (mf_urlRoot m)))"
  by (rule paths_agree [OF assms])

end
