(* ===== verification/WebdavBackend.thy ===== *)
theory WebdavBackend
  imports Backends GoUrl Handshake "HOL-Library.List_Lexorder" "HOL-Library.Char_ord"
begin

text \<open>
  The WebDAV backend (\<open>internal/backend/webdav.go\<close>).  The server is a parameter: a function from a
  request and its state to a reply (None for a transport failure) and its next state.  The parts of a
  reply that the standard library decodes (the body, the multistatus document) are fields of it.
  \<open>esc\<close> is \<open>url.Parse\<close> followed by \<open>EscapedPath\<close>, \<open>hx\<close> the digest that picks the bucket.  A wait
  between two attempts ends with the time or with the cancellation of the context; \<open>cancel i\<close> says
  which it is for the \<open>i\<close>-th.  URLs are made of a base that parsed and of escaped segments, so the
  construction of a request does not fail.
\<close>

subsection \<open>Requests and replies\<close>

record dav_request =
  dq_method :: string
  dq_url :: string
  dq_depth :: "string option"
  dq_auth :: "(string \<times> string) option"
  dq_body :: "bytes option"
  dq_length :: int

text \<open>An entry of a multistatus document: its href, and for each propstat whether it names a collection.\<close>

record dav_entry =
  de_href :: string
  de_types :: "bool list"

record dav_reply =
  dy_status :: int
  dy_retryAfter :: string
  dy_body :: "bytes result"
  dy_multi :: "dav_entry list result"

type_synonym 's server = "dav_request \<Rightarrow> 's \<Rightarrow> dav_reply option \<times> 's"

record webdav =
  wd_base :: string
  wd_user :: string
  wd_pass :: string
  wd_depth :: int
  wd_known :: "string set"

definition Retryable :: "int \<Rightarrow> bool" where
  "Retryable status \<longleftrightarrow> status = 0 \<or> status = 404 \<or> status = 408 \<or> status = 425 \<or> status = 429 \<or> status = 423 \<or> 500 \<le> status"

definition newWebDAVError :: "string \<Rightarrow> dav_reply option \<Rightarrow> goerr" where
  "newWebDAVError meth resp = (case resp of
     None \<Rightarrow> WebDAVErr meth 0 [] | Some r \<Rightarrow> WebDAVErr meth (dy_status r) (dy_retryAfter r))"

definition RetryAfterSeconds :: "string \<Rightarrow> string" where
  "RetryAfterSeconds v = (case Atoi v of None \<Rightarrow> [] | Some n \<Rightarrow> if n < 1 \<or> 3600 < n then [] else show_nat (nat n))"

definition retryableWriteError :: "goerr \<Rightarrow> bool" where
  "retryableWriteError e = (case e of WebDAVErr m st ra \<Rightarrow> Retryable st | _ \<Rightarrow> False)"

definition isNotFound :: "goerr \<Rightarrow> bool" where
  "isNotFound e = (case e of WebDAVErr m st ra \<Rightarrow> st = 404 | _ \<Rightarrow> False)"

text \<open>\<open>url.Parse\<close> and \<open>String\<close> are the argument \<open>parse\<close>: the scheme and the URL, or an error.\<close>

definition NewWebDAV :: "(string \<Rightarrow> (string \<times> string) result) \<Rightarrow> string \<Rightarrow> string \<Rightarrow> string \<Rightarrow> int \<Rightarrow> webdav result" where
  "NewWebDAV parse raw user pass depth = bind_res (parse raw) (\<lambda>(scheme, u).
     if scheme \<noteq> ''http'' \<and> scheme \<noteq> ''https'' then Inl (Err ''webdav URL must be http or https'')
     else bind_res (NormalizeBucketDepth depth) (\<lambda>d.
       Inr \<lparr>wd_base = TrimSuffix u ''/'', wd_user = user, wd_pass = pass, wd_depth = d, wd_known = {}\<rparr>))"

definition path_of :: "string list \<Rightarrow> string" where
  "path_of parts = concat (map (\<lambda>p. CHR ''/'' # PathEscape p) parts)"

definition collectionURL :: "webdav \<Rightarrow> string list \<Rightarrow> string" where
  "collectionURL wd parts = wd_base wd @ path_of parts"

definition blobURL :: "(string \<Rightarrow> string) \<Rightarrow> webdav \<Rightarrow> string \<Rightarrow> string result" where
  "blobURL hx wd name = bind_res (bucketParts hx name (wd_depth wd)) (\<lambda>parts.
     Inr (collectionURL wd parts @ ''/'' @ PathEscape name))"

definition wd_auth :: "webdav \<Rightarrow> (string \<times> string) option" where
  "wd_auth wd = (if wd_user wd = [] then None else Some (wd_user wd, wd_pass wd))"

text \<open>\<open>doReaderContext\<close>; \<open>want\<close> empty accepts every status from 200 to 299.\<close>

definition doReader :: "'s server \<Rightarrow> webdav \<Rightarrow> string \<Rightarrow> string \<Rightarrow> bytes option \<Rightarrow> int \<Rightarrow> int list \<Rightarrow> 's \<Rightarrow> dav_reply result \<times> 's" where
  "doReader srv wd meth url body sz want s =
     (let req = \<lparr>dq_method = meth, dq_url = url, dq_depth = None, dq_auth = wd_auth wd, dq_body = body, dq_length = sz\<rparr> in
      case srv req s of
        (None, s') \<Rightarrow> (Inl (newWebDAVError meth None), s')
      | (Some r, s') \<Rightarrow>
          let ok = (if want = [] then 200 \<le> dy_status r \<and> dy_status r < 300 else dy_status r \<in> set want) in
          if \<not> ok then (Inl (newWebDAVError meth (Some r)), s') else (Inr r, s'))"

definition doContext :: "'s server \<Rightarrow> webdav \<Rightarrow> string \<Rightarrow> string \<Rightarrow> bytes option \<Rightarrow> int list \<Rightarrow> 's \<Rightarrow> dav_reply result \<times> 's" where
  "doContext srv wd meth url body want s =
     doReader srv wd meth url body (case body of None \<Rightarrow> -1 | Some b \<Rightarrow> int (length b)) want s"

subsection \<open>Collections\<close>

definition mark_known :: "string \<Rightarrow> webdav \<Rightarrow> webdav" where
  "mark_known key wd = wd\<lparr>wd_known := insert key (wd_known wd)\<rparr>"

definition clearCollections :: "webdav \<Rightarrow> webdav" where
  "clearCollections wd = wd\<lparr>wd_known := {}\<rparr>"

fun ensure_loop :: "'s server \<Rightarrow> string list \<Rightarrow> nat list \<Rightarrow> webdav \<Rightarrow> 's \<Rightarrow> unit result \<times> webdav \<times> 's" where
  "ensure_loop srv parts [] wd s = (Inr (), wd, s)"
| "ensure_loop srv parts (i # is) wd s =
     (let key = join_at CHR ''/'' (take i parts) in
      if key \<in> wd_known wd then ensure_loop srv parts is wd s
      else case doContext srv wd ''MKCOL'' (collectionURL wd (take i parts)) None [201, 405] s of
          (Inl e, s') \<Rightarrow> (Inl e, wd, s')
        | (Inr _, s') \<Rightarrow> ensure_loop srv parts is (mark_known key wd) s')"

definition ensureCollections :: "'s server \<Rightarrow> string list \<Rightarrow> webdav \<Rightarrow> 's \<Rightarrow> unit result \<times> webdav \<times> 's" where
  "ensureCollections srv parts wd s = ensure_loop srv parts [1..<length parts + 1] wd s"

definition metaURL :: "webdav \<Rightarrow> string" where
  "metaURL wd = wd_base wd @ ''/meta''"

definition ensureMetaCollection :: "'s server \<Rightarrow> webdav \<Rightarrow> 's \<Rightarrow> unit result \<times> webdav \<times> 's" where
  "ensureMetaCollection srv wd s =
     (if ''@meta'' \<in> wd_known wd then (Inr (), wd, s)
      else case doContext srv wd ''MKCOL'' (metaURL wd) None [201, 405] s of
          (Inl e, s') \<Rightarrow> (Inl e, wd, s')
        | (Inr _, s') \<Rightarrow> (Inr (), mark_known ''@meta'' wd, s'))"

subsection \<open>Blobs\<close>

definition putOnce :: "(string \<Rightarrow> string) \<Rightarrow> 's server \<Rightarrow> string \<Rightarrow> bytes \<Rightarrow> webdav \<Rightarrow> 's \<Rightarrow> unit result \<times> webdav \<times> 's" where
  "putOnce hx srv name data wd s = (case bucketParts hx name (wd_depth wd) of
       Inl e \<Rightarrow> (Inl e, wd, s)
     | Inr parts \<Rightarrow> (case ensureCollections srv parts wd s of
         (Inl e, wd', s') \<Rightarrow> (Inl e, wd', s')
       | (Inr _, wd', s') \<Rightarrow>
           (case doContext srv wd' ''PUT'' (collectionURL wd' parts @ ''/'' @ PathEscape name) (Some data) [] s' of
              (Inl e, s2) \<Rightarrow> (Inl e, wd', s2)
            | (Inr _, s2) \<Rightarrow> (Inr (), wd', s2))))"

text \<open>The loop of \<open>PutContext\<close>: \<open>left\<close> attempts are left, of three.\<close>

fun put_attempts :: "(string \<Rightarrow> string) \<Rightarrow> 's server \<Rightarrow> (nat \<Rightarrow> bool) \<Rightarrow> string \<Rightarrow> bytes \<Rightarrow> nat \<Rightarrow> webdav \<Rightarrow> 's \<Rightarrow> unit result \<times> webdav \<times> 's" where
  "put_attempts hx srv cancel name data 0 wd s = (Inl (Err ''no attempt''), wd, s)"
| "put_attempts hx srv cancel name data (Suc left) wd s =
     (case putOnce hx srv name data wd s of
        (Inr _, wd1, s1) \<Rightarrow> (Inr (), wd1, s1)
      | (Inl e, wd1, s1) \<Rightarrow>
          if \<not> retryableWriteError e then (Inl e, wd1, s1)
          else let wd2 = (if isNotFound e then clearCollections wd1 else wd1) in
            if left = 0 then (Inl e, wd2, s1)
            else if cancel left then (Inl Canceled, wd2, s1)
            else put_attempts hx srv cancel name data left wd2 s1)"

definition PutContext :: "(string \<Rightarrow> string) \<Rightarrow> 's server \<Rightarrow> (nat \<Rightarrow> bool) \<Rightarrow> string \<Rightarrow> bytes \<Rightarrow> webdav \<Rightarrow> 's \<Rightarrow> unit result \<times> webdav \<times> 's" where
  "PutContext hx srv cancel name data wd s = (case bucketParts hx name (wd_depth wd) of
       Inl e \<Rightarrow> (Inl e, wd, s)
     | Inr _ \<Rightarrow> put_attempts hx srv cancel name data 3 wd s)"

definition wd_Get :: "(string \<Rightarrow> string) \<Rightarrow> 's server \<Rightarrow> string \<Rightarrow> webdav \<Rightarrow> 's \<Rightarrow> bytes result \<times> 's" where
  "wd_Get hx srv name wd s = (case blobURL hx wd name of
       Inl e \<Rightarrow> (Inl e, s)
     | Inr url \<Rightarrow> (case doContext srv wd ''GET'' url None [] s of
         (Inl e, s') \<Rightarrow> (Inl e, s')
       | (Inr r, s') \<Rightarrow> (dy_body r, s')))"

definition wd_Delete :: "(string \<Rightarrow> string) \<Rightarrow> 's server \<Rightarrow> string \<Rightarrow> webdav \<Rightarrow> 's \<Rightarrow> unit result \<times> 's" where
  "wd_Delete hx srv name wd s = (case blobURL hx wd name of
       Inl e \<Rightarrow> (Inl e, s)
     | Inr url \<Rightarrow> (case doContext srv wd ''DELETE'' url None [204, 404, 200] s of
         (Inl e, s') \<Rightarrow> (Inl e, s')
       | (Inr r, s') \<Rightarrow> (Inr (), s')))"

subsection \<open>Listings\<close>

definition collectionResponse :: "dav_entry \<Rightarrow> bool" where
  "collectionResponse r \<longleftrightarrow> True \<in> set (de_types r)"

definition hrefChildName :: "(string \<Rightarrow> string result) \<Rightarrow> string \<Rightarrow> string \<Rightarrow> string option result" where
  "hrefChildName esc href currentURL = bind_res (esc href) (\<lambda>h. bind_res (esc currentURL) (\<lambda>c.
     let hp = TrimSuffix h ''/''; cp = TrimSuffix c ''/''; pre = cp @ ''/'' in
     if hp = cp then Inr None
     else if \<not> HasPrefix hp pre then Inr None
     else let rel = TrimPrefix hp pre in
       if rel = [] \<or> has_char CHR ''/'' rel then Inr None
       else bind_res (PathUnescape rel) (\<lambda>name. Inr (Some name))))"

definition propfind :: "'s server \<Rightarrow> webdav \<Rightarrow> string \<Rightarrow> 's \<Rightarrow> dav_entry list result \<times> 's" where
  "propfind srv wd currentURL s =
     (case srv \<lparr>dq_method = ''PROPFIND'', dq_url = TrimSuffix currentURL ''/'' @ ''/'', dq_depth = Some ''1'', dq_auth = wd_auth wd,
           dq_body = None, dq_length = -1\<rparr> s of
        (None, s') \<Rightarrow> (Inl (newWebDAVError ''PROPFIND'' None), s')
      | (Some r, s') \<Rightarrow> if dy_status r \<noteq> 207 then (Inl (newWebDAVError ''PROPFIND'' (Some r)), s') else (dy_multi r, s'))"

text \<open>A loop over a list that may fail, with what it collects and the server's state.\<close>

fun each :: "('a \<Rightarrow> 'c \<Rightarrow> 's \<Rightarrow> 'c result \<times> 's) \<Rightarrow> 'a list \<Rightarrow> 'c \<Rightarrow> 's \<Rightarrow> 'c result \<times> 's" where
  "each f [] acc s = (Inr acc, s)"
| "each f (x # xs) acc s = (case f x acc s of (Inl e, s') \<Rightarrow> (Inl e, s') | (Inr acc', s') \<Rightarrow> each f xs acc' s')"

text \<open>
  The walk of \<open>List\<close>, with \<open>n\<close> levels of buckets still below; \<open>out\<close> is what was found so far, without
  duplicates.
\<close>

definition add_leaf :: "(string \<Rightarrow> string) \<Rightarrow> int \<Rightarrow> string list \<Rightarrow> dav_entry \<Rightarrow> string \<Rightarrow> string list \<Rightarrow> string list" where
  "add_leaf hx depth parts r name out =
     (if collectionResponse r \<or> isTemporaryBlob name then out
      else if \<not> blobBelongsToBucket hx name parts depth then out
      else if name \<in> set out then out else out @ [name])"

definition child_loop :: "(string \<Rightarrow> string result) \<Rightarrow> string \<Rightarrow> (dav_entry \<Rightarrow> string \<Rightarrow> string list \<Rightarrow> 's \<Rightarrow> string list result \<times> 's) \<Rightarrow>
    dav_entry \<Rightarrow> string list \<Rightarrow> 's \<Rightarrow> string list result \<times> 's" where
  "child_loop esc currentURL f r out s = (case hrefChildName esc (de_href r) currentURL of
       Inl e \<Rightarrow> (Inl e, s) | Inr None \<Rightarrow> (Inr out, s) | Inr (Some name) \<Rightarrow> f r name out s)"

primrec walk :: "(string \<Rightarrow> string) \<Rightarrow> (string \<Rightarrow> string result) \<Rightarrow> 's server \<Rightarrow> webdav \<Rightarrow> nat \<Rightarrow> string list \<Rightarrow> string list \<Rightarrow> 's \<Rightarrow> string list result \<times> 's" where
  "walk hx esc srv wd 0 parts out s = (case propfind srv wd (collectionURL wd parts) s of
       (Inl e, s') \<Rightarrow> (Inl e, s')
     | (Inr rs, s') \<Rightarrow> each (child_loop esc (collectionURL wd parts) (\<lambda>r name out s. (Inr (add_leaf hx (wd_depth wd) parts r name out), s))) rs out s')"
| "walk hx esc srv wd (Suc n) parts out s = (case propfind srv wd (collectionURL wd parts) s of
       (Inl e, s') \<Rightarrow> (Inl e, s')
     | (Inr rs, s') \<Rightarrow> each (child_loop esc (collectionURL wd parts) (\<lambda>r name out s.
         if collectionResponse r \<and> isBucketPart name then walk hx esc srv wd n (parts @ [name]) out s else (Inr out, s))) rs out s')"

definition wd_List :: "(string \<Rightarrow> string) \<Rightarrow> (string \<Rightarrow> string result) \<Rightarrow> 's server \<Rightarrow> webdav \<Rightarrow> 's \<Rightarrow> string list result \<times> 's" where
  "wd_List hx esc srv wd s = (case walk hx esc srv wd (nat (wd_depth wd)) [] [] s of
     (Inl e, s') \<Rightarrow> (Inl e, s') | (Inr out, s') \<Rightarrow> (Inr (sort out), s'))"

definition Ping :: "'s server \<Rightarrow> webdav \<Rightarrow> 's \<Rightarrow> unit result \<times> 's" where
  "Ping srv wd s =
     (case srv \<lparr>dq_method = ''PROPFIND'', dq_url = wd_base wd @ ''/'', dq_depth = Some ''0'', dq_auth = wd_auth wd,
           dq_body = None, dq_length = -1\<rparr> s of
        (None, s') \<Rightarrow> (Inl (newWebDAVError ''PROPFIND'' None), s')
      | (Some r, s') \<Rightarrow> if dy_status r \<noteq> 207 \<and> dy_status r \<noteq> 200 then (Inl (newWebDAVError ''PROPFIND'' (Some r)), s') else (Inr (), s'))"

subsection \<open>Database backups\<close>

text \<open>
  The source of an upload: its bytes, whether it has a \<open>Close\<close> method (a file has), and whether it is
  closed.  The HTTP client closes a body that can be closed when it has sent the request.
\<close>

record meta_source =
  so_data :: bytes
  so_closer :: bool
  so_closed :: bool

fun put_meta_attempts :: "'s server \<Rightarrow> (nat \<Rightarrow> bool) \<Rightarrow> string \<Rightarrow> int \<Rightarrow> nat \<Rightarrow> meta_source \<Rightarrow> webdav \<Rightarrow> 's \<Rightarrow> unit result \<times> webdav \<times> 's" where
  "put_meta_attempts srv cancel name sz 0 src wd s = (Inl (Err ''no attempt''), wd, s)"
| "put_meta_attempts srv cancel name sz (Suc left) src wd s =
     (let again = (\<lambda>e src wd s.
        let wd' = wd\<lparr>wd_known := wd_known wd - {''@meta''}\<rparr> in
        if \<not> retryableWriteError e then (Inl e, wd', s)
        else if left = 0 then (Inl e, wd', s)
        else if cancel left then (Inl Canceled, wd', s)
        else put_meta_attempts srv cancel name sz left src wd' s) in
      case ensureMetaCollection srv wd s of
        (Inl e, wd1, s1) \<Rightarrow> again e src wd1 s1
      | (Inr _, wd1, s1) \<Rightarrow>
          if so_closed src then (Inl (Err ''file already closed''), wd1, s1)
          else (case doReader srv wd1 ''PUT'' (metaURL wd1 @ ''/'' @ PathEscape name) (Some (so_data src)) sz [] s1 of
              (Inr _, s2) \<Rightarrow> (Inr (), wd1, s2)
            | (Inl e, s2) \<Rightarrow> again e (src\<lparr>so_closed := so_closer src\<rparr>) wd1 s2))"

definition PutMetaContext :: "'s server \<Rightarrow> (nat \<Rightarrow> bool) \<Rightarrow> string \<Rightarrow> meta_source \<Rightarrow> int \<Rightarrow> webdav \<Rightarrow> 's \<Rightarrow> unit result \<times> webdav \<times> 's" where
  "PutMetaContext srv cancel name src sz wd s = (case validateBlobName name of
       Inl e \<Rightarrow> (Inl e, wd, s) | Inr _ \<Rightarrow> put_meta_attempts srv cancel name sz 3 src wd s)"

definition GetMetaContext :: "'s server \<Rightarrow> string \<Rightarrow> webdav \<Rightarrow> 's \<Rightarrow> bytes result \<times> 's" where
  "GetMetaContext srv name wd s = (case validateBlobName name of
       Inl e \<Rightarrow> (Inl e, s)
     | Inr _ \<Rightarrow> (case doReader srv wd ''GET'' (metaURL wd @ ''/'' @ PathEscape name) None (-1) [] s of
         (Inl e, s') \<Rightarrow> (Inl e, s') | (Inr r, s') \<Rightarrow> (dy_body r, s')))"

definition ListMetaContext :: "(string \<Rightarrow> string result) \<Rightarrow> 's server \<Rightarrow> webdav \<Rightarrow> 's \<Rightarrow> string list result \<times> webdav \<times> 's" where
  "ListMetaContext esc srv wd s = (case ensureMetaCollection srv wd s of
       (Inl e, wd', s') \<Rightarrow> (Inl e, wd', s')
     | (Inr _, wd', s1) \<Rightarrow> (case propfind srv wd' (metaURL wd') s1 of
         (Inl e, s2) \<Rightarrow> (Inl e, wd', s2)
       | (Inr rs, s2) \<Rightarrow> (case each (child_loop esc (metaURL wd') (\<lambda>r name out s.
             (Inr (if \<not> collectionResponse r \<and> HasSuffix name ''.cmeta'' then out @ [name] else out), s))) rs [] s2 of
           (Inl e, s3) \<Rightarrow> (Inl e, wd', s3)
         | (Inr out, s3) \<Rightarrow> (Inr (sort out), wd', s3))))"

definition DeleteMetaContext :: "'s server \<Rightarrow> string \<Rightarrow> webdav \<Rightarrow> 's \<Rightarrow> unit result \<times> 's" where
  "DeleteMetaContext srv name wd s = (case validateBlobName name of
       Inl e \<Rightarrow> (Inl e, s)
     | Inr _ \<Rightarrow> (case doReader srv wd ''DELETE'' (metaURL wd @ ''/'' @ PathEscape name) None (-1) [204, 404, 200] s of
         (Inl e, s') \<Rightarrow> (Inl e, s') | (Inr r, s') \<Rightarrow> (Inr (), s')))"

end
