(* ===== verification/WebFront.thy ===== *)
theory WebFront
  imports WebFs WebdavBackend FlistOrder Config
begin

text \<open>
  The WebDAV front end (\<open>internal/front/webdav\<close>): the module cache, the virtual root, the browsable
  listings, the middleware around the WebDAV library and the request router.  The library itself
  (\<open>golang.org/x/net/webdav\<close>) is a parameter: for every request a program over the file system of
  \<open>WebFs\<close>, which can do nothing else than call that file system and answer.
\<close>

subsection \<open>Requests, replies and handlers\<close>

text \<open>\<open>wq_raw\<close> is the escaped path of the URL, \<open>wq_path\<close> the path after unescaping.\<close>

record web_request =
  wq_method :: string
  wq_raw :: string
  wq_path :: string
  wq_auth :: "(string \<times> string) option"
  wq_depth :: string
  wq_body :: "bytes \<times> goerr"

record web_reply =
  wy_status :: int
  wy_headers :: "(string \<times> string) list"
  wy_body :: string

text \<open>
  What a request meets: the time, whether its context is cancelled, whether a temporary file cannot be
  made, the order of the upload workers with the names they draw (for the repository as it is), the
  outcome of opening a module, and the texts of errors and of times.
\<close>

record web_run =
  wr_env :: repo_env
  wr_now :: int
  wr_cancelled :: bool
  wr_fault :: "goerr option"
  wr_ups :: "repo \<Rightarrow> (nat \<times> upload) list"
  wr_open :: "string \<Rightarrow> goerr option"
  wr_errText :: "goerr \<Rightarrow> string"
  wr_fmtTime :: "int \<Rightarrow> string"

type_synonym 'w handler = "web_run \<Rightarrow> web_request \<Rightarrow> 'w \<Rightarrow> web_reply \<times> 'w"

definition http_Error :: "string \<Rightarrow> int \<Rightarrow> web_reply" where
  "http_Error txt status = \<lparr>wy_status = status, wy_headers = [(''Content-Type'', ''text/plain; charset=utf-8'')], wy_body = txt @ [CHR 0x0A]\<rparr>"

definition add_headers :: "(string \<times> string) list \<Rightarrow> web_reply \<Rightarrow> web_reply" where
  "add_headers hs y = y\<lparr>wy_headers := wy_headers y @ hs\<rparr>"

subsection \<open>Authentication and read-only modules\<close>

text \<open>A Go map gives the empty string for a user it does not have.\<close>

definition basicAuth :: "(string \<times> string) list \<Rightarrow> 'w handler \<Rightarrow> 'w handler" where
  "basicAuth users next w r st =
     (if users = [] then next w r st
      else case wq_auth r of
        None \<Rightarrow> (add_headers [(''WWW-Authenticate'', ''Basic realm='' @ [CHR 0x22] @ ''crysync'' @ [CHR 0x22])] (http_Error ''unauthorized'' 401), st)
      | Some (user, pass) \<Rightarrow>
          if (case map_of users user of None \<Rightarrow> [] | Some p \<Rightarrow> p) \<noteq> pass
          then (add_headers [(''WWW-Authenticate'', ''Basic realm='' @ [CHR 0x22] @ ''crysync'' @ [CHR 0x22])] (http_Error ''unauthorized'' 401), st)
          else next w r st)"

definition writeMethods :: "string set" where
  "writeMethods = {''PUT'', ''DELETE'', ''MKCOL'', ''COPY'', ''MOVE'', ''PROPPATCH'', ''LOCK'', ''UNLOCK''}"

definition readOnlyGuard :: "bool \<Rightarrow> 'w handler \<Rightarrow> 'w handler" where
  "readOnlyGuard ro next w r st =
     (if ro \<and> wq_method r \<in> writeMethods then (http_Error ''read-only module'' 403, st) else next w r st)"

subsection \<open>Listings for browsers\<close>

text \<open>Rounding to even, and a 64-bit integer as a float.\<close>

definition round_div :: "int \<Rightarrow> int \<Rightarrow> int" where
  "round_div a b = (let q = a div b; r = a mod b in if 2 * r < b then q else if b < 2 * r then q + 1 else if even q then q else q + 1)"

definition float64 :: "int \<Rightarrow> int" where
  "float64 n = (case find (\<lambda>k. n < 2 ^ (53 + k)) [0..<11] of None \<Rightarrow> n | Some k \<Rightarrow> round_div n (2 ^ k) * 2 ^ k)"

definition show_int :: "int \<Rightarrow> string" where
  "show_int n = (if n < 0 then CHR ''-'' # show_nat (nat (- n)) else show_nat (nat n))"

text \<open>\<open>n / 2 ^ k\<close> with one decimal, without a trailing zero.\<close>

definition trimFloat :: "int \<Rightarrow> nat \<Rightarrow> string" where
  "trimFloat n k =
     (let t = round_div (10 * float64 n) (2 ^ k);
          s = TrimSuffix (TrimSuffix (show_int (t div 10) @ ''.'' @ show_int (t mod 10)) ''0'') ''.'' in
      if s = [] then ''0'' else s)"

definition humanSize :: "int \<Rightarrow> string" where
  "humanSize n =
     (if 2 ^ 30 \<le> n then trimFloat n 30 @ '' GiB''
      else if 2 ^ 20 \<le> n then trimFloat n 20 @ '' MiB''
      else if 2 ^ 10 \<le> n then trimFloat n 10 @ '' KiB''
      else show_int n @ '' B'')"

definition pathpkgBase :: "string \<Rightarrow> string" where
  "pathpkgBase p = (case last_index CHR ''/'' p of Some i \<Rightarrow> drop (i + 1) p | None \<Rightarrow> p)"

definition dirs_first :: "file_row \<Rightarrow> file_row \<Rightarrow> bool" where
  "dirs_first a b = (if fr_isdir a \<noteq> fr_isdir b then fr_isdir a else fr_path a < fr_path b)"

definition quoted :: "string \<Rightarrow> string" where "quoted s = [CHR 0x22] @ s @ [CHR 0x22]"

definition list_item :: "(int \<Rightarrow> string) \<Rightarrow> file_row \<Rightarrow> string" where
  "list_item fmt row =
     (let name = pathpkgBase (fr_path row); href = PathEscape name in
      if fr_isdir row then ''<li><a href='' @ quoted (EscapeString href @ ''/'') @ ''>'' @ EscapeString name @ ''/</a></li>''
      else ''<li><a href='' @ quoted (EscapeString href) @ ''>'' @ EscapeString name @ ''</a>'' @
        ''<span class='' @ quoted ''muted'' @ ''>'' @ humanSize (fr_size row) @ '' '' @ EscapeString (fmt (fr_mtime row)) @ ''</span></li>'')"

definition parent_link :: "string \<Rightarrow> string" where
  "parent_link url = (case last_index CHR ''/'' (TrimSuffix url ''/'') of None \<Rightarrow> [] | Some i \<Rightarrow> take (i + 1) url)"

definition page_style :: string where
  "page_style = ''<style>body{font-family:monospace;margin:2em}ul{list-style:none;padding:0}li{padding:2px 0}a{text-decoration:none}.muted{color:#888;margin-left:1em}</style></head><body>''"

definition renderDirList :: "web_run \<Rightarrow> web_request \<Rightarrow> string \<Rightarrow> meta_db \<Rightarrow> web_reply" where
  "renderDirList w r path db =
     (let rows = stable_sort dirs_first (ListDir path db);
          display = (if path = [] then ''/'' else ''/'' @ path @ ''/'');
          up = (if path = [] then [] else let parent = parent_link (wq_path r) in
                if parent = [] then [] else ''<li><a href='' @ quoted (EscapeString parent) @ ''>../</a></li>'') in
      \<lparr>wy_status = 200, wy_headers = [(''Content-Type'', ''text/html; charset=utf-8'')],
       wy_body = ''<!DOCTYPE html><html><head><meta charset='' @ quoted ''utf-8'' @ ''><title>crysync: '' @ EscapeString display @ ''</title>'' @
         page_style @ ''<h1>'' @ EscapeString display @ ''</h1><ul>'' @ up @ concat (map (list_item (wr_fmtTime w)) rows) @ ''</ul></body></html>''\<rparr>)"

definition dirBrowse :: "string \<Rightarrow> repo handler \<Rightarrow> repo handler" where
  "dirBrowse pre next w r st =
     (if wq_method r \<noteq> ''GET'' \<and> wq_method r \<noteq> ''HEAD'' then next w r st
      else let path = normalize (TrimPrefix (wq_path r) pre) in
        if path = [] then (renderDirList w r [] (rp_db st), st)
        else case GetFileRow path (rp_db st) of
            None \<Rightarrow> next w r st
          | Some row \<Rightarrow> if \<not> fr_isdir row then next w r st else (renderDirList w r path (rp_db st), st))"

subsection \<open>Uploads and removals\<close>

fun hex_nat_aux :: "nat \<Rightarrow> nat \<Rightarrow> string" where
  "hex_nat_aux 0 n = []"
| "hex_nat_aux (Suc k) n = (if n < 16 then [hex_digit n] else hex_nat_aux k (n div 16) @ [hex_digit (n mod 16)])"

text \<open>\<open>%x\<close> of a 64-bit integer.\<close>

definition show_hex :: "int \<Rightarrow> string" where
  "show_hex n = (if n < 0 then CHR ''-'' # hex_nat_aux 16 (nat (- n)) else hex_nat_aux 16 (nat n))"

definition writePutError :: "(goerr \<Rightarrow> string) \<Rightarrow> goerr \<Rightarrow> web_reply" where
  "writePutError txt e = (case e of
       WebDAVErr meth status retryAfter \<Rightarrow>
         let bad = (status = 401 \<or> status = 403 \<or> \<not> Retryable status);
             ra = RetryAfterSeconds retryAfter in
         add_headers ((if bad then [] else [(''Retry-After'', if ra = [] then ''30'' else ra)]) @
             [(''X-CrySync-Backend-Operation'', meth),
              (''X-CrySync-Backend-Status'', if status \<noteq> 0 then show_int status else ''transport'')] @
             (if Retryable status then [(''X-CrySync-Backend-Retryable'', ''true'')] else []))
           (http_Error ''backend storage unavailable'' (if bad then 502 else 503))
     | ErrNotExist \<Rightarrow> http_Error (txt e) 409
     | ErrPermission \<Rightarrow> http_Error (txt e) 403
     | Canceled \<Rightarrow> http_Error (txt e) 499
     | _ \<Rightarrow> http_Error (txt e) 500)"

definition streamingPut :: "string \<Rightarrow> repo handler \<Rightarrow> repo handler" where
  "streamingPut pre next w r st =
     (if wq_method r \<noteq> ''PUT'' then next w r st
      else let path = normalize (TrimPrefix (wq_path r) pre) in
        if path = [] then (http_Error ''cannot write module root'' 405, st)
        else case PutFileContext (wr_env w) (wr_ups w st) path 0x81A4 (wr_now w) (wr_cancelled w) (wq_body r) st of
            (Inl e, st') \<Rightarrow> (writePutError (wr_errText w) e, st')
          | (Inr n, st') \<Rightarrow> (\<lparr>wy_status = 201, wy_headers = [(''ETag'', quoted (show_hex (wr_now w) @ show_hex n))], wy_body = []\<rparr>, st'))"

definition idempotentDelete :: "string \<Rightarrow> repo handler \<Rightarrow> repo handler" where
  "idempotentDelete pre next w r st =
     (if wq_method r \<noteq> ''DELETE'' then next w r st
      else let path = TrimChar CHR ''/'' (TrimPrefix (wq_path r) pre) in
        if path = [] then (http_Error ''cannot delete module root'' 405, st)
        else (\<lparr>wy_status = 204, wy_headers = [], wy_body = []\<rparr>, st\<lparr>rp_db := DeletePath path (rp_db st)\<rparr>))"

subsection \<open>The WebDAV library\<close>

text \<open>
  What the library does for a request: calls of the file system, each continued with its result, and
  the answer.  A handle is known by its number, in the order of the calls of \<open>OpenFile\<close> that
  succeeded.
\<close>

datatype dav_prog =
    Answer web_reply
  | CallStat string "file_info result \<Rightarrow> dav_prog"
  | CallOpenFile string bool "nat result \<Rightarrow> dav_prog"
  | CallMkdir string "unit result \<Rightarrow> dav_prog"
  | CallRemoveAll string "unit result \<Rightarrow> dav_prog"
  | CallRename string string "unit result \<Rightarrow> dav_prog"
  | CallReaddir nat int "file_info list result \<Rightarrow> dav_prog"
  | CallRead nat nat "bytes result \<Rightarrow> dav_prog"
  | CallSeek nat int int "int result \<Rightarrow> dav_prog"
  | CallWrite nat bytes "nat result \<Rightarrow> dav_prog"
  | CallFileStat nat "file_info result \<Rightarrow> dav_prog"
  | CallClose nat "unit result \<Rightarrow> dav_prog"

text \<open>A call on a handle that is not there cannot be made; it is given an error.\<close>

definition on_handle :: "handle list \<Rightarrow> nat \<Rightarrow> (handle \<Rightarrow> 'a result \<times> handle) \<Rightarrow> 'a result \<times> handle list" where
  "on_handle hs i f = (if i < length hs then (case f (hs ! i) of (r, h) \<Rightarrow> (r, hs[i := h])) else (Inl ErrInvalid, hs))"

primrec run_dav :: "dav_prog \<Rightarrow> web_run \<Rightarrow> module_fs \<Rightarrow> handle list \<Rightarrow> repo \<Rightarrow> web_reply \<times> repo" where
  "run_dav (Answer y) w m hs st = (y, st)"
| "run_dav (CallStat name k) w m hs st = run_dav (k (fs_Stat m name (rp_db st))) w m hs st"
| "run_dav (CallOpenFile name write k) w m hs st = (case fs_OpenFile m (wr_fault w) name write (rp_db st) of
     Inl e \<Rightarrow> run_dav (k (Inl e)) w m hs st
   | Inr h \<Rightarrow> run_dav (k (Inr (length hs))) w m (hs @ [h]) st)"
| "run_dav (CallMkdir name k) w m hs st = (case fs_Mkdir m name (wr_now w) st of (r, st') \<Rightarrow> run_dav (k r) w m hs st')"
| "run_dav (CallRemoveAll name k) w m hs st = (case fs_RemoveAll m name st of (r, st') \<Rightarrow> run_dav (k r) w m hs st')"
| "run_dav (CallRename old new k) w m hs st = (case fs_Rename m old new st of (r, st') \<Rightarrow> run_dav (k r) w m hs st')"
| "run_dav (CallReaddir i n k) w m hs st = (case on_handle hs i (\<lambda>h. Readdir n h (rp_db st)) of (r, hs') \<Rightarrow> run_dav (k r) w m hs' st)"
| "run_dav (CallRead i n k) w m hs st = (case on_handle hs i (handle_Read (wr_env w) st n) of (r, hs') \<Rightarrow> run_dav (k r) w m hs' st)"
| "run_dav (CallSeek i offs whence k) w m hs st = (case on_handle hs i (handle_Seek (wr_env w) st offs whence) of (r, hs') \<Rightarrow> run_dav (k r) w m hs' st)"
| "run_dav (CallWrite i b k) w m hs st = (case on_handle hs i (handle_Write b) of (r, hs') \<Rightarrow> run_dav (k r) w m hs' st)"
| "run_dav (CallFileStat i k) w m hs st = run_dav (k (if i < length hs then handle_Stat (wr_now w) (hs ! i) else Inl ErrInvalid)) w m hs st"
| "run_dav (CallClose i k) w m hs st =
     (if i < length hs then (case handle_Close (wr_env w) (wr_ups w st) (wr_now w) (wr_fault w) (hs ! i) st of
        (r, h, st') \<Rightarrow> run_dav (k r) w m (hs[i := h]) st')
      else run_dav (k (Inl ErrInvalid)) w m hs st)"

type_synonym library = "web_request \<Rightarrow> dav_prog"

definition dav_handler :: "library \<Rightarrow> module_fs \<Rightarrow> repo handler" where
  "dav_handler lib m w r st = run_dav (lib r) w m [] st"

text \<open>The handler chain of a module, made when the module is opened.\<close>

definition module_prefix :: "string \<Rightarrow> string" where
  "module_prefix name = CHR ''/'' # name"

definition buildModuleHandler :: "library \<Rightarrow> module_section \<Rightarrow> int \<Rightarrow> repo handler" where
  "buildModuleHandler lib ms opened =
     (let pre = module_prefix (ms_name ms);
          m = \<lparr>mf_readOnly = ms_readonly ms, mf_urlRoot = pre, mf_rootName = ms_name ms, mf_rootTime = opened\<rparr> in
      readOnlyGuard (ms_readonly ms) (idempotentDelete pre (dirBrowse pre (streamingPut pre (dav_handler lib m)))))"

subsection \<open>The module cache\<close>

text \<open>
  An entry is used under its lock.  \<open>openOne\<close> opens the module, in a state of type \<open>'w\<close>; the zero time
  is None.  The result is the handler or the error, whether a new round of failures begins, and the cache.
\<close>

record 'h module_entry =
  me_handler :: "'h option"
  me_until :: "int option"
  me_failing :: bool

record 'h module_cache =
  mc_cooldown :: int
  mc_order :: "string list"
  mc_entries :: "string \<Rightarrow> 'h module_entry option"

definition newModuleCache :: "int \<Rightarrow> string list \<Rightarrow> 'h module_cache" where
  "newModuleCache cooldown order = \<lparr>mc_cooldown = cooldown, mc_order = order,
     mc_entries = (\<lambda>n. if n \<in> set order then Some \<lparr>me_handler = None, me_until = None, me_failing = False\<rparr> else None)\<rparr>"

definition set_entry :: "string \<Rightarrow> 'h module_entry \<Rightarrow> 'h module_cache \<Rightarrow> 'h module_cache" where
  "set_entry n e c = c\<lparr>mc_entries := (mc_entries c)(n \<mapsto> e)\<rparr>"

definition preload :: "string \<Rightarrow> 'h \<Rightarrow> 'h module_cache \<Rightarrow> 'h module_cache" where
  "preload n h c = (case mc_entries c n of None \<Rightarrow> c
     | Some e \<Rightarrow> set_entry n (e\<lparr>me_handler := Some h, me_failing := False\<rparr>) c)"

definition errModuleNotReady :: goerr where "errModuleNotReady = Err ''module not ready''"

definition cache_open :: "string \<Rightarrow> int \<Rightarrow> ('w \<Rightarrow> 'm result \<times> 'w) \<Rightarrow> ('m \<Rightarrow> 'h) \<Rightarrow> 'h module_cache \<Rightarrow> 'w \<Rightarrow> 'h result \<times> bool \<times> 'h module_cache \<times> 'w" where
  "cache_open name now openOne build c w = (case mc_entries c name of
       None \<Rightarrow> (Inl errModuleNotReady, False, c, w)
     | Some e \<Rightarrow> (case me_handler e of
         Some h \<Rightarrow> (Inr h, False, c, w)
       | None \<Rightarrow>
           if (case me_until e of None \<Rightarrow> False | Some t \<Rightarrow> now < t) then (Inl errModuleNotReady, False, c, w)
           else let e1 = e\<lparr>me_failing := False\<rparr> in
             case openOne w of
               (Inl x, w') \<Rightarrow> (Inl errModuleNotReady, \<not> me_failing e1,
                  set_entry name (e1\<lparr>me_failing := True, me_until := Some (now + mc_cooldown c)\<rparr>) c, w')
             | (Inr md, w') \<Rightarrow> (Inr (build md), False,
                  set_entry name \<lparr>me_handler = Some (build md), me_until = None, me_failing = False\<rparr> c, w')))"

definition cache_names :: "'h module_cache \<Rightarrow> string list" where
  "cache_names c = filter (\<lambda>n. case mc_entries c n of None \<Rightarrow> False | Some e \<Rightarrow> me_handler e \<noteq> None) (mc_order c)"

subsection \<open>The virtual root\<close>

text \<open>\<open>xml.EscapeText\<close>, on text whose bytes above 127 are valid UTF-8.\<close>

definition xml_char :: "char \<Rightarrow> string" where
  "xml_char c =
     (if c = CHR 0x22 then ''&#34;'' else if c = CHR 0x27 then ''&#39;'' else if c = CHR ''&'' then ''&amp;''
      else if c = CHR ''<'' then ''&lt;'' else if c = CHR ''>'' then ''&gt;'' else if c = CHR 0x09 then ''&#x9;''
      else if c = CHR 0x0A then ''&#xA;'' else if c = CHR 0x0D then ''&#xD;''
      else if byte_of c < 32 then [CHR 0xEF, CHR 0xBF, CHR 0xBD] else [c])"

definition xmlEscapeText :: "string \<Rightarrow> string" where
  "xmlEscapeText s = concat (map xml_char s)"

definition line_end :: string where "line_end = [CHR 0x0A]"

definition writeRootResponse :: "string \<Rightarrow> string" where
  "writeRootResponse name =
     (let href = (if name \<noteq> [] then ''/'' @ name @ ''/'' else ''/''); display = (if name \<noteq> [] then name else ''crysync'') in
      '' <D:response>'' @ line_end @ ''  <D:href>'' @ xmlEscapeText href @ ''</D:href>'' @ line_end @
      ''  <D:propstat>'' @ line_end @ ''   <D:prop>'' @ line_end @
      ''    <D:displayname>'' @ xmlEscapeText display @ ''</D:displayname>'' @ line_end @
      ''    <D:resourcetype><D:collection/></D:resourcetype>'' @ line_end @
      ''    <D:getlastmodified>Thu, 01 Jan 1970 00:00:00 GMT</D:getlastmodified>'' @ line_end @
      ''    <D:supportedlock><D:lockentry xmlns:D='' @ quoted ''DAV:'' @ ''><D:lockscope><D:exclusive/></D:lockscope><D:locktype><D:write/></D:locktype></D:lockentry></D:supportedlock>'' @ line_end @
      ''   </D:prop>'' @ line_end @ ''   <D:status>HTTP/1.1 200 OK</D:status>'' @ line_end @
      ''  </D:propstat>'' @ line_end @ '' </D:response>'' @ line_end)"

definition root_propfind :: "string list \<Rightarrow> web_request \<Rightarrow> web_reply" where
  "root_propfind names r = \<lparr>wy_status = 207, wy_headers = [(''Content-Type'', ''application/xml; charset=utf-8'')],
     wy_body = ''<?xml version='' @ quoted ''1.0'' @ '' encoding='' @ quoted ''utf-8'' @ ''?>'' @ line_end @
       ''<D:multistatus xmlns:D='' @ quoted ''DAV:'' @ ''>'' @ line_end @ writeRootResponse [] @
       (if wq_depth r \<noteq> ''0'' then concat (map writeRootResponse names) else []) @ ''</D:multistatus>''\<rparr>"

definition getIndex :: "string list \<Rightarrow> web_reply" where
  "getIndex names = \<lparr>wy_status = 200, wy_headers = [(''Content-Type'', ''text/html; charset=utf-8'')],
     wy_body = ''<!DOCTYPE html><html><head><title>crysync</title></head><body><ul>'' @
       concat (map (\<lambda>n. ''<li><a href='' @ quoted (xmlEscapeText (''/'' @ n @ ''/'')) @ ''>'' @ xmlEscapeText n @ ''/</a></li>'') names) @
       ''</ul></body></html>''\<rparr>"

definition rootReply :: "string list \<Rightarrow> web_request \<Rightarrow> web_reply" where
  "rootReply names r =
     (if wq_path r \<noteq> ''/'' then http_Error ''not found'' 404
      else if wq_method r = ''OPTIONS'' then \<lparr>wy_status = 200, wy_headers = [(''Allow'', ''OPTIONS, GET, HEAD, PROPFIND''), (''DAV'', ''1, 2''), (''MS-Author-Via'', ''DAV'')], wy_body = []\<rparr>
      else if wq_method r = ''PROPFIND'' then root_propfind names r
      else if wq_method r = ''GET'' \<or> wq_method r = ''HEAD'' then getIndex names
      else http_Error ''root is read-only'' 405)"

subsection \<open>The server\<close>

text \<open>
  \<open>http.ServeMux\<close> with a subtree pattern for every module and the catch-all: a request goes to the most
  specific pattern that its escaped path matches, segment by segment; a path that is not clean, or a
  module's without its slash, is redirected.
\<close>

datatype target = Redirect string | ToModule string | ToRoot

definition unescape_seg :: "string \<Rightarrow> string" where
  "unescape_seg p = (case PathUnescape p of Inr t \<Rightarrow> t | Inl _ \<Rightarrow> p)"

definition pattern_matches :: "string \<Rightarrow> string \<Rightarrow> bool" where
  "pattern_matches path name \<longleftrightarrow>
     (let segs = map unescape_seg (tl (split_at CHR ''/'' path)); ns = split_at CHR ''/'' name in
      length ns < length segs \<and> take (length ns) segs = ns)"

definition best_match :: "string list \<Rightarrow> string \<Rightarrow> string option" where
  "best_match names path = fold (\<lambda>n best. if pattern_matches path n \<and>
     (case best of None \<Rightarrow> True | Some b \<Rightarrow> length (split_at CHR ''/'' b) < length (split_at CHR ''/'' n)) then Some n else best) names None"

definition exact_match :: "string option \<Rightarrow> string \<Rightarrow> bool" where
  "exact_match n path \<longleftrightarrow> (case n of None \<Rightarrow> path = ''/''
     | Some name \<Rightarrow> length (split_at CHR ''/'' path) = length (split_at CHR ''/'' name) + 2 \<and> last path = CHR ''/'')"

definition mux_route :: "string list \<Rightarrow> string \<Rightarrow> string \<Rightarrow> target" where
  "mux_route names meth raw =
     (let path = (if meth = ''CONNECT'' then raw else http_cleanPath raw);
          n = best_match names path in
      if \<not> exact_match n path \<and> \<not> HasSuffix path ''/'' \<and> best_match names (path @ ''/'') \<noteq> None \<and> exact_match (best_match names (path @ ''/'')) (path @ ''/'')
      then Redirect (path @ ''/'')
      else if path \<noteq> raw then Redirect path
      else case n of None \<Rightarrow> ToRoot | Some name \<Rightarrow> ToModule name)"

text \<open>
  The cache holds for every open module the time when its handler was made, from which the handler is
  rebuilt.  The repositories are those of the modules, open or not.
\<close>

record web_state =
  ws_cache :: "int module_cache"
  ws_repos :: "string \<Rightarrow> repo"

definition moduleHandler :: "library \<Rightarrow> module_section \<Rightarrow> web_state handler" where
  "moduleHandler lib ms w r s =
     (case cache_open (ms_name ms) (wr_now w) (\<lambda>_. (case wr_open w (ms_name ms) of None \<Rightarrow> Inr () | Some e \<Rightarrow> Inl e, ())) (\<lambda>_. wr_now w) (ws_cache s) () of
        (Inl e, first, c, _) \<Rightarrow> (add_headers [(''Retry-After'', ''30'')] (http_Error ''503 Service Unavailable'' 503), s\<lparr>ws_cache := c\<rparr>)
      | (Inr opened, first, c, _) \<Rightarrow>
          (case buildModuleHandler lib ms opened w r (ws_repos s (ms_name ms)) of
             (y, st) \<Rightarrow> (y, s\<lparr>ws_cache := c, ws_repos := (ws_repos s)(ms_name ms := st)\<rparr>)))"

definition rootHandler :: "web_state handler" where
  "rootHandler w r s = (rootReply (cache_names (ws_cache s)) r, s)"

definition buildMux :: "library \<Rightarrow> (string \<times> string) list \<Rightarrow> module_section list \<Rightarrow> web_state handler" where
  "buildMux lib users mods w r s =
     (case mux_route (map ms_name mods) (wq_method r) (wq_raw r) of
        Redirect loc \<Rightarrow> (\<lparr>wy_status = 301, wy_headers = [(''Location'', loc)], wy_body = []\<rparr>, s)
      | ToRoot \<Rightarrow> basicAuth users rootHandler w r s
      | ToModule name \<Rightarrow> (case find (\<lambda>ms. ms_name ms = name) mods of
          None \<Rightarrow> basicAuth users rootHandler w r s
        | Some ms \<Rightarrow> basicAuth users (moduleHandler lib ms) w r s))"

text \<open>What \<open>Serve\<close> prepares before it listens: the modules that open are in the cache.\<close>

definition moduleOpenCooldown :: int where "moduleOpenCooldown = 30 * 1000000000"

definition start_cache :: "int \<Rightarrow> (string \<Rightarrow> goerr option) \<Rightarrow> int \<Rightarrow> module_section list \<Rightarrow> int module_cache" where
  "start_cache cooldown opens now mods =
     fold (\<lambda>ms c. if opens (ms_name ms) = None then preload (ms_name ms) now c else c) mods
       (newModuleCache cooldown (map ms_name mods))"

end
