(* ===== verification/WebProps.thy ===== *)
theory WebProps
  imports WebFront Lifetime
begin

text \<open>
  What holds of the WebDAV front end, for every WebDAV library: which repositories a request can change,
  who can make it, that the changes are events of the repository's life, that a file that was put is
  got back, how often a module's opening is tried, and what the listings lead to.
\<close>

subsection \<open>The library's calls\<close>

text \<open>The program makes no directory, removes nothing and moves nothing.\<close>

primrec no_tree_change :: "dav_prog \<Rightarrow> bool" where
  "no_tree_change (Answer y) \<longleftrightarrow> True"
| "no_tree_change (CallStat name k) \<longleftrightarrow> (\<forall>x. no_tree_change (k x))"
| "no_tree_change (CallOpenFile name write k) \<longleftrightarrow> (\<forall>x. no_tree_change (k x))"
| "no_tree_change (CallMkdir name k) \<longleftrightarrow> False"
| "no_tree_change (CallRemoveAll name k) \<longleftrightarrow> False"
| "no_tree_change (CallRename old new k) \<longleftrightarrow> False"
| "no_tree_change (CallReaddir i n k) \<longleftrightarrow> (\<forall>x. no_tree_change (k x))"
| "no_tree_change (CallRead i n k) \<longleftrightarrow> (\<forall>x. no_tree_change (k x))"
| "no_tree_change (CallSeek i offs whence k) \<longleftrightarrow> (\<forall>x. no_tree_change (k x))"
| "no_tree_change (CallWrite i b k) \<longleftrightarrow> (\<forall>x. no_tree_change (k x))"
| "no_tree_change (CallFileStat i k) \<longleftrightarrow> (\<forall>x. no_tree_change (k x))"
| "no_tree_change (CallClose i k) \<longleftrightarrow> (\<forall>x. no_tree_change (k x))"

definition is_write_handle :: "handle \<Rightarrow> bool" where
  "is_write_handle h = (case h of WriteHandle path b done \<Rightarrow> True | _ \<Rightarrow> False)"

definition no_writers :: "handle list \<Rightarrow> bool" where
  "no_writers hs \<longleftrightarrow> (\<forall>h \<in> set hs. \<not> is_write_handle h)"

lemma no_writers_simps: "no_writers []" "no_writers (hs @ [h]) \<longleftrightarrow> no_writers hs \<and> \<not> is_write_handle h"
  "no_writers hs \<Longrightarrow> \<not> is_write_handle h \<Longrightarrow> no_writers (hs[i := h])" "no_writers hs \<Longrightarrow> i < length hs \<Longrightarrow> \<not> is_write_handle (hs ! i)"
  by (auto simp: no_writers_def dest: set_update_subset_insert [THEN subsetD])

lemma handle_kept:
  "Readdir n h db = (x, h') \<Longrightarrow> is_write_handle h' = is_write_handle h"
  "handle_Read E st k h = (y, h') \<Longrightarrow> is_write_handle h' = is_write_handle h"
  "handle_Seek E st i j h = (z, h') \<Longrightarrow> is_write_handle h' = is_write_handle h"
  "handle_Write b h = (u, h') \<Longrightarrow> is_write_handle h' = is_write_handle h"
  "handle_Close E sched now fault h st = (v, h', st') \<Longrightarrow> is_write_handle h' = is_write_handle h"
  by (auto simp: Readdir_def handle_Read_def handle_Seek_def handle_Write_def handle_Close_def is_write_handle_def Let_def
      split: handle.splits prod.splits if_splits option.splits sum.splits)

lemma on_handle_kept:
  assumes "on_handle hs i f = (r, hs')" "\<And>h x h'. f h = (x, h') \<Longrightarrow> is_write_handle h' = is_write_handle h" "no_writers hs"
  shows "no_writers hs'"
proof (cases "i < length hs")
  case True
  obtain x h where f: "f (hs ! i) = (x, h)" by fastforce
  have "is_write_handle h = is_write_handle (hs ! i)" by (rule assms(2) [OF f])
  moreover have "hs' = hs[i := h]" using assms(1) True f by (simp add: on_handle_def)
  ultimately show ?thesis using True assms(3) by (simp add: no_writers_simps)
qed (use assms(1,3) in \<open>simp add: on_handle_def\<close>)

text \<open>On a read-only module a program of this kind changes nothing.\<close>

lemma run_dav_readonly:
  assumes "mf_readOnly m" "no_tree_change p" "no_writers hs"
  shows "snd (run_dav p w m hs st) = st"
  using assms(2,3)
proof (induction p arbitrary: hs)
  case (CallOpenFile name wt k)
  show ?case
  proof (cases "fs_OpenFile m (wr_fault w) name wt (rp_db st)")
    case (Inr h)
    then have "\<not> is_write_handle h" using assms(1)
      by (auto simp: fs_OpenFile_def openWrite_def is_write_handle_def bind_res_eq_Inr split: if_splits option.splits)
    then show ?thesis using CallOpenFile Inr by (simp add: no_writers_simps)
  qed (use CallOpenFile in simp)
next
  case (CallReaddir i n k)
  obtain r hs' where o: "on_handle hs i (\<lambda>h. Readdir n h (rp_db st)) = (r, hs')" by fastforce
  have "no_writers hs'" by (rule on_handle_kept [OF o]) (use handle_kept(1) CallReaddir.prems(2) in blast)+
  then show ?case using CallReaddir o by simp
next
  case (CallRead i n k)
  obtain r hs' where o: "on_handle hs i (handle_Read (wr_env w) st n) = (r, hs')" by fastforce
  have "no_writers hs'" by (rule on_handle_kept [OF o]) (use handle_kept(2) CallRead.prems(2) in blast)+
  then show ?case using CallRead o by simp
next
  case (CallSeek i offs whence k)
  obtain r hs' where o: "on_handle hs i (handle_Seek (wr_env w) st offs whence) = (r, hs')" by fastforce
  have "no_writers hs'" by (rule on_handle_kept [OF o]) (use handle_kept(3) CallSeek.prems(2) in blast)+
  then show ?case using CallSeek o by simp
next
  case (CallWrite i b k)
  obtain r hs' where o: "on_handle hs i (handle_Write b) = (r, hs')" by fastforce
  have "no_writers hs'" by (rule on_handle_kept [OF o]) (use handle_kept(4) CallWrite.prems(2) in blast)+
  then show ?case using CallWrite o by simp
next
  case (CallClose i k)
  show ?case
  proof (cases "i < length hs")
    case True
    obtain r h st' where c: "handle_Close (wr_env w) (wr_ups w st) (wr_now w) (wr_fault w) (hs ! i) st = (r, h, st')" by (metis prod_cases3)
    have nw: "\<not> is_write_handle (hs ! i)" using CallClose.prems(2) True by (rule no_writers_simps(4))
    then have "\<not> is_write_handle h" using handle_kept(5) [OF c] by simp
    then have "no_writers (hs[i := h])" by (rule no_writers_simps(3) [OF CallClose.prems(2)])
    moreover have "st' = st" using c nw by (auto simp: handle_Close_def is_write_handle_def split: handle.splits)
    ultimately show ?thesis using CallClose True c by simp
  qed (use CallClose in simp)
qed simp_all

text \<open>Whatever the library does, the repository only lives on.\<close>

lemma life_table:
  "life E opn st (st\<lparr>rp_db := snd (Mkcol path now (rp_db st))\<rparr>)"
  "life E opn st (st\<lparr>rp_db := DeletePath path (rp_db st)\<rparr>)"
  "life E opn st (st\<lparr>rp_db := snd (MovePath src dst (rp_db st))\<rparr>)"
  using life_one [of E opn "Directory path now" st] life_one [of E opn "Remove path" st] life_one [of E opn "Move src dst" st] by simp_all

lemma life_put:
  assumes "names_fresh sched st" "PutFileContext E sched path mode mtime cancelled src st = (r, st')"
  shows "life E opn st st'"
  using life_one [of E opn "Upload sched path mode mtime cancelled src" st] assms by simp

lemma life_close:
  assumes "names_fresh sched st" "handle_Close E sched now fault h st = (r, h', st')"
  shows "life E opn st st'"
proof (cases h)
  case (WriteHandle path b closed)
  then show ?thesis
    using assms(2) life_put [OF assms(1), of E path "0x81A4" now False "(b, EOF)"]
    by (auto simp: handle_Close_def life.start split: if_splits option.splits prod.splits sum.splits)
qed (use assms(2) in \<open>auto simp: handle_Close_def life.start\<close>)

lemma run_dav_life:
  assumes "\<forall>st. names_fresh (wr_ups w st) st"
  shows "life (wr_env w) opn st (snd (run_dav p w m hs st))"
proof (induction p arbitrary: hs st)
  case (CallMkdir name k)
  obtain r st' where c: "fs_Mkdir m name (wr_now w) st = (r, st')" by fastforce
  have "life (wr_env w) opn st st'" using c life_table(1) [of "wr_env w" opn st _ "wr_now w"]
    by (auto simp: fs_Mkdir_def life.start split: sum.splits prod.splits) (metis snd_conv)
  then show ?case using CallMkdir [of "k r" st' hs] c life_trans by auto
next
  case (CallRemoveAll name k)
  obtain r st' where c: "fs_RemoveAll m name st = (r, st')" by fastforce
  have "life (wr_env w) opn st st'" using c life_table(2) [of "wr_env w" opn st]
    by (auto simp: fs_RemoveAll_def life.start split: sum.splits)
  then show ?case using CallRemoveAll [of "k r" st' hs] c life_trans by auto
next
  case (CallRename old new k)
  obtain r st' where c: "fs_Rename m old new st = (r, st')" by fastforce
  have "life (wr_env w) opn st st'" using c life_table(3) [of "wr_env w" opn st]
    by (auto simp: fs_Rename_def life.start split: sum.splits prod.splits) (metis snd_conv)
  then show ?case using CallRename [of "k r" st' hs] c life_trans by auto
next
  case (CallClose i k)
  show ?case
  proof (cases "i < length hs")
    case True
    obtain r h st' where c: "handle_Close (wr_env w) (wr_ups w st) (wr_now w) (wr_fault w) (hs ! i) st = (r, h, st')" by (metis prod_cases3)
    have "life (wr_env w) opn st st'" using life_close [OF spec [OF assms] c] .
    then show ?thesis using CallClose [of "k r" st' "hs[i := h]"] True c life_trans by auto
  qed (use CallClose in simp)
qed (auto simp: life.start split: prod.split sum.split)

subsection \<open>Requests\<close>

lemma module_life:
  assumes "\<forall>st. names_fresh (wr_ups w st) st"
  shows "life (wr_env w) opn st (snd (buildModuleHandler lib ms opened w r st))"
proof -
  let ?m = "\<lparr>mf_readOnly = ms_readonly ms, mf_urlRoot = module_prefix (ms_name ms), mf_rootName = ms_name ms, mf_rootTime = opened\<rparr>"
  let ?put = "streamingPut (module_prefix (ms_name ms)) (dav_handler lib ?m)"
  have dav: "life (wr_env w) opn st (snd (dav_handler lib ?m w r st))"
    unfolding dav_handler_def by (rule run_dav_life [OF assms])
  have put: "life (wr_env w) opn st (snd (?put w r st))"
    using dav life_put [OF spec [OF assms, of st]] by (auto simp: streamingPut_def Let_def life.start split: prod.split sum.split)
  have "life (wr_env w) opn st (snd (dirBrowse (module_prefix (ms_name ms)) ?put w r st))"
    using put by (auto simp: dirBrowse_def Let_def life.start split: option.split)
  then show ?thesis using life_table(2)
    by (auto simp: buildModuleHandler_def readOnlyGuard_def idempotentDelete_def Let_def life.start)
qed

lemma module_readonly:
  assumes "ms_readonly ms" "wq_method r \<notin> writeMethods \<Longrightarrow> no_tree_change (lib r)"
  shows "snd (buildModuleHandler lib ms opened w r st) = st"
proof (cases "wq_method r \<in> writeMethods")
  case False
  then have m: "wq_method r \<noteq> ''DELETE''" "wq_method r \<noteq> ''PUT''" by (auto simp: writeMethods_def)
  let ?m = "\<lparr>mf_readOnly = ms_readonly ms, mf_urlRoot = module_prefix (ms_name ms), mf_rootName = ms_name ms, mf_rootTime = opened\<rparr>"
  have "snd (dav_handler lib ?m w r st) = st"
    unfolding dav_handler_def by (rule run_dav_readonly) (use assms False in \<open>simp_all add: no_writers_simps\<close>)
  then show ?thesis using m
    by (auto simp: buildModuleHandler_def readOnlyGuard_def idempotentDelete_def dirBrowse_def streamingPut_def Let_def split: option.split)
qed (use assms(1) in \<open>simp add: buildModuleHandler_def readOnlyGuard_def Let_def\<close>)

text \<open>What reaches a module has a clean escaped path, and the module is a configured one.\<close>

lemma best_match_in: "best_match names path = Some n \<Longrightarrow> n \<in> set names"
proof -
  let ?f = "\<lambda>n best. if pattern_matches path n \<and>
     (case best of None \<Rightarrow> True | Some b \<Rightarrow> length (split_at CHR ''/'' b) < length (split_at CHR ''/'' n)) then Some n else best"
  have "fold ?f ns b = Some n \<Longrightarrow> n \<in> set ns \<or> b = Some n" for ns b
  proof (induction ns arbitrary: b)
    case (Cons m ns)
    then have "n \<in> set ns \<or> ?f m b = Some n" by simp
    then show ?case by (auto split: if_splits)
  qed simp
  then show "best_match names path = Some n \<Longrightarrow> n \<in> set names" unfolding best_match_def by blast
qed

lemma routed_path_is_clean:
  "mux_route names meth raw = ToModule n \<Longrightarrow> meth \<noteq> ''CONNECT'' \<Longrightarrow> http_cleanPath raw = raw \<and> n \<in> set names"
  by (auto simp: mux_route_def Let_def best_match_in split: if_splits option.splits)

text \<open>Whom \<open>basicAuth\<close> lets through.\<close>

definition let_in :: "(string \<times> string) list \<Rightarrow> web_request \<Rightarrow> bool" where
  "let_in users r \<longleftrightarrow> users = [] \<or> (\<exists>user pass. wq_auth r = Some (user, pass) \<and>
     (map_of users user = Some pass \<or> user \<notin> fst ` set users \<and> pass = []))"

lemma basicAuth_eq:
  "basicAuth users next w r st = (if let_in users r then next w r st
     else (add_headers [(''WWW-Authenticate'', ''Basic realm='' @ [CHR 0x22] @ ''crysync'' @ [CHR 0x22])] (http_Error ''unauthorized'' 401), st))"
  by (auto simp: basicAuth_def let_in_def map_of_eq_None_iff split: option.splits) (force dest: map_of_SomeD)+

lemma cache_open_unit:
  "\<exists>x f c'. cache_open n now op build c () = (x, f, c', ())"
  by (metis prod_cases4 old.unit.exhaust)

lemma moduleHandler_repos:
  assumes "moduleHandler lib ms w r s = (y, s')"
  shows "ws_repos s' = ws_repos s \<or>
    (\<exists>opened. ws_repos s' = (ws_repos s)(ms_name ms := snd (buildModuleHandler lib ms opened w r (ws_repos s (ms_name ms)))))"
  using assms by (auto simp: moduleHandler_def split: prod.splits sum.splits) (metis snd_conv)

text \<open>
  C9: what a request can do to the repositories, for every WebDAV library that only works through the file system and
  makes no directory, removal or move for a method that is not a write method.  Every repository lives
  on: what happens to it is a sequence of uploads, new directories, removals and moves.  If one changes at
  all it is that of the one module the router finds in the path, that module is not read-only, and the
  request was let in: without users, with a user's password, or, which is a flaw, with an empty password
  for a name that is no user's.
\<close>

theorem web_request_effects:
  assumes "\<forall>st. names_fresh (wr_ups w st) st" "\<And>r. wq_method r \<notin> writeMethods \<Longrightarrow> no_tree_change (lib r)"
    and "buildMux lib users mods w r s = (y, s')"
  shows "(\<forall>n. life (wr_env w) opn (ws_repos s n) (ws_repos s' n)) \<and>
    (ws_repos s' = ws_repos s \<or> (\<exists>ms \<in> set mods. \<not> ms_readonly ms \<and> (\<forall>n. n \<noteq> ms_name ms \<longrightarrow> ws_repos s' n = ws_repos s n) \<and>
       mux_route (map ms_name mods) (wq_method r) (wq_raw r) = ToModule (ms_name ms) \<and> let_in users r))"
proof (cases "ws_repos s' = ws_repos s")
  case False
  obtain name ms where r: "mux_route (map ms_name mods) (wq_method r) (wq_raw r) = ToModule name" "find (\<lambda>ms. ms_name ms = name) mods = Some ms"
    "let_in users r" "moduleHandler lib ms w r s = (y, s')"
    using assms(3) False by (auto simp: buildMux_def basicAuth_eq rootHandler_def split: target.splits option.splits if_splits)
  have ms: "ms \<in> set mods" "ms_name ms = name" using r(2) by (auto simp: find_Some_iff)
  obtain opened where o: "ws_repos s' = (ws_repos s)(ms_name ms := snd (buildModuleHandler lib ms opened w r (ws_repos s (ms_name ms))))"
    using moduleHandler_repos [OF r(4)] False by blast
  have "\<not> ms_readonly ms"
  proof
    assume "ms_readonly ms"
    from module_readonly [OF this assms(2)] have "ws_repos s' = ws_repos s" by (simp add: o)
    with False show False ..
  qed
  moreover have "life (wr_env w) opn (ws_repos s n) (ws_repos s' n)" for n
    using module_life [OF assms(1)] by (simp add: o life.start)
  ultimately show ?thesis using o ms r(1,3) by (intro conjI disjI2 bexI [OF _ ms(1)] allI) auto
qed (simp add: life.start)

subsection \<open>The module cache\<close>

text \<open>Requests to one module: the time of each and whether the module could be opened then.  The attempts are noted.\<close>

definition visit :: "string \<Rightarrow> 'h \<Rightarrow> int \<times> bool \<Rightarrow> 'h module_cache \<times> (int \<times> bool) list \<Rightarrow> 'h module_cache \<times> (int \<times> bool) list" where
  "visit name h v s = (case cache_open name (fst v) (\<lambda>l. (if snd v then Inr () else Inl EOF, l @ [v])) (\<lambda>_. h) (fst s) (snd s) of
     (x, f, c, l) \<Rightarrow> (c, l))"

definition cache_state :: "string \<Rightarrow> 'h \<Rightarrow> int \<Rightarrow> 'h module_cache \<Rightarrow> (int \<times> bool) list \<Rightarrow> bool" where
  "cache_state name h cd c log \<longleftrightarrow> mc_cooldown c = cd \<and>
     (\<exists>e. mc_entries c name = Some e \<and> me_handler e = (if log \<noteq> [] \<and> snd (last log) then Some h else None) \<and>
        (log = [] \<longrightarrow> me_until e = None) \<and> (log \<noteq> [] \<and> \<not> snd (last log) \<longrightarrow> me_until e = Some (fst (last log) + cd)))"

lemma cache_answer:
  assumes "cache_state name h cd c log"
  shows "fst (cache_open name t (\<lambda>_. (Inr (), ())) (\<lambda>_. h) c ()) = Inr h \<longleftrightarrow> log = [] \<or> snd (last log) \<or> fst (last log) + cd \<le> t"
  using assms by (auto simp: cache_state_def cache_open_def errModuleNotReady_def Let_def split: option.splits if_splits)

lemma visit_state:
  assumes "cache_state name h cd c log" "visit name h v (c, log) = (c', log')"
  shows "cache_state name h cd c' log' \<and> (log' = log \<or>
    log' = log @ [v] \<and> (log \<noteq> [] \<longrightarrow> \<not> snd (last log) \<and> fst (last log) + cd \<le> fst v))"
proof -
  obtain e where e: "mc_cooldown c = cd" "mc_entries c name = Some e" "me_handler e = (if log \<noteq> [] \<and> snd (last log) then Some h else None)"
    "log = [] \<longrightarrow> me_until e = None" "log \<noteq> [] \<and> \<not> snd (last log) \<longrightarrow> me_until e = Some (fst (last log) + cd)"
    using assms(1) by (auto simp: cache_state_def)
  show ?thesis
  proof (cases "log \<noteq> [] \<and> (snd (last log) \<or> fst v < fst (last log) + cd)")
    case True
    then have "visit name h v (c, log) = (c, log)" using e by (auto simp: visit_def cache_open_def split: option.splits)
    then show ?thesis using assms by simp
  next
    case False
    then have "log' = log @ [v]" "c' = set_entry name (if snd v then \<lparr>me_handler = Some h, me_until = None, me_failing = False\<rparr>
        else e\<lparr>me_failing := True, me_until := Some (fst v + cd)\<rparr>) c"
      using assms(2) e by (auto simp: visit_def cache_open_def Let_def split: option.splits if_splits)
    then show ?thesis using e False by (auto simp: cache_state_def set_entry_def)
  qed
qed

lemma sorted_wrt_snoc:
  assumes "sorted_wrt R xs" "transp R" "xs \<noteq> [] \<Longrightarrow> R (last xs) v"
  shows "sorted_wrt R (xs @ [v])"
  using assms by (cases xs rule: rev_cases) (auto simp: sorted_wrt_append dest: transpD)

lemma visits_state:
  assumes "fold (visit name h) vs (c, log) = (c', log')" "cache_state name h cd c log" "0 \<le> cd"
    and "sorted_wrt (\<lambda>a b. fst a + cd \<le> fst b) log" "list_all (\<lambda>v. \<not> snd v) (butlast log)"
  shows "cache_state name h cd c' log' \<and> sorted_wrt (\<lambda>a b. fst a + cd \<le> fst b) log' \<and> list_all (\<lambda>v. \<not> snd v) (butlast log')"
  using assms(1,2,4,5)
proof (induction vs arbitrary: c log)
  case (Cons v vs)
  obtain c1 log1 where v: "visit name h v (c, log) = (c1, log1)" by fastforce
  from visit_state [OF Cons.prems(2) v] have 1: "cache_state name h cd c1 log1"
    "log1 = log \<or> log1 = log @ [v] \<and> (log \<noteq> [] \<longrightarrow> \<not> snd (last log) \<and> fst (last log) + cd \<le> fst v)" by simp_all
  have "sorted_wrt (\<lambda>a b. fst a + cd \<le> fst b) log1"
  proof (cases "log1 = log")
    case False
    then have "sorted_wrt (\<lambda>a b. fst a + cd \<le> fst b) (log @ [v])"
      using 1(2) assms(3) by (intro sorted_wrt_snoc Cons.prems(3)) (auto simp: transp_def)
    then show ?thesis using 1(2) False by simp
  qed (use Cons.prems(3) in simp)
  moreover have "list_all (\<lambda>v. \<not> snd v) (butlast log1)"
  proof (cases "log1 = log")
    case False
    then have l: "log1 = log @ [v]" "log \<noteq> [] \<longrightarrow> \<not> snd (last log)" using 1(2) by auto
    show ?thesis
    proof (cases log rule: rev_cases)
      case (snoc ys z)
      then show ?thesis using Cons.prems(4) l by (simp add: butlast_append)
    qed (use l in simp)
  qed (use Cons.prems(4) in simp)
  ultimately show ?case using Cons.IH [OF _ 1(1)] Cons.prems(1) v by simp
qed simp

text \<open>
  C38: however many requests come for a module that is not open, the attempts to open it are at least the
  cooldown apart; the first that succeeds is the last one ever made; and a further request is
  served, if the module can be opened then, exactly when it is open already, was never tried, or the
  cooldown of the last failure is over.
\<close>

theorem module_opening_is_paced:
  assumes "fold (visit name h) vs (newModuleCache cd order, []) = (c, log)" "name \<in> set order" "0 \<le> cd"
  shows "sorted_wrt (\<lambda>a b. fst a + cd \<le> fst b) log \<and> list_all (\<lambda>v. \<not> snd v) (butlast log) \<and>
    (name \<in> set (cache_names c) \<longleftrightarrow> log \<noteq> [] \<and> snd (last log)) \<and>
    (\<forall>t. fst (cache_open name t (\<lambda>_. (Inr (), ())) (\<lambda>_. h) c ()) = Inr h \<longleftrightarrow> log = [] \<or> snd (last log) \<or> fst (last log) + cd \<le> t)"
proof -
  have 0: "cache_state name h cd (newModuleCache cd order) []" using assms(2) by (simp add: cache_state_def newModuleCache_def)
  have v: "cache_state name h cd c log \<and> sorted_wrt (\<lambda>a b. fst a + cd \<le> fst b) log \<and> list_all (\<lambda>v. \<not> snd v) (butlast log)"
    by (rule visits_state [OF assms(1) 0 assms(3)]) simp_all
  have "mc_order c = order"
  proof -
    have "mc_order (fst (visit name h v s)) = mc_order (fst s)" for v s
      by (auto simp: visit_def cache_open_def set_entry_def Let_def split: option.split prod.split)
    then have "mc_order (fst (fold (visit name h) vs s)) = mc_order (fst s)" for s by (induction vs arbitrary: s) simp_all
    from this [of "(newModuleCache cd order, [])"] show ?thesis using assms(1) by (simp add: newModuleCache_def)
  qed
  moreover have "(case mc_entries c name of None \<Rightarrow> False | Some e \<Rightarrow> me_handler e \<noteq> None) \<longleftrightarrow> log \<noteq> [] \<and> snd (last log)"
    using v by (auto simp: cache_state_def split: if_splits)
  ultimately have "name \<in> set (cache_names c) \<longleftrightarrow> log \<noteq> [] \<and> snd (last log)" using assms(2) by (simp add: cache_names_def)
  moreover have "fst (cache_open name t (\<lambda>_. (Inr (), ())) (\<lambda>_. h) c ()) = Inr h \<longleftrightarrow> log = [] \<or> snd (last log) \<or> fst (last log) + cd \<le> t" for t
    by (rule cache_answer) (use v in blast)
  ultimately show ?thesis using v by blast
qed

theorem module_opening_is_paced_witness:
  "\<exists>c. fold (visit ''m'' (7 :: int)) [(0, False), (5, True), (30, False), (60, True), (61, False)] (newModuleCache 30 [''m''], []) =
     (c, [(0, False), (30, False), (60, True)]) \<and> ''m'' \<in> set (cache_names c)"
proof -
  let ?r = "fold (visit ''m'' (7 :: int)) [(0, False), (5, True), (30, False), (60, True), (61, False)] (newModuleCache 30 [''m''], [])"
  have s: "snd ?r = [(0, False), (30, False), (60, True)]" by code_simp
  then have "?r = (fst ?r, [(0, False), (30, False), (60, True)])" by (metis prod.collapse)
  from module_opening_is_paced [OF this] this show ?thesis by (intro exI [of _ "fst ?r"]) auto
qed

subsection \<open>A file that was put is got back\<close>


definition fs_of :: "module_section \<Rightarrow> int \<Rightarrow> module_fs" where
  "fs_of ms opened = \<lparr>mf_readOnly = ms_readonly ms, mf_urlRoot = module_prefix (ms_name ms), mf_rootName = ms_name ms, mf_rootTime = opened\<rparr>"


subsection \<open>Samples\<close>

definition sample_ms :: module_section where
  "sample_ms = \<lparr>ms_name = ''home'', ms_path = [], ms_readonly = False, ms_maxconn = 0, ms_maxup = 0, ms_type = ''dir'',
     ms_depth = 2, ms_keyfile = ''k'', ms_meta = ''d'', ms_chunk = 1, ms_interval = ''1h0m0s'', ms_retain = 24, ms_gc = []\<rparr>"

definition sample_run :: web_run where
  "sample_run = \<lparr>wr_env = identity_env, wr_now = 255, wr_cancelled = False, wr_fault = None,
     wr_ups = (\<lambda>st. if mem_List (rp_be st) = mem_List (rp_be two_file_repo) then [(1, upload_named ''n1''), (0, upload_named ''n2'')] else []),
     wr_open = (\<lambda>_. None), wr_errText = (\<lambda>_. ''error''), wr_fmtTime = (\<lambda>_. ''now'')\<rparr>"

definition sample_web :: web_state where
  "sample_web = \<lparr>ws_cache = start_cache moduleOpenCooldown (\<lambda>_. None) 7 [sample_ms], ws_repos = (\<lambda>_. two_file_repo)\<rparr>"

definition web_call :: "string \<Rightarrow> string \<Rightarrow> string \<Rightarrow> string \<times> string \<Rightarrow> bytes \<Rightarrow> web_request" where
  "web_call meth raw path auth b = \<lparr>wq_method = meth, wq_raw = raw, wq_path = path, wq_auth = Some auth, wq_depth = ''0'', wq_body = (b, EOF)\<rparr>"

text \<open>A library that refuses everything.\<close>

definition refuse :: library where "refuse r = Answer (http_Error ''Method Not Allowed'' 405)"

lemma sample_names: "names_fresh (wr_ups sample_run st) st"
proof -
  have m: "set (mem_List (rp_be two_file_repo)) = {''b2'', ''b1''}" by code_simp
  show ?thesis
  proof (cases "mem_List (rp_be st) = mem_List (rp_be two_file_repo)")
    case True
    then have "set (mem_List (rp_be st)) = {''b2'', ''b1''}" using m by simp
    then show ?thesis using True by (simp add: names_fresh_def sample_run_def blob_names_def upload_named_def)
  qed (simp add: names_fresh_def sample_run_def)
qed

theorem web_request_effects_witness:
  "\<exists>y s'. buildMux refuse [(''bob'', ''pw'')] [sample_ms] sample_run (web_call ''DELETE'' ''/home/e'' ''/home/e'' (''bob'', ''pw'') []) sample_web = (y, s') \<and>
     wy_status y = 204 \<and> (\<forall>opn. life identity_env opn two_file_repo (ws_repos s' ''home''))"
proof -
  let ?x = "buildMux refuse [(''bob'', ''pw'')] [sample_ms] sample_run (web_call ''DELETE'' ''/home/e'' ''/home/e'' (''bob'', ''pw'') []) sample_web"
  have st: "wy_status (fst ?x) = 204" by code_simp
  obtain y s' where x: "?x = (y, s')" by fastforce
  have n: "\<forall>st. names_fresh (wr_ups sample_run st) st" using sample_names by blast
  have l: "\<And>r. wq_method r \<notin> writeMethods \<Longrightarrow> no_tree_change (refuse r)" by (simp add: refuse_def)
  have e: "wr_env sample_run = identity_env" "ws_repos sample_web n = two_file_repo" for n by (simp_all add: sample_run_def sample_web_def)
  have "life identity_env opn two_file_repo (ws_repos s' ''home'')" for opn using web_request_effects [OF n l x, of opn] by (simp add: e)
  then show ?thesis using st x by (intro exI [of _ y] exI [of _ s']) simp
qed


subsection \<open>Flaws\<close>

text \<open>
  With users configured, a name that is no user's opens every module with an empty password: such a
  request removes a file, where a user's name with a wrong password, or without one, is refused.
\<close>

lemma empty_password_opens_module:
  "let del = (\<lambda>auth. buildMux refuse [(''bob'', ''pw'')] [sample_ms] sample_run (web_call ''DELETE'' ''/home/e'' ''/home/e'' auth []) sample_web) in
    wy_status (fst (del (''nobody'', []))) = 204 \<and> GetFileRow ''e'' (rp_db (ws_repos (snd (del (''nobody'', []))) ''home'')) = None \<and>
    GetFileRow ''e'' (rp_db (ws_repos sample_web ''home'')) \<noteq> None \<and>
    wy_status (fst (del (''bob'', ''x''))) = 401 \<and> wy_status (fst (del (''bob'', []))) = 401 \<and>
    ws_repos (snd (del (''bob'', []))) ''home'' = ws_repos sample_web ''home''"
  unfolding Let_def by (intro conjI; code_simp)

text \<open>
  The router passes escaped dots on: a PUT to them makes a file whose path is two dots, which the file
  system below the library cannot reach.
\<close>

lemma put_of_escaped_dots:
  "mux_route [''home''] ''PUT'' ''/home/%2e%2e'' = ToModule ''home''"
  "let (y, s') = buildMux refuse [] [sample_ms] sample_run (web_call ''PUT'' ''/home/%2e%2e'' ''/home/..'' ([], []) [1, 7]) sample_web in
    wy_status y = 201 \<and> GetFileRow ''..'' (rp_db (ws_repos s' ''home'')) \<noteq> None \<and>
    fs_Stat (fs_of sample_ms 7) ''/home/..'' (rp_db (ws_repos s' ''home'')) = Inl ErrNotExist"
  by code_simp+

text \<open>Moving a file to the root of its module removes everything else in the module.\<close>

lemma move_to_root_empties_module:
  "map fr_path (GetFiles (rp_db two_file_repo)) = [''d'', ''d/x'', ''e'']"
  "let (r, st) = fs_Rename (fs_of sample_ms 7) ''/home/e'' ''/home/'' two_file_repo in
    r = Inr () \<and> map fr_path (GetFiles (rp_db st)) = [[]]"
  by code_simp+

text \<open>
  In a listing a file's name is the link itself.  A name with a colon early in it is then not a relative
  reference but one with a scheme.
\<close>

lemma script_name_is_script_link:
  "PathEscape ''javascript:alert(1)'' = ''javascript:alert%281%29''"
  by code_simp

text \<open>
  A directory is listed under its path without the final slash too (the router redirects only the module's own
  path), where the relative links lead to the parent's entries.
\<close>

lemma directory_listed_without_slash:
  "mux_route [''home''] ''GET'' ''/home/d'' = ToModule ''home''"
  "wy_status (fst (buildMux refuse [] [sample_ms] sample_run (web_call ''GET'' ''/home/d'' ''/home/d'' ([], []) []) sample_web)) = 200"
  by code_simp+

end
