(* ===== verification/WebdavProps.thy ===== *)
theory WebdavProps
  imports WebdavBackend
begin

text \<open>
  What holds of the WebDAV backend: on every server, a success means that the server accepted the
  blob, and at most three uploads are sent; on a server that behaves like a tree of collections
  (the locale \<open>dav_server\<close>, which states the behaviour of RFC 4918) the backend is a blob store.
\<close>

subsection \<open>Any server\<close>

text \<open>\<open>logged\<close> is a server that also notes what it is asked and whether it accepts.\<close>

definition accepted :: "dav_reply option \<Rightarrow> bool" where
  "accepted r = (case r of None \<Rightarrow> False | Some y \<Rightarrow> 200 \<le> dy_status y \<and> dy_status y < 300)"

definition logged :: "'s server \<Rightarrow> ('s \<times> (dav_request \<times> bool) list) server" where
  "logged srv req s = (let (r, s') = srv req (fst s) in (r, (s', snd s @ [(req, accepted r)])))"

definition put_request :: "(string \<Rightarrow> string) \<Rightarrow> webdav \<Rightarrow> string \<Rightarrow> bytes \<Rightarrow> dav_request" where
  "put_request hx wd name data = \<lparr>dq_method = ''PUT'',
     dq_url = (case blobURL hx wd name of Inr u \<Rightarrow> u | Inl _ \<Rightarrow> []), dq_depth = None, dq_auth = wd_auth wd,
     dq_body = Some data, dq_length = int (length data)\<rparr>"

text \<open>The client's address and credentials stay; only what it knows of the collections changes.\<close>

definition same_client :: "webdav \<Rightarrow> webdav \<Rightarrow> bool" where
  "same_client wd wd' \<longleftrightarrow> (\<exists>K. wd' = wd\<lparr>wd_known := K\<rparr>)"

lemma same_client_refl: "same_client wd wd"
  unfolding same_client_def by (rule exI [of _ "wd_known wd"]) simp

lemma same_client_trans: "same_client a b \<Longrightarrow> same_client b c \<Longrightarrow> same_client a c"
  by (auto simp: same_client_def)

lemma same_client_known: "same_client wd (wd\<lparr>wd_known := K\<rparr>)" "same_client wd (mark_known k wd)" "same_client wd (clearCollections wd)"
  by (auto simp: same_client_def mark_known_def clearCollections_def)

lemma same_client_eqs:
  assumes "same_client wd wd'"
  shows "wd_auth wd' = wd_auth wd" "collectionURL wd' = collectionURL wd" "wd_depth wd' = wd_depth wd" "blobURL hx wd' = blobURL hx wd"
    "put_request hx wd' = put_request hx wd" "metaURL wd' = metaURL wd"
  using assms by (auto simp: same_client_def wd_auth_def collectionURL_def fun_eq_iff blobURL_def put_request_def metaURL_def
      split: sum.splits)

text \<open>One request of the loop over the collections.\<close>

definition is_mkcol :: "dav_request \<times> bool \<Rightarrow> bool" where
  "is_mkcol e \<longleftrightarrow> dq_method (fst e) = ''MKCOL''"

lemma doContext_logged:
  "doContext (logged srv) wd meth url body want (s, lg) = (r, s') \<Longrightarrow>
     \<exists>req ok. snd s' = lg @ [(req, ok)] \<and> dq_method req = meth \<and> dq_url req = url \<and> dq_body req = body \<and> dq_auth req = wd_auth wd \<and>
       dq_depth req = None \<and> dq_length req = (case body of None \<Rightarrow> -1 | Some b \<Rightarrow> int (length b)) \<and>
       (want = [] \<longrightarrow> (ok \<longleftrightarrow> (\<exists>y. r = Inr y)))"
  by (auto simp: doContext_def doReader_def logged_def accepted_def Let_def split: prod.splits option.splits if_splits)

lemma ensure_loop_logged:
  "ensure_loop (logged srv) parts is wd (s, lg) = (r, wd', s') \<Longrightarrow>
     same_client wd wd' \<and> (\<exists>l. snd s' = lg @ l \<and> length l \<le> length is \<and> list_all is_mkcol l)"
proof (induction "is" arbitrary: wd s lg)
  case (Cons i "is")
  let ?key = "join_at CHR ''/'' (take i parts)"
  show ?case
  proof (cases "?key \<in> wd_known wd")
    case True
    then show ?thesis using Cons.IH [of wd s lg] Cons.prems by fastforce
  next
    case False
    obtain r1 s1 where d: "doContext (logged srv) wd ''MKCOL'' (collectionURL wd (take i parts)) None [201, 405] (s, lg) = (r1, s1)"
      by (meson surj_pair)
    obtain req ok where l: "snd s1 = lg @ [(req, ok)]" "dq_method req = ''MKCOL''" using doContext_logged [OF d] by blast
    show ?thesis
    proof (cases r1)
      case (Inl e)
      then show ?thesis using Cons.prems False d l same_client_refl by (auto simp: Let_def is_mkcol_def)
    next
      case (Inr y)
      have e: "ensure_loop (logged srv) parts is (mark_known ?key wd) (fst s1, snd s1) = (r, wd', s')"
        using Cons.prems False d Inr by (simp add: Let_def)
      from Cons.IH [OF e] show ?thesis using l same_client_trans [OF same_client_known(2) [of wd ?key]] by (fastforce simp: is_mkcol_def)
    qed
  qed
qed (auto simp: same_client_refl)

definition is_put :: "dav_request \<times> bool \<Rightarrow> bool" where
  "is_put e \<longleftrightarrow> dq_method (fst e) = ''PUT''"

lemma mkcol_not_put: "list_all is_mkcol l \<Longrightarrow> filter is_put l = []"
  by (induction l) (auto simp: is_mkcol_def is_put_def)

lemma putOnce_logged:
  assumes "putOnce hx (logged srv) name data wd (s, lg) = (r, wd', s')" "bucketParts hx name (wd_depth wd) = Inr parts"
  shows "same_client wd wd' \<and> (\<exists>l p. snd s' = lg @ l @ p \<and> list_all is_mkcol l \<and> length l \<le> length parts \<and>
     (p = [] \<and> r \<noteq> Inr () \<or> (\<exists>ok. p = [(put_request hx wd name data, ok)] \<and> (ok \<longleftrightarrow> r = Inr ()))))"
proof -
  obtain r1 wd1 s1 where e: "ensureCollections (logged srv) parts wd (s, lg) = (r1, wd1, s1)" by (metis prod_cases3)
  have "same_client wd wd1 \<and> (\<exists>l. snd s1 = lg @ l \<and> length l \<le> length [1..<length parts + 1] \<and> list_all is_mkcol l)"
    by (rule ensure_loop_logged) (use e in \<open>simp add: ensureCollections_def\<close>)
  then obtain l where 1: "same_client wd wd1" "snd s1 = lg @ l" "length l \<le> length parts" "list_all is_mkcol l"
    by (auto simp del: upt_Suc)
  show ?thesis
  proof (cases r1)
    case (Inl e')
    then show ?thesis using assms e 1 by (auto simp: putOnce_def)
  next
    case (Inr u)
    obtain r2 s2 where d: "doContext (logged srv) wd1 ''PUT'' (collectionURL wd1 parts @ ''/'' @ PathEscape name) (Some data) [] (fst s1, snd s1) = (r2, s2)"
      by (meson surj_pair)
    have b: "collectionURL wd1 parts @ ''/'' @ PathEscape name = (case blobURL hx wd name of Inr u \<Rightarrow> u | Inl _ \<Rightarrow> [])"
      by (simp add: blobURL_def assms(2) same_client_eqs [OF 1(1)])
    obtain req ok where q: "snd s2 = snd s1 @ [(req, ok)]" "dq_method req = ''PUT''" "dq_body req = Some data" "dq_auth req = wd_auth wd1"
      "dq_depth req = None" "dq_length req = int (length data)" "ok \<longleftrightarrow> (\<exists>y. r2 = Inr y)"
      "dq_url req = collectionURL wd1 parts @ ''/'' @ PathEscape name"
      using doContext_logged [OF d] by auto
    have req: "req = put_request hx wd name data"
      using q b by (intro dav_request.equality) (simp_all add: put_request_def same_client_eqs(1) [OF 1(1)])
    have "wd' = wd1" "s' = s2" "r = Inr () \<longleftrightarrow> (\<exists>y. r2 = Inr y)"
      using assms e Inr d by (auto simp: putOnce_def split: sum.splits)
    then show ?thesis using 1 q(1,7) req by auto
  qed
qed

lemma put_attempts_logged:
  assumes "put_attempts hx (logged srv) cancel name data left wd (s, lg) = (r, wd', s')" "bucketParts hx name (wd_depth wd) = Inr parts"
  shows "same_client wd wd' \<and> (\<exists>l. snd s' = lg @ l \<and> length l \<le> left * (length parts + 1) \<and> list_all (\<lambda>e. is_mkcol e \<or> is_put e) l \<and>
     (let puts = filter is_put l in length puts \<le> left \<and> (\<forall>e \<in> set puts. fst e = put_request hx wd name data) \<and>
        list_all (\<lambda>e. \<not> snd e) (butlast puts) \<and> (r = Inr () \<longleftrightarrow> puts \<noteq> [] \<and> snd (last puts))))"
  using assms
proof (induction left arbitrary: wd s lg)
  case 0
  then show ?case by (auto simp: same_client_refl)
next
  case (Suc left)
  obtain r1 wd1 s1 where p: "putOnce hx (logged srv) name data wd (s, lg) = (r1, wd1, s1)" by (metis prod_cases3)
  obtain l p where 1: "same_client wd wd1" "snd s1 = lg @ l @ p" "list_all is_mkcol l" "length l \<le> length parts"
    "p = [] \<and> r1 \<noteq> Inr () \<or> (\<exists>ok. p = [(put_request hx wd name data, ok)] \<and> (ok \<longleftrightarrow> r1 = Inr ()))"
    using putOnce_logged [OF p Suc.prems(2)] by blast
  have put: "is_put (put_request hx wd name data, ok)" for ok by (simp add: is_put_def put_request_def)
  have fl: "filter is_put (l @ p) = p" using 1(5) put mkcol_not_put [OF 1(3)] by auto
  have len: "length (l @ p) \<le> length parts + 1" using 1(4,5) by auto
  have kinds: "list_all (\<lambda>e. is_mkcol e \<or> is_put e) (l @ p)" using 1(3,5) put by (auto simp: list_all_iff)
  have stop: ?case if "r = r1" "same_client wd wd'" "s' = s1"
  proof -
    have "length (filter is_put (l @ p)) \<le> Suc left" "\<forall>e \<in> set (filter is_put (l @ p)). fst e = put_request hx wd name data"
        "list_all (\<lambda>e. \<not> snd e) (butlast (filter is_put (l @ p)))" "r1 = Inr () \<longleftrightarrow> filter is_put (l @ p) \<noteq> [] \<and> snd (last (filter is_put (l @ p)))"
      unfolding fl using 1(5) by auto
    then show ?thesis using that 1(2) len kinds by (intro conjI exI [of _ "l @ p"]) (auto simp: Let_def simp del: filter_append)
  qed
  show ?case
  proof (cases r1)
    case (Inr u)
    then show ?thesis using Suc.prems(1) p 1(1) by (intro stop) auto
  next
    case (Inl e)
    define wd2 where "wd2 = (if isNotFound e then clearCollections wd1 else wd1)"
    have sc: "same_client wd wd2" using 1(1) same_client_trans [OF 1(1) same_client_known(3)] by (simp add: wd2_def)
    consider "r = Inl e" "wd' = wd1 \<or> wd' = wd2" "s' = s1" | "r = Inl Canceled" "wd' = wd2" "s' = s1"
      | "put_attempts hx (logged srv) cancel name data left wd2 s1 = (r, wd', s')"
    proof -
      have "(r, wd', s') = (if \<not> retryableWriteError e then (Inl e, wd1, s1) else if left = 0 then (Inl e, wd2, s1)
          else if cancel left then (Inl Canceled, wd2, s1) else put_attempts hx (logged srv) cancel name data left wd2 s1)"
        using Suc.prems(1) unfolding put_attempts.simps p Inl wd2_def Let_def by (simp cong: if_cong)
      then show thesis using that by (auto split: if_splits)
    qed
    then show ?thesis
    proof cases
      case 1
      then show ?thesis using Inl sc \<open>same_client wd wd1\<close> by (intro stop) auto
    next
      case 2
      have "length (filter is_put (l @ p)) \<le> Suc left" "\<forall>e \<in> set (filter is_put (l @ p)). fst e = put_request hx wd name data"
        "list_all (\<lambda>e. \<not> snd e) (butlast (filter is_put (l @ p)))" "\<not> (filter is_put (l @ p) \<noteq> [] \<and> snd (last (filter is_put (l @ p))))"
        unfolding fl using 1(5) Inl by auto
      then show ?thesis using 2 sc 1(2) len kinds by (intro conjI exI [of _ "l @ p"]) (auto simp: Let_def simp del: filter_append)
    next
      case 3
      have "put_attempts hx (logged srv) cancel name data left wd2 (fst s1, snd s1) = (r, wd', s')" using 3 by simp
      from Suc.IH [OF this] Suc.prems(2) same_client_eqs [OF sc] obtain l' where
        l': "same_client wd2 wd'" "snd s' = snd s1 @ l'" "length l' \<le> left * (length parts + 1)" "list_all (\<lambda>e. is_mkcol e \<or> is_put e) l'"
        "length (filter is_put l') \<le> left" "\<forall>e \<in> set (filter is_put l'). fst e = put_request hx wd name data"
        "list_all (\<lambda>e. \<not> snd e) (butlast (filter is_put l'))" "r = Inr () \<longleftrightarrow> filter is_put l' \<noteq> [] \<and> snd (last (filter is_put l'))"
        by (auto simp: Let_def)
      have r1: "r1 \<noteq> Inr ()" using Inl by simp
      have pp: "p = [] \<or> p = [(put_request hx wd name data, False)]" using 1(5) r1 by auto
      have bl: "list_all (\<lambda>e. \<not> snd e) (butlast (p @ filter is_put l'))"
        using pp l'(7) by (auto simp: butlast_append)
      have f: "filter is_put ((l @ p) @ l') = p @ filter is_put l'" using fl by simp
      have "length (p @ filter is_put l') \<le> Suc left" "\<forall>e \<in> set (p @ filter is_put l'). fst e = put_request hx wd name data"
        "r = Inr () \<longleftrightarrow> p @ filter is_put l' \<noteq> [] \<and> snd (last (p @ filter is_put l'))"
        using pp l'(5,6,8) by (auto simp: same_client_eqs [OF sc] split: if_splits)
      then show ?thesis
        using same_client_trans [OF sc l'(1)] 1(2) l'(2,3,4) len kinds bl f
        by (intro conjI exI [of _ "(l @ p) @ l'"]) (auto simp: Let_def simp del: filter_append)
    qed
  qed
qed

text \<open>
  On any server, whatever it answers, storing a blob sends at most three uploads, all of them of
  exactly this blob to its own address; every upload but the last was refused; and it reports
  success exactly when the server accepted the last one.  Nothing else is asked of the server than
  to create collections, at most one request for each level and attempt.
\<close>

lemma put_success_is_acknowledged:
  assumes "PutContext hx (logged srv) cancel name data wd (s, []) = (r, wd', (s', log))" "bucketParts hx name (wd_depth wd) = Inr parts"
  shows "(let puts = filter is_put log in length puts \<le> 3 \<and> (\<forall>e \<in> set puts. fst e = put_request hx wd name data) \<and>
        list_all (\<lambda>e. \<not> snd e) (butlast puts) \<and> (r = Inr () \<longleftrightarrow> puts \<noteq> [] \<and> snd (last puts))) \<and>
      list_all (\<lambda>e. is_mkcol e \<or> is_put e) log \<and> length log \<le> 3 * (length parts + 1) \<and> same_client wd wd'"
proof -
  have "put_attempts hx (logged srv) cancel name data 3 wd (s, []) = (r, wd', (s', log))"
    using assms by (simp add: PutContext_def)
  from put_attempts_logged [OF this assms(2)] show ?thesis by auto
qed

definition sample_client :: webdav where
  "sample_client = \<lparr>wd_base = ''http://h/b'', wd_user = [], wd_pass = [], wd_depth = 1, wd_known = {}\<rparr>"

subsection \<open>Listings\<close>

lemma each_collects:
  assumes "\<And>x acc s. x \<in> set xs \<Longrightarrow> P s \<Longrightarrow> \<exists>acc' s'. f x acc s = (Inr acc', s') \<and> P s' \<and> set acc' = set acc \<union> g x" "P s"
  shows "\<exists>acc' s'. each f xs acc s = (Inr acc', s') \<and> P s' \<and> set acc' = set acc \<union> (\<Union>x \<in> set xs. g x)"
  using assms
proof (induction xs arbitrary: acc s)
  case (Cons x xs)
  obtain acc1 s1 where 1: "f x acc s = (Inr acc1, s1)" "P s1" "set acc1 = set acc \<union> g x"
    using Cons.prems(1) [of x s acc] Cons.prems(2) by auto
  have "\<exists>acc' s'. each f xs acc1 s1 = (Inr acc', s') \<and> P s' \<and> set acc' = set acc1 \<union> (\<Union>x \<in> set xs. g x)"
    by (rule Cons.IH) (use Cons.prems(1) 1 in auto)
  then show ?case using 1 by (auto simp: Un_assoc)
qed simp

lemma path_of_snoc: "path_of (ps @ [n]) = path_of ps @ CHR ''/'' # PathEscape n"
  by (simp add: path_of_def)

lemma no_slash_end:
  assumes "\<not> HasSuffix bp ''/''" "\<forall>p \<in> set ps. p \<noteq> []"
  shows "TrimSuffix (bp @ path_of ps) ''/'' = bp @ path_of ps"
proof -
  have "\<not> HasSuffix (bp @ path_of ps) ''/''"
  proof (cases ps rule: rev_cases)
    case (snoc qs p)
    then have "PathEscape p \<noteq> []" using assms(2) by simp
    then have "last (PathEscape p) \<noteq> CHR ''/''" using PathEscape_no_slash [of p] last_in_set by metis
    show ?thesis
    proof
      assume "HasSuffix (bp @ path_of ps) ''/''"
      then obtain r where "bp @ path_of ps = r @ ''/''" by (auto simp: HasSuffix_iff)
      then have "last (bp @ path_of ps) = CHR ''/''" by simp
      then show False using \<open>PathEscape p \<noteq> []\<close> \<open>last (PathEscape p) \<noteq> CHR ''/''\<close> by (simp add: snoc path_of_snoc)
    qed
  qed (use assms(1) in \<open>simp add: path_of_def\<close>)
  then show ?thesis by (simp add: TrimSuffix_def)
qed

text \<open>What \<open>hrefChildName\<close> makes of the href of a child and of the collection itself.\<close>

lemma hrefChildName_child:
  assumes "esc cur = Inr (bp @ path_of ps)" "\<not> HasSuffix bp ''/''" "\<forall>p \<in> set ps. p \<noteq> []" "esc href = Inr h"
  shows "TrimSuffix h ''/'' = bp @ path_of (ps @ [n]) \<Longrightarrow> n \<noteq> [] \<Longrightarrow> hrefChildName esc href cur = Inr (Some n)"
    and "TrimSuffix h ''/'' = bp @ path_of ps \<Longrightarrow> hrefChildName esc href cur = Inr None"
proof -
  note t = no_slash_end [OF assms(2,3)]
  show "hrefChildName esc href cur = Inr (Some n)" if "TrimSuffix h ''/'' = bp @ path_of (ps @ [n])" "n \<noteq> []"
    using that PathEscape_no_slash [of n]
    by (simp add: hrefChildName_def assms(1,4) t path_of_snoc HasPrefix_def TrimPrefix_def has_char_def PathEscape_roundtrip)
  show "hrefChildName esc href cur = Inr None" if "TrimSuffix h ''/'' = bp @ path_of ps"
    using that by (simp add: hrefChildName_def assms(1,4) t)
qed

subsection \<open>A server that keeps a tree of collections\<close>

datatype resource = Collection | Resource bytes

definition plain_request :: "(string \<times> string) option \<Rightarrow> string \<Rightarrow> string \<Rightarrow> bytes option \<Rightarrow> dav_request" where
  "plain_request au meth url body = \<lparr>dq_method = meth, dq_url = url, dq_depth = None, dq_auth = au, dq_body = body,
     dq_length = (case body of None \<Rightarrow> -1 | Some b \<Rightarrow> int (length b))\<rparr>"

definition list_request :: "(string \<times> string) option \<Rightarrow> string \<Rightarrow> dav_request" where
  "list_request au url = \<lparr>dq_method = ''PROPFIND'', dq_url = url, dq_depth = Some ''1'', dq_auth = au, dq_body = None, dq_length = -1\<rparr>"

text \<open>The entry of a listing names the child \<open>n\<close> of the collection.\<close>

definition names_child :: "(string \<Rightarrow> string result) \<Rightarrow> string \<Rightarrow> string list \<Rightarrow> dav_entry \<Rightarrow> string \<Rightarrow> bool" where
  "names_child esc bp ps e n \<longleftrightarrow> (\<exists>h. esc (de_href e) = Inr h \<and> TrimSuffix h ''/'' = bp @ path_of (ps @ [n]))"

definition names_self :: "(string \<Rightarrow> string result) \<Rightarrow> string \<Rightarrow> string list \<Rightarrow> dav_entry \<Rightarrow> bool" where
  "names_self esc bp ps e \<longleftrightarrow> (\<exists>h. esc (de_href e) = Inr h \<and> TrimSuffix h ''/'' = bp @ path_of ps)"

text \<open>
  The client and the server agree: the resources form a tree, no bucket is a file, and a collection the client knows of is there.
\<close>

definition tree_wf :: "(string list \<Rightarrow> resource option) \<Rightarrow> bool" where
  "tree_wf T \<longleftrightarrow> (\<forall>ps p. T (ps @ [p]) \<noteq> None \<longrightarrow> T ps = Some Collection \<and> p \<noteq> [])"

lemma tree_wf_upd:
  assumes "tree_wf T" "T ps = Some Collection" "p \<noteq> []" "T (ps @ [p]) = Some Collection \<longrightarrow> k = Collection"
  shows "tree_wf (T(ps @ [p] \<mapsto> k))"
proof -
  have wf: "T (qs @ [q]) \<noteq> None \<Longrightarrow> T qs = Some Collection \<and> q \<noteq> []" for qs q using assms(1) unfolding tree_wf_def by blast
  show ?thesis
    unfolding tree_wf_def
  proof (intro allI impI)
    fix qs q
    assume q: "(T(ps @ [p] \<mapsto> k)) (qs @ [q]) \<noteq> None"
    show "(T(ps @ [p] \<mapsto> k)) qs = Some Collection \<and> q \<noteq> []"
    proof (cases "qs @ [q] = ps @ [p]")
      case True
      then show ?thesis using assms(2,3) by auto
    next
      case False
      then have "T (qs @ [q]) \<noteq> None" using q by (auto simp del: append1_eq_conv)
      from wf [OF this] have "T qs = Some Collection \<and> q \<noteq> []" .
      then show ?thesis using assms(4) by auto
    qed
  qed
qed

lemma tree_wf_del: "tree_wf T \<Longrightarrow> T ps \<noteq> Some Collection \<Longrightarrow> tree_wf (T(ps := None))"
  unfolding tree_wf_def by (metis fun_upd_apply)

definition dav_ok :: "('s \<Rightarrow> string list \<Rightarrow> resource option) \<Rightarrow> (string \<times> string) option \<Rightarrow> string \<Rightarrow> webdav \<Rightarrow> 's \<Rightarrow> bool" where
  "dav_ok tree au base wd s \<longleftrightarrow> wd_base wd = base \<and> wd_auth wd = au \<and> 1 \<le> wd_depth wd \<and> wd_depth wd \<le> 4 \<and> tree s [] = Some Collection \<and> tree_wf (tree s) \<and>
     (\<forall>ps. list_all isBucketPart ps \<and> length ps \<le> nat (wd_depth wd) \<longrightarrow>
        (\<forall>b. tree s ps \<noteq> Some (Resource b)) \<and> (ps \<noteq> [] \<and> join_at CHR ''/'' ps \<in> wd_known wd \<longrightarrow> tree s ps = Some Collection))"

text \<open>The blobs that the server holds, and that no blob's place is taken by a collection.\<close>

definition dav_view :: "(string \<Rightarrow> string) \<Rightarrow> ('s \<Rightarrow> string list \<Rightarrow> resource option) \<Rightarrow> webdav \<times> 's \<Rightarrow> string \<Rightarrow> bytes option" where
  "dav_view hx tree w n = (case bucketParts hx n (wd_depth (fst w)) of Inl _ \<Rightarrow> None
     | Inr ps \<Rightarrow> (case tree (snd w) (ps @ [n]) of Some (Resource b) \<Rightarrow> Some b | _ \<Rightarrow> None))"

definition dav_inv :: "(string \<Rightarrow> string) \<Rightarrow> ('s \<Rightarrow> string list \<Rightarrow> resource option) \<Rightarrow> (string \<times> string) option \<Rightarrow> string \<Rightarrow> webdav \<times> 's \<Rightarrow> bool" where
  "dav_inv hx tree au base w \<longleftrightarrow> hex64 hx \<and> dav_ok tree au base (fst w) (snd w) \<and>
     (\<forall>n ps. bucketParts hx n (wd_depth (fst w)) = Inr ps \<longrightarrow> tree (snd w) (ps @ [n]) \<noteq> Some Collection)"

text \<open>The blobs below a collection.\<close>

definition dav_found :: "(string \<Rightarrow> string) \<Rightarrow> ('s \<Rightarrow> string list \<Rightarrow> resource option) \<Rightarrow> webdav \<Rightarrow> 's \<Rightarrow> string list \<Rightarrow> string set" where
  "dav_found hx tree wd s ps = {m. \<exists>qs. length (ps @ qs) = nat (wd_depth wd) \<and> list_all isBucketPart qs \<and> (\<exists>b. tree s (ps @ qs @ [m]) = Some (Resource b)) \<and>
     \<not> isTemporaryBlob m \<and> bucketParts hx m (wd_depth wd) = Inr (ps @ qs)}"

text \<open>The operations as functions of the client and the server together.\<close>

definition dav_put :: "(string \<Rightarrow> string) \<Rightarrow> 's server \<Rightarrow> (nat \<Rightarrow> bool) \<Rightarrow> string \<Rightarrow> bytes \<Rightarrow> webdav \<times> 's \<Rightarrow> unit result \<times> webdav \<times> 's" where
  "dav_put hx srv cancel n d w = PutContext hx srv cancel n d (fst w) (snd w)"

definition dav_get :: "(string \<Rightarrow> string) \<Rightarrow> 's server \<Rightarrow> string \<Rightarrow> webdav \<times> 's \<Rightarrow> bytes result" where
  "dav_get hx srv n w = fst (wd_Get hx srv n (fst w) (snd w))"

definition dav_del :: "(string \<Rightarrow> string) \<Rightarrow> 's server \<Rightarrow> string \<Rightarrow> webdav \<times> 's \<Rightarrow> unit result \<times> webdav \<times> 's" where
  "dav_del hx srv n w = (case wd_Delete hx srv n (fst w) (snd w) of (r, s) \<Rightarrow> (r, fst w, s))"

definition dav_names :: "(string \<Rightarrow> string) \<Rightarrow> (string \<Rightarrow> string result) \<Rightarrow> 's server \<Rightarrow> webdav \<times> 's \<Rightarrow> string list" where
  "dav_names hx esc srv w = (case fst (wd_List hx esc srv (fst w) (snd w)) of Inr ns \<Rightarrow> ns | Inl _ \<Rightarrow> [])"

text \<open>
  The behaviour of a WebDAV server (RFC 4918) at the client's base URL: \<open>tree s\<close> gives the resource at a
  path of segments below the base, in the state \<open>s\<close>.  \<open>bp\<close> is the escaped path of the base.
\<close>

locale dav_server =
  fixes srv :: "'s server" and tree :: "'s \<Rightarrow> string list \<Rightarrow> resource option" and esc :: "string \<Rightarrow> string result"
    and au :: "(string \<times> string) option" and base :: string and bp :: string
  assumes esc_url: "esc (base @ path_of ps) = Inr (bp @ path_of ps)"
    and ends: "\<not> HasSuffix base ''/''" "\<not> HasSuffix bp ''/''"
    and mkcol: "p \<noteq> [] \<Longrightarrow> tree s ps = Some Collection \<Longrightarrow> srv (plain_request au ''MKCOL'' (base @ path_of (ps @ [p])) None) s = (r, s') \<Longrightarrow>
      \<exists>y. r = Some y \<and> (if tree s (ps @ [p]) = None then dy_status y = 201 \<and> tree s' = (tree s)(ps @ [p] \<mapsto> Collection)
         else dy_status y = 405 \<and> tree s' = tree s)"
    and put: "p \<noteq> [] \<Longrightarrow> tree s ps = Some Collection \<Longrightarrow> tree s (ps @ [p]) \<noteq> Some Collection \<Longrightarrow>
      srv (plain_request au ''PUT'' (base @ path_of (ps @ [p])) (Some b)) s = (r, s') \<Longrightarrow>
      \<exists>y. r = Some y \<and> dy_status y \<in> {201, 204} \<and> tree s' = (tree s)(ps @ [p] \<mapsto> Resource b)"
    and get: "srv (plain_request au ''GET'' (base @ path_of ps) None) s = (r, s') \<Longrightarrow>
      \<exists>y. r = Some y \<and> (case tree s ps of None \<Rightarrow> dy_status y = 404 | Some Collection \<Rightarrow> True
         | Some (Resource b) \<Rightarrow> dy_status y = 200 \<and> dy_body y = Inr b)"
    and delete: "srv (plain_request au ''DELETE'' (base @ path_of ps) None) s = (r, s') \<Longrightarrow> tree s ps \<noteq> Some Collection \<Longrightarrow>
      \<exists>y. r = Some y \<and> dy_status y = (if tree s ps = None then 404 else 204) \<and> tree s' = (tree s)(ps := None)"
    and list: "tree s ps = Some Collection \<Longrightarrow> \<forall>p \<in> set ps. p \<noteq> [] \<Longrightarrow> srv (list_request au (base @ path_of ps @ ''/'')) s = (r, s') \<Longrightarrow>
      tree s' = tree s \<and> (\<exists>y es. r = Some y \<and> dy_status y = 207 \<and> dy_multi y = Inr es \<and>
        (\<forall>e \<in> set es. names_self esc bp ps e \<or> (\<exists>n k. n \<noteq> [] \<and> names_child esc bp ps e n \<and> tree s (ps @ [n]) = Some k \<and> (collectionResponse e \<longleftrightarrow> k = Collection))) \<and>
        (\<forall>n. n \<noteq> [] \<and> tree s (ps @ [n]) \<noteq> None \<longrightarrow> (\<exists>e \<in> set es. names_child esc bp ps e n)))"
begin

abbreviation "ok \<equiv> dav_ok tree au base"

lemma okD:
  assumes "ok wd s"
  shows "wd_base wd = base" "wd_auth wd = au" "1 \<le> wd_depth wd" "wd_depth wd \<le> 4" "tree s [] = Some Collection"
    "list_all isBucketPart ps \<Longrightarrow> length ps \<le> nat (wd_depth wd) \<Longrightarrow> tree s ps \<noteq> Some (Resource b)"
    "list_all isBucketPart ps \<Longrightarrow> length ps \<le> nat (wd_depth wd) \<Longrightarrow> ps \<noteq> [] \<Longrightarrow> join_at CHR ''/'' ps \<in> wd_known wd \<Longrightarrow> tree s ps = Some Collection"
  using assms by (auto simp: dav_ok_def)

lemma ok_wf: "ok wd s \<Longrightarrow> tree_wf (tree s)"
  by (simp add: dav_ok_def)

lemma bucket_join_inj:
  assumes "list_all isBucketPart ps" "list_all isBucketPart qs" "ps \<noteq> []" "qs \<noteq> []" "join_at CHR ''/'' ps = join_at CHR ''/'' qs"
  shows "ps = qs"
proof -
  have "CHR ''/'' \<notin> set p" if "isBucketPart p" for p
  proof
    assume "CHR ''/'' \<in> set p"
    then show False using that by (auto simp: isBucketPart_def list_all_iff Let_def)
  qed
  then have "split_at CHR ''/'' (join_at CHR ''/'' ps) = ps" "split_at CHR ''/'' (join_at CHR ''/'' qs) = qs"
    using assms(1-4) by (intro split_join; auto simp: list_all_iff)+
  then show ?thesis using assms(5) by metis
qed

lemma collection_url: "ok wd s \<Longrightarrow> collectionURL wd ps = base @ path_of ps"
  by (simp add: collectionURL_def okD)

lemma blob_url: "ok wd s \<Longrightarrow> collectionURL wd ps @ ''/'' @ PathEscape n = base @ path_of (ps @ [n])"
  by (simp add: collectionURL_def okD path_of_def)

lemma doContext_plain:
  assumes "ok wd s" "srv (plain_request au meth url body) s0 = (Some y, s')"
  shows "doContext srv wd meth url body want s0 =
    (if (if want = [] then 200 \<le> dy_status y \<and> dy_status y < 300 else dy_status y \<in> set want) then (Inr y, s')
     else (Inl (newWebDAVError meth (Some y)), s'))"
  using assms okD(2) [OF assms(1)] by (simp add: doContext_def doReader_def plain_request_def Let_def)

lemma ensure_step:
  assumes "ok wd s" "list_all isBucketPart (ps @ [p])" "length (ps @ [p]) \<le> nat (wd_depth wd)" "tree s ps = Some Collection"
  shows "\<exists>y s'. doContext srv wd ''MKCOL'' (collectionURL wd (ps @ [p])) None [201, 405] s = (Inr y, s') \<and>
    tree s' = (tree s)(ps @ [p] \<mapsto> Collection) \<and> ok (mark_known (join_at CHR ''/'' (ps @ [p])) wd) s'"
proof -
  have p: "p \<noteq> []" using assms(2) by (auto simp: isBucketPart_def)
  obtain r s' where c: "srv (plain_request au ''MKCOL'' (base @ path_of (ps @ [p])) None) s = (r, s')" by fastforce
  from mkcol [OF p assms(4) c] obtain y where y: "r = Some y" "dy_status y \<in> {201, 405}"
    "tree s' = (if tree s (ps @ [p]) = None then (tree s)(ps @ [p] \<mapsto> Collection) else tree s)" by (auto split: if_splits)
  have "tree s (ps @ [p]) \<noteq> Some (Resource b)" for b using okD(6) [OF assms(1-3)] .
  then have t: "tree s' = (tree s)(ps @ [p] \<mapsto> Collection)"
    using y(3) by (cases "tree s (ps @ [p])"; cases "the (tree s (ps @ [p]))") (auto simp: fun_eq_iff)
  have "ok (mark_known (join_at CHR ''/'' (ps @ [p])) wd) s'"
    unfolding dav_ok_def using okD [OF assms(1)] t bucket_join_inj [OF _ assms(2)] tree_wf_upd [OF ok_wf [OF assms(1)] assms(4) p]
    by (auto simp: mark_known_def wd_auth_def)
  then show ?thesis using c y t doContext_plain [OF assms(1), of "''MKCOL''"]
    by (auto simp: collection_url [OF assms(1)])
qed

lemma ensure_ok:
  assumes "ok wd s" "list_all isBucketPart parts" "length parts \<le> nat (wd_depth wd)" "i \<le> length parts" "tree s (take i parts) = Some Collection"
  shows "\<exists>wd' s'. ensure_loop srv parts [Suc i..<Suc (length parts)] wd s = (Inr (), wd', s') \<and> same_client wd wd' \<and> ok wd' s' \<and>
    tree s' parts = Some Collection \<and> (\<forall>qs. tree s' qs \<noteq> tree s qs \<longrightarrow> list_all isBucketPart qs \<and> length qs \<le> nat (wd_depth wd))"
  using assms
proof (induction "length parts - i" arbitrary: i wd s)
  case 0
  then show ?case by (auto intro: same_client_refl)
next
  case (Suc k)
  then have i: "i < length parts" by simp
  then have up: "[Suc i..<Suc (length parts)] = Suc i # [Suc (Suc i)..<Suc (length parts)]" by (simp add: upt_conv_Cons)
  have tk: "take (Suc i) parts = take i parts @ [parts ! i]" using i by (simp add: take_Suc_conv_app_nth)
  have bk: "list_all isBucketPart (take i parts @ [parts ! i])" "length (take i parts @ [parts ! i]) \<le> nat (wd_depth wd)"
    using Suc.prems(2,3) i by (auto simp: list_all_iff dest: in_set_takeD)
  show ?case
  proof (cases "join_at CHR ''/'' (take (Suc i) parts) \<in> wd_known wd")
    case True
    then have t: "tree s (take (Suc i) parts) = Some Collection"
      using okD(7) [OF Suc.prems(1) bk] by (simp add: tk)
    show ?thesis using Suc.hyps(1) [of "Suc i" wd s] Suc.hyps(2) Suc.prems(1-3) i t True by (simp only: up ensure_loop.simps Let_def if_True)
  next
    case False
    obtain y s1 where st: "doContext srv wd ''MKCOL'' (collectionURL wd (take (Suc i) parts)) None [201, 405] s = (Inr y, s1)"
      "tree s1 = (tree s)(take (Suc i) parts \<mapsto> Collection)" "ok (mark_known (join_at CHR ''/'' (take (Suc i) parts)) wd) s1"
      using ensure_step [OF Suc.prems(1) bk Suc.prems(5)] by (auto simp: tk)
    let ?wd = "mark_known (join_at CHR ''/'' (take (Suc i) parts)) wd"
    have "\<exists>wd' s'. ensure_loop srv parts [Suc (Suc i)..<Suc (length parts)] ?wd s1 = (Inr (), wd', s') \<and> same_client ?wd wd' \<and> ok wd' s' \<and>
      tree s' parts = Some Collection \<and> (\<forall>qs. tree s' qs \<noteq> tree s1 qs \<longrightarrow> list_all isBucketPart qs \<and> length qs \<le> nat (wd_depth ?wd))"
      by (rule Suc.hyps(1)) (use Suc.hyps(2) Suc.prems(2,3) i st in \<open>auto simp: mark_known_def\<close>)
    then obtain wd' s' where e: "ensure_loop srv parts [Suc (Suc i)..<Suc (length parts)] ?wd s1 = (Inr (), wd', s')" "same_client ?wd wd'" "ok wd' s'"
      "tree s' parts = Some Collection" "\<forall>qs. tree s' qs \<noteq> tree s1 qs \<longrightarrow> list_all isBucketPart qs \<and> length qs \<le> nat (wd_depth wd)"
      by (auto simp: mark_known_def)
    have "ensure_loop srv parts [Suc i..<Suc (length parts)] wd s = (Inr (), wd', s')"
      by (simp only: up ensure_loop.simps Let_def False if_False st(1) e(1) sum.case prod.case)
    moreover have "same_client wd wd'" by (rule same_client_trans [OF same_client_known(2) e(2)])
    moreover have "\<forall>qs. tree s' qs \<noteq> tree s qs \<longrightarrow> list_all isBucketPart qs \<and> length qs \<le> nat (wd_depth wd)"
      using e(5) st(2) bk by (metis fun_upd_other tk)
    ultimately show ?thesis using e(3,4) by blast
  qed
qed

lemma bucketParts_is:
  assumes "hex64 hx" "ok wd s" "bucketParts hx n (wd_depth wd) = Inr ps"
  shows "list_all isBucketPart ps" "length ps = nat (wd_depth wd)" "n \<noteq> []" "valid_name n"
proof -
  have ps: "ps = map (\<lambda>i. take 2 (drop (i * 2) (hx n))) [0..<nat (wd_depth wd)]"
    using assms(3) okD(3,4) [OF assms(2)] by (auto simp: bucketParts_def bind_res_eq_Inr NormalizeBucketDepth_def split: if_splits)
  show "list_all isBucketPart ps" "length ps = nat (wd_depth wd)"
    using bucket_is_part [OF assms(1)] okD(4) [OF assms(2)] by (auto simp: ps list_all_iff)
  show v: "valid_name n" by (rule bucketParts_valid [OF assms(3)])
  then show "n \<noteq> []" by (auto simp: valid_name_def validateBlobName_def)
qed

lemma bucketParts_some: "ok wd s \<Longrightarrow> valid_name n \<Longrightarrow> \<exists>ps. bucketParts hx n (wd_depth wd) = Inr ps"
  using okD(3,4) [of wd s] by (auto simp: bucketParts_def valid_name_def NormalizeBucketDepth_def)

text \<open>Storing a blob succeeds and changes, besides collections, only its own resource.\<close>

lemma put_blob:
  assumes inv: "dav_inv hx tree au base (wd, s)" and bp: "bucketParts hx n (wd_depth wd) = Inr ps"
  shows "\<exists>wd' s'. PutContext hx srv cancel n d wd s = (Inr (), wd', s') \<and> dav_inv hx tree au base (wd', s') \<and> wd_depth wd' = wd_depth wd \<and>
    dav_view hx tree (wd', s') = (dav_view hx tree (wd, s))(n \<mapsto> d)"
proof -
  have hx: "hex64 hx" and o: "ok wd s" and leaf: "\<And>n ps. bucketParts hx n (wd_depth wd) = Inr ps \<Longrightarrow> tree s (ps @ [n]) \<noteq> Some Collection"
    using inv by (auto simp: dav_inv_def)
  note b = bucketParts_is [OF hx o]
  have "\<exists>wd' s'. ensure_loop srv ps [Suc 0..<Suc (length ps)] wd s = (Inr (), wd', s') \<and> same_client wd wd' \<and> ok wd' s' \<and>
    tree s' ps = Some Collection \<and> (\<forall>qs. tree s' qs \<noteq> tree s qs \<longrightarrow> list_all isBucketPart qs \<and> length qs \<le> nat (wd_depth wd))"
    by (rule ensure_ok) (use o b [OF bp] okD(5) [OF o] in auto)
  then obtain wd1 s1 where e: "ensure_loop srv ps [Suc 0..<Suc (length ps)] wd s = (Inr (), wd1, s1)" "same_client wd wd1" "ok wd1 s1"
    "tree s1 ps = Some Collection" "\<And>qs. tree s1 qs \<noteq> tree s qs \<Longrightarrow> list_all isBucketPart qs \<and> length qs \<le> nat (wd_depth wd)" by blast
  have depth: "wd_depth wd1 = wd_depth wd" by (simp add: same_client_eqs [OF e(2)])
  have leaves: "tree s1 (qs @ [m]) = tree s (qs @ [m])" if "bucketParts hx m (wd_depth wd) = Inr qs" for m qs
    using e(5) [of "qs @ [m]"] b(2) [OF that] by auto
  obtain r s2 where q: "srv (plain_request au ''PUT'' (base @ path_of (ps @ [n])) (Some d)) s1 = (r, s2)" by fastforce
  have "tree s1 (ps @ [n]) \<noteq> Some Collection" using leaves [OF bp] leaf [OF bp] by simp
  from put [OF b(3) [OF bp] e(4) this q] obtain y where y: "r = Some y" "dy_status y \<in> {201, 204}" "tree s2 = (tree s1)(ps @ [n] \<mapsto> Resource d)"
    by blast
  have once: "putOnce hx srv n d wd s = (Inr (), wd1, s2)"
    using e(1) y(2) doContext_plain [OF e(3), of "''PUT''"] q y(1) blob_url [OF e(3), of ps n]
    by (auto simp: putOnce_def bp ensureCollections_def)
  then have res: "PutContext hx srv cancel n d wd s = (Inr (), wd1, s2)"
    by (simp add: PutContext_def bp eval_nat_numeral)
  have notin: "list_all isBucketPart qs \<and> length qs \<le> nat (wd_depth wd) \<Longrightarrow> qs \<noteq> ps @ [n]" for qs
    using b(2) [OF bp] by auto
  have "tree_wf (tree s2)" unfolding y(3)
    by (rule tree_wf_upd [OF ok_wf [OF e(3)] e(4) b(3) [OF bp]]) (use leaves [OF bp] leaf [OF bp] in simp)
  then have "ok wd1 s2" using e(3) y(3) notin depth by (auto simp: dav_ok_def)
  moreover have "tree s2 (qs @ [m]) \<noteq> Some Collection" if "bucketParts hx m (wd_depth wd) = Inr qs" for m qs
    using leaf [OF that] leaves [OF that] y(3) by simp
  ultimately have "dav_inv hx tree au base (wd1, s2)" using hx by (auto simp: dav_inv_def depth)
  moreover have "dav_view hx tree (wd1, s2) m = ((dav_view hx tree (wd, s))(n \<mapsto> d)) m" for m
  proof (cases "bucketParts hx m (wd_depth wd)")
    case (Inr qs)
    then show ?thesis using bp leaves [OF Inr] y(3) by (cases "m = n") (auto simp: dav_view_def depth)
  next
    case (Inl x)
    then show ?thesis using bp by (auto simp: dav_view_def depth)
  qed
  ultimately show ?thesis using res depth by (intro exI [of _ wd1] exI [of _ s2]) auto
qed

lemma get_blob:
  assumes inv: "dav_inv hx tree au base (wd, s)" and bp: "bucketParts hx n (wd_depth wd) = Inr ps"
  shows "case dav_view hx tree (wd, s) n of Some d \<Rightarrow> fst (wd_Get hx srv n wd s) = Inr d | None \<Rightarrow> \<exists>e. fst (wd_Get hx srv n wd s) = Inl e"
proof -
  have o: "ok wd s" and leaf: "tree s (ps @ [n]) \<noteq> Some Collection" using inv bp by (auto simp: dav_inv_def)
  obtain r s' where q: "srv (plain_request au ''GET'' (base @ path_of (ps @ [n])) None) s = (r, s')" by fastforce
  from get [OF q] obtain y where y: "r = Some y" "case tree s (ps @ [n]) of None \<Rightarrow> dy_status y = 404 | Some Collection \<Rightarrow> True
         | Some (Resource b) \<Rightarrow> dy_status y = 200 \<and> dy_body y = Inr b" by blast
  have u: "blobURL hx wd n = Inr (base @ path_of (ps @ [n]))" using blob_url [OF o] by (simp add: blobURL_def bp)
  show ?thesis
    using y leaf q doContext_plain [OF o, of "''GET''"] by (auto simp: wd_Get_def u dav_view_def bp split: option.splits resource.splits)
qed

lemma delete_blob:
  assumes inv: "dav_inv hx tree au base (wd, s)" and bp: "bucketParts hx n (wd_depth wd) = Inr ps"
  shows "\<exists>s'. wd_Delete hx srv n wd s = (Inr (), s') \<and> dav_inv hx tree au base (wd, s') \<and>
    dav_view hx tree (wd, s') = (dav_view hx tree (wd, s))(n := None)"
proof -
  have hx: "hex64 hx" and o: "ok wd s" and leaf: "\<And>n ps. bucketParts hx n (wd_depth wd) = Inr ps \<Longrightarrow> tree s (ps @ [n]) \<noteq> Some Collection"
    using inv by (auto simp: dav_inv_def)
  note b = bucketParts_is [OF hx o]
  obtain r s' where q: "srv (plain_request au ''DELETE'' (base @ path_of (ps @ [n])) None) s = (r, s')" by fastforce
  from delete [OF q leaf [OF bp]] obtain y where y: "r = Some y" "dy_status y \<in> {404, 204}" "tree s' = (tree s)(ps @ [n] := None)" by auto
  have u: "blobURL hx wd n = Inr (base @ path_of (ps @ [n]))" using blob_url [OF o] by (simp add: blobURL_def bp)
  have "wd_Delete hx srv n wd s = (Inr (), s')"
    using y q doContext_plain [OF o, of "''DELETE''"] by (auto simp: wd_Delete_def u)
  moreover have "ok wd s'" using o y(3) b(2) [OF bp] tree_wf_del [OF ok_wf [OF o] leaf [OF bp]] by (auto simp: dav_ok_def)
  moreover have "dav_view hx tree (wd, s') m = ((dav_view hx tree (wd, s))(n := None)) m" for m
    using bp y(3) by (auto simp: dav_view_def split: sum.splits)
  ultimately show ?thesis using hx leaf y(3) by (auto simp: dav_inv_def)
qed

lemma ancestors: "tree_wf (tree s) \<Longrightarrow> tree s (ps @ qs) \<noteq> None \<Longrightarrow> qs \<noteq> [] \<Longrightarrow> tree s ps = Some Collection"
proof (induction qs rule: rev_induct)
  case (snoc q qs)
  have "tree s (ps @ qs) = Some Collection"
    using snoc.prems(1,2) unfolding tree_wf_def by (metis append_assoc)
  then show ?case using snoc.IH snoc.prems(1) by (cases qs) auto
qed simp

lemma listing:
  assumes o: "ok wd s0" and ps: "list_all isBucketPart ps" and col: "tree s ps = Some Collection" and wf: "tree_wf (tree s)"
  shows "\<exists>es s'. propfind srv wd (collectionURL wd ps) s = (Inr es, s') \<and> tree s' = tree s \<and>
    (\<forall>e \<in> set es. hrefChildName esc (de_href e) (collectionURL wd ps) = Inr None \<or>
       (\<exists>n k. hrefChildName esc (de_href e) (collectionURL wd ps) = Inr (Some n) \<and> tree s (ps @ [n]) = Some k \<and> (collectionResponse e \<longleftrightarrow> k = Collection))) \<and>
    (\<forall>n. tree s (ps @ [n]) \<noteq> None \<longrightarrow> (\<exists>e \<in> set es. hrefChildName esc (de_href e) (collectionURL wd ps) = Inr (Some n)))"
proof -
  have ne: "\<forall>p \<in> set ps. p \<noteq> []" using ps by (auto simp: list_all_iff isBucketPart_def)
  have u: "collectionURL wd ps = base @ path_of ps" by (rule collection_url [OF o])
  obtain r s' where q: "srv (list_request au (base @ path_of ps @ ''/'')) s = (r, s')" by fastforce
  from list [OF col ne q] obtain y es where y: "tree s' = tree s" "r = Some y" "dy_status y = 207" "dy_multi y = Inr es"
    "\<forall>e \<in> set es. names_self esc bp ps e \<or> (\<exists>n k. n \<noteq> [] \<and> names_child esc bp ps e n \<and> tree s (ps @ [n]) = Some k \<and> (collectionResponse e \<longleftrightarrow> k = Collection))"
    "\<forall>n. n \<noteq> [] \<and> tree s (ps @ [n]) \<noteq> None \<longrightarrow> (\<exists>e \<in> set es. names_child esc bp ps e n)" by blast
  have p: "propfind srv wd (collectionURL wd ps) s = (Inr es, s')"
    using q y no_slash_end [OF ends(1) ne] okD(2) [OF o] by (simp add: propfind_def u list_request_def)
  have child: "hrefChildName esc (de_href e) (collectionURL wd ps) = Inr (Some n)" if "names_child esc bp ps e n" "n \<noteq> []" for e n
    using that hrefChildName_child(1) [where bp = bp and ps = ps and cur = "base @ path_of ps" and esc = esc, OF esc_url ends(2) ne] by (auto simp: names_child_def u)
  have self: "hrefChildName esc (de_href e) (collectionURL wd ps) = Inr None" if "names_self esc bp ps e" for e
    using that hrefChildName_child(2) [where bp = bp and ps = ps and cur = "base @ path_of ps" and esc = esc, OF esc_url ends(2) ne] by (auto simp: names_self_def u)
  have "n \<noteq> []" if "tree s (ps @ [n]) \<noteq> None" for n using wf that unfolding tree_wf_def by blast
  then show ?thesis using p y(1,5,6) child self by (intro exI [of _ es] exI [of _ s']) (simp, blast)
qed

abbreviation "found hx wd s ps \<equiv> dav_found hx tree wd s ps"

lemma walk_finds:
  assumes "ok wd s0" "list_all isBucketPart ps" "length ps + n = nat (wd_depth wd)" "tree s ps = Some Collection" "tree_wf (tree s)"
  shows "\<exists>out' s'. walk hx esc srv wd n ps out s = (Inr out', s') \<and> tree s' = tree s \<and> set out' = set out \<union> found hx wd s ps"
  using assms
proof (induction n arbitrary: ps out s)
  case 0
  obtain es s1 where l: "propfind srv wd (collectionURL wd ps) s = (Inr es, s1)" "tree s1 = tree s"
    "\<forall>e \<in> set es. hrefChildName esc (de_href e) (collectionURL wd ps) = Inr None \<or>
       (\<exists>n k. hrefChildName esc (de_href e) (collectionURL wd ps) = Inr (Some n) \<and> tree s (ps @ [n]) = Some k \<and> (collectionResponse e \<longleftrightarrow> k = Collection))"
    "\<forall>n. tree s (ps @ [n]) \<noteq> None \<longrightarrow> (\<exists>e \<in> set es. hrefChildName esc (de_href e) (collectionURL wd ps) = Inr (Some n))"
    using listing [OF 0(1,2,4,5)] by blast
  define g where "g e = {m. hrefChildName esc (de_href e) (collectionURL wd ps) = Inr (Some m) \<and> \<not> collectionResponse e \<and> \<not> isTemporaryBlob m \<and>
      bucketParts hx m (wd_depth wd) = Inr ps}" for e
  let ?f = "child_loop esc (collectionURL wd ps) (\<lambda>r name out s. (Inr (add_leaf hx (wd_depth wd) ps r name out), s))"
  have "\<exists>out' s'. each ?f es out s1 = (Inr out', s') \<and> tree s' = tree s \<and> set out' = set out \<union> (\<Union>e \<in> set es. g e)"
  proof (rule each_collects)
    fix e out s2
    assume "e \<in> set es" "tree s2 = tree s"
    then show "\<exists>out' s'. ?f e out s2 = (Inr out', s') \<and> tree s' = tree s \<and> set out' = set out \<union> g e"
      using l(3) by (auto simp: child_loop_def g_def add_leaf_def blobBelongsToBucket_def)
  qed (rule l(2))
  moreover have "(\<Union>e \<in> set es. g e) = found hx wd s ps"
  proof -
    have "m \<in> found hx wd s ps" if eg: "e \<in> set es" "m \<in> g e" for e m
    proof -
      obtain k where "tree s (ps @ [m]) = Some k" "k \<noteq> Collection" using bspec [OF l(3) eg(1)] eg(2) by (auto simp: g_def)
      then show ?thesis using eg(2) 0(3) by (cases k) (auto simp: dav_found_def g_def)
    qed
    moreover have "\<exists>e \<in> set es. m \<in> g e" if "m \<in> found hx wd s ps" for m
    proof -
      have m: "\<exists>b. tree s (ps @ [m]) = Some (Resource b)" "\<not> isTemporaryBlob m" "bucketParts hx m (wd_depth wd) = Inr ps"
        using that 0(3) by (auto simp: dav_found_def)
      then obtain e where e: "e \<in> set es" "hrefChildName esc (de_href e) (collectionURL wd ps) = Inr (Some m)" using l(4) by auto
      moreover have "\<not> collectionResponse e" using l(3) e m(1) by auto
      ultimately show ?thesis using m by (auto simp: g_def)
    qed
    ultimately show ?thesis by blast
  qed
  ultimately show ?case using l(1) by auto
next
  case (Suc n)
  obtain es s1 where l: "propfind srv wd (collectionURL wd ps) s = (Inr es, s1)" "tree s1 = tree s"
    "\<forall>e \<in> set es. hrefChildName esc (de_href e) (collectionURL wd ps) = Inr None \<or>
       (\<exists>n k. hrefChildName esc (de_href e) (collectionURL wd ps) = Inr (Some n) \<and> tree s (ps @ [n]) = Some k \<and> (collectionResponse e \<longleftrightarrow> k = Collection))"
    "\<forall>n. tree s (ps @ [n]) \<noteq> None \<longrightarrow> (\<exists>e \<in> set es. hrefChildName esc (de_href e) (collectionURL wd ps) = Inr (Some n))"
    using listing [OF Suc(2,3,5,6)] by blast
  define g where "g e = {m. \<exists>q. hrefChildName esc (de_href e) (collectionURL wd ps) = Inr (Some q) \<and> collectionResponse e \<and> isBucketPart q \<and> m \<in> found hx wd s (ps @ [q])}" for e
  let ?f = "child_loop esc (collectionURL wd ps) (\<lambda>r name out s.
         if collectionResponse r \<and> isBucketPart name then walk hx esc srv wd n (ps @ [name]) out s else (Inr out, s))"
  have "\<exists>out' s'. each ?f es out s1 = (Inr out', s') \<and> tree s' = tree s \<and> set out' = set out \<union> (\<Union>e \<in> set es. g e)"
  proof (rule each_collects)
    fix e out s2
    assume e: "e \<in> set es" "tree s2 = tree s"
    show "\<exists>out' s'. ?f e out s2 = (Inr out', s') \<and> tree s' = tree s \<and> set out' = set out \<union> g e"
    proof (cases "\<exists>q. hrefChildName esc (de_href e) (collectionURL wd ps) = Inr (Some q) \<and> collectionResponse e \<and> isBucketPart q")
      case True
      then obtain q where q: "hrefChildName esc (de_href e) (collectionURL wd ps) = Inr (Some q)" "collectionResponse e" "isBucketPart q" by blast
      then have "tree s2 (ps @ [q]) = Some Collection" using l(3) e by auto
      then have "\<exists>out' s'. walk hx esc srv wd n (ps @ [q]) out s2 = (Inr out', s') \<and> tree s' = tree s2 \<and> set out' = set out \<union> found hx wd s2 (ps @ [q])"
        using Suc.prems q(3) e(2) by (intro Suc.IH) auto
      moreover have "g e = found hx wd s2 (ps @ [q])" using q e(2) by (auto simp: g_def dav_found_def)
      ultimately show ?thesis using q e(2) by (simp add: child_loop_def)
    next
      case False
      then have "g e = {}" by (auto simp: g_def)
      then show ?thesis using False e l(3) by (auto simp: child_loop_def)
    qed
  qed (rule l(2))
  moreover have "(\<Union>e \<in> set es. g e) = found hx wd s ps"
  proof -
    have "m \<in> found hx wd s ps" if mg: "m \<in> g e" for e m
    proof -
      obtain q where p: "isBucketPart q" "m \<in> found hx wd s (ps @ [q])" using mg unfolding g_def by blast
      then obtain qs where q: "isBucketPart q" "length (ps @ q # qs) = nat (wd_depth wd)" "list_all isBucketPart qs"
        "\<exists>b. tree s (ps @ q # qs @ [m]) = Some (Resource b)" "\<not> isTemporaryBlob m" "bucketParts hx m (wd_depth wd) = Inr (ps @ q # qs)"
        by (auto simp: dav_found_def)
      then show ?thesis unfolding dav_found_def by (intro CollectI exI [of _ "q # qs"]) simp
    qed
    moreover have "\<exists>e \<in> set es. m \<in> g e" if m: "m \<in> found hx wd s ps" for m
    proof -
      obtain qs where qs: "length (ps @ qs) = nat (wd_depth wd)" "list_all isBucketPart qs" "\<exists>b. tree s (ps @ qs @ [m]) = Some (Resource b)"
        "\<not> isTemporaryBlob m" "bucketParts hx m (wd_depth wd) = Inr (ps @ qs)" using m by (auto simp: dav_found_def)
      obtain q rs where q: "qs = q # rs" using qs(1) Suc.prems(3) by (cases qs) auto
      have c: "tree s (ps @ [q]) = Some Collection" using ancestors [OF Suc.prems(5), of "ps @ [q]" "rs @ [m]"] qs(3) q by auto
      then obtain e where e: "e \<in> set es" "hrefChildName esc (de_href e) (collectionURL wd ps) = Inr (Some q)" using l(4) by fastforce
      moreover have "collectionResponse e" using l(3) e c by auto
      moreover have "m \<in> found hx wd s (ps @ [q])" using qs q by (auto simp: dav_found_def)
      ultimately show ?thesis using qs(2) q by (auto simp: g_def)
    qed
    ultimately show ?thesis by blast
  qed
  ultimately show ?case using l(1) by auto
qed

lemma list_names:
  assumes inv: "dav_inv hx tree au base (wd, s)"
  shows "\<exists>ns s'. wd_List hx esc srv wd s = (Inr ns, s') \<and> tree s' = tree s \<and>
    (\<forall>n. n \<in> set ns \<longleftrightarrow> store_name n \<and> dav_view hx tree (wd, s) n \<noteq> None)"
proof -
  have hx: "hex64 hx" and o: "ok wd s" using inv by (auto simp: dav_inv_def)
  note b = bucketParts_is [OF hx o]
  obtain out s' where w: "walk hx esc srv wd (nat (wd_depth wd)) [] [] s = (Inr out, s')" "tree s' = tree s" "set out = found hx wd s []"
    using walk_finds [OF o, where ps = "[]" and n = "nat (wd_depth wd)" and s = s and out = "[]" and hx = hx] okD(5) [OF o] ok_wf [OF o] by auto
  have "n \<in> found hx wd s [] \<longleftrightarrow> store_name n \<and> dav_view hx tree (wd, s) n \<noteq> None" for n
  proof
    assume "n \<in> found hx wd s []"
    then obtain qs bl where q: "tree s (qs @ [n]) = Some (Resource bl)" "\<not> isTemporaryBlob n" "bucketParts hx n (wd_depth wd) = Inr qs"
      by (auto simp: dav_found_def)
    then show "store_name n \<and> dav_view hx tree (wd, s) n \<noteq> None" using b(4) [OF q(3)] by (auto simp: store_name_def dav_view_def)
  next
    assume n: "store_name n \<and> dav_view hx tree (wd, s) n \<noteq> None"
    then obtain ps where ps: "bucketParts hx n (wd_depth wd) = Inr ps" using bucketParts_some [OF o] by (auto simp: store_name_def)
    have "\<exists>bl. tree s (ps @ [n]) = Some (Resource bl)" using n ps by (auto simp: dav_view_def split: option.splits resource.splits)
    then show "n \<in> found hx wd s []" using n ps b(1,2) [OF ps] by (auto simp: dav_found_def store_name_def)
  qed
  then show ?thesis using w by (auto simp: wd_List_def)
qed

sublocale store: blob_store "dav_view hx tree" "dav_inv hx tree au base" store_name "dav_put hx srv cancel" "dav_get hx srv"
  "dav_del hx srv" "dav_names hx esc srv" for hx cancel
proof unfold_locales
  fix w :: "webdav \<times> 's" and n d
  obtain wd s where w: "w = (wd, s)" by (cases w)
  assume inv: "dav_inv hx tree au base w" and n: "store_name n"
  then obtain ps where ps: "bucketParts hx n (wd_depth wd) = Inr ps"
    using bucketParts_some [of wd s n hx] by (auto simp: store_name_def dav_inv_def w)
  note p = put_blob [OF inv [unfolded w] ps, of cancel d] and g = get_blob [OF inv [unfolded w] ps] and x = delete_blob [OF inv [unfolded w] ps]
  show "fst (dav_put hx srv cancel n d w) = Inr ()" "dav_view hx tree (snd (dav_put hx srv cancel n d w)) = (dav_view hx tree w)(n \<mapsto> d)"
    "dav_inv hx tree au base (snd (dav_put hx srv cancel n d w))"
    using p by (auto simp: dav_put_def w)
  show "dav_view hx tree w n = Some d \<Longrightarrow> dav_get hx srv n w = Inr d" "dav_view hx tree w n = None \<Longrightarrow> \<exists>e. dav_get hx srv n w = Inl e"
    using g by (auto simp: dav_get_def w)
  show "dav_view hx tree (snd (dav_del hx srv n w)) = (dav_view hx tree w)(n := None)" "dav_inv hx tree au base (snd (dav_del hx srv n w))"
    using x by (auto simp: dav_del_def w)
next
  fix w :: "webdav \<times> 's" and n
  assume inv: "dav_inv hx tree au base w"
  obtain wd s where w: "w = (wd, s)" by (cases w)
  show "n \<in> set (dav_names hx esc srv w) \<longleftrightarrow> store_name n \<and> dav_view hx tree w n \<noteq> None"
    using list_names [OF inv [unfolded w]] by (auto simp: dav_names_def w)
qed

text \<open>After any writes the last one of each name is read back, and exactly the names written are listed.\<close>

lemma reads_last_write:
  assumes "dav_inv hx tree au base w" "list_all (\<lambda>(n, d). store_name n) ws"
  shows "let w' = fold (\<lambda>(n, d) w. snd (dav_put hx srv cancel n d w)) ws w in
    (\<forall>n d. map_of (rev ws) n = Some d \<longrightarrow> dav_get hx srv n w' = Inr d) \<and>
    set (dav_names hx esc srv w') = set (dav_names hx esc srv w) \<union> set (map fst ws)"
proof -
  let ?w = "fold (\<lambda>(n, d) w. snd (dav_put hx srv cancel n d w)) ws w"
  note pa = store.put_all_view [OF assms, of cancel]
  have "dav_get hx srv n ?w = Inr d" if "map_of (rev ws) n = Some d" for n d
  proof (rule store.put_all_get [OF assms _ that])
    show "store_name n" using that assms(2) by (auto simp: list_all_iff dest!: map_of_SomeD)
  qed
  moreover have "n \<in> set (dav_names hx esc srv ?w) \<longleftrightarrow> n \<in> set (dav_names hx esc srv w) \<union> set (map fst ws)" for n
  proof -
    have "n \<in> set (map fst ws) \<longleftrightarrow> map_of (rev ws) n \<noteq> None" by (simp add: map_of_eq_None_iff)
    moreover have "n \<in> set (map fst ws) \<Longrightarrow> store_name n" using assms(2) by (auto simp: list_all_iff)
    ultimately show ?thesis
      using store.names_view [OF assms(1), of n] store.names_view [of hx ?w n] pa by (auto simp: map_add_def split: option.splits)
  qed
  ultimately show ?thesis by (simp only: Let_def) blast
qed

end

subsection \<open>A server of this kind\<close>

text \<open>A small WebDAV server whose base is \<open>http://h/b\<close>: an association list from paths to resources.\<close>

type_synonym tree_state = "(string list \<times> resource) list"

definition ref_base :: string where "ref_base = ''http://h/b''"
definition ref_bp :: string where "ref_bp = ''/b''"

definition ref_tree :: "tree_state \<Rightarrow> string list \<Rightarrow> resource option" where
  "ref_tree s ps = (if ps = [] then Some Collection else map_of s ps)"

definition ref_esc :: "string \<Rightarrow> string result" where
  "ref_esc u = (if HasPrefix u ''http://h'' then Inr (drop 8 u) else Inr u)"

definition ref_path :: "string \<Rightarrow> string list" where
  "ref_path u = map (\<lambda>p. case PathUnescape p of Inr t \<Rightarrow> t | Inl _ \<Rightarrow> p) (tl (split_at CHR ''/'' (drop (length ref_base) u)))"

definition ref_reply :: "int \<Rightarrow> dav_reply" where
  "ref_reply st = \<lparr>dy_status = st, dy_retryAfter = [], dy_body = Inr [], dy_multi = Inl EOF\<rparr>"

definition ref_entry :: "tree_state \<Rightarrow> string list \<Rightarrow> dav_entry" where
  "ref_entry s ps = (if ref_tree s ps = Some Collection then \<lparr>de_href = ref_bp @ path_of ps @ ''/'', de_types = [True]\<rparr>
     else \<lparr>de_href = ref_bp @ path_of ps, de_types = [False]\<rparr>)"

definition is_child :: "string list \<Rightarrow> string list \<Rightarrow> bool" where
  "is_child ps qs \<longleftrightarrow> qs \<noteq> [] \<and> butlast qs = ps \<and> last qs \<noteq> []"

definition ref_server :: "tree_state server" where
  "ref_server req s =
     (let ps = ref_path (dq_url req); t = ref_tree s ps; up = ref_tree s (butlast ps) in
      if dq_method req = ''MKCOL'' then
        (if t \<noteq> None then (Some (ref_reply 405), s)
         else if up \<noteq> Some Collection then (Some (ref_reply 409), s)
         else (Some (ref_reply 201), (ps, Collection) # s))
      else if dq_method req = ''PUT'' then
        (if up \<noteq> Some Collection then (Some (ref_reply 409), s)
         else if t = Some Collection then (Some (ref_reply 405), s)
         else (Some (ref_reply 201), (ps, Resource (case dq_body req of Some b \<Rightarrow> b | None \<Rightarrow> [])) # s))
      else if dq_method req = ''GET'' then
        (case t of Some (Resource b) \<Rightarrow> (Some ((ref_reply 200)\<lparr>dy_body := Inr b\<rparr>), s)
         | Some Collection \<Rightarrow> (Some (ref_reply 405), s) | None \<Rightarrow> (Some (ref_reply 404), s))
      else if dq_method req = ''DELETE'' then
        (if t = None then (Some (ref_reply 404), s)
         else (Some (ref_reply 204), filter (\<lambda>(k, r). if t = Some Collection then take (length ps) k \<noteq> ps else k \<noteq> ps) s))
      else if dq_method req = ''PROPFIND'' then
        (let ps = (if ps \<noteq> [] \<and> last ps = [] then butlast ps else ps) in
         if ref_tree s ps \<noteq> Some Collection then (Some (ref_reply 404), s)
         else (Some ((ref_reply 207)\<lparr>dy_multi := Inr (ref_entry s ps # map (\<lambda>(k, r). ref_entry s k) (filter (\<lambda>(k, r). is_child ps k) s))\<rparr>), s))
      else (Some (ref_reply 405), s))"

lemma split_path_of: "split_at CHR ''/'' (path_of ps) = [] # map PathEscape ps"
proof (induction ps)
  case (Cons p ps)
  note ns = PathEscape_no_slash [of p]
  show ?case
  proof (cases ps)
    case Nil
    have "split_at CHR ''/'' (PathEscape p) = [PathEscape p]" using split_join [of "[PathEscape p]" "CHR ''/''"] ns by simp
    then show ?thesis by (simp add: Nil path_of_def)
  next
    case (Cons q qs)
    have "path_of (p # ps) = CHR ''/'' # PathEscape p @ CHR ''/'' # tl (path_of ps)" by (simp add: path_of_def Cons)
    then have "split_at CHR ''/'' (path_of (p # ps)) = [] # PathEscape p # split_at CHR ''/'' (tl (path_of ps))"
      using split_at_step [OF ns] by simp
    moreover have "split_at CHR ''/'' (path_of ps) = [] # split_at CHR ''/'' (tl (path_of ps))"
      by (simp add: path_of_def Cons)
    ultimately show ?thesis using Cons.IH by simp
  qed
qed (simp add: path_of_def)

lemma ref_path_of: "ref_path (ref_base @ path_of ps) = ps"
  by (simp add: ref_path_def split_path_of PathEscape_roundtrip o_def)

lemma ref_path_slash: "ref_path (ref_base @ path_of ps @ ''/'') = ps @ [[]]"
proof -
  have "path_of ps @ ''/'' = path_of (ps @ [[]])" by (simp add: path_of_def PathEscape_def)
  then show ?thesis by (simp only: ref_path_of)
qed

lemma ref_tree_put: "qs \<noteq> [] \<Longrightarrow> ref_tree ((qs, k) # s) = (ref_tree s)(qs \<mapsto> k)"
  by (auto simp: ref_tree_def fun_eq_iff)

lemma ref_tree_del: "qs \<noteq> [] \<Longrightarrow> ref_tree (filter (\<lambda>(k, r). k \<noteq> qs) s) = (ref_tree s)(qs := None)"
  by (simp add: ref_tree_def fun_eq_iff map_of_filter_key)

lemma ref_entry_names:
  assumes "\<forall>p \<in> set ps. p \<noteq> []"
  shows "\<exists>h. ref_esc (de_href (ref_entry s ps)) = Inr h \<and> TrimSuffix h ''/'' = ref_bp @ path_of ps"
    "collectionResponse (ref_entry s ps) \<longleftrightarrow> ref_tree s ps = Some Collection"
proof -
  have "\<not> HasSuffix ref_bp ''/''" by (simp add: ref_bp_def HasSuffix_def)
  note e = no_slash_end [OF this assms]
  have h: "ref_esc (ref_bp @ x) = Inr (ref_bp @ x)" for x by (simp add: ref_esc_def ref_bp_def HasPrefix_def)
  have t: "TrimSuffix (x @ ''/'') ''/'' = x" for x by (simp add: TrimSuffix_def HasSuffix_def)
  show "\<exists>h. ref_esc (de_href (ref_entry s ps)) = Inr h \<and> TrimSuffix h ''/'' = ref_bp @ path_of ps"
    using e h t [of "ref_bp @ path_of ps"] by (simp add: ref_entry_def)
  show "collectionResponse (ref_entry s ps) \<longleftrightarrow> ref_tree s ps = Some Collection"
    by (simp add: ref_entry_def collectionResponse_def)
qed

interpretation ref: dav_server ref_server ref_tree ref_esc au ref_base ref_bp for au
proof unfold_locales
  show "ref_esc (ref_base @ path_of ps) = Inr (ref_bp @ path_of ps)" for ps
    by (simp add: ref_esc_def ref_base_def ref_bp_def HasPrefix_def)
  show "\<not> HasSuffix ref_base ''/''" "\<not> HasSuffix ref_bp ''/''" by (simp_all add: ref_base_def ref_bp_def HasSuffix_def)
next
  fix p ps s r s'
  assume "p \<noteq> []" "ref_tree s ps = Some Collection" "ref_server (plain_request au ''MKCOL'' (ref_base @ path_of (ps @ [p])) None) s = (r, s')"
  then show "\<exists>y. r = Some y \<and> (if ref_tree s (ps @ [p]) = None then dy_status y = 201 \<and> ref_tree s' = (ref_tree s)(ps @ [p] \<mapsto> Collection)
         else dy_status y = 405 \<and> ref_tree s' = ref_tree s)"
    by (auto simp: ref_server_def plain_request_def ref_path_of Let_def ref_reply_def ref_tree_put split: if_splits)
next
  fix p ps s b r s'
  assume "p \<noteq> []" "ref_tree s ps = Some Collection" "ref_tree s (ps @ [p]) \<noteq> Some Collection"
    "ref_server (plain_request au ''PUT'' (ref_base @ path_of (ps @ [p])) (Some b)) s = (r, s')"
  then show "\<exists>y. r = Some y \<and> dy_status y \<in> {201, 204} \<and> ref_tree s' = (ref_tree s)(ps @ [p] \<mapsto> Resource b)"
    by (auto simp: ref_server_def plain_request_def ref_path_of Let_def ref_reply_def ref_tree_put split: if_splits)
next
  fix ps s r s'
  assume "ref_server (plain_request au ''GET'' (ref_base @ path_of ps) None) s = (r, s')"
  then show "\<exists>y. r = Some y \<and> (case ref_tree s ps of None \<Rightarrow> dy_status y = 404 | Some Collection \<Rightarrow> True
         | Some (Resource b) \<Rightarrow> dy_status y = 200 \<and> dy_body y = Inr b)"
    by (auto simp: ref_server_def plain_request_def ref_path_of Let_def ref_reply_def split: option.splits resource.splits)
next
  fix ps s r s'
  assume d: "ref_server (plain_request au ''DELETE'' (ref_base @ path_of ps) None) s = (r, s')" "ref_tree s ps \<noteq> Some Collection"
  then have "ps \<noteq> []" by (auto simp: ref_tree_def)
  with d show "\<exists>y. r = Some y \<and> dy_status y = (if ref_tree s ps = None then 404 else 204) \<and> ref_tree s' = (ref_tree s)(ps := None)"
    by (auto simp: ref_server_def plain_request_def ref_path_of Let_def ref_reply_def ref_tree_del fun_eq_iff split: if_splits)
next
  fix ps s r s'
  assume c: "ref_tree s ps = Some Collection" "\<forall>p \<in> set ps. p \<noteq> []"
    and q: "ref_server (list_request au (ref_base @ path_of ps @ ''/'')) s = (r, s')"
  let ?es = "ref_entry s ps # map (\<lambda>(k, r). ref_entry s k) (filter (\<lambda>(k, r). is_child ps k) s)"
  have r: "s' = s" "r = Some ((ref_reply 207)\<lparr>dy_multi := Inr ?es\<rparr>)"
    using q c(1) by (auto simp: ref_server_def list_request_def ref_path_slash Let_def)
  have "names_self ref_esc ref_bp ps e \<or> (\<exists>n k. n \<noteq> [] \<and> names_child ref_esc ref_bp ps e n \<and> ref_tree s (ps @ [n]) = Some k \<and> (collectionResponse e \<longleftrightarrow> k = Collection))"
    if e: "e \<in> set ?es" for e
  proof (cases "e = ref_entry s ps")
    case True
    then show ?thesis using ref_entry_names(1) [OF c(2)] by (simp add: names_self_def)
  next
    case False
    then obtain k x where k: "(k, x) \<in> set s" "is_child ps k" "e = ref_entry s k" using e by auto
    then obtain n where n: "k = ps @ [n]" "n \<noteq> []" by (metis append_butlast_last_id is_child_def)
    have ne: "\<forall>p \<in> set (ps @ [n]). p \<noteq> []" using c(2) n(2) by simp
    obtain v where v: "ref_tree s (ps @ [n]) = Some v" using k(1) n by (cases "map_of s (ps @ [n])") (auto simp: ref_tree_def map_of_eq_None_iff image_iff)
    show ?thesis using n(2) ref_entry_names [OF ne, of s] v k(3) n(1) by (intro disjI2 exI [of _ n] exI [of _ v]) (auto simp: names_child_def)
  qed
  moreover have "\<exists>e \<in> set ?es. names_child ref_esc ref_bp ps e n" if n: "n \<noteq> [] \<and> ref_tree s (ps @ [n]) \<noteq> None" for n
  proof -
    have ne: "\<forall>p \<in> set (ps @ [n]). p \<noteq> []" using c(2) n by simp
    obtain x where "(ps @ [n], x) \<in> set s" using n by (auto simp: ref_tree_def dest!: map_of_SomeD)
    then have "ref_entry s (ps @ [n]) \<in> set ?es" using n by (force simp: is_child_def)
    then show ?thesis using ref_entry_names(1) [OF ne] unfolding names_child_def by blast
  qed
  ultimately show "ref_tree s' = ref_tree s \<and> (\<exists>y es. r = Some y \<and> dy_status y = 207 \<and> dy_multi y = Inr es \<and>
        (\<forall>e \<in> set es. names_self ref_esc ref_bp ps e \<or> (\<exists>n k. n \<noteq> [] \<and> names_child ref_esc ref_bp ps e n \<and> ref_tree s (ps @ [n]) = Some k \<and> (collectionResponse e \<longleftrightarrow> k = Collection))) \<and>
        (\<forall>n. n \<noteq> [] \<and> ref_tree s (ps @ [n]) \<noteq> None \<longrightarrow> (\<exists>e \<in> set es. names_child ref_esc ref_bp ps e n)))"
    unfolding r by (intro conjI exI [of _ "(ref_reply 207)\<lparr>dy_multi := Inr ?es\<rparr>"] exI [of _ ?es]) (simp_all add: ref_reply_def)
qed

subsection \<open>Properties\<close>

text \<open>A client that was just made knows of no collection; all it needs is that the base is there.\<close>

lemma fresh_client:
  assumes "NewWebDAV parse raw user pass depth = Inr wd" "hex64 hx" "parse raw = Inr (scheme, base @ x)" "x = [] \<or> x = ''/''" "\<not> HasSuffix base ''/''"
    and "tree s = (\<lambda>ps. if ps = [] then Some Collection else None)"
  shows "dav_inv hx tree (wd_auth wd) base (wd, s)"
proof -
  have "TrimSuffix (base @ x) ''/'' = base" using assms(4,5) by (auto simp: TrimSuffix_def HasSuffix_def)
  then have wd: "wd_base wd = base" "wd_known wd = {}" "1 \<le> wd_depth wd" "wd_depth wd \<le> 4"
    using assms(1,3) by (auto simp: NewWebDAV_def NormalizeBucketDepth_def DefaultBucketDepth_def bind_res_eq_Inr split: if_splits)
  show ?thesis using assms(2,6) wd by (auto simp: dav_inv_def dav_ok_def tree_wf_def)
qed

text \<open>
  C15: on a server that keeps a tree of collections the backend is a map from names to blobs: after any
  writes, buckets being created on the way, the last blob written under each name is read back, and
  the listing, which walks the buckets, has exactly the names that were there and those written.
\<close>

theorem webdav_reads_last_write:
  assumes "dav_server srv tree esc au base bp" "dav_inv hx tree au base w" "list_all (\<lambda>(n, d). store_name n) ws"
  shows "let w' = fold (\<lambda>(n, d) w. snd (dav_put hx srv cancel n d w)) ws w in
    (\<forall>n d. map_of (rev ws) n = Some d \<longrightarrow> dav_get hx srv n w' = Inr d) \<and>
    set (dav_names hx esc srv w') = set (dav_names hx esc srv w) \<union> set (map fst ws)"
  by (rule dav_server.reads_last_write [OF assms])

definition sample_hx :: "string \<Rightarrow> string" where "sample_hx n = replicate 64 CHR ''a''"

lemma sample_inv: "dav_inv sample_hx ref_tree None ref_base (sample_client, [])"
proof -
  have "hex64 sample_hx" by (auto simp: hex64_def isBucketPart_def sample_hx_def)
  then show ?thesis
    by (auto simp: dav_inv_def dav_ok_def tree_wf_def ref_tree_def sample_client_def ref_base_def wd_auth_def)
qed

theorem webdav_reads_last_write_witness:
  "let w' = fold (\<lambda>(n, d) w. snd (dav_put sample_hx ref_server (\<lambda>_. False) n d w)) [(''x'', [1]), (''y'', [2]), (''x'', [3])] (sample_client, []) in
    dav_get sample_hx ref_server ''x'' w' = Inr [3] \<and> set (dav_names sample_hx ref_esc ref_server w') = {''x'', ''y''}"
proof -
  have ws: "list_all (\<lambda>(n, d). store_name n) [(''x'', [1 :: 8 word]), (''y'', [2]), (''x'', [3])]"
    by (simp add: store_name_def valid_name_def validateBlobName_def isTemporaryBlob_def HasPrefix_def has_char_def)
  have "dav_names sample_hx ref_esc ref_server (sample_client, []) = []" by code_simp
  with webdav_reads_last_write [OF ref.dav_server_axioms sample_inv ws, of "\<lambda>_. False"] show ?thesis
    by (auto simp: Let_def)
qed

text \<open>
  A bucket that the client has created and that is gone from the server: RFC 4918 (9.7.1) asks the server
  to answer 409 to a PUT below it.  The client takes that for final and goes on believing that the bucket
  is there, so every later upload to it fails in the same way.
\<close>

lemma lost_bucket_stays_lost:
  assumes "bucketParts hx name (wd_depth wd) = Inr parts"
    and "\<And>i. 1 \<le> i \<Longrightarrow> i \<le> length parts \<Longrightarrow> join_at CHR ''/'' (take i parts) \<in> wd_known wd"
    and "srv (put_request hx wd name data) s = (Some y, s')" "dy_status y = 409"
  shows "PutContext hx srv cancel name data wd s = (Inl (WebDAVErr ''PUT'' 409 (dy_retryAfter y)), wd, s')"
proof -
  have "ensure_loop srv parts is wd s = (Inr (), wd, s)" if "\<forall>i \<in> set is. 1 \<le> i \<and> i \<le> length parts" for "is"
    using that assms(2) by (induction "is") (auto simp: Let_def)
  then have "ensureCollections srv parts wd s = (Inr (), wd, s)" by (simp add: ensureCollections_def del: upt_Suc)
  moreover have "blobURL hx wd name = Inr (collectionURL wd parts @ ''/'' @ PathEscape name)" by (simp add: blobURL_def assms(1))
  ultimately have "putOnce hx srv name data wd s = (Inl (WebDAVErr ''PUT'' 409 (dy_retryAfter y)), wd, s')"
    using assms(3,4) by (simp add: putOnce_def assms(1) doContext_def doReader_def put_request_def newWebDAVError_def)
  then show ?thesis by (simp add: PutContext_def assms(1) eval_nat_numeral retryableWriteError_def Retryable_def)
qed

text \<open>
  The upload of a database backup from a file is never repeated with success: the HTTP client has
  closed the file after the first upload, and the second fails when it seeks to its start.  The same
  source without a \<open>Close\<close> method is stored at the second attempt.
\<close>

definition one_failure :: "nat server" where
  "one_failure req n = (if n = 1 then None else Some (ref_reply 201), n + 1)"

lemma meta_retry_finds_file_closed:
  "fst (PutMetaContext one_failure (\<lambda>_. False) ''m.cmeta'' \<lparr>so_data = [7], so_closer = True, so_closed = False\<rparr> 1 sample_client 0) =
     Inl (Err ''file already closed'')"
  "fst (PutMetaContext one_failure (\<lambda>_. False) ''m.cmeta'' \<lparr>so_data = [7], so_closer = False, so_closed = False\<rparr> 1 sample_client 0) = Inr ()"
  by code_simp+

text \<open>
  A base URL whose path has a character that need not be escaped, such as a parenthesis, keeps it;
  a server that escapes it in its hrefs is then taken to list nothing below the base.
\<close>

lemma escaped_parent_hides_children:
  assumes "esc ''/%28x%29/ab/'' = Inr ''/%28x%29/ab/''" "esc ''http://h/(x)'' = Inr ''/(x)''"
  shows "hrefChildName esc ''/%28x%29/ab/'' ''http://h/(x)'' = Inr None"
  by (simp add: hrefChildName_def assms TrimSuffix_def HasSuffix_def HasPrefix_def)

end
