(* ===== verification/Uploads.thy ===== *)
theory Uploads
  imports Prelude
begin

text \<open>
  The concurrency of uploads (\<open>PutFileContext\<close>, \<open>storeChunkContext\<close>, \<open>putBlobContext\<close> in
  \<open>internal/core/repo/repo.go\<close> and \<open>inflight.go\<close>): several uploads into one module, each with a producer
  that reads chunks and four workers that store them, share the slots of the in-flight limiter, the upload gate and the
  register of contents that are being stored.  Steps of the goroutines interleave freely; a chunk is its hash.
  Contents, encryption and the tables are in \<open>Repo\<close>.
\<close>

subsection \<open>The state\<close>

text \<open>
  A worker is free, has a chunk, has seen its context alive, has missed the chunk in the table, waits for the upload \<open>t\<close> of the
  same content, or is itself that upload, before the gate or in the backend.
\<close>

datatype 'h worker = Free | Taken 'h | Lookup 'h | Missed 'h | Waiting 'h nat | NeedGate 'h nat | Putting 'h nat

text \<open>The producer looks at its context, waits for a slot, has one while it reads and hands on, or has ended.\<close>

datatype producer = Checking | Acquiring | Reading | Closed

record 'h put_run =
  pr_src :: "'h list"
  pr_prod :: producer
  pr_queue :: "'h list"
  pr_workers :: "'h worker list"
  pr_stop :: bool
  pr_failed :: bool
  pr_new :: "'h list"
  pr_finished :: bool

text \<open>
  \<open>pi_reg\<close> is the register, with a number for each entry made; \<open>pi_out\<close> is the outcome of an entry
  whose channel is closed.  A gate of 0 is no gate.
\<close>

record 'h pipe =
  pi_runs :: "'h put_run list"
  pi_reg :: "'h \<Rightarrow> nat option"
  pi_out :: "nat \<Rightarrow> bool option"
  pi_next :: nat
  pi_db :: "'h set"
  pi_slots :: nat
  pi_gate :: nat

definition uploadWorkers :: nat where "uploadWorkers = 4"

definition NewInflightLimiter :: "int \<Rightarrow> nat" where
  "NewInflightLimiter n = (if n \<le> 0 then 1 else nat n)"

definition start_run :: "'h list \<Rightarrow> 'h put_run" where
  "start_run chunks = \<lparr>pr_src = chunks, pr_prod = Checking, pr_queue = [], pr_workers = replicate uploadWorkers Free,
     pr_stop = False, pr_failed = False, pr_new = [], pr_finished = False\<rparr>"

definition start_pipe :: "int \<Rightarrow> nat \<Rightarrow> 'h set \<Rightarrow> 'h list list \<Rightarrow> 'h pipe" where
  "start_pipe slots gate db files = \<lparr>pi_runs = map start_run files, pi_reg = (\<lambda>_. None), pi_out = (\<lambda>_. None), pi_next = 0,
     pi_db = db, pi_slots = NewInflightLimiter slots, pi_gate = gate\<rparr>"

text \<open>A slot belongs to a chunk from before it is read until it is stored.\<close>

definition held :: "'h put_run \<Rightarrow> nat" where
  "held r = (if pr_prod r = Reading then 1 else 0) + length (pr_queue r) + length (filter (\<lambda>w. w \<noteq> Free) (pr_workers r))"

definition slots_used :: "'h pipe \<Rightarrow> nat" where
  "slots_used s = sum_list (map held (pi_runs s))"

definition in_state :: "('h worker \<Rightarrow> bool) \<Rightarrow> 'h pipe \<Rightarrow> nat" where
  "in_state P s = sum_list (map (\<lambda>r. length (filter P (pr_workers r))) (pi_runs s))"

fun is_putting :: "'h worker \<Rightarrow> bool" where
  "is_putting (Putting h t) = True"
| "is_putting _ = False"

text \<open>The workers that are the upload of the register's entry \<open>t\<close> for \<open>h\<close>.\<close>

fun uploads :: "'h \<Rightarrow> nat \<Rightarrow> 'h worker \<Rightarrow> bool" where
  "uploads h t (NeedGate h' t') = (h = h' \<and> t = t')"
| "uploads h t (Putting h' t') = (h = h' \<and> t = t')"
| "uploads h t _ = False"

definition gate_used :: "'h pipe \<Rightarrow> nat" where
  "gate_used s = in_state is_putting s"

definition gate_open :: "'h pipe \<Rightarrow> bool" where
  "gate_open s \<longleftrightarrow> pi_gate s = 0 \<or> gate_used s < pi_gate s"

definition set_run :: "nat \<Rightarrow> 'h put_run \<Rightarrow> 'h pipe \<Rightarrow> 'h pipe" where
  "set_run i r s = s\<lparr>pi_runs := (pi_runs s)[i := r]\<rparr>"

definition put_worker :: "nat \<Rightarrow> 'h worker \<Rightarrow> 'h put_run \<Rightarrow> 'h put_run" where
  "put_worker j w r = r\<lparr>pr_workers := (pr_workers r)[j := w]\<rparr>"

text \<open>A worker that fails has its upload stopped.\<close>

definition fail_worker :: "nat \<Rightarrow> 'h put_run \<Rightarrow> 'h put_run" where
  "fail_worker j r = (put_worker j Free r)\<lparr>pr_failed := True, pr_stop := True\<rparr>"

text \<open>The end of an entry: it leaves the register, then its outcome is announced.\<close>

definition announce :: "'h \<Rightarrow> nat \<Rightarrow> bool \<Rightarrow> 'h pipe \<Rightarrow> 'h pipe" where
  "announce h t ok s = s\<lparr>pi_reg := (pi_reg s)(h := None), pi_out := (pi_out s)(t \<mapsto> ok)\<rparr>"

subsection \<open>Steps\<close>

text \<open>
  A step carries whether something goes wrong in it, in the source, the table or the backend.  What ends because its
  context has ended is not such a fault.  Both the context and a channel may be ready; then either is taken.
\<close>

text \<open>The producer of upload \<open>i\<close>.  The last chunk may be short, which ends the reading with it.\<close>

inductive producer_step :: "nat \<Rightarrow> bool \<Rightarrow> 'h pipe \<Rightarrow> 'h pipe \<Rightarrow> bool" where
  admit: "i < length (pi_runs s) \<Longrightarrow> r = pi_runs s ! i \<Longrightarrow> pr_prod r = Checking \<Longrightarrow> \<not> pr_stop r \<Longrightarrow>
     producer_step i False s (set_run i (r\<lparr>pr_prod := Acquiring\<rparr>) s)"
| acquire: "i < length (pi_runs s) \<Longrightarrow> r = pi_runs s ! i \<Longrightarrow> pr_prod r = Acquiring \<Longrightarrow> slots_used s < pi_slots s \<Longrightarrow>
     producer_step i False s (set_run i (r\<lparr>pr_prod := Reading\<rparr>) s)"
| acquire_stopped: "i < length (pi_runs s) \<Longrightarrow> r = pi_runs s ! i \<Longrightarrow> pr_prod r = Checking \<or> pr_prod r = Acquiring \<Longrightarrow> pr_stop r \<Longrightarrow>
     producer_step i False s (set_run i (r\<lparr>pr_prod := Closed, pr_failed := True\<rparr>) s)"
| read: "i < length (pi_runs s) \<Longrightarrow> r = pi_runs s ! i \<Longrightarrow> pr_prod r = Reading \<Longrightarrow> pr_src r = h # rest \<Longrightarrow> length (pr_queue r) < uploadWorkers \<Longrightarrow>
     producer_step i False s (set_run i (r\<lparr>pr_prod := Checking, pr_src := rest, pr_queue := pr_queue r @ [h]\<rparr>) s)"
| read_last: "i < length (pi_runs s) \<Longrightarrow> r = pi_runs s ! i \<Longrightarrow> pr_prod r = Reading \<Longrightarrow> pr_src r = h # rest \<Longrightarrow> length (pr_queue r) < uploadWorkers \<Longrightarrow>
     bad \<or> rest = [] \<Longrightarrow>
     producer_step i bad s (set_run i (r\<lparr>pr_prod := Closed, pr_src := rest, pr_queue := pr_queue r @ [h], pr_failed := pr_failed r \<or> bad\<rparr>) s)"
| read_end: "i < length (pi_runs s) \<Longrightarrow> r = pi_runs s ! i \<Longrightarrow> pr_prod r = Reading \<Longrightarrow> pr_src r = [] \<Longrightarrow>
     producer_step i False s (set_run i (r\<lparr>pr_prod := Closed\<rparr>) s)"
| read_error: "i < length (pi_runs s) \<Longrightarrow> r = pi_runs s ! i \<Longrightarrow> pr_prod r = Reading \<Longrightarrow> bad \<or> pr_stop r \<Longrightarrow>
     producer_step i bad s (set_run i (r\<lparr>pr_prod := Closed, pr_failed := True\<rparr>) s)"

text \<open>Worker \<open>j\<close> of upload \<open>i\<close>.  The look-up in the table and the one in the register are two steps.\<close>

inductive worker_step :: "nat \<Rightarrow> nat \<Rightarrow> bool \<Rightarrow> 'h pipe \<Rightarrow> 'h pipe \<Rightarrow> bool" where
  take_job: "i < length (pi_runs s) \<Longrightarrow> r = pi_runs s ! i \<Longrightarrow> j < length (pr_workers r) \<Longrightarrow> pr_workers r ! j = Free \<Longrightarrow> pr_queue r = h # q \<Longrightarrow>
     worker_step i j False s (set_run i (put_worker j (Taken h) (r\<lparr>pr_queue := q\<rparr>)) s)"
| go_on: "i < length (pi_runs s) \<Longrightarrow> r = pi_runs s ! i \<Longrightarrow> j < length (pr_workers r) \<Longrightarrow> pr_workers r ! j = Taken h \<Longrightarrow> \<not> pr_stop r \<Longrightarrow>
     worker_step i j False s (set_run i (put_worker j (Lookup h) r) s)"
| taken_stopped: "i < length (pi_runs s) \<Longrightarrow> r = pi_runs s ! i \<Longrightarrow> j < length (pr_workers r) \<Longrightarrow> pr_workers r ! j = Taken h \<Longrightarrow> pr_stop r \<Longrightarrow>
     worker_step i j False s (set_run i (fail_worker j r) s)"
| lookup_error: "i < length (pi_runs s) \<Longrightarrow> r = pi_runs s ! i \<Longrightarrow> j < length (pr_workers r) \<Longrightarrow> pr_workers r ! j = Lookup h \<Longrightarrow>
     worker_step i j True s (set_run i (fail_worker j r) s)"
| hit: "i < length (pi_runs s) \<Longrightarrow> r = pi_runs s ! i \<Longrightarrow> j < length (pr_workers r) \<Longrightarrow> pr_workers r ! j = Lookup h \<Longrightarrow> h \<in> pi_db s \<Longrightarrow>
     worker_step i j False s (set_run i (put_worker j Free r) s)"
| miss: "i < length (pi_runs s) \<Longrightarrow> r = pi_runs s ! i \<Longrightarrow> j < length (pr_workers r) \<Longrightarrow> pr_workers r ! j = Lookup h \<Longrightarrow> h \<notin> pi_db s \<Longrightarrow>
     worker_step i j False s (set_run i (put_worker j (Missed h) r) s)"
| join: "i < length (pi_runs s) \<Longrightarrow> r = pi_runs s ! i \<Longrightarrow> j < length (pr_workers r) \<Longrightarrow> pr_workers r ! j = Missed h \<Longrightarrow> pi_reg s h = Some t \<Longrightarrow>
     worker_step i j False s (set_run i (put_worker j (Waiting h t) r) s)"
| enter: "i < length (pi_runs s) \<Longrightarrow> r = pi_runs s ! i \<Longrightarrow> j < length (pr_workers r) \<Longrightarrow> pr_workers r ! j = Missed h \<Longrightarrow> pi_reg s h = None \<Longrightarrow>
     worker_step i j False s ((set_run i (put_worker j (NeedGate h (pi_next s)) r) s)\<lparr>pi_reg := (pi_reg s)(h \<mapsto> pi_next s), pi_next := pi_next s + 1\<rparr>)"
| wake: "i < length (pi_runs s) \<Longrightarrow> r = pi_runs s ! i \<Longrightarrow> j < length (pr_workers r) \<Longrightarrow> pr_workers r ! j = Waiting h t \<Longrightarrow> pi_out s t = Some ok \<Longrightarrow>
     worker_step i j False s (set_run i (if ok then put_worker j Free r else fail_worker j r) s)"
| wait_stopped: "i < length (pi_runs s) \<Longrightarrow> r = pi_runs s ! i \<Longrightarrow> j < length (pr_workers r) \<Longrightarrow> pr_workers r ! j = Waiting h t \<Longrightarrow> pr_stop r \<Longrightarrow>
     worker_step i j False s (set_run i (fail_worker j r) s)"
| gate: "i < length (pi_runs s) \<Longrightarrow> r = pi_runs s ! i \<Longrightarrow> j < length (pr_workers r) \<Longrightarrow> pr_workers r ! j = NeedGate h t \<Longrightarrow> gate_open s \<Longrightarrow>
     worker_step i j False s (set_run i (put_worker j (Putting h t) r) s)"
| not_uploaded: "i < length (pi_runs s) \<Longrightarrow> r = pi_runs s ! i \<Longrightarrow> j < length (pr_workers r) \<Longrightarrow> pr_workers r ! j = NeedGate h t \<Longrightarrow> bad \<or> pr_stop r \<Longrightarrow>
     worker_step i j bad s (announce h t False (set_run i (fail_worker j r) s))"
| stored: "i < length (pi_runs s) \<Longrightarrow> r = pi_runs s ! i \<Longrightarrow> j < length (pr_workers r) \<Longrightarrow> pr_workers r ! j = Putting h t \<Longrightarrow>
     worker_step i j False s ((announce h t True (set_run i ((put_worker j Free r)\<lparr>pr_new := (if h \<in> pi_db s then pr_new r else h # pr_new r)\<rparr>) s))\<lparr>pi_db := insert h (pi_db s)\<rparr>)"
| not_stored: "i < length (pi_runs s) \<Longrightarrow> r = pi_runs s ! i \<Longrightarrow> j < length (pr_workers r) \<Longrightarrow> pr_workers r ! j = Putting h t \<Longrightarrow> bad \<or> pr_stop r \<Longrightarrow>
     worker_step i j bad s (announce h t False (set_run i (fail_worker j r) s))"

text \<open>
  The collector, when the producer and the workers have ended: an upload that has failed, or whose context has
  ended, takes back those of its new chunk rows that nothing refers to yet.
\<close>

inductive collector_step :: "nat \<Rightarrow> 'h pipe \<Rightarrow> 'h pipe \<Rightarrow> bool" where
  collect: "i < length (pi_runs s) \<Longrightarrow> r = pi_runs s ! i \<Longrightarrow> pr_prod r = Closed \<Longrightarrow> pr_queue r = [] \<Longrightarrow> \<forall>w \<in> set (pr_workers r). w = Free \<Longrightarrow>
     \<not> pr_finished r \<Longrightarrow> dead \<subseteq> (if pr_failed r \<or> pr_stop r then set (pr_new r) else {}) \<Longrightarrow>
     collector_step i s ((set_run i (r\<lparr>pr_finished := True, pr_failed := pr_failed r \<or> pr_stop r\<rparr>) s)\<lparr>pi_db := pi_db s - dead\<rparr>)"

inductive pipe_step :: "bool \<Rightarrow> 'h pipe \<Rightarrow> 'h pipe \<Rightarrow> bool" where
  producer: "producer_step i bad s s' \<Longrightarrow> pipe_step bad s s'"
| worker: "worker_step i j bad s s' \<Longrightarrow> pipe_step bad s s'"
| collector: "collector_step i s s' \<Longrightarrow> pipe_step False s s'"

text \<open>A client that goes away cancels the context of its upload.\<close>

inductive client_leaves :: "'h pipe \<Rightarrow> 'h pipe \<Rightarrow> bool" where
  leave: "i < length (pi_runs s) \<Longrightarrow> client_leaves s (set_run i ((pi_runs s ! i)\<lparr>pr_stop := True\<rparr>) s)"

text \<open>The runs of \<open>n\<close> steps; without faults, nothing goes wrong and no client leaves.\<close>

inductive pipe_runs :: "bool \<Rightarrow> 'h pipe \<Rightarrow> nat \<Rightarrow> 'h pipe \<Rightarrow> bool" for faults s0 where
  start: "pipe_runs faults s0 0 s0"
| step: "pipe_runs faults s0 n s \<Longrightarrow> pipe_step bad s s' \<Longrightarrow> bad \<longrightarrow> faults \<Longrightarrow> pipe_runs faults s0 (Suc n) s'"
| leave: "pipe_runs faults s0 n s \<Longrightarrow> client_leaves s s' \<Longrightarrow> faults \<Longrightarrow> pipe_runs faults s0 n s'"

definition all_ended :: "'h pipe \<Rightarrow> bool" where
  "all_ended s \<longleftrightarrow> (\<forall>r \<in> set (pi_runs s). pr_finished r)"


subsection \<open>Replacing one upload and one worker\<close>

lemma slots_set_run:
  assumes "i < length (pi_runs s)"
  shows "slots_used (set_run i r s) + held (pi_runs s ! i) = slots_used s + held r"
  using sum_upd [OF assms] by (simp add: slots_used_def set_run_def)

lemma in_state_set_run:
  assumes "i < length (pi_runs s)" "j < length (pr_workers (pi_runs s ! i))" "pr_workers r = (pr_workers (pi_runs s ! i))[j := w]"
  shows "in_state P (set_run i r s) + (if P (pr_workers (pi_runs s ! i) ! j) then 1 else 0) = in_state P s + (if P w then 1 else 0)"
  using sum_upd [OF assms(1), of "\<lambda>r. length (filter P (pr_workers r))" r] filter_upd [OF assms(2), of P w] assms(3)
  by (simp add: in_state_def set_run_def)

lemma in_state_same:
  assumes "i < length (pi_runs s)" "pr_workers r = pr_workers (pi_runs s ! i)"
  shows "in_state P (set_run i r s) = in_state P s"
  using sum_upd [OF assms(1), of "\<lambda>r. length (filter P (pr_workers r))" r] assms(2)
  by (simp add: in_state_def set_run_def)

lemma other_fields [simp]:
  "slots_used (s\<lparr>pi_reg := reg\<rparr>) = slots_used s" "slots_used (s\<lparr>pi_out := out\<rparr>) = slots_used s"
  "slots_used (s\<lparr>pi_next := t\<rparr>) = slots_used s" "slots_used (s\<lparr>pi_db := db\<rparr>) = slots_used s"
  "in_state P (s\<lparr>pi_reg := reg\<rparr>) = in_state P s" "in_state P (s\<lparr>pi_out := out\<rparr>) = in_state P s"
  "in_state P (s\<lparr>pi_next := t\<rparr>) = in_state P s" "in_state P (s\<lparr>pi_db := db\<rparr>) = in_state P s"
  by (simp_all add: slots_used_def in_state_def)

lemma set_run_fields [simp]:
  "pi_reg (set_run i r s) = pi_reg s" "pi_out (set_run i r s) = pi_out s" "pi_next (set_run i r s) = pi_next s"
  "pi_db (set_run i r s) = pi_db s" "pi_slots (set_run i r s) = pi_slots s" "pi_gate (set_run i r s) = pi_gate s"
  "pi_runs (set_run i r s) = (pi_runs s)[i := r]"
  by (simp_all add: set_run_def)

subsection \<open>What a step does to its upload\<close>

text \<open>The steps that are left to a worker and to an upload.\<close>

fun steps_left :: "'h worker \<Rightarrow> nat" where
  "steps_left Free = 0"
| "steps_left (Taken h) = 5"
| "steps_left (Lookup h) = 4"
| "steps_left (Missed h) = 3"
| "steps_left (NeedGate h t) = 2"
| "steps_left (Putting h t) = 1"
| "steps_left (Waiting h t) = 1"

definition work :: "'h put_run \<Rightarrow> nat" where
  "work r = 9 * length (pr_src r) + 6 * length (pr_queue r) + sum_list (map steps_left (pr_workers r)) +
     (case pr_prod r of Checking \<Rightarrow> 3 | Acquiring \<Rightarrow> 2 | Reading \<Rightarrow> 1 | Closed \<Rightarrow> 0) + (if pr_finished r then 0 else 1)"

definition well_shaped :: "'h put_run \<Rightarrow> bool" where
  "well_shaped r \<longleftrightarrow> length (pr_workers r) = uploadWorkers \<and> length (pr_queue r) \<le> uploadWorkers \<and>
     (pr_finished r \<longrightarrow> pr_prod r = Closed \<and> pr_queue r = [] \<and> (\<forall>w \<in> set (pr_workers r). w = Free))"

text \<open>
  One step changes one upload: a slot more only where one is free, a blob more in the backend only through an
  open gate, and always less left to do.
\<close>

definition run_moves :: "'h pipe \<Rightarrow> 'h put_run \<Rightarrow> 'h put_run \<Rightarrow> bool" where
  "run_moves s r r' \<longleftrightarrow>
     (held r' \<le> held r \<or> held r' = Suc (held r) \<and> slots_used s < pi_slots s) \<and>
     (let n = (\<lambda>r. length (filter is_putting (pr_workers r))) in n r' \<le> n r \<or> n r' = Suc (n r) \<and> gate_open s) \<and>
     work r' < work r \<and> (well_shaped r \<longrightarrow> well_shaped r')"

lemmas move_facts = run_moves_def held_def work_def well_shaped_def Let_def

lemma producer_moves:
  assumes "producer_step i bad s s'"
  shows "\<exists>r'. i < length (pi_runs s) \<and> s' = set_run i r' s \<and> run_moves s (pi_runs s ! i) r' \<and> pr_workers r' = pr_workers (pi_runs s ! i)"
  using assms
proof cases
  case (admit r) then show ?thesis by (intro exI [of _ "r\<lparr>pr_prod := Acquiring\<rparr>"]) (simp add: move_facts)
next
  case (acquire r) then show ?thesis by (intro exI [of _ "r\<lparr>pr_prod := Reading\<rparr>"]) (simp add: move_facts)
next
  case (acquire_stopped r) then show ?thesis by (intro exI [of _ "r\<lparr>pr_prod := Closed, pr_failed := True\<rparr>"]) (auto simp: move_facts)
next
  case (read r h rest) then show ?thesis by (intro exI [of _ "r\<lparr>pr_prod := Checking, pr_src := rest, pr_queue := pr_queue r @ [h]\<rparr>"]) (simp add: move_facts)
next
  case (read_last r h rest) then show ?thesis by (intro exI [of _ "r\<lparr>pr_prod := Closed, pr_src := rest, pr_queue := pr_queue r @ [h], pr_failed := pr_failed r \<or> bad\<rparr>"]) (simp add: move_facts)
next
  case (read_end r) then show ?thesis by (intro exI [of _ "r\<lparr>pr_prod := Closed\<rparr>"]) (simp add: move_facts)
next
  case (read_error r) then show ?thesis by (intro exI [of _ "r\<lparr>pr_prod := Closed, pr_failed := True\<rparr>"]) (simp add: move_facts)
qed

text \<open>A worker in its next state, and the fields of its upload that no limit depends on.\<close>

lemma run_moves_worker:
  assumes "j < length (pr_workers r)" "pr_workers r ! j \<noteq> Free" "pr_workers r' = (pr_workers r)[j := w]"
    and "pr_src r' = pr_src r" "pr_queue r' = pr_queue r" "pr_prod r' = pr_prod r" "pr_finished r' = pr_finished r"
    and "steps_left w < steps_left (pr_workers r ! j)" "is_putting w \<longrightarrow> gate_open s"
  shows "run_moves s r r'"
proof -
  have f: "\<not> (pr_finished r \<and> well_shaped r)" using assms(1,2) by (auto simp: well_shaped_def)
  have g: "0 < length (filter (\<lambda>w. w \<noteq> Free) (pr_workers r))" by (rule filter_pos [OF assms(1)]) (rule assms(2))
  show ?thesis
    using assms f g sum_at [OF assms(1), of steps_left] filter_pos [OF assms(1), of is_putting]
    by (auto simp: move_facts filter_upd_eq sum_upd_eq)
qed

lemma worker_moves:
  assumes "worker_step i j bad s s'"
  shows "\<exists>r' w. i < length (pi_runs s) \<and> j < length (pr_workers (pi_runs s ! i)) \<and> pi_runs s' = (pi_runs s)[i := r'] \<and>
     pi_slots s' = pi_slots s \<and> pi_gate s' = pi_gate s \<and> run_moves s (pi_runs s ! i) r' \<and> pr_workers r' = (pr_workers (pi_runs s ! i))[j := w]"
  using assms
proof cases
  case (take_job r h q)
  have "0 < length (pr_workers r)" using take_job by auto
  then have "run_moves s r (put_worker j (Taken h) (r\<lparr>pr_queue := q\<rparr>))"
    using take_job filter_upd_eq [of j "pr_workers r" "\<lambda>w. w \<noteq> Free" "Taken h"] sum_upd_eq [of j "pr_workers r" steps_left "Taken h"]
    by (auto simp: move_facts put_worker_def filter_upd_eq)
  then show ?thesis using take_job
    by (intro exI [of _ "put_worker j (Taken h) (r\<lparr>pr_queue := q\<rparr>)"] exI [of _ "Taken h"]) (simp add: put_worker_def)
qed (auto simp: put_worker_def fail_worker_def announce_def intro!: exI run_moves_worker)

lemma collector_moves:
  assumes "collector_step i s s'"
  shows "\<exists>r' db. i < length (pi_runs s) \<and> s' = (set_run i r' s)\<lparr>pi_db := db\<rparr> \<and> run_moves s (pi_runs s ! i) r' \<and> pr_workers r' = pr_workers (pi_runs s ! i)"
  using assms
proof cases
  case (collect r dead)
  have "run_moves s r (r\<lparr>pr_finished := True, pr_failed := pr_failed r \<or> pr_stop r\<rparr>)" using collect by (simp add: move_facts)
  then show ?thesis using collect by auto
qed

lemma step_moves:
  assumes "pipe_step bad s s'"
  obtains i r' where "i < length (pi_runs s)" "pi_runs s' = (pi_runs s)[i := r']" "pi_slots s' = pi_slots s" "pi_gate s' = pi_gate s"
    "run_moves s (pi_runs s ! i) r'"
  using assms
proof cases
  case (producer i)
  with producer_moves [OF producer] that show ?thesis by auto
next
  case (worker i j)
  with worker_moves [OF worker] that show ?thesis by auto
next
  case (collector i)
  with collector_moves [of i s s'] that show ?thesis by auto
qed

subsection \<open>The limits\<close>

definition total_work :: "'h pipe \<Rightarrow> nat" where
  "total_work s = sum_list (map work (pi_runs s))"

definition within_limits :: "'h pipe \<Rightarrow> bool" where
  "within_limits s \<longleftrightarrow> slots_used s \<le> pi_slots s \<and> (pi_gate s = 0 \<or> gate_used s \<le> pi_gate s) \<and> (\<forall>r \<in> set (pi_runs s). well_shaped r)"

lemma step_limits:
  assumes "pipe_step bad s s'" "within_limits s"
  shows "within_limits s' \<and> total_work s' < total_work s \<and> pi_slots s' = pi_slots s \<and> pi_gate s' = pi_gate s"
proof -
  obtain i r' where i: "i < length (pi_runs s)" "pi_runs s' = (pi_runs s)[i := r']" "pi_slots s' = pi_slots s" "pi_gate s' = pi_gate s"
    and m: "run_moves s (pi_runs s ! i) r'" using step_moves [OF assms(1)] .
  have u: "sum_list (map f (pi_runs s')) + f (pi_runs s ! i) = sum_list (map f (pi_runs s)) + f r'" for f :: "'a put_run \<Rightarrow> nat"
    using sum_upd [OF i(1)] by (simp add: i(2))
  have "slots_used s' \<le> pi_slots s'"
    using u [of held] m assms(2) i(3) by (auto simp: run_moves_def slots_used_def within_limits_def)
  moreover have "pi_gate s' = 0 \<or> gate_used s' \<le> pi_gate s'"
    using u [of "\<lambda>r. length (filter is_putting (pr_workers r))"] m assms(2) i(4)
    by (auto simp: run_moves_def gate_used_def in_state_def within_limits_def gate_open_def Let_def)
  moreover have "total_work s' < total_work s" using u [of work] m by (simp add: run_moves_def total_work_def)
  moreover have "\<forall>r \<in> set (pi_runs s'). well_shaped r"
    using m assms(2) i(1,2) by (auto simp: run_moves_def within_limits_def dest: set_update_subset_insert [THEN subsetD])
  ultimately show ?thesis using i(3,4) by (simp add: within_limits_def)
qed

lemma leave_limits:
  assumes "client_leaves s s'"
  shows "within_limits s' = within_limits s \<and> total_work s' = total_work s \<and> pi_slots s' = pi_slots s \<and> pi_gate s' = pi_gate s"
  using assms
proof cases
  case (leave i)
  let ?r = "(pi_runs s ! i)\<lparr>pr_stop := True\<rparr>"
  have w: "well_shaped ?r = well_shaped (pi_runs s ! i)" "work ?r = work (pi_runs s ! i)" "held ?r = held (pi_runs s ! i)"
    by (simp_all add: well_shaped_def work_def held_def)
  have "(\<forall>r \<in> set ((pi_runs s)[i := ?r]). well_shaped r) = (\<forall>r \<in> set (pi_runs s). well_shaped r)"
    using leave(2) w(1) by (auto simp: all_set_conv_all_nth nth_list_update)
  moreover have "slots_used (set_run i ?r s) = slots_used s" using slots_set_run [OF leave(2), of ?r] w(3) by simp
  moreover have "in_state P (set_run i ?r s) = in_state P s" for P by (rule in_state_same [OF leave(2)]) simp
  moreover have "sum_list (map work ((pi_runs s)[i := ?r])) = sum_list (map work (pi_runs s))"
    using sum_upd [OF leave(2), of work ?r] w(2) by simp
  ultimately show ?thesis using leave(1) by (simp add: within_limits_def total_work_def gate_used_def)
qed

subsection \<open>The register\<close>

text \<open>
  An entry of the register has exactly one upload, and who waits for an entry has it in the register or its outcome.
\<close>

definition register_sound :: "'h pipe \<Rightarrow> bool" where
  "register_sound s \<longleftrightarrow> (\<forall>h t. in_state (uploads h t) s = (if pi_reg s h = Some t then 1 else 0)) \<and>
     (\<forall>h t. pi_reg s h = Some t \<longrightarrow> t < pi_next s) \<and>
     (\<forall>h t. in_state ((=) (Waiting h t)) s \<noteq> 0 \<longrightarrow> pi_out s t \<noteq> None \<or> pi_reg s h = Some t)"

text \<open>What the others see of a worker's step: it goes from one state to another, and the register follows.\<close>

datatype 'h move = Aside | Enters 'h | Leaves 'h nat bool

fun move_ok :: "'h pipe \<Rightarrow> 'h worker \<Rightarrow> 'h worker \<Rightarrow> 'h move \<Rightarrow> 'h pipe \<Rightarrow> bool" where
  "move_ok s w w' Aside s' = (pi_reg s' = pi_reg s \<and> pi_out s' = pi_out s \<and> pi_next s' = pi_next s \<and> pi_db s' = pi_db s \<and> (\<forall>h t. uploads h t w = uploads h t w') \<and>
     (\<forall>h t. w' = Waiting h t \<longrightarrow> pi_reg s h = Some t))"
| "move_ok s w w' (Enters h) s' = (w = Missed h \<and> w' = NeedGate h (pi_next s) \<and> pi_reg s h = None \<and> pi_reg s' = (pi_reg s)(h \<mapsto> pi_next s) \<and>
     pi_out s' = pi_out s \<and> pi_next s' = Suc (pi_next s) \<and> pi_db s' = pi_db s)"
| "move_ok s w w' (Leaves h t ok) s' = (uploads h t w \<and> w' = Free \<and> pi_reg s' = (pi_reg s)(h := None) \<and> pi_out s' = (pi_out s)(t \<mapsto> ok) \<and> pi_next s' = pi_next s \<and>
     pi_db s' = (if ok then insert h (pi_db s) else pi_db s))"

definition state_change :: "'h pipe \<Rightarrow> 'h worker \<Rightarrow> 'h worker \<Rightarrow> 'h pipe \<Rightarrow> bool" where
  "state_change s w w' s' \<longleftrightarrow> (\<forall>P. in_state P s' + (if P w then 1 else 0) = in_state P s + (if P w' then 1 else 0))"

lemma state_change_set:
  assumes "i < length (pi_runs s)" "j < length (pr_workers (pi_runs s ! i))" "pr_workers r = (pr_workers (pi_runs s ! i))[j := w']"
    and "pi_runs s' = (pi_runs s)[i := r]"
  shows "state_change s (pr_workers (pi_runs s ! i) ! j) w' s'"
  using in_state_set_run [OF assms(1-3)] assms(4) by (simp add: state_change_def in_state_def)

lemma worker_view:
  assumes "worker_step i j bad s s'"
  obtains w' m where "i < length (pi_runs s)" "j < length (pr_workers (pi_runs s ! i))"
    "state_change s (pr_workers (pi_runs s ! i) ! j) w' s'" "move_ok s (pr_workers (pi_runs s ! i) ! j) w' m s'"
    "\<And>h t ok. m = Leaves h t ok \<Longrightarrow> ok \<or> bad \<or> pr_stop (pi_runs s ! i)"
proof -
  note defs = put_worker_def fail_worker_def announce_def
  have "i < length (pi_runs s)" "j < length (pr_workers (pi_runs s ! i))" using worker_moves [OF assms] by blast+
  moreover have "\<exists>w' m r. pi_runs s' = (pi_runs s)[i := r] \<and> pr_workers r = (pr_workers (pi_runs s ! i))[j := w'] \<and>
     move_ok s (pr_workers (pi_runs s ! i) ! j) w' m s' \<and> (\<forall>h t ok. m = Leaves h t ok \<longrightarrow> ok \<or> bad \<or> pr_stop (pi_runs s ! i))"
    using assms
  proof cases
    case (take_job r h q) then show ?thesis by (intro exI [of _ "Taken h"] exI [of _ Aside]) (auto simp: defs)
  next
    case (go_on r h) then show ?thesis by (intro exI [of _ "Lookup h"] exI [of _ Aside]) (auto simp: defs)
  next
    case (taken_stopped r h) then show ?thesis by (intro exI [of _ Free] exI [of _ Aside]) (auto simp: defs)
  next
    case (lookup_error r h) then show ?thesis by (intro exI [of _ Free] exI [of _ Aside]) (auto simp: defs)
  next
    case (hit r h) then show ?thesis by (intro exI [of _ Free] exI [of _ Aside]) (auto simp: defs)
  next
    case (miss r h) then show ?thesis by (intro exI [of _ "Missed h"] exI [of _ Aside]) (auto simp: defs)
  next
    case (join r h t) then show ?thesis by (intro exI [of _ "Waiting h t"] exI [of _ Aside]) (auto simp: defs)
  next
    case (enter r h) then show ?thesis by (intro exI [of _ "NeedGate h (pi_next s)"] exI [of _ "Enters h"]) (auto simp: defs)
  next
    case (wake r h t ok) then show ?thesis by (intro exI [of _ Free] exI [of _ Aside]) (auto simp: defs)
  next
    case (wait_stopped r h t) then show ?thesis by (intro exI [of _ Free] exI [of _ Aside]) (auto simp: defs)
  next
    case (gate r h t) then show ?thesis by (intro exI [of _ "Putting h t"] exI [of _ Aside]) (auto simp: defs)
  next
    case (not_uploaded r h t) then show ?thesis by (intro exI [of _ Free] exI [of _ "Leaves h t False"]) (auto simp: defs)
  next
    case (stored r h t) then show ?thesis by (intro exI [of _ Free] exI [of _ "Leaves h t True"]) (auto simp: defs)
  next
    case (not_stored r h t) then show ?thesis by (intro exI [of _ Free] exI [of _ "Leaves h t False"]) (auto simp: defs)
  qed
  ultimately show ?thesis using that state_change_set [of i s j _ _ s'] by blast
qed

lemma uploads_inj: "uploads h t w \<Longrightarrow> uploads h' t' w = (h' = h \<and> t' = t)"
  by (cases w) auto

lemma register_worker:
  assumes "worker_step i j bad s s'" "register_sound s"
  shows "register_sound s'"
proof -
  obtain w w' m where c: "state_change s w w' s'" and m: "move_ok s w w' m s'" using worker_view [OF assms(1)] .
  have up: "in_state (uploads h t) s = (if pi_reg s h = Some t then 1 else 0)" for h t using assms(2) by (simp add: register_sound_def)
  have ct: "in_state P s' + (if P w then 1 else 0) = in_state P s + (if P w' then 1 else 0)" for P using c by (simp add: state_change_def)
  have wt: "in_state ((=) (Waiting h t)) s \<noteq> 0 \<Longrightarrow> pi_out s t \<noteq> None \<or> pi_reg s h = Some t" for h t
    using assms(2) by (simp add: register_sound_def)
  have fr: "pi_reg s h = Some t \<Longrightarrow> t < pi_next s" for h t using assms(2) by (simp add: register_sound_def)
  show ?thesis
  proof (cases m)
    case Aside
    have "in_state ((=) (Waiting h t)) s' \<noteq> 0 \<Longrightarrow> pi_out s' t \<noteq> None \<or> pi_reg s' h = Some t" for h t
      using ct [of "(=) (Waiting h t)"] wt [of h t] m Aside by (cases "Waiting h t = w'") (auto split: if_splits)
    moreover have "in_state (uploads h t) s' = in_state (uploads h t) s" for h t
      using ct [of "uploads h t"] m Aside by simp
    ultimately show ?thesis using m Aside fr up by (simp add: register_sound_def)
  next
    case (Enters h0)
    have "in_state ((=) (Waiting h t)) s' \<noteq> 0 \<Longrightarrow> pi_out s' t \<noteq> None \<or> pi_reg s' h = Some t" for h t
      using ct [of "(=) (Waiting h t)"] wt [of h t] m Enters by auto
    moreover have "in_state (uploads h t) s' = (if pi_reg s' h = Some t then 1 else 0)" for h t
      using ct [of "uploads h t"] up [of h t] m Enters fr by (auto split: if_splits)
    ultimately show ?thesis using m Enters fr by (auto simp: register_sound_def less_Suc_eq)
  next
    case (Leaves h0 t0 ok)
    then have w: "uploads h0 t0 w" using m by simp
    have r0: "pi_reg s h0 = Some t0" using ct [of "uploads h0 t0"] up [of h0 t0] w m Leaves by (auto split: if_splits)
    have "in_state ((=) (Waiting h t)) s' \<noteq> 0 \<Longrightarrow> pi_out s' t \<noteq> None \<or> pi_reg s' h = Some t" for h t
      using ct [of "(=) (Waiting h t)"] wt [of h t] m Leaves w r0 by (auto split: if_splits)
    moreover have "in_state (uploads h t) s' = (if pi_reg s' h = Some t then 1 else 0)" for h t
      using ct [of "uploads h t"] up [of h t] m Leaves w r0 uploads_inj [OF w, of h t] by (auto split: if_splits)
    ultimately show ?thesis using m Leaves fr by (auto simp: register_sound_def)
  qed
qed

lemma register_other:
  assumes "\<And>P. in_state P s' = in_state P s" "pi_reg s' = pi_reg s" "pi_out s' = pi_out s" "pi_next s' = pi_next s" "register_sound s"
  shows "register_sound s'"
  using assms by (simp add: register_sound_def)

lemma step_register:
  assumes "pipe_step bad s s'" "register_sound s"
  shows "register_sound s'"
  using assms(1)
proof cases
  case (producer i)
  then obtain r' where "i < length (pi_runs s)" "s' = set_run i r' s" "pr_workers r' = pr_workers (pi_runs s ! i)"
    using producer_moves by blast
  then show ?thesis using in_state_same assms(2) by (intro register_other [of s' s]) auto
next
  case (worker i j)
  then show ?thesis using register_worker assms(2) by blast
next
  case (collector i)
  then obtain r' db where "i < length (pi_runs s)" "s' = (set_run i r' s)\<lparr>pi_db := db\<rparr>" "pr_workers r' = pr_workers (pi_runs s ! i)"
    using collector_moves by blast
  then show ?thesis using in_state_same assms(2) by (intro register_other [of s' s]) auto
qed

lemma leave_register: "client_leaves s s' \<Longrightarrow> register_sound s \<Longrightarrow> register_sound s'"
  by (auto elim!: client_leaves.cases intro!: register_other [of _ s] in_state_same)

subsection \<open>Uploads always end\<close>

lemma in_state_pos:
  assumes "i < length (pi_runs s)" "w \<in> set (pr_workers (pi_runs s ! i))" "P w"
  shows "in_state P s \<noteq> 0"
  using assms by (auto simp: in_state_def filter_empty_conv sum_list_eq_0_iff intro!: bexI [of _ "pi_runs s ! i"])

lemma in_state_obtain:
  assumes "in_state P s \<noteq> 0"
  obtains i j where "i < length (pi_runs s)" "j < length (pr_workers (pi_runs s ! i))" "P (pr_workers (pi_runs s ! i) ! j)"
proof -
  obtain r w where "r \<in> set (pi_runs s)" "w \<in> set (pr_workers r)" "P w"
    using assms by (auto simp: in_state_def filter_empty_conv sum_list_eq_0_iff)
  then show ?thesis using that by (metis in_set_conv_nth)
qed

lemma putting_steps: "gate_used s \<noteq> 0 \<Longrightarrow> \<exists>s'. pipe_step False s s'"
proof -
  assume "gate_used s \<noteq> 0"
  then obtain i j where "i < length (pi_runs s)" "j < length (pr_workers (pi_runs s ! i))" "is_putting (pr_workers (pi_runs s ! i) ! j)"
    unfolding gate_used_def by (rule in_state_obtain)
  then show ?thesis by (cases "pr_workers (pi_runs s ! i) ! j") (auto intro: pipe_step.worker worker_step.stored)
qed

lemma gate_steps:
  assumes "i < length (pi_runs s)" "j < length (pr_workers (pi_runs s ! i))" "uploads h t (pr_workers (pi_runs s ! i) ! j)"
  shows "\<exists>s'. pipe_step False s s'"
proof (cases "gate_used s = 0")
  case True
  then have g: "gate_open s" by (auto simp: gate_open_def)
  show ?thesis
    using assms g by (cases "pr_workers (pi_runs s ! i) ! j") (auto intro: pipe_step.worker worker_step.gate worker_step.stored)
qed (rule putting_steps)

text \<open>A worker that has a chunk never blocks the module: it goes on itself, or the upload it waits for does.\<close>

lemma busy_steps:
  assumes "register_sound s" "i < length (pi_runs s)" "j < length (pr_workers (pi_runs s ! i))" "pr_workers (pi_runs s ! i) ! j \<noteq> Free"
  shows "\<exists>s'. pipe_step False s s'"
proof (cases "pr_workers (pi_runs s ! i) ! j")
  case (Taken h)
  then show ?thesis using assms by (cases "pr_stop (pi_runs s ! i)") (auto intro: pipe_step.worker worker_step.go_on worker_step.taken_stopped)
next
  case (Lookup h)
  then show ?thesis using assms by (cases "h \<in> pi_db s") (auto intro: pipe_step.worker worker_step.hit worker_step.miss)
next
  case (Missed h)
  then show ?thesis using assms by (cases "pi_reg s h") (auto intro: pipe_step.worker worker_step.join worker_step.enter)
next
  case (Waiting h t)
  have n: "in_state ((=) (Waiting h t)) s \<noteq> 0"
    by (rule in_state_pos [OF assms(2) nth_mem [OF assms(3)]]) (simp add: Waiting)
  show ?thesis
  proof (cases "pi_out s t")
    case None
    then have "pi_reg s h = Some t" using n assms(1) unfolding register_sound_def by blast
    then have "in_state (uploads h t) s \<noteq> 0" using assms(1) by (simp add: register_sound_def)
    then show ?thesis by (rule in_state_obtain) (rule gate_steps)
  next
    case (Some ok)
    then show ?thesis using assms Waiting by (auto intro: pipe_step.worker worker_step.wake)
  qed
next
  case (NeedGate h t)
  then show ?thesis using assms by (intro gate_steps [of i s j h t]) auto
next
  case (Putting h t)
  then show ?thesis using assms by (intro gate_steps [of i s j h t]) auto
qed (use assms(4) in simp)

lemma queue_steps:
  assumes "register_sound s" "i < length (pi_runs s)" "well_shaped (pi_runs s ! i)" "pr_queue (pi_runs s ! i) \<noteq> []"
  shows "\<exists>s'. pipe_step False s s'"
proof (cases "pr_workers (pi_runs s ! i) ! 0 = Free")
  case True
  obtain h q where "pr_queue (pi_runs s ! i) = h # q" using assms(4) by (cases "pr_queue (pi_runs s ! i)") auto
  moreover have "0 < length (pr_workers (pi_runs s ! i))" using assms(3) by (simp add: well_shaped_def uploadWorkers_def)
  ultimately show ?thesis using assms(2) True by (auto intro!: pipe_step.worker worker_step.take_job)
next
  case False
  then show ?thesis using assms by (intro busy_steps [of s i 0]) (auto simp: well_shaped_def uploadWorkers_def)
qed

lemma held_steps:
  assumes "register_sound s" "i < length (pi_runs s)" "well_shaped (pi_runs s ! i)" "held (pi_runs s ! i) \<noteq> 0"
  shows "\<exists>s'. pipe_step False s s'"
proof (cases "pr_queue (pi_runs s ! i) = [] \<and> (\<forall>w \<in> set (pr_workers (pi_runs s ! i)). w = Free)")
  case True
  then have "filter (\<lambda>w. w \<noteq> Free) (pr_workers (pi_runs s ! i)) = []" by (auto simp: filter_empty_conv)
  then have p: "pr_prod (pi_runs s ! i) = Reading" using assms(4) True by (auto simp: held_def split: if_splits)
  show ?thesis
  proof (cases "pr_src (pi_runs s ! i)")
    case Nil
    then show ?thesis using pipe_step.producer [OF producer_step.read_end [OF assms(2) refl p]] by blast
  next
    case (Cons h rest)
    have "length (pr_queue (pi_runs s ! i)) < uploadWorkers" using True by (simp add: uploadWorkers_def)
    then show ?thesis using pipe_step.producer [OF producer_step.read [OF assms(2) refl p Cons]] by blast
  qed
next
  case False
  then consider "pr_queue (pi_runs s ! i) \<noteq> []" | j where "j < length (pr_workers (pi_runs s ! i))" "pr_workers (pi_runs s ! i) ! j \<noteq> Free"
    by (metis in_set_conv_nth)
  then show ?thesis using queue_steps [OF assms(1-3)] busy_steps [OF assms(1,2)] by cases auto
qed

lemma ended_or_steps:
  assumes "register_sound s" "within_limits s" "0 < pi_slots s" "\<not> all_ended s"
  shows "\<exists>s'. pipe_step False s s'"
proof -
  have ws: "well_shaped (pi_runs s ! i)" if "i < length (pi_runs s)" for i using assms(2) that by (simp add: within_limits_def)
  obtain i where i: "i < length (pi_runs s)" "\<not> pr_finished (pi_runs s ! i)" using assms(4) by (metis all_ended_def in_set_conv_nth)
  show ?thesis
  proof (cases "\<exists>k < length (pi_runs s). held (pi_runs s ! k) \<noteq> 0")
    case True
    then show ?thesis using held_steps assms(1) ws by blast
  next
    case False
    then have h: "held (pi_runs s ! i) = 0" and "slots_used s = 0" using i by (auto simp: slots_used_def sum_list_eq_0_iff in_set_conv_nth)
    then have sl: "slots_used s < pi_slots s" using assms(3) by simp
    have f: "pr_queue (pi_runs s ! i) = []" "\<forall>w \<in> set (pr_workers (pi_runs s ! i)). w = Free" "pr_prod (pi_runs s ! i) \<noteq> Reading"
      using h by (auto simp: held_def filter_empty_conv split: if_splits)
    show ?thesis
    proof (cases "pr_prod (pi_runs s ! i)")
      case Checking
      then show ?thesis using i by (cases "pr_stop (pi_runs s ! i)") (auto intro: pipe_step.producer producer_step.admit producer_step.acquire_stopped)
    next
      case Acquiring
      then show ?thesis using i sl by (auto intro: pipe_step.producer producer_step.acquire)
    next
      case Closed
      then show ?thesis using i f by (auto intro!: pipe_step.collector collector_step.collect [where dead = "{}"])
    qed (use f(3) in simp)
  qed
qed

lemma runs_invariant:
  assumes "pipe_runs faults s0 n s" "within_limits s0" "register_sound s0"
  shows "within_limits s \<and> register_sound s \<and> n + total_work s \<le> total_work s0 \<and> pi_slots s = pi_slots s0 \<and> pi_gate s = pi_gate s0"
  using assms(1)
proof induction
  case start
  then show ?case using assms(2,3) by simp
next
  case (step n s bad s')
  then show ?case using step_limits [of bad s s'] step_register [of bad s s'] by linarith
next
  case (leave n s s')
  then show ?case using leave_limits [of s s'] leave_register [of s s'] by simp
qed

lemma start_within: "within_limits (start_pipe slots gate db files)"
proof -
  have "slots_used (start_pipe slots gate db files) = 0"
    by (auto simp: slots_used_def sum_list_eq_0_iff start_pipe_def start_run_def held_def)
  moreover have "gate_used (start_pipe slots gate db files) = 0"
    by (auto simp: gate_used_def in_state_def sum_list_eq_0_iff start_pipe_def start_run_def)
  ultimately show ?thesis by (auto simp: within_limits_def start_pipe_def start_run_def well_shaped_def)
qed

lemma start_register: "register_sound (start_pipe slots gate db files)"
proof -
  have "in_state P (start_pipe slots gate db files) = 0" if "\<not> P Free" for P
    using that by (auto simp: in_state_def sum_list_eq_0_iff start_pipe_def start_run_def)
  then show ?thesis by (auto simp: register_sound_def start_pipe_def)
qed

lemma start_work: "total_work (start_pipe slots gate db files) = sum_list (map (\<lambda>f. 9 * length f + 4) files)"
  by (simp add: total_work_def start_pipe_def work_def start_run_def o_def sum_list_replicate numeral_eq_Suc)

lemma started_invariant:
  assumes "pipe_runs faults (start_pipe slots gate db files) n s"
  shows "within_limits s" "register_sound s" "n + total_work s \<le> sum_list (map (\<lambda>f. 9 * length f + 4) files)"
    "pi_slots s = NewInflightLimiter slots" "pi_gate s = gate"
  using runs_invariant [OF assms start_within start_register] by (simp_all add: start_work) (simp_all add: start_pipe_def)

lemma in_state_one:
  assumes "\<And>h t. in_state (uploads h t) s = (if pi_reg s h = Some t then 1 else 0)"
  shows "in_state (\<lambda>w. \<exists>t. uploads h t w) s \<le> 1"
proof (cases "in_state (\<lambda>w. \<exists>t. uploads h t w) s = 0")
  case False
  have eq: "pi_reg s h = Some t" if u: "uploads h t w" "r \<in> set (pi_runs s)" "w \<in> set (pr_workers r)" for r w t
  proof -
    obtain i where "i < length (pi_runs s)" "r = pi_runs s ! i" using u(2) by (metis in_set_conv_nth)
    then have "in_state (uploads h t) s \<noteq> 0" using in_state_pos [of i s w "uploads h t"] u by simp
    then show ?thesis using assms [of h t] by (auto split: if_splits)
  qed
  obtain i j t where k: "i < length (pi_runs s)" "j < length (pr_workers (pi_runs s ! i))" "uploads h t (pr_workers (pi_runs s ! i) ! j)"
    by (rule in_state_obtain [OF False]) blast
  have r: "pi_reg s h = Some t" by (rule eq [OF k(3) nth_mem [OF k(1)] nth_mem [OF k(2)]])
  have "in_state (\<lambda>w. \<exists>t. uploads h t w) s = in_state (uploads h t) s"
    unfolding in_state_def
  proof (intro arg_cong [where f = sum_list] map_cong refl arg_cong [where f = length] filter_cong)
    fix q w assume "q \<in> set (pi_runs s)" "w \<in> set (pr_workers q)"
    then show "(\<exists>t. uploads h t w) = uploads h t w" using eq r by (metis option.inject)
  qed
  then show ?thesis using assms [of h t] by simp
qed simp

text \<open>
  C16: whatever the interleaving, the chunks in memory never exceed the slots, the blobs on their way to the
  backend never exceed the gate, and no content is sent by two workers at a time.
\<close>

theorem uploads_within_limits:
  assumes "pipe_runs faults (start_pipe slots gate db files) n s"
  shows "slots_used s \<le> NewInflightLimiter slots \<and> (gate = 0 \<or> gate_used s \<le> gate) \<and> (\<forall>h. in_state (\<lambda>w. \<exists>t. uploads h t w) s \<le> 1)"
  using started_invariant [OF assms] in_state_one [of s]
  by (auto simp: within_limits_def register_sound_def)

text \<open>
  C12: uploads never block each other for good and always end: after at most nine steps for each chunk and four for
  each file nothing is left to do, and until then some step is possible that needs neither a fault nor a departure.
\<close>

theorem uploads_always_end:
  assumes "pipe_runs faults (start_pipe slots gate db files) n s"
  shows "n \<le> sum_list (map (\<lambda>f. 9 * length f + 4) files) \<and> (all_ended s \<or> (\<exists>s'. pipe_step False s s'))"
proof -
  have "0 < pi_slots s" using started_invariant(4) [OF assms] by (simp add: NewInflightLimiter_def)
  then show ?thesis using started_invariant(1-3) [OF assms] ended_or_steps [of s] by auto
qed

subsection \<open>Uploads that nothing disturbs\<close>

fun chunk_of :: "'h worker \<Rightarrow> 'h set" where
  "chunk_of Free = {}"
| "chunk_of (Taken h) = {h}"
| "chunk_of (Lookup h) = {h}"
| "chunk_of (Missed h) = {h}"
| "chunk_of (Waiting h t) = {h}"
| "chunk_of (NeedGate h t) = {h}"
| "chunk_of (Putting h t) = {h}"

definition pending :: "'h put_run \<Rightarrow> 'h set" where
  "pending r = set (pr_src r) \<union> set (pr_queue r) \<union> (\<Union>w \<in> set (pr_workers r). chunk_of w)"

text \<open>Entries of the register are numbered apart, and a closed one was stored when nothing went wrong.\<close>

definition tickets_sound :: "'h pipe \<Rightarrow> bool" where
  "tickets_sound s \<longleftrightarrow> (\<forall>h h' t. pi_reg s h = Some t \<longrightarrow> pi_reg s h' = Some t \<longrightarrow> h = h') \<and>
     (\<forall>h t. pi_reg s h = Some t \<longrightarrow> pi_out s t = None) \<and> (\<forall>t ok. pi_out s t = Some ok \<longrightarrow> t < pi_next s) \<and>
     (\<forall>h t ok. in_state ((=) (Waiting h t)) s \<noteq> 0 \<longrightarrow> pi_out s t = Some ok \<longrightarrow> ok \<and> h \<in> pi_db s)"

definition read_out :: "'h put_run \<Rightarrow> bool" where
  "read_out r \<longleftrightarrow> (pr_prod r = Closed \<longrightarrow> pr_src r = [])"

definition untroubled :: "'h set \<Rightarrow> 'h list list \<Rightarrow> 'h pipe \<Rightarrow> bool" where
  "untroubled db files s \<longleftrightarrow> length (pi_runs s) = length files \<and> db \<subseteq> pi_db s \<and> pi_db s \<subseteq> db \<union> \<Union> (set (map set files)) \<and>
     (\<forall>i < length files. \<not> pr_stop (pi_runs s ! i) \<and> \<not> pr_failed (pi_runs s ! i) \<and> read_out (pi_runs s ! i) \<and>
        set (files ! i) \<subseteq> pi_db s \<union> pending (pi_runs s ! i) \<and> pending (pi_runs s ! i) \<subseteq> set (files ! i))"

text \<open>A fault-free step of an upload loses no chunk and stores no other.\<close>

definition step_keeps :: "'h pipe \<Rightarrow> 'h put_run \<Rightarrow> 'h put_run \<Rightarrow> 'h set \<Rightarrow> bool" where
  "step_keeps s r r' db \<longleftrightarrow> \<not> pr_stop r' \<and> \<not> pr_failed r' \<and> (read_out r \<longrightarrow> read_out r') \<and> pi_db s \<subseteq> db \<and> db \<subseteq> pi_db s \<union> pending r \<and>
     pending r' \<subseteq> pending r \<and> pending r \<subseteq> db \<union> pending r'"

lemma pending_worker:
  assumes "j < length ws"
  shows "(\<Union>w \<in> set (ws[j := w']). chunk_of w) \<subseteq> (\<Union>w \<in> set ws. chunk_of w) \<union> chunk_of w'"
    "(\<Union>w \<in> set ws. chunk_of w) \<subseteq> (\<Union>w \<in> set (ws[j := w']). chunk_of w) \<union> chunk_of (ws ! j)"
proof -
  show "(\<Union>w \<in> set (ws[j := w']). chunk_of w) \<subseteq> (\<Union>w \<in> set ws. chunk_of w) \<union> chunk_of w'"
    using set_update_subset_insert [of ws j w'] by auto
  have "set ws \<subseteq> insert (ws ! j) (set (ws[j := w']))"
    using set_update_subset_insert [of "ws[j := w']" j "ws ! j"] by simp
  then show "(\<Union>w \<in> set ws. chunk_of w) \<subseteq> (\<Union>w \<in> set (ws[j := w']). chunk_of w) \<union> chunk_of (ws ! j)" by auto
qed

lemma step_keeps_worker:
  assumes "j < length (pr_workers r)" "pr_workers r' = (pr_workers r)[j := w']"
    and "pr_src r' = pr_src r" "pr_queue r' = pr_queue r" "pr_prod r' = pr_prod r" "\<not> pr_stop r'" "\<not> pr_failed r'"
    and "chunk_of w' \<subseteq> chunk_of (pr_workers r ! j)" "chunk_of (pr_workers r ! j) \<subseteq> chunk_of w' \<union> db"
    and "pi_db s \<subseteq> db" "db \<subseteq> pi_db s \<union> chunk_of (pr_workers r ! j)"
  shows "step_keeps s r r' db"
proof -
  have in1: "chunk_of (pr_workers r ! j) \<subseteq> (\<Union>w \<in> set (pr_workers r). chunk_of w)" using nth_mem [OF assms(1)] by blast
  have in2: "chunk_of w' \<subseteq> (\<Union>w \<in> set (pr_workers r'). chunk_of w)"
    using assms(1,2) by (auto intro!: bexI [of _ w'] set_update_memI)
  note p = pending_worker [OF assms(1), of w', folded assms(2)]
  have "pending r' \<subseteq> pending r" using p(1) in1 assms(3,4,8) by (simp add: pending_def) blast
  moreover have "pending r \<subseteq> db \<union> pending r'" using p(2) in2 assms(3,4,9) by (simp add: pending_def) blast
  moreover have "db \<subseteq> pi_db s \<union> pending r" using in1 assms(11) by (simp add: pending_def) blast
  ultimately show ?thesis using assms(3,5-7,10) by (simp add: step_keeps_def read_out_def)
qed

lemma clean_worker:
  assumes "worker_step i j False s s'" "tickets_sound s" "\<not> pr_stop (pi_runs s ! i)" "\<not> pr_failed (pi_runs s ! i)"
  shows "\<exists>r'. i < length (pi_runs s) \<and> pi_runs s' = (pi_runs s)[i := r'] \<and> step_keeps s (pi_runs s ! i) r' (pi_db s')"
  using assms(1)
proof cases
  case (take_job r h q)
  let ?r = "put_worker j (Taken h) (r\<lparr>pr_queue := q\<rparr>)"
  have j: "j < length (pr_workers r)" using take_job by simp
  let ?A = "\<Union>w \<in> set ((pr_workers r)[j := Taken h]). chunk_of w" and ?B = "\<Union>w \<in> set (pr_workers r). chunk_of w"
  have "?A = insert h ?B"
  proof (rule equalityI)
    show "?A \<subseteq> insert h ?B" using pending_worker(1) [OF j, of "Taken h"] by simp
    have "h \<in> ?A" by (rule UN_I [OF set_update_memI [OF j]]) simp
    moreover have "?B \<subseteq> ?A" using pending_worker(2) [OF j, of "Taken h"] take_job by simp
    ultimately show "insert h ?B \<subseteq> ?A" by (rule insert_subsetI)
  qed
  then have "pending ?r = pending r" using take_job by (auto simp: pending_def put_worker_def)
  then show ?thesis using take_job assms(3,4) by (intro exI [of _ ?r]) (simp add: step_keeps_def put_worker_def read_out_def)
next
  case (go_on r h)
  then show ?thesis using assms(3,4)
    by (intro exI [of _ "put_worker j (Lookup h) r"]) (auto simp: put_worker_def intro!: step_keeps_worker [of j _ _ "Lookup h"])
next
  case (wake r h t ok)
  have "in_state ((=) (Waiting h t)) s \<noteq> 0" using wake by (intro in_state_pos [of i s "Waiting h t"]) (auto simp: in_set_conv_nth)
  moreover have "pi_out s t = Some ok" using wake by simp
  ultimately have "ok \<and> h \<in> pi_db s" using assms(2) unfolding tickets_sound_def by blast
  then show ?thesis using wake assms(3,4)
    by (intro exI [of _ "put_worker j Free r"]) (auto simp: put_worker_def intro!: step_keeps_worker [of j _ _ Free])
next
  case (hit r h)
  then show ?thesis using assms(3,4)
    by (intro exI [of _ "put_worker j Free r"]) (auto simp: put_worker_def intro!: step_keeps_worker [of j _ _ Free])
next
  case (miss r h)
  then show ?thesis using assms(3,4)
    by (intro exI [of _ "put_worker j (Missed h) r"]) (auto simp: put_worker_def intro!: step_keeps_worker [of j _ _ "Missed h"])
next
  case (join r h t)
  then show ?thesis using assms(3,4)
    by (intro exI [of _ "put_worker j (Waiting h t) r"]) (auto simp: put_worker_def intro!: step_keeps_worker [of j _ _ "Waiting h t"])
next
  case (enter r h)
  then show ?thesis using assms(3,4)
    by (intro exI [of _ "put_worker j (NeedGate h (pi_next s)) r"])
      (auto simp: put_worker_def intro!: step_keeps_worker [of j _ _ "NeedGate h (pi_next s)"])
next
  case (gate r h t)
  then show ?thesis using assms(3,4)
    by (intro exI [of _ "put_worker j (Putting h t) r"]) (auto simp: put_worker_def intro!: step_keeps_worker [of j _ _ "Putting h t"])
next
  case (stored r h t)
  let ?r = "(put_worker j Free r)\<lparr>pr_new := (if h \<in> pi_db s then pr_new r else h # pr_new r)\<rparr>"
  show ?thesis using stored assms(3,4)
    by (intro exI [of _ ?r]) (auto simp: put_worker_def announce_def intro!: step_keeps_worker [of j _ _ Free])
qed (use assms(3) in simp_all)

lemma clean_step:
  assumes "pipe_step False s s'" "tickets_sound s" "\<And>i. i < length (pi_runs s) \<Longrightarrow> \<not> pr_stop (pi_runs s ! i) \<and> \<not> pr_failed (pi_runs s ! i)"
  obtains i r' where "i < length (pi_runs s)" "pi_runs s' = (pi_runs s)[i := r']" "step_keeps s (pi_runs s ! i) r' (pi_db s')"
  using assms(1)
proof cases
  case (producer i)
  have i: "i < length (pi_runs s)" using producer_moves [OF producer] by blast
  have "\<exists>r'. pi_runs s' = (pi_runs s)[i := r'] \<and> step_keeps s (pi_runs s ! i) r' (pi_db s')"
    using producer
  proof cases
    case (read_last r h rest)
    then show ?thesis using assms(3) [OF i] by (intro exI [of _ "r\<lparr>pr_prod := Closed, pr_src := rest, pr_queue := pr_queue r @ [h], pr_failed := pr_failed r \<or> False\<rparr>"])
      (auto simp: step_keeps_def pending_def read_out_def)
  qed (use assms(3) [OF i] in \<open>auto simp: step_keeps_def pending_def read_out_def intro!: exI\<close>)
  then show ?thesis using that i by blast
next
  case (worker i j)
  have "i < length (pi_runs s)" using worker_moves [OF worker] by blast
  then show ?thesis using clean_worker [OF worker assms(2)] assms(3) that by blast
next
  case (collector i)
  then show ?thesis
  proof cases
    case (collect r dead)
    then show ?thesis
      using assms(3) [of i] by (intro that [of i "r\<lparr>pr_finished := True, pr_failed := pr_failed r \<or> pr_stop r\<rparr>"]) (auto simp: step_keeps_def pending_def read_out_def)
  qed
qed

lemma tickets_worker:
  assumes "worker_step i j False s s'" "tickets_sound s" "register_sound s" "\<not> pr_stop (pi_runs s ! i)"
  shows "tickets_sound s'"
proof -
  obtain w w' m where c: "state_change s w w' s'" and m: "move_ok s w w' m s'" and ok: "\<And>h t ok. m = Leaves h t ok \<Longrightarrow> ok"
    using worker_view [OF assms(1)] assms(4) by metis
  have ct: "in_state P s' + (if P w then 1 else 0) = in_state P s + (if P w' then 1 else 0)" for P using c by (simp add: state_change_def)
  have up: "in_state (uploads h t) s = (if pi_reg s h = Some t then 1 else 0)" for h t using assms(3) by (simp add: register_sound_def)
  have wt: "in_state ((=) (Waiting h t)) s \<noteq> 0 \<Longrightarrow> pi_out s t \<noteq> None \<or> pi_reg s h = Some t" for h t
    using assms(3) by (simp add: register_sound_def)
  have fr: "pi_reg s h = Some t \<Longrightarrow> t < pi_next s" for h t using assms(3) by (simp add: register_sound_def)
  have t1: "pi_reg s h = Some t \<Longrightarrow> pi_reg s h' = Some t \<Longrightarrow> h = h'" for h h' t using assms(2) unfolding tickets_sound_def by blast
  have t2: "pi_reg s h = Some t \<Longrightarrow> pi_out s t = None" for h t using assms(2) unfolding tickets_sound_def by blast
  have t3: "pi_out s t = Some ok \<Longrightarrow> t < pi_next s" for t ok using assms(2) unfolding tickets_sound_def by blast
  have t4: "in_state ((=) (Waiting h t)) s \<noteq> 0 \<Longrightarrow> pi_out s t = Some ok \<Longrightarrow> ok \<and> h \<in> pi_db s" for h t ok
    using assms(2) unfolding tickets_sound_def by blast
  show ?thesis
  proof (cases m)
    case Aside
    have "ok \<and> h \<in> pi_db s'" if "in_state ((=) (Waiting h t)) s' \<noteq> 0" "pi_out s' t = Some ok" for h t ok
      using that ct [of "(=) (Waiting h t)"] t4 [of h t ok] t2 [of h t] m Aside by (cases "Waiting h t = w'") (auto split: if_splits)
    moreover have "pi_reg s' = pi_reg s" "pi_out s' = pi_out s" "pi_next s' = pi_next s" using m Aside by simp_all
    ultimately show ?thesis using t1 t2 t3 unfolding tickets_sound_def by (auto simp del: split_paired_All)
  next
    case (Enters h0)
    then have e: "pi_reg s' = (pi_reg s)(h0 \<mapsto> pi_next s)" "pi_out s' = pi_out s" "pi_next s' = Suc (pi_next s)" "pi_db s' = pi_db s"
      "w' = NeedGate h0 (pi_next s)" using m by simp_all
    have "ok \<and> h \<in> pi_db s" if "in_state ((=) (Waiting h t)) s' \<noteq> 0" "pi_out s t = Some ok" for h t ok
      using that ct [of "(=) (Waiting h t)"] t4 [of h t ok] e by auto
    moreover have "pi_out s (pi_next s) = None" using t3 by (cases "pi_out s (pi_next s)") auto
    moreover have "pi_reg s h \<noteq> Some (pi_next s)" for h using fr [of h "pi_next s"] by auto
    ultimately show ?thesis using e t1 t2 t3 unfolding tickets_sound_def
      by (auto split: if_splits intro: less_SucI)
  next
    case (Leaves h0 t0 b)
    then have e: "pi_reg s' = (pi_reg s)(h0 := None)" "pi_out s' = (pi_out s)(t0 \<mapsto> True)" "pi_next s' = pi_next s"
      "pi_db s' = insert h0 (pi_db s)" "uploads h0 t0 w" "w' = Free" using m ok by auto
    have r0: "pi_reg s h0 = Some t0" using ct [of "uploads h0 t0"] up [of h0 t0] e by (auto split: if_splits)
    have "h \<in> pi_db s'" if "in_state ((=) (Waiting h t0)) s' \<noteq> 0" for h
    proof -
      have "in_state ((=) (Waiting h t0)) s \<noteq> 0" using that ct [of "(=) (Waiting h t0)"] e by auto
      then have "pi_reg s h = Some t0" using wt t2 [OF r0] by blast
      then show ?thesis using t1 [OF _ r0] e by simp
    qed
    moreover have "ok \<and> h \<in> pi_db s" if "in_state ((=) (Waiting h t)) s' \<noteq> 0" "pi_out s t = Some ok" for h t ok
      using that ct [of "(=) (Waiting h t)"] t4 [of h t ok] e by auto
    moreover have "t0 < pi_next s" using fr [OF r0] .
    moreover have "h = h0" if "pi_reg s h = Some t0" for h using t1 [OF that r0] .
    ultimately show ?thesis using e t1 t2 t3 unfolding tickets_sound_def by (auto split: if_splits)
  qed
qed

lemma clean_tickets:
  assumes "pipe_step False s s'" "tickets_sound s" "register_sound s" "pi_db s \<subseteq> pi_db s'"
    and "\<And>i. i < length (pi_runs s) \<Longrightarrow> \<not> pr_stop (pi_runs s ! i)"
  shows "tickets_sound s'"
proof -
  have other: "tickets_sound s'" if "\<And>P. in_state P s' = in_state P s" "pi_reg s' = pi_reg s" "pi_out s' = pi_out s" "pi_next s' = pi_next s"
    using that assms(2,4) unfolding tickets_sound_def by (simp add: subset_eq) blast
  show ?thesis
    using assms(1)
  proof cases
    case (producer i)
    then obtain r' where "i < length (pi_runs s)" "s' = set_run i r' s" "pr_workers r' = pr_workers (pi_runs s ! i)"
      using producer_moves by blast
    then show ?thesis using in_state_same by (intro other) auto
  next
    case (worker i j)
    moreover have "i < length (pi_runs s)" using worker_moves [OF worker] by blast
    ultimately show ?thesis using tickets_worker assms(2,3,5) by blast
  next
    case (collector i)
    then obtain r' db where "i < length (pi_runs s)" "s' = (set_run i r' s)\<lparr>pi_db := db\<rparr>" "pr_workers r' = pr_workers (pi_runs s ! i)"
      using collector_moves by blast
    then show ?thesis using in_state_same by (intro other) auto
  qed
qed

lemma clean_untroubled:
  assumes "pipe_step False s s'" "untroubled db files s" "tickets_sound s"
  shows "untroubled db files s' \<and> pi_db s \<subseteq> pi_db s'"
proof -
  have u: "length (pi_runs s) = length files" "db \<subseteq> pi_db s" "pi_db s \<subseteq> db \<union> \<Union> (set (map set files))"
    and r: "\<And>i. i < length files \<Longrightarrow> \<not> pr_stop (pi_runs s ! i) \<and> \<not> pr_failed (pi_runs s ! i) \<and> read_out (pi_runs s ! i) \<and>
        set (files ! i) \<subseteq> pi_db s \<union> pending (pi_runs s ! i) \<and> pending (pi_runs s ! i) \<subseteq> set (files ! i)"
    using assms(2) by (simp_all add: untroubled_def)
  obtain i r' where i: "i < length (pi_runs s)" "pi_runs s' = (pi_runs s)[i := r']" and k: "step_keeps s (pi_runs s ! i) r' (pi_db s')"
    using clean_step [OF assms(1,3)] r u(1) by auto
  have ro: "read_out (pi_runs s ! i) \<longrightarrow> read_out r'" using k by (simp add: step_keeps_def)
  have kk: "\<not> pr_stop r'" "\<not> pr_failed r'" "pi_db s \<subseteq> pi_db s'" "pi_db s' \<subseteq> pi_db s \<union> pending (pi_runs s ! i)"
    "pending r' \<subseteq> pending (pi_runs s ! i)" "pending (pi_runs s ! i) \<subseteq> pi_db s' \<union> pending r'"
    using k by (simp_all add: step_keeps_def)
  have "set (files ! i) \<subseteq> \<Union> (set (map set files))" using i(1) u(1) by (auto intro!: bexI [of _ "files ! i"])
  moreover have "pending (pi_runs s ! i) \<subseteq> set (files ! i)" using r [of i] i(1) u(1) by simp
  ultimately have "pi_db s' \<subseteq> db \<union> \<Union> (set (map set files))" using kk(4) u(3) by blast
  moreover have "\<not> pr_stop (pi_runs s' ! k) \<and> \<not> pr_failed (pi_runs s' ! k) \<and> read_out (pi_runs s' ! k) \<and>
      set (files ! k) \<subseteq> pi_db s' \<union> pending (pi_runs s' ! k) \<and> pending (pi_runs s' ! k) \<subseteq> set (files ! k)" if "k < length files" for k
  proof (cases "k = i")
    case True
    then have "pi_runs s' ! k = r'" using i by simp
    then show ?thesis using kk ro r [OF that] True by blast
  next
    case False
    then have "pi_runs s' ! k = pi_runs s ! k" using i by simp
    then show ?thesis using kk(3) r [OF that] by auto
  qed
  ultimately show ?thesis using u(1,2) i kk(3) by (auto simp: untroubled_def)
qed

lemma clean_runs:
  assumes "pipe_runs False s0 n s" "untroubled db files s0" "tickets_sound s0" "register_sound s0"
  shows "untroubled db files s \<and> tickets_sound s \<and> register_sound s"
  using assms(1)
proof induction
  case start
  then show ?case using assms(2-4) by simp
next
  case (step n s bad s')
  then have st: "pipe_step False s s'" by simp
  have u: "untroubled db files s" "tickets_sound s" "register_sound s" using step by simp_all
  have alive: "\<not> pr_stop (pi_runs s ! i)" if "i < length (pi_runs s)" for i using u(1) that by (simp add: untroubled_def)
  have k: "untroubled db files s'" "pi_db s \<subseteq> pi_db s'" using clean_untroubled [OF st u(1,2)] by simp_all
  show ?case using k clean_tickets [OF st u(2,3) k(2) alive] step_register [OF st u(3)] by simp
qed simp

text \<open>
  C33: uploads that run beside each other without a fault all succeed, and then exactly their chunks have been added to the
  table: none is lost, whatever the workers did in which order.
\<close>

theorem undisturbed_uploads_store_all:
  assumes "pipe_runs False (start_pipe slots gate db files) n s" "all_ended s"
  shows "pi_db s = db \<union> \<Union> (set (map set files)) \<and> (\<forall>r \<in> set (pi_runs s). \<not> pr_failed r)"
proof -
  let ?s = "start_pipe slots gate db files"
  have p: "pending (start_run f) = set f" for f :: "'a list" by (auto simp: pending_def start_run_def)
  have "untroubled db files ?s" by (auto simp: untroubled_def start_pipe_def p) (simp_all add: start_run_def read_out_def)
  moreover have "tickets_sound ?s" by (simp add: tickets_sound_def start_pipe_def)
  ultimately have u: "untroubled db files s" using clean_runs [OF assms(1)] start_register by blast
  have e: "pending (pi_runs s ! i) = {}" if "i < length files" for i
  proof -
    have "well_shaped (pi_runs s ! i)" "pr_finished (pi_runs s ! i)" "read_out (pi_runs s ! i)"
      using that u started_invariant(1) [OF assms(1)] assms(2) by (simp_all add: untroubled_def within_limits_def all_ended_def)
    then show ?thesis by (auto simp: well_shaped_def pending_def read_out_def)
  qed
  have "set (files ! i) \<subseteq> pi_db s" if "i < length files" for i
  proof -
    have "set (files ! i) \<subseteq> pi_db s \<union> pending (pi_runs s ! i)" using u that by (simp add: untroubled_def)
    then show ?thesis using e [OF that] by simp
  qed
  then have "set f \<subseteq> pi_db s" if "f \<in> set files" for f using that by (metis in_set_conv_nth)
  then have "\<Union> (set (map set files)) \<subseteq> pi_db s" by auto
  moreover have "\<forall>r \<in> set (pi_runs s). \<not> pr_failed r" using u by (auto simp: untroubled_def in_set_conv_nth)
  ultimately show ?thesis using u by (auto simp: untroubled_def)
qed

subsection \<open>Steps of a sample\<close>

text \<open>Two uploads of the same chunk \<open>7\<close>, up to the point where both workers have missed it in the table.\<close>

definition two_uploads :: "nat pipe" where
  "two_uploads = start_pipe 8 0 {} [[7], [7]]"

definition at_work :: "nat worker \<Rightarrow> nat put_run" where
  "at_work w = \<lparr>pr_src = [], pr_prod = Closed, pr_queue = [], pr_workers = [w, Free, Free, Free], pr_stop = False, pr_failed = False,
     pr_new = [], pr_finished = False\<rparr>"

definition both :: "nat put_run \<Rightarrow> nat put_run \<Rightarrow> (nat \<Rightarrow> nat option) \<Rightarrow> (nat \<Rightarrow> bool option) \<Rightarrow> nat \<Rightarrow> nat set \<Rightarrow> nat pipe" where
  "both r0 r1 reg out t db = \<lparr>pi_runs = [r0, r1], pi_reg = reg, pi_out = out, pi_next = t, pi_db = db, pi_slots = 8, pi_gate = 0\<rparr>"

lemma step_to: "pipe_runs faults s0 n s \<Longrightarrow> pipe_step False s s'' \<Longrightarrow> s'' = s' \<Longrightarrow> m = Suc n \<Longrightarrow> pipe_runs faults s0 m s'"
  by (auto intro: pipe_runs.step)

lemma four_free: "replicate 4 x = [x, x, x, x]"
  by (simp add: numeral_eq_Suc)

lemmas sample_defs = four_free two_uploads_def both_def at_work_def start_pipe_def start_run_def uploadWorkers_def NewInflightLimiter_def slots_used_def held_def
  put_worker_def set_run_def announce_def fail_worker_def gate_open_def

lemma one_missed: "pipe_runs False two_uploads 6 (both (at_work (Missed 7)) (start_run [7]) (\<lambda>_. None) (\<lambda>_. None) 0 {})"
proof -
  have "pipe_runs False two_uploads 0 (both (start_run [7]) (start_run [7]) (\<lambda>_. None) (\<lambda>_. None) 0 {})" using pipe_runs.start [of False two_uploads] by (simp add: sample_defs)
  then have "pipe_runs False two_uploads 1 (both ((start_run [7])\<lparr>pr_prod := Acquiring\<rparr>) (start_run [7]) (\<lambda>_. None) (\<lambda>_. None) 0 {})"
    by (rule step_to [OF _ pipe_step.producer [OF producer_step.admit [where i = 0, OF _ refl]]]) (simp_all add: sample_defs)
  then have "pipe_runs False two_uploads 2 (both ((start_run [7])\<lparr>pr_prod := Reading\<rparr>) (start_run [7]) (\<lambda>_. None) (\<lambda>_. None) 0 {})"
    by (rule step_to [OF _ pipe_step.producer [OF producer_step.acquire [where i = 0, OF _ refl]]]) (simp_all add: sample_defs)
  then have "pipe_runs False two_uploads 3 (both ((start_run [7])\<lparr>pr_prod := Closed, pr_src := [], pr_queue := [7]\<rparr>) (start_run [7]) (\<lambda>_. None) (\<lambda>_. None) 0 {})"
    by (rule step_to [OF _ pipe_step.producer [OF producer_step.read_last [where i = 0 and h = 7 and bad = False, OF _ refl]]]) (simp_all add: sample_defs)
  then have "pipe_runs False two_uploads 4 (both (at_work (Taken 7)) (start_run [7]) (\<lambda>_. None) (\<lambda>_. None) 0 {})"
    by (rule step_to [OF _ pipe_step.worker [OF worker_step.take_job [where i = 0 and j = 0 and h = 7, OF _ refl]]]) (simp_all add: sample_defs)
  then have "pipe_runs False two_uploads 5 (both (at_work (Lookup 7)) (start_run [7]) (\<lambda>_. None) (\<lambda>_. None) 0 {})"
    by (rule step_to [OF _ pipe_step.worker [OF worker_step.go_on [where i = 0 and j = 0 and h = 7, OF _ refl]]]) (simp_all add: sample_defs)
  then have "pipe_runs False two_uploads 6 (both (at_work (Missed 7)) (start_run [7]) (\<lambda>_. None) (\<lambda>_. None) 0 {})"
    by (rule step_to [OF _ pipe_step.worker [OF worker_step.miss [where i = 0 and j = 0 and h = 7, OF _ refl]]]) (simp_all add: sample_defs)
  then show ?thesis .
qed

lemma both_missed: "pipe_runs False two_uploads 12 (both (at_work (Missed 7)) (at_work (Missed 7)) (\<lambda>_. None) (\<lambda>_. None) 0 {})"
proof -
  have "pipe_runs False two_uploads 6 (both (at_work (Missed 7)) (start_run [7]) (\<lambda>_. None) (\<lambda>_. None) 0 {})" by (rule one_missed)
  then have "pipe_runs False two_uploads 7 (both (at_work (Missed 7)) ((start_run [7])\<lparr>pr_prod := Acquiring\<rparr>) (\<lambda>_. None) (\<lambda>_. None) 0 {})"
    by (rule step_to [OF _ pipe_step.producer [OF producer_step.admit [where i = 1, OF _ refl]]]) (simp_all add: sample_defs)
  then have "pipe_runs False two_uploads 8 (both (at_work (Missed 7)) ((start_run [7])\<lparr>pr_prod := Reading\<rparr>) (\<lambda>_. None) (\<lambda>_. None) 0 {})"
    by (rule step_to [OF _ pipe_step.producer [OF producer_step.acquire [where i = 1, OF _ refl]]]) (simp_all add: sample_defs)
  then have "pipe_runs False two_uploads 9 (both (at_work (Missed 7)) ((start_run [7])\<lparr>pr_prod := Closed, pr_src := [], pr_queue := [7]\<rparr>) (\<lambda>_. None) (\<lambda>_. None) 0 {})"
    by (rule step_to [OF _ pipe_step.producer [OF producer_step.read_last [where i = 1 and h = 7 and bad = False, OF _ refl]]]) (simp_all add: sample_defs)
  then have "pipe_runs False two_uploads 10 (both (at_work (Missed 7)) (at_work (Taken 7)) (\<lambda>_. None) (\<lambda>_. None) 0 {})"
    by (rule step_to [OF _ pipe_step.worker [OF worker_step.take_job [where i = 1 and j = 0 and h = 7, OF _ refl]]]) (simp_all add: sample_defs)
  then have "pipe_runs False two_uploads 11 (both (at_work (Missed 7)) (at_work (Lookup 7)) (\<lambda>_. None) (\<lambda>_. None) 0 {})"
    by (rule step_to [OF _ pipe_step.worker [OF worker_step.go_on [where i = 1 and j = 0 and h = 7, OF _ refl]]]) (simp_all add: sample_defs)
  then have "pipe_runs False two_uploads 12 (both (at_work (Missed 7)) (at_work (Missed 7)) (\<lambda>_. None) (\<lambda>_. None) 0 {})"
    by (rule step_to [OF _ pipe_step.worker [OF worker_step.miss [where i = 1 and j = 0 and h = 7, OF _ refl]]]) (simp_all add: sample_defs)
  then show ?thesis .
qed

lemma sent_twice: "pipe_runs False two_uploads 17 (both (at_work Free\<lparr>pr_new := [7]\<rparr>) (at_work (Putting 7 1)) ((\<lambda>_. None)(7 \<mapsto> 1)) ((\<lambda>_. None)(0 \<mapsto> True)) 2 {7})"
proof -
  have "pipe_runs False two_uploads 12 (both (at_work (Missed 7)) (at_work (Missed 7)) (\<lambda>_. None) (\<lambda>_. None) 0 {})" by (rule both_missed)
  then have "pipe_runs False two_uploads 13 (both (at_work (NeedGate 7 0)) (at_work (Missed 7)) ((\<lambda>_. None)(7 \<mapsto> 0)) (\<lambda>_. None) 1 {})"
    by (rule step_to [OF _ pipe_step.worker [OF worker_step.enter [where i = 0 and j = 0 and h = 7, OF _ refl]]]) (simp_all add: sample_defs)
  then have "pipe_runs False two_uploads 14 (both (at_work (Putting 7 0)) (at_work (Missed 7)) ((\<lambda>_. None)(7 \<mapsto> 0)) (\<lambda>_. None) 1 {})"
    by (rule step_to [OF _ pipe_step.worker [OF worker_step.gate [where i = 0 and j = 0 and h = 7 and t = 0, OF _ refl]]]) (simp_all add: sample_defs)
  then have "pipe_runs False two_uploads 15 (both (at_work Free\<lparr>pr_new := [7]\<rparr>) (at_work (Missed 7)) (\<lambda>_. None) ((\<lambda>_. None)(0 \<mapsto> True)) 1 {7})"
    by (rule step_to [OF _ pipe_step.worker [OF worker_step.stored [where i = 0 and j = 0 and h = 7 and t = 0, OF _ refl]]]) (simp_all add: sample_defs)
  then have "pipe_runs False two_uploads 16 (both (at_work Free\<lparr>pr_new := [7]\<rparr>) (at_work (NeedGate 7 1)) ((\<lambda>_. None)(7 \<mapsto> 1)) ((\<lambda>_. None)(0 \<mapsto> True)) 2 {7})"
    by (rule step_to [OF _ pipe_step.worker [OF worker_step.enter [where i = 1 and j = 0 and h = 7, OF _ refl]]]) (simp_all add: sample_defs)
  then have "pipe_runs False two_uploads 17 (both (at_work Free\<lparr>pr_new := [7]\<rparr>) (at_work (Putting 7 1)) ((\<lambda>_. None)(7 \<mapsto> 1)) ((\<lambda>_. None)(0 \<mapsto> True)) 2 {7})"
    by (rule step_to [OF _ pipe_step.worker [OF worker_step.gate [where i = 1 and j = 0 and h = 7 and t = 1, OF _ refl]]]) (simp_all add: sample_defs)
  then show ?thesis .
qed

lemma both_stored: "pipe_runs False two_uploads 20 (both (at_work Free\<lparr>pr_new := [7], pr_finished := True\<rparr>) (at_work Free\<lparr>pr_finished := True\<rparr>) (\<lambda>_. None) ((\<lambda>_. None)(0 \<mapsto> True, 1 \<mapsto> True)) 2 {7})"
proof -
  have "pipe_runs False two_uploads 17 (both (at_work Free\<lparr>pr_new := [7]\<rparr>) (at_work (Putting 7 1)) ((\<lambda>_. None)(7 \<mapsto> 1)) ((\<lambda>_. None)(0 \<mapsto> True)) 2 {7})" by (rule sent_twice)
  then have "pipe_runs False two_uploads 18 (both (at_work Free\<lparr>pr_new := [7]\<rparr>) (at_work (Free)) (\<lambda>_. None) ((\<lambda>_. None)(0 \<mapsto> True, 1 \<mapsto> True)) 2 {7})"
    by (rule step_to [OF _ pipe_step.worker [OF worker_step.stored [where i = 1 and j = 0 and h = 7 and t = 1, OF _ refl]]]) (simp_all add: sample_defs)
  then have "pipe_runs False two_uploads 19 (both (at_work Free\<lparr>pr_new := [7], pr_finished := True\<rparr>) (at_work (Free)) (\<lambda>_. None) ((\<lambda>_. None)(0 \<mapsto> True, 1 \<mapsto> True)) 2 {7})"
    by (rule step_to [OF _ pipe_step.collector [OF collector_step.collect [where i = 0 and dead = "{}", OF _ refl]]]) (simp_all add: sample_defs)
  then have "pipe_runs False two_uploads 20 (both (at_work Free\<lparr>pr_new := [7], pr_finished := True\<rparr>) (at_work Free\<lparr>pr_finished := True\<rparr>) (\<lambda>_. None) ((\<lambda>_. None)(0 \<mapsto> True, 1 \<mapsto> True)) 2 {7})"
    by (rule step_to [OF _ pipe_step.collector [OF collector_step.collect [where i = 1 and dead = "{}", OF _ refl]]]) (simp_all add: sample_defs)
  then show ?thesis .
qed

lemma one_waits_for_other: "pipe_runs False two_uploads 14 (both (at_work (NeedGate 7 0)) (at_work (Waiting 7 0)) ((\<lambda>_. None)(7 \<mapsto> 0)) (\<lambda>_. None) 1 {})"
proof -
  have "pipe_runs False two_uploads 12 (both (at_work (Missed 7)) (at_work (Missed 7)) (\<lambda>_. None) (\<lambda>_. None) 0 {})" by (rule both_missed)
  then have "pipe_runs False two_uploads 13 (both (at_work (NeedGate 7 0)) (at_work (Missed 7)) ((\<lambda>_. None)(7 \<mapsto> 0)) (\<lambda>_. None) 1 {})"
    by (rule step_to [OF _ pipe_step.worker [OF worker_step.enter [where i = 0 and j = 0 and h = 7, OF _ refl]]]) (simp_all add: sample_defs)
  then show ?thesis
    by (rule step_to [OF _ pipe_step.worker [OF worker_step.join [where i = 1 and j = 0 and h = 7 and t = 0, OF _ refl]]]) (simp_all add: sample_defs)
qed

lemma entry_gone: "(\<lambda>_. None)(7 := None) = (\<lambda>_ :: nat. None)"
  by auto

text \<open>
  A worker that waits for another upload's content takes over that upload's error: when the client of the first goes
  away, the second fails too, with its own client still there and nothing wrong with the backend.
\<close>

lemma departure_fails_other_upload:
  "\<exists>n s s1 s2 s3. pipe_runs False two_uploads n s \<and> client_leaves s s1 \<and> \<not> pr_stop (pi_runs s1 ! 1) \<and> pipe_step False s1 s2 \<and>
     pipe_step False s2 s3 \<and> pr_failed (pi_runs s3 ! 1)"
proof -
  let ?s = "(both (at_work (NeedGate 7 0)) (at_work (Waiting 7 0)) ((\<lambda>_. None)(7 \<mapsto> 0)) (\<lambda>_. None) 1 {})" and ?s1 = "(both (at_work (NeedGate 7 0)\<lparr>pr_stop := True\<rparr>) (at_work (Waiting 7 0)) ((\<lambda>_. None)(7 \<mapsto> 0)) (\<lambda>_. None) 1 {})" and ?s2 = "(both (at_work Free\<lparr>pr_stop := True, pr_failed := True\<rparr>) (at_work (Waiting 7 0)) (\<lambda>_. None) ((\<lambda>_. None)(0 \<mapsto> False)) 1 {})" and ?s3 = "(both (at_work Free\<lparr>pr_stop := True, pr_failed := True\<rparr>) (at_work Free\<lparr>pr_stop := True, pr_failed := True\<rparr>) (\<lambda>_. None) ((\<lambda>_. None)(0 \<mapsto> False)) 1 {})"
  have "client_leaves ?s ?s1" using client_leaves.leave [of 0 ?s] by (simp add: sample_defs)
  moreover have "pipe_step False ?s1 ?s2"
    using pipe_step.worker [OF worker_step.not_uploaded [where i = 0 and j = 0 and s = ?s1 and h = 7 and t = 0 and bad = False, OF _ refl]] entry_gone by (simp add: sample_defs)
  moreover have "pipe_step False ?s2 ?s3"
    using pipe_step.worker [OF worker_step.wake [where i = 1 and j = 0 and s = ?s2 and h = 7 and t = 0 and ok = False, OF _ refl]]
    by (simp add: sample_defs)
  moreover have "\<not> pr_stop (pi_runs ?s1 ! 1)" "pr_failed (pi_runs ?s3 ! 1)" by (simp_all add: sample_defs)
  ultimately show ?thesis using one_waits_for_other by blast
qed

text \<open>
  The look-up in the table and the one in the register are not one step: a worker that has missed a content before it was
  stored, and looks into the register after the upload has left it, sends the content a second time.
\<close>

lemma content_sent_though_stored:
  "\<exists>n s. pipe_runs False two_uploads n s \<and> 7 \<in> pi_db s \<and> in_state (\<lambda>w. is_putting w \<and> chunk_of w = {7}) s = 1"
  using sent_twice by (intro exI conjI) (assumption, simp_all add: sample_defs in_state_def)

theorem uploads_within_limits_witness:
  "slots_used (both (at_work (NeedGate 7 0)) (at_work (Waiting 7 0)) ((\<lambda>_. None)(7 \<mapsto> 0)) (\<lambda>_. None) 1 {}) \<le> 8"
  using uploads_within_limits [OF one_waits_for_other [unfolded two_uploads_def]] by (simp add: NewInflightLimiter_def)

theorem uploads_always_end_witness:
  "\<exists>s'. pipe_step False (both (at_work (NeedGate 7 0)) (at_work (Waiting 7 0)) ((\<lambda>_. None)(7 \<mapsto> 0)) (\<lambda>_. None) 1 {}) s'"
  using uploads_always_end [OF one_waits_for_other [unfolded two_uploads_def]] by (auto simp: all_ended_def both_def at_work_def)

theorem undisturbed_uploads_store_all_witness:
  "pi_db (both (at_work Free\<lparr>pr_new := [7], pr_finished := True\<rparr>) (at_work Free\<lparr>pr_finished := True\<rparr>) (\<lambda>_. None) ((\<lambda>_. None)(0 \<mapsto> True, 1 \<mapsto> True)) 2 {7}) = {} \<union> \<Union> (set (map set [[7], [7]]))"
  by (rule conjunct1 [OF undisturbed_uploads_store_all [OF both_stored [unfolded two_uploads_def]]]) (simp add: all_ended_def both_def)

end
