(* ===== verification/ModuleLocks.thy ===== *)
theory ModuleLocks
  imports Prelude "HOL-Library.Sublist"
begin

text \<open>
  The two locks of a module (\<open>lockWrite\<close>, \<open>lockMaintenanceRead\<close>, \<open>lockMaintenanceWrite\<close> and
  \<open>WriteSessionLock\<close> in \<open>internal/core/repo/repo.go\<close>) and the operations that take them.  What the operations do
  is in \<open>Repo\<close>, \<open>RepoFiles\<close>, \<open>Gc\<close> and \<open>Session\<close>; here each is the order in which it takes and
  releases the locks, and goroutines of any number interleave.
\<close>

subsection \<open>The locks\<close>

text \<open>
  Go's \<open>RWMutex\<close> lets a writer announce itself first; from then on no new reader enters, and the writer waits for
  those inside.  The write lock is a plain mutex.
\<close>

record module_locks =
  lk_write :: bool
  lk_readers :: nat
  lk_announced :: bool
  lk_maint :: bool

datatype lock_op = RLock | RUnlock | Announce | MLock | MUnlock | Lock | Unlock | Work

fun may :: "module_locks \<Rightarrow> lock_op \<Rightarrow> bool" where
  "may l RLock = (\<not> lk_announced l)"
| "may l Announce = (\<not> lk_announced l)"
| "may l MLock = (lk_readers l = 0)"
| "may l Lock = (\<not> lk_write l)"
| "may l _ = True"

fun act :: "lock_op \<Rightarrow> module_locks \<Rightarrow> module_locks" where
  "act RLock l = l\<lparr>lk_readers := lk_readers l + 1\<rparr>"
| "act RUnlock l = l\<lparr>lk_readers := lk_readers l - 1\<rparr>"
| "act Announce l = l\<lparr>lk_announced := True\<rparr>"
| "act MLock l = l\<lparr>lk_maint := True\<rparr>"
| "act MUnlock l = l\<lparr>lk_announced := False, lk_maint := False\<rparr>"
| "act Lock l = l\<lparr>lk_write := True\<rparr>"
| "act Unlock l = l\<lparr>lk_write := False\<rparr>"
| "act Work l = l"

subsection \<open>The operations\<close>

text \<open>
  An upload that fails before its row is due never asks for the write lock.  Deferred calls run in reverse order, so
  the lock taken last is released first.
\<close>

datatype operation = UploadCommits | UploadFails | RowChange | BackupSession | Collection

fun lockWrite :: "lock_op list \<Rightarrow> lock_op list" where
  "lockWrite body = [Lock] @ body @ [Unlock]"

fun lockMaintenanceRead :: "lock_op list \<Rightarrow> lock_op list" where
  "lockMaintenanceRead body = [RLock] @ body @ [RUnlock]"

fun lockMaintenanceWrite :: "lock_op list \<Rightarrow> lock_op list" where
  "lockMaintenanceWrite body = [Announce, MLock] @ body @ [MUnlock]"

fun lock_order :: "operation \<Rightarrow> lock_op list" where
  "lock_order UploadCommits = lockMaintenanceRead ([Work] @ lockWrite [Work])"
| "lock_order UploadFails = lockMaintenanceRead [Work]"
| "lock_order RowChange = lockWrite [Work]"
| "lock_order BackupSession = lockWrite [Work]"
| "lock_order Collection = lockMaintenanceWrite (lockWrite [Work])"

inductive lock_step :: "module_locks \<times> lock_op list list \<Rightarrow> module_locks \<times> lock_op list list \<Rightarrow> bool" where
  go: "i < length ps \<Longrightarrow> ps ! i = op # rest \<Longrightarrow> may l op \<Longrightarrow> lock_step (l, ps) (act op l, ps[i := rest])"

inductive lock_runs :: "operation list \<Rightarrow> nat \<Rightarrow> module_locks \<times> lock_op list list \<Rightarrow> bool" for ops where
  start: "lock_runs ops 0 (\<lparr>lk_write = False, lk_readers = 0, lk_announced = False, lk_maint = False\<rparr>, map lock_order ops)"
| step: "lock_runs ops n s \<Longrightarrow> lock_step s s' \<Longrightarrow> lock_runs ops (Suc n) s'"

inductive_cases lock_step_cases: "lock_step (l, ps) s'"

subsection \<open>What an operation holds\<close>

text \<open>Between taking a lock and releasing it, what is left to do has the release but not the taking.\<close>

definition holds_write :: "lock_op list \<Rightarrow> bool" where
  "holds_write p \<longleftrightarrow> Unlock \<in> set p \<and> Lock \<notin> set p"

definition holds_read :: "lock_op list \<Rightarrow> bool" where
  "holds_read p \<longleftrightarrow> RUnlock \<in> set p \<and> RLock \<notin> set p"

definition has_announced :: "lock_op list \<Rightarrow> bool" where
  "has_announced p \<longleftrightarrow> MUnlock \<in> set p \<and> Announce \<notin> set p"

definition holds_maint :: "lock_op list \<Rightarrow> bool" where
  "holds_maint p \<longleftrightarrow> MUnlock \<in> set p \<and> MLock \<notin> set p"

lemmas holds_defs = holds_write_def holds_read_def has_announced_def holds_maint_def

definition stage :: "lock_op list \<Rightarrow> bool" where
  "stage p \<longleftrightarrow> (\<exists>q. suffix p (lock_order q))"

lemma stage_cases:
  "stage (x # p) \<Longrightarrow> (x, p) \<in> {(RLock, [Work, Lock, Work, Unlock, RUnlock]), (Work, [Lock, Work, Unlock, RUnlock]), (Lock, [Work, Unlock, RUnlock]),
     (Work, [Unlock, RUnlock]), (Unlock, [RUnlock]), (RUnlock, []), (RLock, [Work, RUnlock]), (Work, [RUnlock]),
     (Lock, [Work, Unlock]), (Work, [Unlock]), (Unlock, []), (Announce, [MLock, Lock, Work, Unlock, MUnlock]),
     (MLock, [Lock, Work, Unlock, MUnlock]), (Lock, [Work, Unlock, MUnlock]), (Work, [Unlock, MUnlock]), (Unlock, [MUnlock]), (MUnlock, [])}"
proof -
  assume "stage (x # p)"
  then obtain q where "suffix (x # p) (lock_order q)" by (auto simp: stage_def)
  then show ?thesis by (cases q) (auto simp: suffix_Cons)
qed

lemma stage_tl: "stage (x # p) \<Longrightarrow> stage p"
  unfolding stage_def by (meson suffix_ConsD)

text \<open>The effect of the next action on what its goroutine holds.\<close>

lemma stage_step:
  assumes "stage (x # p)"
  shows "holds_write (x # p) = (holds_write p \<and> x \<noteq> Lock \<or> x = Unlock)" "x = Lock \<Longrightarrow> holds_write p" "x = Unlock \<Longrightarrow> \<not> holds_write p"
    "holds_read (x # p) = (holds_read p \<and> x \<noteq> RLock \<or> x = RUnlock)" "x = RLock \<Longrightarrow> holds_read p" "x = RUnlock \<Longrightarrow> \<not> holds_read p"
    "has_announced (x # p) = (has_announced p \<and> x \<noteq> Announce \<or> x = MUnlock)" "x = Announce \<Longrightarrow> has_announced p" "x = MUnlock \<Longrightarrow> \<not> has_announced p"
    "holds_maint (x # p) = (holds_maint p \<and> x \<noteq> MLock \<or> x = MUnlock)" "x = MLock \<Longrightarrow> holds_maint p" "x = MUnlock \<Longrightarrow> \<not> holds_maint p"
    "holds_maint p \<Longrightarrow> has_announced p" "\<not> (holds_maint p \<and> holds_read p)"
  using stage_cases [OF assms] by (auto simp: holds_defs)

definition how_many :: "(lock_op list \<Rightarrow> bool) \<Rightarrow> lock_op list list \<Rightarrow> nat" where
  "how_many P ps = length (filter P ps)"

lemma how_many_upd:
  assumes "i < length ps"
  shows "how_many P (ps[i := p]) + (if P (ps ! i) then 1 else 0) = how_many P ps + (if P p then 1 else 0)"
  unfolding how_many_def by (rule filter_upd [OF assms])

lemma how_many_obtain:
  assumes "how_many P ps \<noteq> 0"
  obtains i where "i < length ps" "P (ps ! i)"
  using assms by (auto simp: how_many_def filter_empty_conv in_set_conv_nth)

lemma how_many_le: "(\<And>p. p \<in> set ps \<Longrightarrow> P p \<Longrightarrow> Q p) \<Longrightarrow> how_many P ps \<le> how_many Q ps"
  unfolding how_many_def by (induction ps) (auto intro: le_SucI)


subsection \<open>The invariant\<close>

definition locks_ok :: "module_locks \<Rightarrow> lock_op list list \<Rightarrow> bool" where
  "locks_ok l ps \<longleftrightarrow> (\<forall>p \<in> set ps. stage p) \<and> how_many holds_write ps = (if lk_write l then 1 else 0) \<and> how_many holds_read ps = lk_readers l \<and>
     how_many has_announced ps = (if lk_announced l then 1 else 0) \<and> how_many holds_maint ps = (if lk_maint l then 1 else 0) \<and>
     (lk_maint l \<longrightarrow> lk_readers l = 0)"

lemma maint_announced: "stage p \<Longrightarrow> holds_maint p \<Longrightarrow> has_announced p"
  by (cases p) (auto dest!: stage_cases simp: holds_defs)

lemma locks_ok_step:
  assumes "locks_ok l ps" "i < length ps" "ps ! i = op # rest" "may l op"
  shows "locks_ok (act op l) (ps[i := rest])"
proof -
  have st: "stage (op # rest)" using assms(1-3) by (metis locks_ok_def nth_mem)
  note e = stage_step [OF st]
  have n: "how_many P (ps[i := rest]) + (if P (op # rest) then 1 else 0) = how_many P ps + (if P rest then 1 else 0)" for P
    using how_many_upd [OF assms(2), of P rest] assms(3) by simp
  have stages: "\<forall>p \<in> set (ps[i := rest]). stage p"
    using assms(1) stage_tl [OF st] set_update_subset_insert [of ps i rest] by (auto simp: locks_ok_def)
  have le: "how_many holds_maint qs \<le> how_many has_announced qs" if "\<forall>p \<in> set qs. stage p" for qs
    by (rule how_many_le) (use that maint_announced in blast)
  have "\<forall>p \<in> set ps. stage p" using assms(1) by (simp add: locks_ok_def)
  note m = le [OF stages] le [OF this]
  show ?thesis
    using assms(1,4) n [of holds_write] n [of holds_read] n [of has_announced] n [of holds_maint] e m stages
    unfolding locks_ok_def by (cases op) (auto split: if_splits)
qed

lemma locks_ok_start: "locks_ok \<lparr>lk_write = False, lk_readers = 0, lk_announced = False, lk_maint = False\<rparr> (map lock_order ops)"
proof -
  have "stage (lock_order q)" for q by (auto simp: stage_def)
  moreover have "\<not> holds_write (lock_order q)" "\<not> holds_read (lock_order q)" "\<not> has_announced (lock_order q)" "\<not> holds_maint (lock_order q)" for q
    by (cases q; simp add: holds_defs)+
  ultimately show ?thesis by (auto simp: locks_ok_def how_many_def filter_empty_conv)
qed

definition left_over :: "lock_op list list \<Rightarrow> nat" where
  "left_over ps = sum_list (map length ps)"

lemma runs_ok:
  assumes "lock_runs ops n s"
  shows "locks_ok (fst s) (snd s) \<and> n + left_over (snd s) = sum_list (map (\<lambda>q. length (lock_order q)) ops)"
  using assms
proof induction
  case start
  then show ?case using locks_ok_start by (simp add: left_over_def o_def)
next
  case (step n s s')
  from step(2) show ?case
  proof cases
    case (go i ps op rest l)
    then show ?thesis using step(3) locks_ok_step [of l ps i op rest] sum_upd [of i ps length rest] by (auto simp: left_over_def)
  qed
qed


subsection \<open>No deadlock\<close>

lemma stage_next:
  assumes "stage (x # p)"
  shows "holds_write (x # p) \<Longrightarrow> x \<in> {Work, Unlock}" "holds_read (x # p) \<Longrightarrow> x \<in> {Work, Lock, Unlock, RUnlock}"
    "has_announced (x # p) \<Longrightarrow> x \<in> {MLock, Lock, Work, Unlock, MUnlock}"
  using stage_cases [OF assms] by (auto simp: holds_defs)

lemma holder_goes:
  assumes "locks_ok l ps" "how_many P ps \<noteq> 0" "\<And>x p. stage (x # p) \<Longrightarrow> P (x # p) \<Longrightarrow> may l x" "\<not> P []"
  shows "\<exists>s'. lock_step (l, ps) s'"
proof -
  obtain i where i: "i < length ps" "P (ps ! i)" using how_many_obtain [OF assms(2)] .
  then obtain x p where x: "ps ! i = x # p" using assms(4) by (cases "ps ! i") auto
  have "stage (x # p)" using assms(1) i(1) x by (metis locks_ok_def nth_mem)
  then have "may l x" using assms(3) i(2) x by simp
  then show ?thesis using lock_step.go [OF i(1) x] by blast
qed

lemma unfinished_goes:
  assumes "locks_ok l ps" "p \<in> set ps" "p \<noteq> []"
  shows "\<exists>s'. lock_step (l, ps) s'"
proof (cases "lk_write l")
  case True
  then have "how_many holds_write ps \<noteq> 0" using assms(1) by (simp add: locks_ok_def)
  then show ?thesis using stage_next(1) by (intro holder_goes [OF assms(1)]) (fastforce simp: holds_defs)+
next
  case w: False
  show ?thesis
  proof (cases "lk_readers l = 0")
    case False
    then have "how_many holds_read ps \<noteq> 0" using assms(1) by (simp add: locks_ok_def)
    then show ?thesis using stage_next(2) w by (intro holder_goes [OF assms(1)]) (fastforce simp: holds_defs)+
  next
    case r: True
    show ?thesis
    proof (cases "lk_announced l")
      case True
      then have "how_many has_announced ps \<noteq> 0" using assms(1) by (simp add: locks_ok_def)
      then show ?thesis using stage_next(3) w r by (intro holder_goes [OF assms(1)]) (fastforce simp: holds_defs)+
    next
      case False
      obtain i where i: "i < length ps" "ps ! i = p" using assms(2) by (auto simp: in_set_conv_nth)
      obtain x q where x: "p = x # q" using assms(3) by (cases p) auto
      have "may l x" using w r False by (cases x) auto
      then show ?thesis using lock_step.go [OF i(1), of x q l] i(2) x by blast
    qed
  qed
qed

text \<open>
  C36: the locks never hold each other up for good: as long as an operation is not through, one of them can go on, and
  every operation is through after as many steps as they have actions.
\<close>

theorem module_locks_never_deadlock:
  assumes "lock_runs ops n (l, ps)"
  shows "n \<le> sum_list (map (\<lambda>q. length (lock_order q)) ops) \<and> ((\<forall>p \<in> set ps. p = []) \<or> (\<exists>s'. lock_step (l, ps) s'))"
  using runs_ok [OF assms] unfinished_goes [of l ps] by auto

subsection \<open>Samples\<close>

definition no_locks :: module_locks where
  "no_locks = \<lparr>lk_write = False, lk_readers = 0, lk_announced = False, lk_maint = False\<rparr>"

lemma lock_to: "lock_runs ops n s \<Longrightarrow> lock_step s s'' \<Longrightarrow> s'' = s' \<Longrightarrow> m = Suc n \<Longrightarrow> lock_runs ops m s'"
  by (auto intro: lock_runs.step)

text \<open>
  A collection behind a backup session: the session has the write lock, the collection has its own lock and waits for
  the session.
\<close>

lemma collection_waits: "lock_runs [BackupSession, Collection, UploadCommits] 3
  (\<lparr>lk_write = True, lk_readers = 0, lk_announced = True, lk_maint = True\<rparr>, [[Work, Unlock], [Lock, Work, Unlock, MUnlock], lock_order UploadCommits])"
proof -
  let ?ops = "[BackupSession, Collection, UploadCommits]"
  have "lock_runs ?ops 0 (no_locks, map lock_order ?ops)" using lock_runs.start [of ?ops] by (simp add: no_locks_def)
  then have "lock_runs ?ops 1 (no_locks\<lparr>lk_write := True\<rparr>, [[Work, Unlock], lock_order Collection, lock_order UploadCommits])"
    by (rule lock_to [OF _ lock_step.go [where i = 0 and op = Lock and rest = "[Work, Unlock]"]]) (simp_all add: no_locks_def)
  then have "lock_runs ?ops 2 (no_locks\<lparr>lk_write := True, lk_announced := True\<rparr>,
      [[Work, Unlock], [MLock, Lock, Work, Unlock, MUnlock], lock_order UploadCommits])"
    by (rule lock_to [OF _ lock_step.go [where i = 1 and op = Announce and rest = "[MLock, Lock, Work, Unlock, MUnlock]"]]) (simp_all add: no_locks_def)
  then show ?thesis
    by (rule lock_to [OF _ lock_step.go [where i = 1 and op = MLock and rest = "[Lock, Work, Unlock, MUnlock]"]]) (simp_all add: no_locks_def)
qed

text \<open>From there on an upload cannot even begin before the session has ended.\<close>

lemma session_holds_up_uploads:
  assumes "lock_step (\<lparr>lk_write = True, lk_readers = 0, lk_announced = True, lk_maint = True\<rparr>,
      [p, [Lock, Work, Unlock, MUnlock], lock_order UploadCommits]) (l, ps)"
  shows "ps ! 0 \<noteq> p \<and> ps ! 2 = lock_order UploadCommits"
  using assms by (cases rule: lock_step_cases) (auto simp: less_Suc_eq numeral_2_eq_2 numeral_3_eq_3 nth_Cons split: nat.splits)


theorem module_locks_never_deadlock_witness:
  "\<exists>s'. lock_step (\<lparr>lk_write = True, lk_readers = 0, lk_announced = True, lk_maint = True\<rparr>,
     [[Work, Unlock], [Lock, Work, Unlock, MUnlock], lock_order UploadCommits]) s'"
  using module_locks_never_deadlock [OF collection_waits] by simp

end
