(* ===== verification/LogRotate.thy ===== *)
theory LogRotate
  imports Config
begin

text \<open>
  The log of the daemon (\<open>internal/logging/logging.go\<close> and \<open>rotate.go\<close>).  The files are numbered: 0 is the log
  itself, \<open>i\<close> is the one named with the suffix \<open>.i\<close>.  What the operating system refuses is an argument of every
  operation; the open file is the one at 0, as nothing else renames it.
\<close>

type_synonym log_files = "nat \<Rightarrow> bytes option"

record log_faults =
  lf_mkdir :: "goerr option"
  lf_open :: "goerr option"
  lf_stat :: "goerr option"
  lf_remove :: bool
  lf_look :: "nat \<Rightarrow> bool"
  lf_rename :: "nat \<Rightarrow> bool"
  lf_reopen :: "goerr option"
  lf_write :: "(nat \<times> goerr) option"

definition no_faults :: log_faults where
  "no_faults = \<lparr>lf_mkdir = None, lf_open = None, lf_stat = None, lf_remove = False, lf_look = (\<lambda>_. False), lf_rename = (\<lambda>_. False),
     lf_reopen = None, lf_write = None\<rparr>"

record RotateWriter =
  rw_maxSize :: int
  rw_maxFiles :: nat
  rw_open :: bool
  rw_size :: int

text \<open>The loop that moves \<open>.i\<close> to \<open>.(i+1)\<close>, from the oldest on; what cannot be seen or moved stays.\<close>

fun move_up :: "log_faults \<Rightarrow> nat \<Rightarrow> log_files \<Rightarrow> log_files" where
  "move_up f 0 fs = fs"
| "move_up f (Suc i) fs = move_up f i (if fs (Suc i) = None \<or> lf_look f (Suc i) \<or> lf_rename f (Suc i) then fs
     else fs(Suc (Suc i) := fs (Suc i), Suc i := None))"

definition rotateLocked :: "log_faults \<Rightarrow> RotateWriter \<Rightarrow> log_files \<Rightarrow> RotateWriter \<times> log_files" where
  "rotateLocked f w fs = (let
     fs = (if lf_remove f then fs else fs(rw_maxFiles w := None));
     fs = move_up f (rw_maxFiles w - 1) fs;
     fs = (if fs 0 = None \<or> lf_rename f 0 then fs else fs(1 := fs 0, 0 := None))
   in if lf_reopen f \<noteq> None then (w\<lparr>rw_open := False\<rparr>, fs) else (w\<lparr>rw_open := True, rw_size := 0\<rparr>, fs(0 := Some [])))"

text \<open>Opening for appending creates the file when it is not there.\<close>

definition open_append :: "log_files \<Rightarrow> log_files" where
  "open_append fs = (if fs 0 = None then fs(0 := Some []) else fs)"

definition file_size :: "log_files \<Rightarrow> int" where
  "file_size fs = (case fs 0 of None \<Rightarrow> 0 | Some b \<Rightarrow> int (length b))"

definition NewRotateWriter :: "log_faults \<Rightarrow> int \<Rightarrow> nat \<Rightarrow> log_files \<Rightarrow> RotateWriter result \<times> log_files" where
  "NewRotateWriter f maxSize maxFiles fs = (case (lf_mkdir f, lf_open f) of
     (Some e, _) \<Rightarrow> (Inl e, fs)
   | (None, Some e) \<Rightarrow> (Inl e, fs)
   | (None, None) \<Rightarrow> (let fs = open_append fs; size = file_size fs in
       case lf_stat f of
         Some e \<Rightarrow> (Inl e, fs)
       | None \<Rightarrow> (let w = \<lparr>rw_maxSize = maxSize, rw_maxFiles = maxFiles, rw_open = True, rw_size = size\<rparr> in
           if 0 < maxFiles \<and> 0 < size \<and> maxSize \<le> size then (let (w, fs) = rotateLocked f w fs in (Inr w, fs))
           else (Inr w, fs))))"

text \<open>The bytes that reached the file and the error, as \<open>io.Writer\<close> returns both.  A closed file refuses a write.\<close>

definition file_write :: "log_faults \<Rightarrow> bytes \<Rightarrow> RotateWriter \<Rightarrow> log_files \<Rightarrow> (nat \<times> goerr option) \<times> RotateWriter \<times> log_files" where
  "file_write f p w fs = (
     if \<not> rw_open w then ((0, Some ErrInvalid), w, fs)
     else let n = (case lf_write f of None \<Rightarrow> length p | Some (k, _) \<Rightarrow> min k (length p)) in
       ((n, map_option snd (lf_write f)), w\<lparr>rw_size := rw_size w + int n\<rparr>, fs(0 := Some (case_option [] id (fs 0) @ take n p))))"

definition log_Write :: "log_faults \<Rightarrow> bytes \<Rightarrow> RotateWriter \<Rightarrow> log_files \<Rightarrow> (nat \<times> goerr option) \<times> RotateWriter \<times> log_files" where
  "log_Write f p w fs = (
     if \<not> rw_open w \<and> lf_open f \<noteq> None then ((0, lf_open f), w, fs)
     else let
       (w, fs) = (if rw_open w then (w, fs)
                  else let fs = open_append fs in (w\<lparr>rw_open := True, rw_size := (if lf_stat f = None then file_size fs else rw_size w)\<rparr>, fs));
       (w, fs) = (if 0 < rw_maxFiles w \<and> 0 < rw_size w \<and> rw_maxSize w < rw_size w + int (length p) then rotateLocked f w fs else (w, fs))
     in file_write f p w fs)"

definition log_Close :: "RotateWriter \<Rightarrow> RotateWriter" where
  "log_Close w = w\<lparr>rw_open := False\<rparr>"


subsection \<open>The logger\<close>

datatype log_level = LevelDebug | LevelInfo | LevelWarn | LevelError

definition parse_level :: "string \<Rightarrow> log_level result" where
  "parse_level level = (if level = ''debug'' then Inr LevelDebug else if level = ''info'' then Inr LevelInfo
     else if level = ''warn'' then Inr LevelWarn else if level = ''error'' then Inr LevelError else Inl (Err ''log level''))"

text \<open>The level and, with a file name, the writer of the file; standard error is always written.\<close>

definition newWithStderr :: "log_faults \<Rightarrow> string \<Rightarrow> string \<Rightarrow> int \<Rightarrow> nat \<Rightarrow> log_files \<Rightarrow> (log_level \<times> RotateWriter option) result \<times> log_files" where
  "newWithStderr f file level maxSize maxFiles fs = (case parse_level level of
     Inl e \<Rightarrow> (Inl e, fs)
   | Inr lvl \<Rightarrow> (if file = [] then (Inr (lvl, None), fs)
       else case NewRotateWriter f maxSize maxFiles fs of
         (Inl e, fs) \<Rightarrow> (Inl e, fs)
       | (Inr w, fs) \<Rightarrow> (Inr (lvl, Some w), fs)))"

definition logging_New :: "log_faults \<Rightarrow> string \<Rightarrow> string \<Rightarrow> int \<Rightarrow> nat \<Rightarrow> log_files \<Rightarrow> (log_level \<times> RotateWriter option) result \<times> log_files" where
  "logging_New f file level maxSizeMB maxFiles fs = newWithStderr f file level (maxSizeMB * 2 ^ 20) maxFiles fs"

subsection \<open>What the files hold\<close>

text \<open>Everything in the files, from the oldest kept one to the log itself.\<close>

fun history :: "nat \<Rightarrow> log_files \<Rightarrow> bytes" where
  "history 0 fs = case_option [] id (fs 0)"
| "history (Suc n) fs = case_option [] id (fs (Suc n)) @ history n fs"

definition log_ok :: "RotateWriter \<Rightarrow> log_files \<Rightarrow> bool" where
  "log_ok w fs \<longleftrightarrow> rw_open w \<and> (\<exists>b. fs 0 = Some b \<and> rw_size w = int (length b))"

lemma no_faults_simps [simp]:
  "lf_mkdir no_faults = None" "lf_open no_faults = None" "lf_stat no_faults = None" "\<not> lf_remove no_faults" "\<not> lf_look no_faults i"
  "\<not> lf_rename no_faults i" "lf_reopen no_faults = None" "lf_write no_faults = None"
  by (simp_all add: no_faults_def)



lemma history_cong: "(\<And>i. i \<le> n \<Longrightarrow> fs' i = fs i) \<Longrightarrow> history n fs' = history n fs"
  by (induction n) auto









text \<open>A writer that was closed opens its file again with the next line and goes on as before.\<close>

lemma log_reopens:
  assumes "log_ok w fs"
  shows "log_Write no_faults p (log_Close w) fs = log_Write no_faults p w fs"
proof -
  obtain b where b: "rw_open w" "fs 0 = Some b" "rw_size w = int (length b)" using assms by (auto simp: log_ok_def)
  have "open_append fs = fs" using b(2) by (simp add: open_append_def)
  moreover have "(log_Close w)\<lparr>rw_open := True, rw_size := int (length b)\<rparr> = w" using b by (cases w) (simp add: log_Close_def)
  moreover have "\<not> rw_open (log_Close w)" by (simp add: log_Close_def)
  ultimately show ?thesis using b by (simp add: log_Write_def file_size_def)
qed

text \<open>
  When the log cannot be renamed, it is said to be written on, but it is opened with \<open>O_TRUNC\<close>: its lines are gone.
\<close>

lemma log_lost_when_rename_fails:
  assumes "log_ok w fs" "fs 0 = Some b" "b \<noteq> []" "rw_maxFiles w = 1" "rw_maxSize w < int (length b)"
  shows "snd (snd (log_Write (no_faults\<lparr>lf_rename := (\<lambda>_. True)\<rparr>) p w fs)) = fs(0 := Some p, 1 := None)"
  using assms by (auto simp: log_Write_def log_ok_def rotateLocked_def file_write_def no_faults_def fun_eq_iff Let_def)

end
