(* ===== verification/Daemon.thy ===== *)
theory Daemon
  imports ModuleOpen LogRotate Uploads
begin

text \<open>
  The two programs (\<open>cmd/crysyncd/main.go\<close>, \<open>cmd/crysync/main.go\<close>) and what they call to get the modules
  ready (\<open>PrepareModule\<close>, \<open>EnsureModuleInit\<close>, \<open>openBackend\<close> in \<open>internal/core/open.go\<close>, \<open>runtime.go\<close>)
  and to serve them (\<open>Server.Serve\<close> of the rsync front end).  A module's state is its backend, which is only read here,
  and its disk.  What fails is an argument.  Flags are parsed by the library.
\<close>

subsection \<open>Getting one module ready\<close>

record start_faults =
  sr_open :: "goerr option"
  sr_ping :: "goerr option"
  sr_init :: init_run

record module_state =
  mo_section :: module_section
  mo_run :: start_faults
  mo_be :: mem_backend
  mo_disk :: module_disk

definition openBackend :: "start_faults \<Rightarrow> module_section \<Rightarrow> unit result" where
  "openBackend run ms = (if ms_type ms = ''dir'' \<or> ms_type ms = ''webdav''
     then bind_res (NormalizeBucketDepth (ms_depth ms)) (\<lambda>_. case sr_open run of Some e \<Rightarrow> Inl e | None \<Rightarrow> Inr ())
     else Inl (Err ''unknown backend''))"

definition PrepareModule :: "(bytes \<Rightarrow> repo_env) \<Rightarrow> sqlite \<Rightarrow> module_state \<Rightarrow> (init_result \<times> goerr option) \<times> module_state" where
  "PrepareModule env sq m = (case openBackend (mo_run m) (mo_section m) of
     Inl e \<Rightarrow> ((nothing_done, Some e), m)
   | Inr _ \<Rightarrow> (case sr_ping (mo_run m) of
       Some e \<Rightarrow> ((nothing_done, Some e), m)
     | None \<Rightarrow> (case ensureModuleReady env sq (sr_init (mo_run m)) (mo_be m) (mo_disk m) of (x, d) \<Rightarrow> (x, m\<lparr>mo_disk := d\<rparr>))))"

definition EnsureModuleInit :: "(bytes \<Rightarrow> repo_env) \<Rightarrow> sqlite \<Rightarrow> module_state \<Rightarrow> (bool \<times> goerr option) \<times> module_state" where
  "EnsureModuleInit env sq m = (case PrepareModule env sq m of ((r, e), m') \<Rightarrow> ((KeyCreated r, e), m'))"

text \<open>The slots for chunks that all front ends of the process share.\<close>

definition NewRuntime :: "int \<Rightarrow> nat" where
  "NewRuntime n = NewInflightLimiter (if n \<le> 0 then DefaultMaxInflightChunks else n)"

subsection \<open>The daemon\<close>

datatype front = Rsync | WebDAV




definition fronts_of :: "daemon_config \<Rightarrow> front list" where
  "fronts_of c = (if dc_rsync c \<noteq> None then [Rsync] else []) @ (if dc_webdav c \<noteq> None then [WebDAV] else [])"



subsection \<open>The command\<close>

datatype init_message = KeyMade string | Restored string | KeyThere string

definition init_message_of :: "string \<Rightarrow> init_result \<Rightarrow> init_message" where
  "init_message_of name r = (if KeyCreated r then KeyMade name else if MetaRestored r then Restored name else KeyThere name)"

fun init_modules :: "(bytes \<Rightarrow> repo_env) \<Rightarrow> sqlite \<Rightarrow> module_state list \<Rightarrow> (init_message list \<times> goerr option) \<times> module_state list" where
  "init_modules env sq [] = (([], None), [])"
| "init_modules env sq (m # ms) = (case PrepareModule env sq m of
     ((_, Some e), m') \<Rightarrow> (([], Some e), m' # ms)
   | ((r, None), m') \<Rightarrow> (case init_modules env sq ms of ((out, e), ms') \<Rightarrow>
       ((init_message_of (ms_name (mo_section m)) r # out, e), m' # ms')))"

definition cmdInit :: "(bytes \<Rightarrow> repo_env) \<Rightarrow> sqlite \<Rightarrow> string \<Rightarrow> daemon_config result \<Rightarrow> module_state list \<Rightarrow>
    (init_message list \<times> goerr option) \<times> module_state list" where
  "cmdInit env sq confPath cfg ms = (if confPath = [] then (([], Some (Err ''--config'')), ms)
     else case cfg of Inl e \<Rightarrow> (([], Some e), ms) | Inr _ \<Rightarrow> init_modules env sq ms)"

definition crysync_run :: "(bytes \<Rightarrow> repo_env) \<Rightarrow> sqlite \<Rightarrow> string list \<Rightarrow> string \<Rightarrow> daemon_config result \<Rightarrow> module_state list \<Rightarrow>
    (init_message list \<times> goerr option) \<times> module_state list" where
  "crysync_run env sq args confPath cfg ms = (case args of
     [] \<Rightarrow> (([], Some (Err ''no command'')), ms)
   | a # _ \<Rightarrow> if a \<in> {''version'', ''--version'', ''-v''} then (([], None), ms)
       else if a = ''init'' then cmdInit env sq confPath cfg ms
       else (([], Some (Err ''unknown command'')), ms))"

subsection \<open>The rsync front end\<close>

datatype 'c accept = Accepted 'c | AcceptError goerr | Stopped

text \<open>The connections that get a goroutine; an error of \<open>Accept\<close> ends the loop only when the context has ended.\<close>

fun accept_loop :: "'c accept list \<Rightarrow> 'c list" where
  "accept_loop [] = []"
| "accept_loop (Accepted c # rest) = c # accept_loop rest"
| "accept_loop (AcceptError e # rest) = accept_loop rest"
| "accept_loop (Stopped # rest) = []"

fun ensure_all :: "(bytes \<Rightarrow> repo_env) \<Rightarrow> sqlite \<Rightarrow> module_state list \<Rightarrow> module_state list" where
  "ensure_all env sq [] = []"
| "ensure_all env sq (m # ms) = snd (EnsureModuleInit env sq m) # ensure_all env sq ms"

definition rsync_Serve :: "(bytes \<Rightarrow> repo_env) \<Rightarrow> sqlite \<Rightarrow> goerr option \<Rightarrow> 'c accept list \<Rightarrow> module_state list \<Rightarrow> (goerr option \<times> 'c list) \<times> module_state list" where
  "rsync_Serve env sq listen accepts ms = (case listen of Some e \<Rightarrow> ((Some e, []), ms)
     | None \<Rightarrow> ((None, accept_loop accepts), ensure_all env sq ms))"

text \<open>The health check of the container connects and hangs up; \<open>loopback\<close> is whether the peer's address is a loopback one.\<close>

definition isLocalProbeDisconnect :: "bool \<Rightarrow> bool \<Rightarrow> goerr \<Rightarrow> bool" where
  "isLocalProbeDisconnect loopback reset err = ((err = EOF \<or> reset) \<and> loopback)"

definition newSessionID :: "bytes result \<Rightarrow> string" where
  "newSessionID rnd = (case rnd of Inl e \<Rightarrow> ''0000'' | Inr b \<Rightarrow> hex_encode b)"

subsection \<open>Lemmas\<close>

definition key_and_data_kept :: "module_state \<Rightarrow> module_state \<Rightarrow> bool" where
  "key_and_data_kept m m' \<longleftrightarrow> mo_be m' = mo_be m \<and> mo_section m' = mo_section m \<and>
     (\<forall>k. md_key (mo_disk m) = Some k \<longrightarrow> md_key (mo_disk m') = Some k) \<and> (md_meta (mo_disk m) \<noteq> None \<longrightarrow> mo_disk m' = mo_disk m)"

lemma PrepareModule_kept: "PrepareModule env sq m = (x, m') \<Longrightarrow> key_and_data_kept m m'"
  by (auto simp: PrepareModule_def key_and_data_kept_def split: sum.splits option.splits prod.splits dest: ensureModuleReady_effect)







text \<open>The number of slots is the configured one, since an accepted configuration has a positive one.\<close>

lemma slots_as_configured:
  assumes "Load dur specified c = Inr c'"
  shows "int (NewRuntime (dc_inflight c')) = dc_inflight c'"
proof -
  have "0 < dc_inflight c'" using assms validateStructure_Inr by (fastforce simp: Load_def bind_res_eq_Inr config_wf_def)
  then show ?thesis by (simp add: NewRuntime_def NewInflightLimiter_def)
qed

text \<open>The command and the rsync front end keep what is there, too; the front end serves whoever came before it was stopped.\<close>

lemma kept_refl: "key_and_data_kept m m"
  by (simp add: key_and_data_kept_def)

lemma init_modules_kept: "list_all2 key_and_data_kept ms (snd (init_modules env sq ms))"
proof (induction ms)
  case (Cons m ms)
  have "list_all2 key_and_data_kept ms ms" by (simp add: list_all2_same kept_refl)
  then show ?case using Cons.IH PrepareModule_kept [of env sq m] by (auto split: prod.splits option.splits)
qed simp

lemma crysync_run_kept: "list_all2 key_and_data_kept ms (snd (crysync_run env sq args confPath cfg ms))"
  using init_modules_kept [of ms env sq] by (auto simp: crysync_run_def cmdInit_def list_all2_same kept_refl split: list.split sum.split)

lemma rsync_Serve_kept: "list_all2 key_and_data_kept ms (snd (rsync_Serve env sq listen accepts ms))"
proof -
  have "list_all2 key_and_data_kept ms (ensure_all env sq ms)"
    by (induction ms) (auto simp: EnsureModuleInit_def split: prod.splits dest: PrepareModule_kept)
  then show ?thesis by (auto simp: rsync_Serve_def list_all2_same kept_refl split: option.split)
qed

lemma accept_loop_all: "Stopped \<notin> set before \<Longrightarrow> accept_loop (before @ Stopped # rest) = accept_loop before \<and> (\<forall>c. Accepted c \<in> set before \<longleftrightarrow> c \<in> set (accept_loop before))"
  by (induction before rule: accept_loop.induct) auto

text \<open>A scheduled collection opens the module anew; it never changes the key either.\<close>

lemma gc_tick_keeps_key:
  assumes "gc_tick env sq run rr fault ping be d = (r, be', d')" "md_key d = Some k"
  shows "md_key d' = Some k"
proof -
  have "md_key (snd (openModule env sq run ping be d)) = Some k"
    using assms(2) ensureModuleReady_effect(1) [of env sq run be d] by (auto simp: openModule_def split: option.splits prod.splits)
  then show ?thesis using assms(1) by (auto simp: gc_tick_def split: prod.splits sum.splits)
qed

text \<open>A command that stops at a module leaves the ones behind it as they were.\<close>

lemma init_stops_at_failure:
  assumes "init_modules env sq (as @ m # bs) = ((out, Some e), ms')" "\<And>a. a \<in> set as \<Longrightarrow> snd (fst (PrepareModule env sq a)) = None"
    and "snd (fst (PrepareModule env sq m)) = Some e'"
  shows "e = e' \<and> length out = length as \<and> drop (Suc (length as)) ms' = bs"
  using assms
proof (induction as arbitrary: out ms')
  case Nil
  then show ?case by (auto split: prod.splits option.splits)
next
  case (Cons a as)
  obtain r a' where a: "PrepareModule env sq a = ((r, None), a')"
    using Cons.prems(2) [of a] by (cases "PrepareModule env sq a") (auto split: prod.splits)
  then show ?case using Cons.IH Cons.prems by (auto split: prod.splits)
qed





text \<open>
  Nothing calls \<open>Validate\<close>.  A file without a front end, or with two modules of one name, passes \<open>Load\<close>; the daemon then
  runs without serving anything, or serves two modules under one name.
\<close>

lemma unvalidated_config_is_started:
  "\<exists>c. Load sample_dur False (sample_config\<lparr>dc_rsync := None\<rparr>) = Inr c \<and> Validate sample_dur c = Inl (Err ''no front'') \<and> fronts_of c = []"
proof -
  have "case Load sample_dur False (sample_config\<lparr>dc_rsync := None\<rparr>) of Inr c \<Rightarrow> Validate sample_dur c = Inl (Err ''no front'') \<and> fronts_of c = [] | _ \<Rightarrow> False"
    by code_simp
  then show ?thesis by (auto split: sum.splits)
qed

lemma duplicate_names_are_started:
  "\<exists>c. Load sample_dur False (sample_config\<lparr>dc_modules := dc_modules sample_config @ dc_modules sample_config\<rparr>) = Inr c \<and> \<not> distinct (map ms_name (dc_modules c))"
proof -
  have "case Load sample_dur False (sample_config\<lparr>dc_modules := dc_modules sample_config @ dc_modules sample_config\<rparr>) of
      Inr c \<Rightarrow> map ms_name (dc_modules c) = [''m'', ''m''] | _ \<Rightarrow> False" by code_simp
  then show ?thesis by (auto split: sum.splits)
qed

end
