(* ===== verification/DirMeta.thy ===== *)
theory DirMeta
  imports Backends "HOL-Library.List_Lexorder" "HOL-Library.Char_ord"
begin

text \<open>
  The backups of the directory backend (\<open>internal/backend/dir.go\<close>): they are files of the directory \<open>meta\<close>
  below its root, beside the buckets of the blobs.  They interpret the same contract as the blobs do, and the two
  never meet.
\<close>

definition metaDir :: "string list" where "metaDir = [''meta'']"

definition dir_Ping :: "bool \<Rightarrow> unit result" where
  "dir_Ping is_directory = (if is_directory then Inr () else Inl (Err ''backend directory not available''))"

text \<open>
  The source is copied to a temporary file, one byte more than announced at most; a failure up to the renaming leaves the
  old backup, one after it (the directory cannot be synced) is reported although the new one is there.
\<close>

datatype put_fault = BeforeRename goerr | AfterRename goerr

definition dir_PutMeta :: "put_fault option \<Rightarrow> string \<Rightarrow> bytes \<Rightarrow> nat \<Rightarrow> dir_backend \<Rightarrow> unit result \<times> dir_backend" where
  "dir_PutMeta fault n src sz b = (case validateBlobName n of Inl e \<Rightarrow> (Inl e, b) | Inr _ \<Rightarrow>
     (case fault of Some (BeforeRename e) \<Rightarrow> (Inl e, b) | _ \<Rightarrow>
        let d = take (sz + 1) src in
        if length d \<noteq> sz then (Inl (Err ''meta object size mismatch''), b)
        else (case fault of Some (AfterRename e) \<Rightarrow> Inl e | _ \<Rightarrow> Inr (), b\<lparr>dir_files := fs_put (metaDir, n) d (dir_files b)\<rparr>)))"

definition dir_GetMeta :: "bool \<Rightarrow> string \<Rightarrow> dir_backend \<Rightarrow> bytes result" where
  "dir_GetMeta cancelled n b = bind_res (validateBlobName n) (\<lambda>_. if cancelled then Inl Canceled
     else case map_of (dir_files b) (metaDir, n) of None \<Rightarrow> Inl ErrNotExist | Some d \<Rightarrow> Inr d)"

text \<open>A directory that is not there has no entries; the context is looked at once for every entry.\<close>

definition dir_ListMeta :: "bool \<Rightarrow> dir_backend \<Rightarrow> string list result" where
  "dir_ListMeta cancelled b = (let entries = map (\<lambda>(k, v). snd k) (filter (\<lambda>(k, v). fst k = metaDir) (dir_files b)) in
     if cancelled \<and> entries \<noteq> [] then Inl Canceled else Inr (sort (filter (\<lambda>n. \<not> isTemporaryBlob n) entries)))"

definition dir_DeleteMeta :: "bool \<Rightarrow> goerr option \<Rightarrow> string \<Rightarrow> dir_backend \<Rightarrow> unit result \<times> dir_backend" where
  "dir_DeleteMeta cancelled fault n b = (case validateBlobName n of Inl e \<Rightarrow> (Inl e, b) | Inr _ \<Rightarrow>
     if cancelled then (Inl Canceled, b)
     else case map_of (dir_files b) (metaDir, n) of
         None \<Rightarrow> (Inr (), b)
       | Some _ \<Rightarrow> (case fault of Some e \<Rightarrow> (Inl e, b) | None \<Rightarrow> (Inr (), b\<lparr>dir_files := fs_del (metaDir, n) (dir_files b)\<rparr>)))"

subsection \<open>The contract\<close>

definition meta_view :: "dir_backend \<Rightarrow> string \<Rightarrow> bytes option" where
  "meta_view b n = map_of (dir_files b) (metaDir, n)"

definition meta_inv :: "dir_backend \<Rightarrow> bool" where
  "meta_inv b \<longleftrightarrow> (\<forall>n. meta_view b n \<noteq> None \<longrightarrow> valid_name n)"

definition meta_names :: "dir_backend \<Rightarrow> string list" where
  "meta_names b = (case dir_ListMeta False b of Inl _ \<Rightarrow> [] | Inr l \<Rightarrow> l)"

lemma meta_names_view: "n \<in> set (meta_names b) \<longleftrightarrow> \<not> isTemporaryBlob n \<and> meta_view b n \<noteq> None"
  by (force simp: meta_names_def dir_ListMeta_def meta_view_def map_of_eq_None_iff Let_def)

interpretation dirmeta: blob_store meta_view meta_inv store_name "\<lambda>n d. dir_PutMeta None n d (length d)" "dir_GetMeta False" "dir_DeleteMeta False None" meta_names
proof unfold_locales
  fix s :: dir_backend and n d
  assume inv: "meta_inv s" and n: "store_name n"
  have v: "validateBlobName n = Inr ()" using n by (simp add: store_name_def valid_name_def)
  show "fst (dir_PutMeta None n d (length d) s) = Inr ()" by (simp add: dir_PutMeta_def v)
  show p: "meta_view (snd (dir_PutMeta None n d (length d) s)) = (meta_view s)(n \<mapsto> d)"
    by (simp add: dir_PutMeta_def v meta_view_def map_of_fs_put fun_eq_iff)
  show "meta_inv (snd (dir_PutMeta None n d (length d) s))" using inv n by (simp add: meta_inv_def p store_name_def)
  show "meta_view s n = Some d \<Longrightarrow> dir_GetMeta False n s = Inr d" by (simp add: dir_GetMeta_def v meta_view_def)
  show "meta_view s n = None \<Longrightarrow> \<exists>e. dir_GetMeta False n s = Inl e" by (simp add: dir_GetMeta_def v meta_view_def)
  show q: "meta_view (snd (dir_DeleteMeta False None n s)) = (meta_view s)(n := None)"
    by (simp add: dir_DeleteMeta_def v meta_view_def map_of_fs_del fun_eq_iff split: option.split)
  show "meta_inv (snd (dir_DeleteMeta False None n s))" using inv by (simp add: meta_inv_def q)
next
  fix s :: dir_backend and n
  assume "meta_inv s"
  then show "n \<in> set (meta_names s) \<longleftrightarrow> store_name n \<and> meta_view s n \<noteq> None"
    by (auto simp: meta_names_view store_name_def meta_inv_def)
qed

subsection \<open>Blobs and backups apart\<close>

lemma bucket_not_meta: "hex64 hx \<Longrightarrow> bucketParts hx n d = Inr p \<Longrightarrow> p \<noteq> metaDir"
  by (auto simp: bucketParts_def bind_res_eq_Inr metaDir_def hex64_def map_eq_Cons_conv dest: arg_cong [of _ _ length])

text \<open>Whatever a backup operation does, every blob reads as before, and the other way round.\<close>

lemma meta_spares_blobs:
  assumes "hex64 hx"
  shows "dir_Get hx n (snd (dir_PutMeta f m src sz b)) = dir_Get hx n b" "dir_Get hx n (snd (dir_DeleteMeta c e m b)) = dir_Get hx n b"
proof -
  note b = bucket_not_meta [OF assms, of n "dir_depth b"]
  show "dir_Get hx n (snd (dir_PutMeta f m src sz b)) = dir_Get hx n b"
    using b by (cases "bucketParts hx n (dir_depth b)")
      (auto simp: dir_Get_def dir_PutMeta_def map_of_fs_put Let_def split: sum.splits option.splits put_fault.splits)
  show "dir_Get hx n (snd (dir_DeleteMeta c e m b)) = dir_Get hx n b"
    using b by (cases "bucketParts hx n (dir_depth b)")
      (auto simp: dir_Get_def dir_DeleteMeta_def map_of_fs_del split: sum.splits option.splits)
qed

lemma blobs_spare_meta:
  assumes "hex64 hx"
  shows "meta_view (snd (dir_Put hx f n d b)) = meta_view b" "meta_view (snd (dir_Delete hx n b)) = meta_view b"
  using bucket_not_meta [OF assms]
  by (auto simp: meta_view_def dir_Put_def dir_Delete_def map_of_fs_put map_of_fs_del fun_eq_iff split: sum.splits option.splits)

text \<open>A backup that is not stored is one that reads as before: the old one stays until the new one is complete.\<close>

lemma failed_put_keeps_backup:
  assumes "fst (dir_PutMeta f n src sz b) \<noteq> Inr ()" "\<And>e. f \<noteq> Some (AfterRename e)"
  shows "snd (dir_PutMeta f n src sz b) = b"
  using assms by (auto simp: dir_PutMeta_def Let_def split: sum.splits option.splits put_fault.splits if_splits)

end
