(* ===== verification/MetaOpen.thy ===== *)
theory MetaOpen
  imports Prelude
begin

text \<open>
  Opening the file of the database (\<open>Open\<close>, \<open>OpenExisting\<close> and the checks of its tables in
  \<open>internal/core/meta/db.go\<close>).  Of the file only the names of its tables matter here; what the tables hold is in
  \<open>MetaDB\<close>.  What the operating system or SQLite refuses is an argument.
\<close>

record open_run =
  op_stat :: "goerr option"
  op_mkdir :: "goerr option"
  op_sql :: "goerr option"
  op_old :: "goerr option"
  op_schema :: "goerr option"

type_synonym tables = "string list"

definition required :: tables where "required = [''files'', ''chunks'', ''file_chunks'', ''meta'']"

definition isOldSchema :: "open_run \<Rightarrow> tables \<Rightarrow> bool result" where
  "isOldSchema run ts = (case op_old run of Some e \<Rightarrow> Inl e | None \<Rightarrow> Inr (''snapshots'' \<in> set ts))"

definition validateRequiredSchema :: "open_run \<Rightarrow> tables \<Rightarrow> unit result" where
  "validateRequiredSchema run ts = (case op_schema run of Some e \<Rightarrow> Inl e
     | None \<Rightarrow> if length (filter (\<lambda>t. t \<in> set required) ts) \<noteq> 4 then Inl (Err ''missing tables'') else Inr ())"

text \<open>One transaction: all tables that are missing, or none.\<close>

definition ensureSchema :: "open_run \<Rightarrow> tables \<Rightarrow> unit result \<times> tables" where
  "ensureSchema run ts = (case op_schema run of Some e \<Rightarrow> (Inl e, ts) | None \<Rightarrow> (Inr (), ts @ filter (\<lambda>t. t \<notin> set ts) required))"

text \<open>SQLite creates an empty file with the first query, which is that for the old tables.\<close>

definition db_open :: "open_run \<Rightarrow> bool \<Rightarrow> tables option \<Rightarrow> unit result \<times> tables option" where
  "db_open run create f =
    (if \<not> create \<and> op_stat run \<noteq> None then (Inl (the (op_stat run)), f)
     else if \<not> create \<and> f = None then (Inl ErrNotExist, f)
     else case op_mkdir run of Some e \<Rightarrow> (Inl e, f) | None \<Rightarrow>
       (case op_sql run of Some e \<Rightarrow> (Inl e, f) | None \<Rightarrow>
         let ts = (case f of None \<Rightarrow> [] | Some ts \<Rightarrow> ts) in
         (case isOldSchema run ts of
            Inl e \<Rightarrow> (Inl e, Some ts)
          | Inr True \<Rightarrow> (Inl (Err ''database of version 0.4''), Some ts)
          | Inr False \<Rightarrow> if create then (case ensureSchema run ts of (r, ts') \<Rightarrow> (r, Some ts'))
              else (validateRequiredSchema run ts, Some ts))))"

definition db_Open :: "open_run \<Rightarrow> tables option \<Rightarrow> unit result \<times> tables option" where
  "db_Open run f = db_open run True f"

definition OpenExisting :: "open_run \<Rightarrow> tables option \<Rightarrow> unit result \<times> tables option" where
  "OpenExisting run f = (if op_stat run \<noteq> None then (Inl (the (op_stat run)), f) else if f = None then (Inl ErrNotExist, f) else db_open run False f)"

text \<open>The names of the tables of a file are distinct, as SQLite has it.\<close>

lemma required_count: "distinct ts \<Longrightarrow> length (filter (\<lambda>t. t \<in> set required) ts) = 4 \<longleftrightarrow> set required \<subseteq> set ts"
proof -
  assume d: "distinct ts"
  let ?A = "set required" and ?n = "length (filter (\<lambda>t. t \<in> set required) ts)"
  have "?n = card (set (filter (\<lambda>t. t \<in> ?A) ts))" using d by (intro distinct_card [symmetric] distinct_filter)
  also have "set (filter (\<lambda>t. t \<in> ?A) ts) = ?A \<inter> set ts" by auto
  finally have n: "?n = card (?A \<inter> set ts)" .
  have four: "card ?A = 4" by (simp add: required_def)
  show ?thesis
  proof
    assume "?n = 4"
    then have "?A \<inter> set ts = ?A" using n four by (intro card_subset_eq) auto
    then show "?A \<subseteq> set ts" by blast
  next
    assume "?A \<subseteq> set ts"
    then have "?A \<inter> set ts = ?A" by blast
    then show "?n = 4" using n four by simp
  qed
qed

text \<open>\<open>OpenExisting\<close> never changes the file, and never makes one.\<close>

lemma OpenExisting_reads_only: "snd (OpenExisting run f) = f"
  by (auto simp: OpenExisting_def db_open_def Let_def split: option.splits sum.splits bool.splits)

text \<open>\<open>Open\<close> keeps every table that is there; it is refused on an old database, which it leaves as it is.\<close>

lemma Open_keeps:
  assumes "db_Open run f = (r, f')"
  shows "(\<forall>ts. f = Some ts \<longrightarrow> (\<exists>new. f' = Some (ts @ new))) \<and> (\<forall>ts. f = Some ts \<longrightarrow> ''snapshots'' \<in> set ts \<longrightarrow> f' = f \<and> r \<noteq> Inr ())"
  using assms by (auto simp: db_Open_def db_open_def isOldSchema_def ensureSchema_def Let_def split: option.splits sum.splits bool.splits)

text \<open>What \<open>Open\<close> accepted, \<open>OpenExisting\<close> accepts, and opening again changes nothing.\<close>

lemma Open_then_OpenExisting:
  assumes "db_Open run f = (Inr (), f')" "\<And>ts. f = Some ts \<Longrightarrow> distinct ts"
    and "op_stat run' = None" "op_mkdir run' = None" "op_sql run' = None" "op_old run' = None" "op_schema run' = None"
  shows "fst (OpenExisting run' f') = Inr () \<and> db_Open run' f' = (Inr (), f')"
proof -
  obtain ts where ts: "f' = Some (ts @ filter (\<lambda>t. t \<notin> set ts) required)" "distinct ts" "''snapshots'' \<notin> set ts"
  proof -
    let ?ts = "case f of None \<Rightarrow> [] | Some ts \<Rightarrow> ts"
    have "f' = Some (?ts @ filter (\<lambda>t. t \<notin> set ?ts) required)" "''snapshots'' \<notin> set ?ts"
      using assms(1) by (auto simp: db_Open_def db_open_def isOldSchema_def ensureSchema_def Let_def split: option.splits sum.splits bool.splits)
    moreover have "distinct ?ts" using assms(2) by (cases f) auto
    ultimately show ?thesis using that by blast
  qed
  let ?us = "ts @ filter (\<lambda>t. t \<notin> set ts) required"
  have "distinct ?us" using ts(2) by (auto simp: required_def)
  moreover have all: "set required \<subseteq> set ?us" by auto
  ultimately have n: "length (filter (\<lambda>t. t \<in> set required) ?us) = 4" using required_count by blast
  have o: "''snapshots'' \<notin> set ?us" using ts(3) by (auto simp: required_def)
  have e: "filter (\<lambda>t. t \<notin> set ?us) required = []" using all by (simp add: filter_empty_conv subset_iff)
  show ?thesis unfolding ts(1)
    using n o e assms(3-7)
    by (simp add: OpenExisting_def db_Open_def db_open_def isOldSchema_def ensureSchema_def validateRequiredSchema_def Let_def del: filter_append set_append)
qed

end
