(* ===== verification/Spec2Isabelle.thy ===== *)
theory Spec2Isabelle
  imports Flist FlistOrder Mux MetaDB Crypto Backends RepoFiles FileReader Gc Handshake ConnLimiter Sums SessionProps RestoreList Connection ModuleOpen Lifetime Config WebProps WebdavProps Uploads ModuleLocks Daemon DirMeta MetaOpen
begin

text \<open>
  A verification development of \<open>crysync\<close>, an encrypted and deduplicating backup service written in Go.

  The program.  A daemon (\<open>src/cmd/crysyncd\<close>) serves modules to backup clients through two front ends: the rsync daemon
  protocol (\<open>src/internal/front/rsync\<close>) and WebDAV (\<open>src/internal/front/webdav\<close>).  Each module is a repository
  (\<open>src/internal/core/repo\<close>): files are cut into chunks, each chunk is stored once under a random name as an
  encrypted blob in a backend (a directory, or a remote WebDAV server; \<open>src/internal/backend\<close>), and an SQLite
  database (\<open>src/internal/core/meta\<close>) holds the files, the chunks with their reference counts, and which chunks make up
  which file.  The database is itself backed up, encrypted, into the backend; when it is lost while the key is kept it
  is restored from there (\<open>src/internal/core/open.go\<close>).  A garbage collection removes what nothing refers to.

  How the model is made.  Every definition is a translation of the Go code it is named after: a struct is a record, an
  error is the left side of a sum (\<open>'a result\<close>, with the errors of \<open>Prelude.goerr\<close>, where \<open>Panic\<close> marks a point at
  which the Go runtime panics), state is passed explicitly and returned, a loop is recursion.  Fixed-width integers are
  words where their width matters (the wire formats, checksums, back-off delays), unbounded integers elsewhere.  What
  is not under \<open>src\<close> is an argument with named laws: AES-GCM, hashes and key derivation (\<open>Crypto\<close>, \<open>Repo.repo_env\<close>), the
  file format of SQLite and its online backup (\<open>Recovery.opener\<close>, \<open>ModuleOpen.sqlite\<close>), the remote WebDAV server
  (\<open>WebdavBackend\<close>), the WebDAV library of the front end (\<open>WebFront\<close>, a program over the file system it is given),
  random bytes, the clock and the YAML parser.  What fails or races in one call is an argument as well.

  The theories, from the bottom up.
  \<^item> \<open>Prelude\<close>, \<open>GoStrings\<close>, \<open>GoUrl\<close>: results, byte readers, and the functions of Go's \<open>strings\<close>, \<open>path\<close> and \<open>net/url\<close>
    that the code uses.
  \<^item> \<open>Wire\<close>, \<open>Mux\<close> (\<open>protocol/wire.go\<close>): integers and varints byte for byte, the index codec, frames, and the stream over
    frames.  Round trips; reading through the stream does not see frame boundaries.
  \<^item> \<open>Flist\<close>, \<open>FlistOrder\<close> (\<open>flist.go\<close>, \<open>flist_write.go\<close>): the file list with its incremental state, and rsync's order of
    names.  Written lists are read back, no accepted path leaves the root, reading ends with one round per byte, and the
    comparison machine is a lexicographic order.
  \<^item> \<open>MetaDB\<close>, \<open>MetaOpen\<close> (\<open>meta/db.go\<close>, \<open>validate.go\<close>): every statement on the tables, and the checks when the file is
    opened.  Reference counts are the numbers of references after any operations.
  \<^item> \<open>Crypto\<close> (\<open>crypto/crypto.go\<close>, \<open>crypto/meta.go\<close>): the formats of the key file, of blobs and of framed backups.
  \<^item> \<open>Backends\<close>, \<open>DirMeta\<close> (\<open>backend/backend.go\<close>, \<open>bucket.go\<close>, \<open>dir.go\<close>): the contract \<open>blob_store\<close> as a locale, interpreted by
    the in-memory backend, the directory's blobs and the directory's backups.
  \<^item> \<open>WebdavBackend\<close>, \<open>WebdavProps\<close> (\<open>backend/webdav.go\<close>): every operation over any server; over a server that keeps a tree of
    collections (locale \<open>dav_server\<close>, interpreted by a reference server) the backend is a \<open>blob_store\<close> again.
  \<^item> \<open>Repo\<close>, \<open>RepoFiles\<close>, \<open>RepoWrite\<close>, \<open>FileReader\<close>, \<open>Gc\<close> (\<open>repo/repo.go\<close>, \<open>chunker.go\<close>): storing and reading chunks, uploads,
    moves, removals, the reader behind ranged requests, the collection; the invariant \<open>repo_ok\<close>, which every operation
    keeps, and that what was uploaded streams back.
  \<^item> \<open>Uploads\<close> (\<open>repo/repo.go\<close>, \<open>inflight.go\<close>): the goroutines of concurrent uploads as interleaving steps over the slots, the gate
    and the in-flight register.  The limits hold in every interleaving, nothing deadlocks, every run ends (the bound
    is nine steps a chunk and four a file), and undisturbed uploads store exactly their chunks.
  \<^item> \<open>ModuleLocks\<close> (\<open>repo/repo.go\<close>): the two locks of a module and the order in which the operations take them; mutual exclusion and
    freedom from deadlock.  This is why the other theories may take one operation as one step.
  \<^item> \<open>MetaBackup\<close>, \<open>Recovery\<close>, \<open>Lifetime\<close> (\<open>repo/meta_backup.go\<close>): making, pruning, verifying and restoring backups; a backup
    restores every file; and over any sequence of operations a repository stays sound and some backup restorable.
  \<^item> \<open>ModuleOpen\<close>, \<open>Config\<close>, \<open>LogRotate\<close>, \<open>Daemon\<close> (\<open>core/open.go\<close>, \<open>backoff.go\<close>, \<open>runtime.go\<close>, \<open>config/config.go\<close>, \<open>logging\<close>,
    \<open>cmd\<close>): initialisation and recovery of a module and the schedulers, the configuration, the rotating log, and the
    start of the programs.
  \<^item> \<open>Handshake\<close>, \<open>ConnLimiter\<close>, \<open>Sums\<close>, \<open>DeltaTransfer\<close>, \<open>Session\<close>, \<open>Receiver\<close>, \<open>ReceiverSafe\<close>, \<open>ReceiverContent\<close>, \<open>SessionProps\<close>,
    \<open>Sender\<close>, \<open>SenderProps\<close>, \<open>SenderView\<close>, \<open>RestoreList\<close>, \<open>Connection\<close> (\<open>protocol/handshake.go\<close>, \<open>sum.go\<close>, \<open>receiver.go\<close>,
    \<open>sender.go\<close>, \<open>timeout.go\<close>, \<open>rsync/server.go\<close>): a connection from its first byte to its end.  A session is a computation over the
    bytes the client sends, the frames sent back and the repository (\<open>Session.sess\<close>); a locale of relations that are kept by
    every computation built from given steps carries the safety proofs.  Full and delta transfers store the sender's content or
    nothing, a session stays in its module's root, deleting converges, and a restore sends what was stored.
  \<^item> \<open>WebFs\<close>, \<open>WebFront\<close>, \<open>WebProps\<close> (\<open>webdav/fs.go\<close>, \<open>write.go\<close>, \<open>auth.go\<close>, \<open>browse.go\<close>, \<open>root.go\<close>, \<open>module_cache.go\<close>, \<open>server.go\<close>): the file
    system handed to the WebDAV library and the handlers around it; what a request can change, whatever the library
    does, and that a file put is read back.

  How the parts meet.  The contract \<open>blob_store\<close> is what the core needs of a backend.  Both front ends end in \<open>RepoFiles\<close> and
  \<open>Receiver\<close>, whose steps are the events of \<open>Lifetime.life\<close>; \<open>WebProps\<close> shows that a web request is such a sequence of
  events, \<open>Connection\<close> that a connection keeps \<open>repo_ok\<close>, and \<open>ModuleOpen\<close> and \<open>Daemon\<close> bring a repository up and keep its key.

  Bounds and fuel.  Loops over input take one round per byte of it (\<open>Flist.recv_flist\<close>, \<open>Session\<close>), which is enough since every round that
  goes on consumes a byte; those lemmas stand beside the definitions.  Reading a file to its end takes one round more than
  it has bytes (\<open>FileReader.drain\<close>).  Uploads need no bound: their steps decrease a measure.

  Lemmas named in the findings of the manifest show behaviour that differs from what the code or a comment intends; they are
  stated of the same definitions as the properties.

  Not modelled.  Time: deadlines, tickers and the keep-alive frames' resetting of timers (\<open>timeout.go\<close>) appear only as an error that a read may
  end in.  The text of log lines and the trace ids (\<open>trace.go\<close>).  Sockets, TLS, signals and flag parsing.  The XML and YAML
  decoders.  The interfaces of \<open>types.go\<close>, \<open>svc.go\<close> and \<open>front.go\<close>, which have no behaviour.  \<open>lock.go\<close>, which grants every lock and keeps none.
  The entry points \<open>RunReceiver\<close> and \<open>RunSender\<close>, which nothing but tests calls; \<open>RunSession\<close> is the one in use.
\<close>

end
